(* ===== verification/Go_Prelude.thy ===== *)
theory Go_Prelude
  imports Main "HOL-Library.AList" "HOL-Library.Char_ord" "HOL-Library.List_Lexorder"
    "HOL-Library.Sublist" "HOL-Library.Word" "HOL-Library.Multiset"
begin

text \<open>
  The Go language and standard-library behaviour the components share.

  A Go \<^verbatim>\<open>string\<close> or \<^verbatim>\<open>[]byte\<close> is a \<^typ>\<open>string\<close>, read as its bytes; the order on strings is
  the byte-wise lexicographic order of \<^theory_text>\<open>HOL-Library.List_Lexorder\<close>, which is Go's \<^verbatim>\<open><\<close>.
  A Go \<^verbatim>\<open>map[string]T\<close> is an association list with distinct keys: its list order is the
  (unspecified) iteration order, lookups go through \<^const>\<open>map_of\<close>, stores through
  \<^const>\<open>AList.update\<close> and deletes through \<^const>\<open>AList.delete\<close>.  Fallible operations return a
  sum whose left side is the error.
\<close>

section \<open>Collections of facts\<close>

named_theorems go_text \<open>facts about Go text functions on concrete shapes\<close>
named_theorems go_map \<open>lookup facts for Go maps\<close>

type_synonym 'v gomap = "(string \<times> 'v) list"

abbreviation go_get :: "'v gomap \<Rightarrow> string \<Rightarrow> 'v option" where
  "go_get \<equiv> map_of"

abbreviation go_set :: "string \<Rightarrow> 'v \<Rightarrow> 'v gomap \<Rightarrow> 'v gomap" where
  "go_set \<equiv> AList.update"

abbreviation go_del :: "string \<Rightarrow> 'v gomap \<Rightarrow> 'v gomap" where
  "go_del \<equiv> AList.delete"

definition go_keys :: "'v gomap \<Rightarrow> string list" where
  "go_keys m = map fst m"

definition gomap_ok :: "'v gomap \<Rightarrow> bool" where
  "gomap_ok m \<longleftrightarrow> distinct (map fst m)"

lemma go_get_set [go_map]: "go_get (go_set k v m) k' = (if k' = k then Some v else go_get m k')"
  by (simp add: update_conv')

lemma go_get_del [go_map]: "go_get (go_del k m) k' = (if k' = k then None else go_get m k')"
  by (simp add: delete_conv')

lemma gomap_ok_set [simp]: "gomap_ok m \<Longrightarrow> gomap_ok (go_set k v m)"
  by (simp add: gomap_ok_def distinct_update)

lemma gomap_ok_del [simp]: "gomap_ok m \<Longrightarrow> gomap_ok (go_del k m)"
  by (simp add: gomap_ok_def distinct_delete)

lemma gomap_ok_Nil [simp]: "gomap_ok []"
  by (simp add: gomap_ok_def)

lemma go_get_mem: "gomap_ok m \<Longrightarrow> (k, v) \<in> set m \<longleftrightarrow> go_get m k = Some v"
  by (auto simp: gomap_ok_def)

section \<open>Error values\<close>

text \<open>
  A Go error is its format text, the values printed into it, and the errors it wraps:
  \<^verbatim>\<open>errors.New\<close> has neither values nor wrapped errors, \<^verbatim>\<open>fmt.Errorf\<close> with \<^verbatim>\<open>%w\<close> wraps one,
  \<^verbatim>\<open>errors.Join\<close> wraps the non-nil ones among its arguments and is nil when there are none.
\<close>

datatype go_error = GoError (err_format: string) (err_args: "string list") (err_wrapped: "go_error list")

abbreviation errors_New :: "string \<Rightarrow> go_error" where
  "errors_New m \<equiv> GoError m [] []"

abbreviation Errorf :: "string \<Rightarrow> string list \<Rightarrow> go_error" where
  "Errorf m as \<equiv> GoError m as []"

abbreviation Errorw :: "string \<Rightarrow> string list \<Rightarrow> go_error \<Rightarrow> go_error" where
  "Errorw m as e \<equiv> GoError m as [e]"

definition errors_Join :: "go_error option list \<Rightarrow> go_error option" where
  "errors_Join es =
     (case List.map_filter id es of [] \<Rightarrow> None | ws \<Rightarrow> Some (GoError ''join'' [] ws))"

text \<open>\<^verbatim>\<open>errors.Is\<close>: some error of the tree is the target.\<close>

fun errors_Is :: "go_error \<Rightarrow> go_error \<Rightarrow> bool" where
  "errors_Is (GoError m as ws) t \<longleftrightarrow> GoError m as ws = t \<or> list_ex (\<lambda>w. errors_Is w t) ws"

section \<open>Bytes, digits and decimal text\<close>

definition is_digit :: "char \<Rightarrow> bool" where
  "is_digit c \<longleftrightarrow> 48 \<le> (of_char c :: nat) \<and> (of_char c :: nat) \<le> 57"

definition digit_val :: "char \<Rightarrow> nat" where
  "digit_val c = of_char c - 48"

definition digit_char :: "nat \<Rightarrow> char" where
  "digit_char d = char_of (48 + d)"

lemma of_digit_char [simp]: "d < 10 \<Longrightarrow> (of_char (digit_char d) :: nat) = 48 + d"
  by (simp add: digit_char_def)

lemma is_digit_digit_char [simp]: "d < 10 \<Longrightarrow> is_digit (digit_char d)"
  by (simp add: is_digit_def)

lemma digit_val_digit_char [simp]: "d < 10 \<Longrightarrow> digit_val (digit_char d) = d"
  by (simp add: digit_val_def)

lemma digit_val_less: "is_digit c \<Longrightarrow> digit_val c < 10"
  by (auto simp: is_digit_def digit_val_def)

text \<open>\<^verbatim>\<open>strconv.FormatUint(n, 10)\<close>, which is also what \<^verbatim>\<open>%d\<close> prints.\<close>

fun itoa :: "nat \<Rightarrow> string" where
  "itoa n = (if n < 10 then [digit_char n] else itoa (n div 10) @ [digit_char (n mod 10)])"

declare itoa.simps [simp del]

definition itoa_int :: "int \<Rightarrow> string" where
  "itoa_int i = (if i < 0 then CHR ''-'' # itoa (nat (- i)) else itoa (nat i))"

definition digits_val :: "string \<Rightarrow> nat" where
  "digits_val s = foldl (\<lambda>n c. 10 * n + digit_val c) 0 s"

lemma digits_val_snoc: "digits_val (s @ [c]) = 10 * digits_val s + digit_val c"
  by (simp add: digits_val_def)

lemma itoa_not_Nil [simp]: "itoa n \<noteq> []"
  by (subst itoa.simps) simp

lemma itoa_digits: "\<forall>c \<in> set (itoa n). is_digit c"
proof (induction n rule: itoa.induct)
  case (1 n)
  then show ?case
    by (cases "n < 10") (auto simp: itoa.simps [of n])
qed

lemma digits_val_itoa [simp]: "digits_val (itoa n) = n"
proof (induction n rule: itoa.induct)
  case (1 n)
  show ?case
  proof (cases "n < 10")
    case True
    then show ?thesis by (simp add: itoa.simps [of n] digits_val_def)
  next
    case False
    then show ?thesis using "1.IH" by (simp add: itoa.simps [of n] digits_val_snoc)
  qed
qed

lemma itoa_inj: "itoa m = itoa n \<Longrightarrow> m = n"
  by (metis digits_val_itoa)

subsection \<open>strconv.ParseUint and strconv.ParseInt, base 10, 64 bits\<close>

datatype num_error = ErrSyntax | ErrRange

definition num_error_value :: "num_error \<Rightarrow> go_error" where
  "num_error_value e = (case e of ErrSyntax \<Rightarrow> errors_New ''invalid syntax'' | ErrRange \<Rightarrow> errors_New ''value out of range'')"

fun parse_uint_loop :: "nat \<Rightarrow> string \<Rightarrow> num_error + nat" where
  "parse_uint_loop n [] = Inr n"
| "parse_uint_loop n (c # cs) =
     (if \<not> is_digit c then Inl ErrSyntax
      else if n \<ge> 1844674407370955162 then Inl ErrRange
      else if 10 * n + digit_val c \<ge> 2 ^ 64 then Inl ErrRange
      else parse_uint_loop (10 * n + digit_val c) cs)"

text \<open>The same equations with the bounds as integers, whose numerals are binary when evaluated.\<close>

lemma parse_uint_loop_code [code]:
  "parse_uint_loop n [] = Inr n"
  "parse_uint_loop n (c # cs) =
     (if \<not> is_digit c then Inl ErrSyntax
      else if int n \<ge> 1844674407370955162 then Inl ErrRange
      else if int (10 * n + digit_val c) \<ge> 18446744073709551616 then Inl ErrRange
      else parse_uint_loop (10 * n + digit_val c) cs)"
  by auto

definition ParseUint :: "string \<Rightarrow> num_error + nat" where
  "ParseUint s = (if s = [] then Inl ErrSyntax else parse_uint_loop 0 s)"

definition ParseInt :: "string \<Rightarrow> num_error + int" where
  "ParseInt s =
     (let neg = (s \<noteq> [] \<and> hd s = CHR ''-'');
          body = (if s \<noteq> [] \<and> (hd s = CHR ''-'' \<or> hd s = CHR ''+'') then tl s else s)
      in case ParseUint body of
           Inl ErrSyntax \<Rightarrow> Inl ErrSyntax
         | Inl ErrRange \<Rightarrow> Inl ErrRange
         | Inr un \<Rightarrow>
             if \<not> neg \<and> un \<ge> 2 ^ 63 then Inl ErrRange
             else if neg \<and> un > 2 ^ 63 then Inl ErrRange
             else Inr (if neg then - int un else int un))"

lemma foldl_digits_ge: "n \<le> foldl (\<lambda>n c. 10 * n + digit_val c) n s"
proof (induction s arbitrary: n)
  case (Cons c s)
  have "n \<le> 10 * n + digit_val c" by simp
  also have "\<dots> \<le> foldl (\<lambda>n c. 10 * n + digit_val c) (10 * n + digit_val c) s"
    by (rule Cons.IH)
  finally show ?case by simp
qed simp

lemma parse_uint_loop_Inr:
  "parse_uint_loop n s = Inr m \<longleftrightarrow>
     (\<forall>c \<in> set s. is_digit c) \<and> m = foldl (\<lambda>n c. 10 * n + digit_val c) n s \<and> (s = [] \<or> m < 2 ^ 64)"
proof (induction s arbitrary: n)
  case (Cons c s)
  let ?n = "10 * n + digit_val c"
  have le: "?n \<le> foldl (\<lambda>n c. 10 * n + digit_val c) ?n s"
    by (rule foldl_digits_ge)
  show ?case
    using Cons.IH [of ?n] le by auto
qed auto

lemma ParseUint_Inr:
  "ParseUint s = Inr n \<longleftrightarrow> s \<noteq> [] \<and> (\<forall>c \<in> set s. is_digit c) \<and> n = digits_val s \<and> n < 2 ^ 64"
  by (auto simp: ParseUint_def parse_uint_loop_Inr digits_val_def)

lemma ParseUint_itoa [simp]: "n < 2 ^ 64 \<Longrightarrow> ParseUint (itoa n) = Inr n"
  by (simp add: ParseUint_Inr itoa_digits)

lemma itoa_hd_digit: "is_digit (hd (itoa n))"
  using itoa_digits [of n] by (cases "itoa n") auto

lemma not_digit_sign [simp]: "\<not> is_digit CHR ''-''" "\<not> is_digit CHR ''+''"
  by (simp_all add: is_digit_def)

lemma ParseInt_itoa_int:
  assumes "- (2 ^ 63) \<le> i" and "i < 2 ^ 63"
  shows "ParseInt (itoa_int i) = Inr i"
proof (cases "i < 0")
  case True
  with assms have "nat (- i) < 2 ^ 64" by simp
  then have u: "ParseUint (itoa (nat (- i))) = Inr (nat (- i))" by simp
  show ?thesis using True assms by (auto simp: ParseInt_def itoa_int_def u)
next
  case False
  have "hd (itoa (nat i)) \<noteq> CHR ''-''" "hd (itoa (nat i)) \<noteq> CHR ''+''"
    using itoa_hd_digit [of "nat i"] by (auto simp del: not_digit_sign simp: is_digit_def)
  moreover from assms False have u: "ParseUint (itoa (nat i)) = Inr (nat i)" by simp
  moreover from assms False have "\<not> 2 ^ 63 \<le> nat i" by (simp add: le_nat_iff)
  ultimately show ?thesis using False by (simp add: ParseInt_def itoa_int_def)
qed

lemma ParseInt_range: "ParseInt s = Inr i \<Longrightarrow> - (2 ^ 63) \<le> i \<and> i < 2 ^ 63"
  by (auto simp: ParseInt_def Let_def split: sum.splits num_error.splits if_splits)

section \<open>The strings package\<close>

text \<open>
  \<^verbatim>\<open>strings.TrimSpace\<close> removes the runes of \<^verbatim>\<open>unicode.IsSpace\<close> at both ends.  Their UTF-8
  encodings are listed here; no encoding is a proper prefix or suffix of another, so matching
  bytes at either end is what decoding the first or last rune does.
\<close>

definition space_seqs :: "string list" where
  "space_seqs =
     [[CHR 0x20], [CHR 0x09], [CHR 0x0A], [CHR 0x0B], [CHR 0x0C], [CHR 0x0D],
      [CHR 0xC2, CHR 0x85], [CHR 0xC2, CHR 0xA0], [CHR 0xE1, CHR 0x9A, CHR 0x80],
      [CHR 0xE2, CHR 0x80, CHR 0x80], [CHR 0xE2, CHR 0x80, CHR 0x81],
      [CHR 0xE2, CHR 0x80, CHR 0x82], [CHR 0xE2, CHR 0x80, CHR 0x83],
      [CHR 0xE2, CHR 0x80, CHR 0x84], [CHR 0xE2, CHR 0x80, CHR 0x85],
      [CHR 0xE2, CHR 0x80, CHR 0x86], [CHR 0xE2, CHR 0x80, CHR 0x87],
      [CHR 0xE2, CHR 0x80, CHR 0x88], [CHR 0xE2, CHR 0x80, CHR 0x89],
      [CHR 0xE2, CHR 0x80, CHR 0x8A], [CHR 0xE2, CHR 0x80, CHR 0xA8],
      [CHR 0xE2, CHR 0x80, CHR 0xA9], [CHR 0xE2, CHR 0x80, CHR 0xAF],
      [CHR 0xE2, CHR 0x81, CHR 0x9F], [CHR 0xE3, CHR 0x80, CHR 0x80]]"

fun strip_fuel :: "nat \<Rightarrow> string list \<Rightarrow> string \<Rightarrow> string" where
  "strip_fuel 0 ps s = s"
| "strip_fuel (Suc k) ps s =
     (case find (\<lambda>p. prefix p s) ps of None \<Rightarrow> s | Some p \<Rightarrow> strip_fuel k ps (drop (length p) s))"

text \<open>Each strip removes at least one byte, so the length of the text is fuel enough.\<close>

definition trim_left_by :: "string list \<Rightarrow> string \<Rightarrow> string" where
  "trim_left_by ps s = strip_fuel (length s) ps s"

definition TrimSpace :: "string \<Rightarrow> string" where
  "TrimSpace s =
     (let l = trim_left_by space_seqs s
      in rev (trim_left_by (map rev space_seqs) (rev l)))"

definition graphic :: "char \<Rightarrow> bool" where
  "graphic c \<longleftrightarrow> 33 \<le> (of_char c :: nat) \<and> (of_char c :: nat) \<le> 126"

lemma find_prefix_None:
  assumes "\<And>p. p \<in> set ps \<Longrightarrow> p \<noteq> [] \<and> (s = [] \<or> hd p \<noteq> hd s)"
  shows "find (\<lambda>p. prefix p s) ps = None"
proof -
  have "\<not> prefix p s" if "p \<in> set ps" for p
    using assms [OF that] by (cases p; cases s) auto
  then show ?thesis by (simp add: find_None_iff)
qed

lemma strip_fuel_stop: "find (\<lambda>p. prefix p s) ps = None \<Longrightarrow> strip_fuel k ps s = s"
  by (cases k) auto

lemma strip_fuel_more:
  assumes "\<forall>p \<in> set ps. p \<noteq> []" and "length s \<le> k"
  shows "find (\<lambda>p. prefix p (strip_fuel k ps s)) ps = None"
  using assms
proof (induction k arbitrary: s)
  case 0
  then have "s = []" by simp
  with "0.prems"(1) show ?case by (intro find_prefix_None) auto
next
  case (Suc k)
  show ?case
  proof (cases "find (\<lambda>p. prefix p s) ps")
    case None
    then show ?thesis by simp
  next
    case (Some p)
    then have "p \<in> set ps" "prefix p s" by (auto simp: find_Some_iff)
    with Suc.prems have "p \<noteq> []" by auto
    then have "length (drop (length p) s) \<le> k"
      using Suc.prems(2) by (cases p) auto
    with Suc.IH Suc.prems Some show ?thesis by simp
  qed
qed

lemma space_seqs_hd: "\<forall>p \<in> set space_seqs. p \<noteq> [] \<and> \<not> graphic (hd p) \<and> \<not> graphic (last p)"
  by (simp add: space_seqs_def graphic_def)

lemma trim_left_by_graphic:
  assumes "s = [] \<or> graphic (hd s)"
    and "\<And>p. p \<in> set ps \<Longrightarrow> p \<noteq> [] \<and> \<not> graphic (hd p)"
  shows "trim_left_by ps s = s"
proof -
  have "find (\<lambda>p. prefix p s) ps = None"
    using assms by (intro find_prefix_None) metis
  then show ?thesis by (simp add: trim_left_by_def strip_fuel_stop)
qed

lemma TrimSpace_graphic [go_text]:
  assumes "s = [] \<or> graphic (hd s) \<and> graphic (last s)"
  shows "TrimSpace s = s"
proof -
  have 1: "trim_left_by space_seqs s = s"
    using assms space_seqs_hd by (intro trim_left_by_graphic) auto
  have 2: "trim_left_by (map rev space_seqs) (rev s) = rev s"
    using assms space_seqs_hd by (intro trim_left_by_graphic) (auto simp: hd_rev)
  show ?thesis by (simp add: TrimSpace_def 1 2)
qed

definition HasPrefix :: "string \<Rightarrow> string \<Rightarrow> bool" where
  "HasPrefix s p \<longleftrightarrow> take (length p) s = p"

definition HasSuffix :: "string \<Rightarrow> string \<Rightarrow> bool" where
  "HasSuffix s p \<longleftrightarrow> length p \<le> length s \<and> drop (length s - length p) s = p"

definition TrimSuffix :: "string \<Rightarrow> string \<Rightarrow> string" where
  "TrimSuffix s p = (if HasSuffix s p then take (length s - length p) s else s)"

definition TrimPrefix :: "string \<Rightarrow> string \<Rightarrow> string" where
  "TrimPrefix s p = (if HasPrefix s p then drop (length p) s else s)"

fun Contains :: "string \<Rightarrow> string \<Rightarrow> bool" where
  "Contains [] p \<longleftrightarrow> p = []"
| "Contains (c # s) p \<longleftrightarrow> HasPrefix (c # s) p \<or> Contains s p"

text \<open>\<^verbatim>\<open>strings.Split\<close> with a one-byte separator.\<close>

fun SplitByte :: "char \<Rightarrow> string \<Rightarrow> string list" where
  "SplitByte sep [] = [[]]"
| "SplitByte sep (c # s) =
     (if c = sep then [] # SplitByte sep s
      else case SplitByte sep s of [] \<Rightarrow> [[c]] | w # ws \<Rightarrow> (c # w) # ws)"

fun Join :: "string list \<Rightarrow> string \<Rightarrow> string" where
  "Join [] sep = []"
| "Join [w] sep = w"
| "Join (w # ws) sep = w @ sep @ Join ws sep"

lemma SplitByte_not_Nil [simp]: "SplitByte sep s \<noteq> []"
  by (induction s) (auto split: list.splits)

lemma Join_SplitByte: "Join (SplitByte sep s) [sep] = s"
proof (induction s)
  case (Cons c s)
  obtain w ws where sp: "SplitByte sep s = w # ws"
    by (cases "SplitByte sep s") auto
  with Cons show ?case by (cases ws) auto
qed simp

lemma SplitByte_no_sep: "w \<in> set (SplitByte sep s) \<Longrightarrow> sep \<notin> set w"
  by (induction s arbitrary: w) (auto split: list.splits if_splits)

text \<open>
  ASCII case mapping, and \<^verbatim>\<open>strings.EqualFold\<close> against an ASCII literal: beside the two ASCII
  cases of a letter, simple folding relates U+017F to \<^verbatim>\<open>s\<close> and U+212A to \<^verbatim>\<open>k\<close>.
\<close>

definition ascii_lower :: "char \<Rightarrow> char" where
  "ascii_lower c =
     (if 65 \<le> (of_char c :: nat) \<and> (of_char c :: nat) \<le> 90 then char_of ((of_char c :: nat) + 32) else c)"

definition ascii_upper :: "char \<Rightarrow> char" where
  "ascii_upper c =
     (if 97 \<le> (of_char c :: nat) \<and> (of_char c :: nat) \<le> 122 then char_of ((of_char c :: nat) - 32) else c)"

fun equal_fold_lit :: "string \<Rightarrow> string \<Rightarrow> bool" where
  "equal_fold_lit s [] \<longleftrightarrow> s = []"
| "equal_fold_lit s (t # ts) \<longleftrightarrow>
     (s \<noteq> [] \<and> ascii_lower (hd s) = ascii_lower t \<and> equal_fold_lit (tl s) ts)
   \<or> (ascii_lower t = CHR ''s'' \<and> HasPrefix s [CHR 0xC5, CHR 0xBF] \<and> equal_fold_lit (drop 2 s) ts)
   \<or> (ascii_lower t = CHR ''k'' \<and> HasPrefix s [CHR 0xE2, CHR 0x84, CHR 0xAA] \<and> equal_fold_lit (drop 3 s) ts)"

lemma TrimSuffix_outside:
  assumes "length p \<le> length ys" and "\<not> set p \<subseteq> set ys"
  shows "TrimSuffix (xs @ ys) p = xs @ ys"
proof -
  have "\<not> HasSuffix (xs @ ys) p"
  proof
    assume "HasSuffix (xs @ ys) p"
    then have "p = drop (length ys - length p) ys"
      using assms(1) by (simp add: HasSuffix_def)
    then have "set p \<subseteq> set ys" by (metis set_drop_subset)
    with assms(2) show False by simp
  qed
  then show ?thesis by (simp add: TrimSuffix_def)
qed

section \<open>Shared list facts\<close>

lemma takeWhile_append_stop:
  assumes "\<forall>x \<in> set xs. P x" and "\<not> P y"
  shows "takeWhile P (xs @ y # ys) = xs" and "dropWhile P (xs @ y # ys) = y # ys"
  using assms by auto

lemma distinct_map_nth_inj:
  "distinct (map f xs) \<Longrightarrow> i < length xs \<Longrightarrow> j < length xs \<Longrightarrow> f (xs ! i) = f (xs ! j) \<Longrightarrow> i = j"
  by (metis length_map nth_eq_iff_index_eq nth_map)

end
