(* ===== verification/Migration_ID.thy ===== *)
theory Migration_ID
  imports Go_Prelude
begin

text \<open>
  Migration identities (\<^verbatim>\<open>migration/migration.go\<close>, lines 38 to 124): the three regular
  expressions, \<^verbatim>\<open>ParseID\<close>, \<^verbatim>\<open>CanonicalID\<close>, \<^verbatim>\<open>ID.String\<close>, \<^verbatim>\<open>ID.Version\<close> and \<^verbatim>\<open>compareID\<close>.
  The regular expressions are unambiguous (every group ends at a byte it cannot contain), so
  their leftmost-first matching is a left-to-right scan.  The \<^verbatim>\<open>uint64\<close> components are \<^typ>\<open>nat\<close>
  below \<open>2 ^ 64\<close>, a bound \<^verbatim>\<open>strconv.ParseUint\<close> enforces.
\<close>

section \<open>Matching the identifier patterns\<close>

definition is_alnum :: "char \<Rightarrow> bool" where
  "is_alnum c \<longleftrightarrow> is_digit c
     \<or> (65 \<le> (of_char c :: nat) \<and> (of_char c :: nat) \<le> 90)
     \<or> (97 \<le> (of_char c :: nat) \<and> (of_char c :: nat) \<le> 122)"

definition is_name_char :: "char \<Rightarrow> bool" where
  "is_name_char c \<longleftrightarrow> is_alnum c \<or> c = CHR ''_'' \<or> c = CHR ''-''"

text \<open>\<^verbatim>\<open>[A-Za-z0-9][A-Za-z0-9_-]*\<close>, anchored at the end of the text.\<close>

definition name_ok :: "string \<Rightarrow> bool" where
  "name_ok s \<longleftrightarrow> s \<noteq> [] \<and> is_alnum (hd s) \<and> list_all is_name_char s"

definition is_sep :: "char \<Rightarrow> bool" where
  "is_sep c \<longleftrightarrow> c = CHR ''.'' \<or> c = CHR ''_''"

text \<open>\<^verbatim>\<open>(\d+)\<close> followed by one byte of a class: the digits and the text after that byte.\<close>

definition scan_number :: "(char \<Rightarrow> bool) \<Rightarrow> string \<Rightarrow> (string \<times> string) option" where
  "scan_number stop s =
     (let ds = takeWhile is_digit s; rest = dropWhile is_digit s
      in if ds = [] then None
         else case rest of [] \<Rightarrow> None | c # t \<Rightarrow> if stop c then Some (ds, t) else None)"

definition idPattern :: "string \<Rightarrow> (string \<times> string \<times> string \<times> string \<times> string) option" where
  "idPattern s =
     (case s of [] \<Rightarrow> None | c # s0 \<Rightarrow>
        if c \<noteq> CHR ''v'' then None
        else Option.bind (scan_number is_sep s0) (\<lambda>(a, s1).
             Option.bind (scan_number is_sep s1) (\<lambda>(b, s2).
             Option.bind (scan_number (\<lambda>c. c = CHR ''-'') s2) (\<lambda>(p, s3).
             Option.bind (scan_number (\<lambda>c. c = CHR ''-'') s3) (\<lambda>(q, name).
               if name_ok name then Some (a, b, p, q, name) else None)))))"

definition versionPattern :: "string \<Rightarrow> (string \<times> string \<times> string) option" where
  "versionPattern s =
     (case s of [] \<Rightarrow> None | c # s0 \<Rightarrow>
        if c \<noteq> CHR ''v'' then None
        else Option.bind (scan_number is_sep s0) (\<lambda>(a, s1).
             Option.bind (scan_number is_sep s1) (\<lambda>(b, p).
               if p \<noteq> [] \<and> list_all is_digit p then Some (a, b, p) else None)))"

definition nodeIDPattern :: "string \<Rightarrow> (string \<times> string \<times> string \<times> string \<times> string) option" where
  "nodeIDPattern s =
     (if length s > 13 \<and> list_all is_digit (take 12 s) \<and> s ! 12 = CHR ''-'' \<and> name_ok (drop 13 s)
      then Some (take 3 s, take 3 (drop 3 s), take 3 (drop 6 s), take 3 (drop 9 s), drop 13 s)
      else None)"

section \<open>Parsed identities\<close>

datatype ID = ID (Major: nat) (Minor: nat) (Patch: nat) (Sequence: nat) (Name: string)

definition ID_Version :: "ID \<Rightarrow> string" where
  "ID_Version i = ''v'' @ itoa (Major i) @ ''.'' @ itoa (Minor i) @ ''.'' @ itoa (Patch i)"

definition ID_String :: "ID \<Rightarrow> string" where
  "ID_String i = ''v'' @ itoa (Major i) @ ''.'' @ itoa (Minor i) @ ''.'' @ itoa (Patch i)
     @ ''-'' @ itoa (Sequence i) @ ''-'' @ Name i"

definition strip_suffixes :: "string \<Rightarrow> string" where
  "strip_suffixes s = foldl TrimSuffix s [''.go'', ''.js'', ''.py'']"

fun parse_parts :: "string \<Rightarrow> string list \<Rightarrow> go_error + nat list" where
  "parse_parts v [] = Inr []"
| "parse_parts v (d # ds) =
     (case ParseUint d of
        Inl e \<Rightarrow> Inl (Errorw ''migration: invalid numeric component in %q: %w'' [v] (num_error_value e))
      | Inr n \<Rightarrow> (case parse_parts v ds of Inl e \<Rightarrow> Inl e | Inr ns \<Rightarrow> Inr (n # ns)))"

definition ParseID :: "string \<Rightarrow> go_error + ID" where
  "ParseID value0 =
     (let v = strip_suffixes (TrimSpace value0);
          m = (case idPattern v of None \<Rightarrow> nodeIDPattern v | Some m \<Rightarrow> Some m)
      in case m of
           None \<Rightarrow> Inl (Errorf ''migration: invalid ID %q; want vX.Y.Z-N-name'' [v])
         | Some (a, b, p, q, name) \<Rightarrow>
             (case parse_parts v [a, b, p, q] of
                Inl e \<Rightarrow> Inl e
              | Inr ns \<Rightarrow> Inr (ID (ns ! 0) (ns ! 1) (ns ! 2) (ns ! 3) name)))"

definition CanonicalID :: "string \<Rightarrow> go_error + string" where
  "CanonicalID value0 = (case ParseID value0 of Inl e \<Rightarrow> Inl e | Inr i \<Rightarrow> Inr (ID_String i))"

definition strings_Compare :: "string \<Rightarrow> string \<Rightarrow> int" where
  "strings_Compare a b = (if a = b then 0 else if a < b then -1 else 1)"

fun compare_parts :: "nat list \<Rightarrow> nat list \<Rightarrow> int" where
  "compare_parts (a # as) (b # bs) = (if a < b then -1 else if a > b then 1 else compare_parts as bs)"
| "compare_parts _ _ = 0"

definition compareID :: "ID \<Rightarrow> ID \<Rightarrow> int" where
  "compareID l r =
     (let c = compare_parts [Major l, Minor l, Patch l, Sequence l] [Major r, Minor r, Patch r, Sequence r]
      in if c \<noteq> 0 then c else strings_Compare (Name l) (Name r))"

section \<open>Well-formed identities\<close>

definition ID_ok :: "ID \<Rightarrow> bool" where
  "ID_ok i \<longleftrightarrow> Major i < 2 ^ 64 \<and> Minor i < 2 ^ 64 \<and> Patch i < 2 ^ 64 \<and> Sequence i < 2 ^ 64
     \<and> name_ok (Name i)"

lemma is_digit_sep [simp]: "\<not> is_digit CHR ''.''" "\<not> is_digit CHR ''_''"
  by (simp_all add: is_digit_def)

lemma scan_number_itoa [simp]:
  assumes "\<not> is_digit c" and "stop c"
  shows "scan_number stop (itoa n @ c # t) = Some (itoa n, t)"
  using assms by (simp add: scan_number_def takeWhile_append_stop itoa_digits)

lemma idPattern_ID_String:
  assumes "name_ok (Name i)"
  shows "idPattern (ID_String i) =
    Some (itoa (Major i), itoa (Minor i), itoa (Patch i), itoa (Sequence i), Name i)"
  using assms by (simp add: idPattern_def ID_String_def is_sep_def)

lemma alnum_graphic: "is_alnum c \<Longrightarrow> graphic c"
  by (auto simp: is_alnum_def is_digit_def graphic_def)

lemma name_char_graphic: "is_name_char c \<Longrightarrow> graphic c"
  by (auto simp: is_name_char_def alnum_graphic) (simp_all add: graphic_def)

lemma name_ok_last: "name_ok s \<Longrightarrow> is_name_char (last s)"
  by (auto simp: name_ok_def list_all_iff)

lemma ID_String_last: "name_ok (Name i) \<Longrightarrow> last (ID_String i) = last (Name i)"
  by (simp add: ID_String_def name_ok_def)

lemma itoa_no_dot [simp]: "CHR ''.'' \<notin> set (itoa n)"
  using itoa_digits [of n] by (auto simp: is_digit_def)

lemma name_ok_no_dot: "name_ok s \<Longrightarrow> CHR ''.'' \<notin> set s"
  by (auto simp: name_ok_def list_all_iff is_name_char_def is_alnum_def is_digit_def)

lemma strip_suffixes_ID_String:
  assumes "name_ok (Name i)"
  shows "strip_suffixes (ID_String i) = ID_String i"
proof -
  let ?head = "''v'' @ itoa (Major i) @ ''.'' @ itoa (Minor i) @ ''.''"
  let ?tail = "itoa (Patch i) @ ''-'' @ itoa (Sequence i) @ ''-'' @ Name i"
  have "itoa (Patch i) \<noteq> []" "itoa (Sequence i) \<noteq> []" "Name i \<noteq> []"
    using assms by (simp_all add: name_ok_def)
  then have len: "3 \<le> length ?tail"
    by (cases "itoa (Patch i)"; cases "itoa (Sequence i)"; cases "Name i") auto
  have dot: "CHR ''.'' \<notin> set ?tail"
    using name_ok_no_dot [OF assms] by simp
  have "TrimSuffix (?head @ ?tail) p = ?head @ ?tail" if "length p = 3" "CHR ''.'' \<in> set p" for p
    using len dot that by (intro TrimSuffix_outside) auto
  then have "strip_suffixes (?head @ ?tail) = ?head @ ?tail"
    by (simp add: strip_suffixes_def)
  then show ?thesis by (simp add: ID_String_def)
qed

lemma TrimSpace_ID_String:
  assumes "name_ok (Name i)"
  shows "TrimSpace (ID_String i) = ID_String i"
proof (rule TrimSpace_graphic, intro disjI2 conjI)
  show "graphic (hd (ID_String i))"
    by (simp add: ID_String_def graphic_def)
  show "graphic (last (ID_String i))"
    using assms by (simp add: ID_String_last name_ok_last name_char_graphic)
qed

lemma ParseID_ID_String:
  assumes "ID_ok i"
  shows "ParseID (ID_String i) = Inr i"
  using assms
  by (simp add: ParseID_def TrimSpace_ID_String strip_suffixes_ID_String idPattern_ID_String ID_ok_def)

lemma scan_number_digits: "scan_number stop s = Some (ds, t) \<Longrightarrow> ds \<noteq> [] \<and> (\<forall>c \<in> set ds. is_digit c)"
  by (auto simp: scan_number_def Let_def dest: set_takeWhileD split: if_splits list.splits)

lemma idPattern_name_ok: "idPattern s = Some (a, b, p, q, n) \<Longrightarrow> name_ok n"
  by (auto simp: idPattern_def bind_eq_Some_conv split: list.splits if_splits)

lemma nodeIDPattern_name_ok: "nodeIDPattern s = Some (a, b, p, q, n) \<Longrightarrow> name_ok n"
  by (auto simp: nodeIDPattern_def split: if_splits)

lemma ParseID_ok: "ParseID s = Inr i \<Longrightarrow> ID_ok i"
  by (auto simp: ParseID_def Let_def ID_ok_def idPattern_name_ok nodeIDPattern_name_ok
      ParseUint_Inr split: option.splits sum.splits)

lemma CanonicalID_canonical: "CanonicalID s = Inr c \<Longrightarrow> CanonicalID c = Inr c"
  by (auto simp: CanonicalID_def ParseID_ID_String ParseID_ok split: sum.splits)

lemma ID_String_inj:
  assumes "ID_ok i" and "ID_ok j" and "ID_String i = ID_String j"
  shows "i = j"
  using assms by (metis ParseID_ID_String sum.inject(2))

section \<open>compareID is a linear order\<close>

definition ID_key :: "ID \<Rightarrow> nat list \<times> string" where
  "ID_key i = ([Major i, Minor i, Patch i, Sequence i], Name i)"

lemma ID_key_inj: "fst (ID_key l) = fst (ID_key r) \<Longrightarrow> snd (ID_key l) = snd (ID_key r) \<Longrightarrow> l = r"
  by (cases l; cases r) (simp add: ID_key_def)

lemma compareID_eq_0: "compareID l r = 0 \<longleftrightarrow> l = r"
  by (cases l; cases r) (auto simp: compareID_def strings_Compare_def)

lemma compareID_less_0:
  "compareID l r < 0 \<longleftrightarrow> fst (ID_key l) < fst (ID_key r)
     \<or> fst (ID_key l) = fst (ID_key r) \<and> snd (ID_key l) < snd (ID_key r)"
  by (auto simp: compareID_def strings_Compare_def ID_key_def)

instantiation ID :: linorder
begin

definition less_eq_ID :: "ID \<Rightarrow> ID \<Rightarrow> bool" where
  "less_eq_ID l r \<longleftrightarrow> compareID l r \<le> 0"

definition less_ID :: "ID \<Rightarrow> ID \<Rightarrow> bool" where
  "less_ID l r \<longleftrightarrow> compareID l r < 0"

instance
proof
  fix x y z :: ID
  have le: "a \<le> b \<longleftrightarrow> a = b \<or> compareID a b < 0" for a b :: ID
    using compareID_eq_0 [of a b] by (auto simp: less_eq_ID_def)
  show "x < y \<longleftrightarrow> x \<le> y \<and> \<not> y \<le> x"
    by (auto simp: le less_ID_def compareID_less_0)
  show "x \<le> x"
    by (simp add: le)
  show "x \<le> y \<Longrightarrow> y \<le> z \<Longrightarrow> x \<le> z"
    by (auto simp: le compareID_less_0)
  show "x \<le> y \<Longrightarrow> y \<le> x \<Longrightarrow> x = y"
    by (auto simp: le compareID_less_0)
  show "x \<le> y \<or> y \<le> x"
    using less_linear [of "fst (ID_key x)" "fst (ID_key y)"]
      less_linear [of "snd (ID_key x)" "snd (ID_key y)"] ID_key_inj [of x y]
    unfolding le compareID_less_0 by metis
qed

end

end
