(* ===== verification/Migration_State.thy ===== *)
theory Migration_State
  imports Migration_ID
begin

text \<open>
  Durable migration state (\<^verbatim>\<open>migration/migration.go\<close>, lines 126 to 199 and 294 to 345):
  \<^verbatim>\<open>State\<close>, \<^verbatim>\<open>NewState\<close>, \<^verbatim>\<open>normalize\<close>, and the import of node-migrate state after its JSON has been
  unmarshalled.  A nil map and an empty map are the same association list; \<^verbatim>\<open>*int64\<close> values are
  options.  The order in which Go iterates a map is unspecified: it is the list order here, and
  every theorem is about an arbitrary list.
\<close>

record State =
  LastRunMigration :: string
  LastRunTimestamp :: int
  Migrations :: "int option gomap"
  SkippedMigrations :: "int gomap"
  Checksums :: "string gomap"

definition NewState :: State where
  "NewState = \<lparr>LastRunMigration = '''', LastRunTimestamp = 0, Migrations = [],
     SkippedMigrations = [], Checksums = []\<rparr>"

text \<open>
  One of the three loops of \<^verbatim>\<open>normalize\<close>: canonicalise every key into a fresh map, failing on
  an invalid key and on two keys with the same canonical form.
\<close>

fun canonical_map ::
    "string \<Rightarrow> string \<Rightarrow> 'v gomap \<Rightarrow> 'v gomap \<Rightarrow> go_error + 'v gomap" where
  "canonical_map invalid duplicate [] acc = Inr acc"
| "canonical_map invalid duplicate ((key, v) # m) acc =
     (case CanonicalID key of
        Inl e \<Rightarrow> Inl (Errorw invalid [key] e)
      | Inr c \<Rightarrow>
          if go_get acc c \<noteq> None then Inl (Errorf duplicate [c])
          else canonical_map invalid duplicate m (go_set c v acc))"

definition normalize :: "State \<Rightarrow> go_error + State" where
  "normalize st =
     (case canonical_map ''migration: invalid persisted migration %q: %w''
             ''migration: duplicate persisted migration %q'' (Migrations st) [] of
        Inl e \<Rightarrow> Inl e
      | Inr ms \<Rightarrow>
     (case canonical_map ''migration: invalid skipped migration %q: %w''
             ''migration: duplicate skipped migration %q'' (SkippedMigrations st) [] of
        Inl e \<Rightarrow> Inl e
      | Inr sk \<Rightarrow>
     (case canonical_map ''migration: invalid checksum migration %q: %w''
             ''migration: duplicate checksum migration %q'' (Checksums st) [] of
        Inl e \<Rightarrow> Inl e
      | Inr cs \<Rightarrow>
          if LastRunMigration st = '''' then
            Inr (st\<lparr>Migrations := ms, SkippedMigrations := sk, Checksums := cs\<rparr>)
          else case CanonicalID (LastRunMigration st) of
                 Inl e \<Rightarrow> Inl (Errorw ''migration: invalid last migration: %w'' [] e)
               | Inr l \<Rightarrow> Inr (st\<lparr>Migrations := ms, SkippedMigrations := sk, Checksums := cs,
                                  LastRunMigration := l\<rparr>))))"

subsection \<open>Importing node-migrate state\<close>

definition maxConvertibleMilliseconds :: int where
  "maxConvertibleMilliseconds = (2 ^ 63 - 1) div 1000000"

definition normalizeNodeTimestamp :: "int option \<Rightarrow> int option" where
  "normalizeNodeTimestamp timestamp =
     (case timestamp of
        None \<Rightarrow> None
      | Some v \<Rightarrow> Some (if 0 < v \<and> v \<le> maxConvertibleMilliseconds then v * 1000000 else v))"

text \<open>The loop of \<^verbatim>\<open>decodeNodeState\<close> over the unmarshalled \<^verbatim>\<open>migrations\<close> array.\<close>

fun node_items :: "State \<Rightarrow> (string \<times> int option) list \<Rightarrow> go_error + State" where
  "node_items st [] = Inr st"
| "node_items st ((title, timestamp) # items) =
     (case CanonicalID title of
        Inl e \<Rightarrow> Inl (Errorw ''migration: decode node migration %q: %w'' [title] e)
      | Inr c \<Rightarrow>
          if go_get (Migrations st) c \<noteq> None
          then Inl (Errorf ''migration: duplicate node migration %q'' [c])
          else
            let t = normalizeNodeTimestamp timestamp;
                st1 = st\<lparr>Migrations := go_set c t (Migrations st)\<rparr>;
                st2 = (case t of
                         Some n \<Rightarrow> if n > LastRunTimestamp st1 then st1\<lparr>LastRunTimestamp := n\<rparr> else st1
                       | None \<Rightarrow> st1)
            in node_items st2 items)"

definition decodeNodeState :: "string \<Rightarrow> (string \<times> int option) list \<Rightarrow> go_error + State" where
  "decodeNodeState lastRun items =
     (case node_items NewState items of
        Inl e \<Rightarrow> Inl e
      | Inr st \<Rightarrow>
          if lastRun = '''' then Inr st
          else case CanonicalID lastRun of
                 Inl e \<Rightarrow> Inl (Errorw ''migration: decode node lastRun: %w'' [] e)
               | Inr c \<Rightarrow> Inr (st\<lparr>LastRunMigration := c\<rparr>))"

section \<open>Well-formed state\<close>

definition canonical :: "string \<Rightarrow> bool" where
  "canonical s \<longleftrightarrow> CanonicalID s = Inr s"

definition canonical_keys :: "'v gomap \<Rightarrow> bool" where
  "canonical_keys m \<longleftrightarrow> gomap_ok m \<and> list_all (\<lambda>(k, v). canonical k) m"

definition state_ok :: "State \<Rightarrow> bool" where
  "state_ok st \<longleftrightarrow> canonical_keys (Migrations st) \<and> canonical_keys (SkippedMigrations st)
     \<and> canonical_keys (Checksums st)
     \<and> (LastRunMigration st = '''' \<or> canonical (LastRunMigration st))"

text \<open>\<^verbatim>\<open>state.Migrations[id]\<close> read as a possibly nil pointer: a missing key reads as nil.\<close>

definition timestamp_of :: "State \<Rightarrow> string \<Rightarrow> int option" where
  "timestamp_of st i = (case go_get (Migrations st) i of None \<Rightarrow> None | Some t \<Rightarrow> t)"

definition applied :: "State \<Rightarrow> string \<Rightarrow> bool" where
  "applied st i \<longleftrightarrow> timestamp_of st i \<noteq> None"

definition skipped :: "State \<Rightarrow> string \<Rightarrow> bool" where
  "skipped st i \<longleftrightarrow> go_get (SkippedMigrations st) i \<noteq> None"

text \<open>\<^verbatim>\<open>state.Checksums[id]\<close>: the empty string for a missing key.\<close>

definition checksum_of :: "State \<Rightarrow> string \<Rightarrow> string" where
  "checksum_of st i = (case go_get (Checksums st) i of None \<Rightarrow> '''' | Some c \<Rightarrow> c)"

lemma canonical_CanonicalID: "CanonicalID s = Inr c \<Longrightarrow> canonical c"
  by (simp add: canonical_def CanonicalID_canonical)

lemma canonical_keys_Nil [simp]: "canonical_keys []"
  by (simp add: canonical_keys_def)

lemma canonical_keys_iff: "canonical_keys m \<longleftrightarrow> gomap_ok m \<and> (\<forall>k. go_get m k \<noteq> None \<longrightarrow> canonical k)"
  by (auto simp: canonical_keys_def list_all_iff gomap_ok_def map_of_eq_None_iff image_iff)

lemma canonical_keys_set [simp]:
  "canonical_keys m \<Longrightarrow> canonical c \<Longrightarrow> canonical_keys (go_set c v m)"
  by (auto simp: canonical_keys_iff go_map)

lemma canonical_keys_del [simp]: "canonical_keys m \<Longrightarrow> canonical_keys (go_del c m)"
  by (auto simp: canonical_keys_iff go_map)

lemma canonical_map_keys:
  "canonical_map iv dp m acc = Inr r \<Longrightarrow> canonical_keys acc \<Longrightarrow> canonical_keys r"
proof (induction m arbitrary: acc)
  case (Cons kv m)
  obtain k v where kv: "kv = (k, v)" by (cases kv)
  from Cons.prems obtain c where c: "CanonicalID k = Inr c"
    and rec: "canonical_map iv dp m (go_set c v acc) = Inr r"
    by (auto simp: kv split: sum.splits if_splits)
  show ?case
    using Cons.IH [OF rec] canonical_keys_set [OF Cons.prems(2) canonical_CanonicalID [OF c]] by blast
qed simp

lemma normalize_state_ok: "normalize st = Inr st' \<Longrightarrow> state_ok st'"
  by (auto simp: normalize_def state_ok_def canonical_CanonicalID
      dest!: canonical_map_keys split: sum.splits if_splits)

text \<open>On canonical, distinct keys the loop rebuilds the map it was given.\<close>

lemma go_set_fresh: "go_get acc k = None \<Longrightarrow> go_set k v acc = acc @ [(k, v)]"
  by (induction acc) auto

lemma canonical_map_id:
  assumes "canonical_keys (acc @ m)"
  shows "canonical_map iv dp m acc = Inr (acc @ m)"
  using assms
proof (induction m arbitrary: acc)
  case (Cons kv m)
  obtain k v where kv: "kv = (k, v)" by (cases kv)
  have k: "CanonicalID k = Inr k" and fresh: "go_get acc k = None"
    using Cons.prems by (auto simp: kv canonical_keys_def gomap_ok_def canonical_def map_of_eq_None_iff)
  have "canonical_keys ((acc @ [(k, v)]) @ m)"
    using Cons.prems by (simp add: kv)
  from Cons.IH [OF this] show ?case
    by (simp add: kv k fresh go_set_fresh)
qed simp

lemma normalize_id: "state_ok st \<Longrightarrow> normalize st = Inr st"
  by (cases st) (auto simp: normalize_def state_ok_def canonical_map_id canonical_def)

text \<open>Importing node-migrate state: canonical keys, and the latest timestamp as the last run.\<close>

definition node_inv :: "State \<Rightarrow> bool" where
  "node_inv st \<longleftrightarrow> canonical_keys (Migrations st) \<and> SkippedMigrations st = [] \<and> Checksums st = []
     \<and> LastRunMigration st = '''' \<and> 0 \<le> LastRunTimestamp st
     \<and> (\<forall>i t. timestamp_of st i = Some t \<longrightarrow> t \<le> LastRunTimestamp st)"

lemma timestamp_of_set [simp]:
  "timestamp_of (st\<lparr>Migrations := go_set c t (Migrations st)\<rparr>) i = (if i = c then t else timestamp_of st i)"
  by (simp add: timestamp_of_def go_map)

lemma timestamp_of_other [simp]:
  "timestamp_of (st\<lparr>LastRunTimestamp := n\<rparr>) = timestamp_of st"
  "timestamp_of (st\<lparr>LastRunMigration := l\<rparr>) = timestamp_of st"
  "timestamp_of (st\<lparr>SkippedMigrations := sk\<rparr>) = timestamp_of st"
  "timestamp_of (st\<lparr>Checksums := cs\<rparr>) = timestamp_of st"
  by (simp_all add: timestamp_of_def fun_eq_iff)

definition node_step :: "string \<Rightarrow> int option \<Rightarrow> State \<Rightarrow> State" where
  "node_step c t st =
     (let st1 = st\<lparr>Migrations := go_set c t (Migrations st)\<rparr>
      in case t of
           Some n \<Rightarrow> if n > LastRunTimestamp st1 then st1\<lparr>LastRunTimestamp := n\<rparr> else st1
         | None \<Rightarrow> st1)"

lemma node_inv_step:
  assumes "node_inv st" and "canonical c"
  shows "node_inv (node_step c t st)"
proof (cases t)
  case None
  with assms show ?thesis by (auto simp: node_inv_def node_step_def Let_def)
next
  case (Some n)
  with assms show ?thesis
    by (cases "n > LastRunTimestamp st") (fastforce simp: node_inv_def node_step_def Let_def)+
qed

lemma node_items_inv: "node_items st items = Inr st' \<Longrightarrow> node_inv st \<Longrightarrow> node_inv st'"
proof (induction items arbitrary: st)
  case (Cons it items)
  obtain title ts where it: "it = (title, ts)" by (cases it)
  from Cons.prems(1) obtain c where c: "CanonicalID title = Inr c"
    and rec: "node_items (node_step c (normalizeNodeTimestamp ts) st) items = Inr st'"
    by (auto simp: it node_step_def Let_def split: sum.splits if_splits)
  show ?case
    using Cons.IH [OF rec] node_inv_step [OF Cons.prems(2) canonical_CanonicalID [OF c]] by blast
qed simp

end
