(* ===== verification/Migration_Runner.thy ===== *)
theory Migration_Runner
  imports Migration_State
begin

text \<open>
  The migration runner (\<^verbatim>\<open>migration/migration.go\<close>, lines 347 to 912): \<^verbatim>\<open>NewRunner\<close>, \<^verbatim>\<open>List\<close>, \<^verbatim>\<open>Run\<close>,
  \<^verbatim>\<open>Revert\<close>, \<^verbatim>\<open>RevertOne\<close> and everything they call.

  The runner talks to code it does not own: the store, the locker, the clock, the caller's
  context and the migration functions.  Every such call is recorded as an \<open>event\<close> at the end of
  a history, and what the call answers is an arbitrary function of the history so far; the
  theorems quantify over all these functions, hence over every behaviour of the environment,
  including a context that is cancelled between any two calls.  A store, locker or lease is a
  record of such functions; the interfaces it implements (Go type assertions) are flags.
\<close>

section \<open>The environment\<close>

datatype event =
    EvLock "go_error option"
  | EvUnlock "go_error option"
  | EvCtx "go_error option"
  | EvNow int
  | EvLoad "go_error option"
  | EvSave State "string option" "go_error option"
  | EvUp string "go_error option"
  | EvDown string "go_error option"

type_synonym history = "event list"
type_synonym mfunc = "history \<Rightarrow> go_error option"
type_synonym unlock_func = "history \<Rightarrow> go_error option"

record Migration =
  mID :: string
  Description :: string
  Checksum :: string
  Up :: "mfunc option"
  Down :: "mfunc option"

text \<open>
  \<^verbatim>\<open>context.Context\<close>: what \<^verbatim>\<open>Err()\<close> answers, and the fence token it carries.
\<close>

record Context =
  ctx_Err :: "history \<Rightarrow> go_error option"
  ctx_fence :: "string option"

definition Background :: Context where
  "Background = \<lparr>ctx_Err = (\<lambda>_. None), ctx_fence = None\<rparr>"

text \<open>
  A \<^verbatim>\<open>Store\<close>: whether it implements \<^verbatim>\<open>FencedStore\<close>; the answers of \<^verbatim>\<open>MigrationFencingRequired\<close> and
  \<^verbatim>\<open>ValidateMigrationFencing\<close> if it implements \<^verbatim>\<open>FencingRequirement\<close>; \<^verbatim>\<open>Load\<close>; and \<^verbatim>\<open>Save\<close> or, with a
  token, \<^verbatim>\<open>SaveFenced\<close>.
\<close>

record Store =
  store_fenced :: bool
  store_fencing :: "(bool \<times> go_error option) option"
  store_Load :: "history \<Rightarrow> go_error + State"
  store_Save :: "State \<Rightarrow> string option \<Rightarrow> history \<Rightarrow> go_error option"

text \<open>
  A \<^verbatim>\<open>Lease\<close>.  Its context may be nil; otherwise the entry is what \<^verbatim>\<open>Err()\<close> of the run context
  answers, which \<^verbatim>\<open>withLock\<close> derives from it and cancels asynchronously with the caller's context.
\<close>

record Lease =
  lease_Context :: "(history \<Rightarrow> go_error option) option"
  lease_FenceToken :: string
  lease_Unlock :: "unlock_func option"

datatype Locker =
    PlainLocker "history \<Rightarrow> go_error + unlock_func option"
  | LeaseLocker "history \<Rightarrow> go_error + Lease"

fun lease_based :: "Locker \<Rightarrow> bool" where
  "lease_based (PlainLocker _) = False"
| "lease_based (LeaseLocker _) = True"

definition fencing_required :: "Store \<Rightarrow> bool" where
  "fencing_required s \<longleftrightarrow> (case store_fencing s of Some (req, _) \<Rightarrow> req | None \<Rightarrow> False)"

record Runner =
  migrations :: "Migration list"
  parsed :: "ID list"
  store :: Store
  locker :: Locker
  now :: "history \<Rightarrow> int"

record Status =
  status_ID :: string
  status_Description :: string
  status_Applied :: bool
  status_Skipped :: bool
  status_Timestamp :: int

record RunOptions =
  From :: string
  To :: string

section \<open>Construction\<close>

text \<open>The loop of \<^verbatim>\<open>NewRunner\<close>: parse and canonicalise every ID, refuse a nil Up and a duplicate.\<close>

fun collect_entries ::
    "string list \<Rightarrow> (Migration \<times> ID) list \<Rightarrow> Migration list \<Rightarrow> go_error + (Migration \<times> ID) list" where
  "collect_entries seen entries [] = Inr entries"
| "collect_entries seen entries (item # rest) =
     (case ParseID (mID item) of
        Inl e \<Rightarrow> Inl e
      | Inr i \<Rightarrow>
          if Up item = None then Inl (Errorf ''migration: %s has no Up function'' [ID_String i])
          else if ID_String i \<in> set seen then Inl (Errorf ''migration: duplicate ID %s'' [ID_String i])
          else collect_entries (ID_String i # seen)
                 (entries @ [(item\<lparr>mID := ID_String i\<rparr>, i)]) rest)"

definition ErrNoMigrations :: go_error where
  "ErrNoMigrations = errors_New ''migration: no migrations registered''"

definition ErrIrreversible :: go_error where
  "ErrIrreversible = errors_New ''migration: migration is irreversible''"

definition ErrStateDrift :: go_error where
  "ErrStateDrift = errors_New ''migration: persisted state does not match registry''"

text \<open>The interface checks of \<^verbatim>\<open>NewRunner\<close>, in source order.\<close>

definition check_fencing :: "Store \<Rightarrow> Locker \<Rightarrow> go_error option" where
  "check_fencing s l =
     (if lease_based l \<and> \<not> store_fenced s
      then Some (errors_New ''migration: LeaseLocker requires a FencedStore'')
      else case store_fencing s of
             Some (True, verr) \<Rightarrow>
               (case verr of
                  Some e \<Rightarrow> Some (Errorw ''migration: invalid store fencing: %w'' [] e)
                | None \<Rightarrow>
                    if \<not> store_fenced s
                    then Some (errors_New ''migration: fencing-required store does not implement FencedStore'')
                    else if \<not> lease_based l
                    then Some (errors_New ''migration: fencing-required store requires a LeaseLocker'')
                    else None)
           | _ \<Rightarrow> None)"

text \<open>
  \<^verbatim>\<open>sort.Slice\<close> with \<^verbatim>\<open>compareID(...) < 0\<close>: the entries have pairwise different identities, so the
  sorted order is unique.
\<close>

definition NewRunner ::
    "Migration list \<Rightarrow> Store option \<Rightarrow> Locker option \<Rightarrow> (history \<Rightarrow> int) \<Rightarrow> go_error + Runner" where
  "NewRunner ms store0 locker0 clock =
     (if ms = [] then Inl ErrNoMigrations
      else case store0 of
        None \<Rightarrow> Inl (errors_New ''migration: nil store'')
      | Some s \<Rightarrow>
     (case locker0 of
        None \<Rightarrow> Inl (errors_New ''migration: nil locker'')
      | Some l \<Rightarrow>
     (case check_fencing s l of
        Some e \<Rightarrow> Inl e
      | None \<Rightarrow>
     (case collect_entries [] [] ms of
        Inl e \<Rightarrow> Inl e
      | Inr entries \<Rightarrow>
          let sorted_entries = sort_key snd entries
          in Inr \<lparr>migrations = map fst sorted_entries, parsed = map snd sorted_entries,
                  store = s, locker = l, now = clock\<rparr>))))"

section \<open>Calls to the environment\<close>

definition checkExecutionContext :: "Context \<Rightarrow> history \<Rightarrow> go_error option \<times> history" where
  "checkExecutionContext c h =
     (let e = ctx_Err c h
      in (map_option (Errorw ''migration: execution context ended: %w'' []) e, h @ [EvCtx e]))"

definition FenceTokenFromContext :: "Context \<Rightarrow> string option" where
  "FenceTokenFromContext c =
     (case ctx_fence c of Some t \<Rightarrow> if t \<noteq> '''' then Some t else None | None \<Rightarrow> None)"

definition loadState :: "Runner \<Rightarrow> Context option \<Rightarrow> history \<Rightarrow> (go_error + State) \<times> history" where
  "loadState R ctx h =
     (let c = (case ctx of None \<Rightarrow> Background | Some c \<Rightarrow> c)
      in case checkExecutionContext c h of
           (Some e, h1) \<Rightarrow> (Inl e, h1)
         | (None, h1) \<Rightarrow>
             (case store_Load (store R) h1 of
                Inl e \<Rightarrow> (Inl e, h1 @ [EvLoad (Some e)])
              | Inr st \<Rightarrow>
                  ((case normalize st of
                      Inl e \<Rightarrow> Inl (Errorw ''migration: normalize state: %w'' [] e)
                    | Inr st' \<Rightarrow> Inr st'), h1 @ [EvLoad None])))"

definition store_save_call :: "Runner \<Rightarrow> State \<Rightarrow> string option \<Rightarrow> history \<Rightarrow> go_error option \<times> history" where
  "store_save_call R st tok h = (let e = store_Save (store R) st tok h in (e, h @ [EvSave st tok e]))"

definition saveState :: "Runner \<Rightarrow> Context \<Rightarrow> State \<Rightarrow> history \<Rightarrow> go_error option \<times> history" where
  "saveState R c st h =
     (case checkExecutionContext c h of
        (Some e, h1) \<Rightarrow> (Some e, h1)
      | (None, h1) \<Rightarrow>
          (case FenceTokenFromContext c of
             Some tok \<Rightarrow>
               if \<not> store_fenced (store R)
               then (Some (errors_New ''migration: fenced execution requires a FencedStore''), h1)
               else store_save_call R st (Some tok) h1
           | None \<Rightarrow>
               if fencing_required (store R)
               then (Some (errors_New ''migration: fencing-required store cannot be saved without a fence token''), h1)
               else store_save_call R st None h1))"

definition timestamp :: "Runner \<Rightarrow> history \<Rightarrow> int \<times> history" where
  "timestamp R h = (now R h, h @ [EvNow (now R h)])"

text \<open>Calling a nil function panics; the panic is an error value here.\<close>

definition nil_call :: go_error where
  "nil_call = errors_New ''panic: call of nil function''"

definition call_Up :: "Migration \<Rightarrow> history \<Rightarrow> go_error option \<times> history" where
  "call_Up m h =
     (let e = (case Up m of None \<Rightarrow> Some nil_call | Some f \<Rightarrow> f h) in (e, h @ [EvUp (mID m) e]))"

definition call_Down :: "Migration \<Rightarrow> history \<Rightarrow> go_error option \<times> history" where
  "call_Down m h =
     (let e = (case Down m of None \<Rightarrow> Some nil_call | Some f \<Rightarrow> f h) in (e, h @ [EvDown (mID m) e]))"

definition call_Unlock :: "unlock_func \<Rightarrow> history \<Rightarrow> go_error option \<times> history" where
  "call_Unlock u h = (u h, h @ [EvUnlock (u h)])"

section \<open>Validation, status and targets\<close>

definition registered :: "Migration list \<Rightarrow> string \<Rightarrow> Migration option" where
  "registered ms = map_of (rev (map (\<lambda>m. (mID m, m)) ms))"

fun validate_applied :: "Migration list \<Rightarrow> State \<Rightarrow> int option gomap \<Rightarrow> go_error option" where
  "validate_applied ms st [] = None"
| "validate_applied ms st ((i, ts) # rest) =
     (case ts of
        None \<Rightarrow> validate_applied ms st rest
      | Some _ \<Rightarrow>
          (case registered ms i of
             None \<Rightarrow> Some (Errorw ''%w: applied migration %s is not compiled into this binary'' [i] ErrStateDrift)
           | Some m \<Rightarrow>
               if checksum_of st i \<noteq> '''' \<and> checksum_of st i \<noteq> Checksum m
               then Some (Errorw ''%w: checksum changed for %s'' [i] ErrStateDrift)
               else validate_applied ms st rest))"

fun validate_skipped :: "State \<Rightarrow> int gomap \<Rightarrow> go_error option" where
  "validate_skipped st [] = None"
| "validate_skipped st ((i, _) # rest) =
     (if \<not> applied st i
      then Some (Errorw ''%w: skipped migration %s is not marked applied'' [i] ErrStateDrift)
      else validate_skipped st rest)"

fun validate_checksums :: "Migration list \<Rightarrow> string gomap \<Rightarrow> go_error option" where
  "validate_checksums ms [] = None"
| "validate_checksums ms ((i, _) # rest) =
     (if registered ms i = None
      then Some (Errorw ''%w: checksum migration %s is not compiled into this binary'' [i] ErrStateDrift)
      else validate_checksums ms rest)"

definition validateState :: "Runner \<Rightarrow> State \<Rightarrow> go_error option" where
  "validateState R st =
     (case validate_applied (migrations R) st (Migrations st) of
        Some e \<Rightarrow> Some e
      | None \<Rightarrow>
     (case validate_skipped st (SkippedMigrations st) of
        Some e \<Rightarrow> Some e
      | None \<Rightarrow> validate_checksums (migrations R) (Checksums st)))"

definition status_of :: "State \<Rightarrow> Migration \<Rightarrow> Status" where
  "status_of st m =
     \<lparr>status_ID = mID m, status_Description = Description m,
      status_Applied = applied st (mID m), status_Skipped = skipped st (mID m),
      status_Timestamp = (case timestamp_of st (mID m) of Some t \<Rightarrow> t | None \<Rightarrow> 0)\<rparr>"

definition statuses :: "Runner \<Rightarrow> State \<Rightarrow> Status list" where
  "statuses R st = map (status_of st) (migrations R)"

text \<open>\<^verbatim>\<open>strconv.ParseUint\<close> with its error ignored: the largest value on overflow, zero otherwise.\<close>

definition ParseUint_value :: "string \<Rightarrow> nat" where
  "ParseUint_value s = (case ParseUint s of Inr n \<Rightarrow> n | Inl ErrRange \<Rightarrow> 2 ^ 64 - 1 | Inl ErrSyntax \<Rightarrow> 0)"

fun version_scan :: "bool \<Rightarrow> string \<Rightarrow> nat \<Rightarrow> nat option \<Rightarrow> ID list \<Rightarrow> nat option" where
  "version_scan first v i match [] = match"
| "version_scan first v i match (d # ds) =
     (if ID_Version d \<noteq> v then version_scan first v (Suc i) match ds
      else if first then Some i
      else version_scan first v (Suc i) (Some i) ds)"

fun index_of_id :: "string \<Rightarrow> nat \<Rightarrow> Migration list \<Rightarrow> nat option" where
  "index_of_id c i [] = None"
| "index_of_id c i (m # ms) = (if mID m = c then Some i else index_of_id c (Suc i) ms)"

definition resolveTarget :: "Runner \<Rightarrow> string \<Rightarrow> bool \<Rightarrow> go_error + nat" where
  "resolveTarget R target0 firstInVersion =
     (let target = TrimSpace target0
      in if target = '''' \<or> equal_fold_lit target ''latest'' then Inr (length (migrations R) - 1)
         else case versionPattern target of
           Some (a, b, p) \<Rightarrow>
             (let v = ''v'' @ itoa (ParseUint_value a) @ ''.'' @ itoa (ParseUint_value b)
                        @ ''.'' @ itoa (ParseUint_value p)
              in case version_scan firstInVersion v 0 None (parsed R) of
                   Some i \<Rightarrow> Inr i
                 | None \<Rightarrow> Inl (Errorf ''migration: target version %q is not registered'' [target]))
         | None \<Rightarrow>
             (case CanonicalID target of
                Inl e \<Rightarrow> Inl e
              | Inr c \<Rightarrow>
                  (case index_of_id c 0 (migrations R) of
                     Some i \<Rightarrow> Inr i
                   | None \<Rightarrow> Inl (Errorf ''migration: target %q is not registered'' [target]))))"

definition resolveRunRange :: "Runner \<Rightarrow> RunOptions \<Rightarrow> go_error + nat \<times> nat" where
  "resolveRunRange R opts =
     (case resolveTarget R (To opts) False of
        Inl e \<Rightarrow> Inl e
      | Inr to \<Rightarrow>
     (case (if TrimSpace (From opts) \<noteq> '''' then resolveTarget R (From opts) True else Inr 0) of
        Inl e \<Rightarrow> Inl e
      | Inr from \<Rightarrow>
          if from > to
          then Inl (Errorf ''migration: from target %q is after to target %q'' [From opts, To opts])
          else Inr (from, to)))"

fun latest_applied :: "State \<Rightarrow> Migration list \<Rightarrow> string \<times> int" where
  "latest_applied st [] = ('''', 0)"
| "latest_applied st (m # ms) =
     (case timestamp_of st (mID m) of Some t \<Rightarrow> (mID m, t) | None \<Rightarrow> latest_applied st ms)"

definition latestApplied :: "Runner \<Rightarrow> State \<Rightarrow> string \<times> int" where
  "latestApplied R st = latest_applied st (rev (migrations R))"

section \<open>Running, reverting, locking\<close>

fun backfill :: "Migration list \<Rightarrow> State \<Rightarrow> bool \<Rightarrow> State \<times> bool" where
  "backfill [] st changed = (st, changed)"
| "backfill (m # ms) st changed =
     (if \<not> applied st (mID m) \<or> Checksum m = '''' \<or> checksum_of st (mID m) \<noteq> ''''
      then backfill ms st changed
      else backfill ms (st\<lparr>Checksums := go_set (mID m) (Checksum m) (Checksums st)\<rparr>) True)"

definition backfillChecksums ::
    "Runner \<Rightarrow> Context \<Rightarrow> State \<Rightarrow> history \<Rightarrow> (go_error + State) \<times> history" where
  "backfillChecksums R c st h =
     (case backfill (migrations R) st False of
        (st', changed) \<Rightarrow>
          if \<not> changed then (Inr st', h)
          else case saveState R c st' h of
                 (Some e, h1) \<Rightarrow> (Inl (Errorw ''migration: save checksum baseline: %w'' [] e), h1)
               | (None, h1) \<Rightarrow> (Inr st', h1))"

definition set_checksum :: "Migration \<Rightarrow> State \<Rightarrow> State" where
  "set_checksum m st =
     (if Checksum m \<noteq> '''' then st\<lparr>Checksums := go_set (mID m) (Checksum m) (Checksums st)\<rparr> else st)"

definition mark_applied :: "Migration \<Rightarrow> int \<Rightarrow> State \<Rightarrow> State" where
  "mark_applied m t st =
     set_checksum m (st\<lparr>Migrations := go_set (mID m) (Some t) (Migrations st),
       SkippedMigrations := go_del (mID m) (SkippedMigrations st),
       LastRunMigration := mID m, LastRunTimestamp := t\<rparr>)"

definition mark_skipped :: "Migration \<Rightarrow> int \<Rightarrow> State \<Rightarrow> State" where
  "mark_skipped m t st =
     set_checksum m (st\<lparr>Migrations := go_set (mID m) (Some t) (Migrations st),
       SkippedMigrations := go_set (mID m) t (SkippedMigrations st)\<rparr>)"

text \<open>The body of the first loop of \<^verbatim>\<open>Run\<close> for one pending migration.\<close>

definition apply_one :: "Runner \<Rightarrow> Context \<Rightarrow> Migration \<Rightarrow> State \<Rightarrow> history \<Rightarrow> (go_error + State) \<times> history" where
  "apply_one R c m st h =
     (case checkExecutionContext c h of
        (Some e, h1) \<Rightarrow> (Inl e, h1)
      | (None, h1) \<Rightarrow>
     (case call_Up m h1 of
        (Some e, h2) \<Rightarrow> (Inl (Errorw ''migration: apply %s: %w'' [mID m] e), h2)
      | (None, h2) \<Rightarrow>
     (case checkExecutionContext c h2 of
        (Some e, h3) \<Rightarrow>
          (Inl (Errorw ''migration: applied %s after lease loss; state was not checkpointed: %w'' [mID m] e), h3)
      | (None, h3) \<Rightarrow>
     (case timestamp R h3 of
        (t, h4) \<Rightarrow>
          let st' = mark_applied m t st
          in case saveState R c st' h4 of
               (Some e, h5) \<Rightarrow>
                 (Inl (Errorw ''migration: applied %s but state checkpoint failed: %w'' [mID m] e), h5)
             | (None, h5) \<Rightarrow> (Inr st', h5)))))"

fun run_range :: "Runner \<Rightarrow> Context \<Rightarrow> Migration list \<Rightarrow> State \<Rightarrow> history \<Rightarrow> (go_error + State) \<times> history" where
  "run_range R c [] st h = (Inr st, h)"
| "run_range R c (m # ms) st h =
     (if applied st (mID m) then run_range R c ms st h
      else case apply_one R c m st h of
             (Inl e, h') \<Rightarrow> (Inl e, h')
           | (Inr st', h') \<Rightarrow> run_range R c ms st' h')"

fun skip_range :: "Runner \<Rightarrow> Context \<Rightarrow> Migration list \<Rightarrow> State \<Rightarrow> history \<Rightarrow> (go_error + State) \<times> history" where
  "skip_range R c [] st h = (Inr st, h)"
| "skip_range R c (m # ms) st h =
     (if applied st (mID m) then skip_range R c ms st h
      else case timestamp R h of
        (t, h1) \<Rightarrow>
          let st' = mark_skipped m t st
          in case saveState R c st' h1 of
               (Some e, h2) \<Rightarrow> (Inl (Errorw ''migration: save skipped %s: %w'' [mID m] e), h2)
             | (None, h2) \<Rightarrow> skip_range R c ms st' h2)"

text \<open>The function \<^verbatim>\<open>Run\<close> passes to \<^verbatim>\<open>withLock\<close>.\<close>

definition run_op :: "Runner \<Rightarrow> RunOptions \<Rightarrow> Context \<Rightarrow> history \<Rightarrow> (go_error + Status list) \<times> history" where
  "run_op R opts c h =
     (case loadState R (Some c) h of
        (Inl e, h1) \<Rightarrow> (Inl e, h1)
      | (Inr st, h1) \<Rightarrow>
     (case validateState R st of
        Some e \<Rightarrow> (Inl e, h1)
      | None \<Rightarrow>
     (case resolveRunRange R opts of
        Inl e \<Rightarrow> (Inl e, h1)
      | Inr (from, to) \<Rightarrow>
     (case backfillChecksums R c st h1 of
        (Inl e, h2) \<Rightarrow> (Inl e, h2)
      | (Inr st2, h2) \<Rightarrow>
     (case run_range R c (take (Suc to - from) (drop from (migrations R))) st2 h2 of
        (Inl e, h3) \<Rightarrow> (Inl e, h3)
      | (Inr st3, h3) \<Rightarrow>
     (case skip_range R c (take from (migrations R)) st3 h3 of
        (Inl e, h4) \<Rightarrow> (Inl e, h4)
      | (Inr st4, h4) \<Rightarrow> (Inr (statuses R st4), h4)))))))"

fun irreversible :: "State \<Rightarrow> Migration list \<Rightarrow> go_error option" where
  "irreversible st [] = None"
| "irreversible st (m # ms) =
     (if applied st (mID m) \<and> \<not> skipped st (mID m) \<and> Down m = None
      then Some (Errorw ''%w: %s'' [mID m] ErrIrreversible)
      else irreversible st ms)"

definition mark_reverted :: "Runner \<Rightarrow> Migration \<Rightarrow> State \<Rightarrow> State" where
  "mark_reverted R m st =
     (let st1 = st\<lparr>Migrations := go_set (mID m) None (Migrations st),
            SkippedMigrations := go_del (mID m) (SkippedMigrations st),
            Checksums := go_del (mID m) (Checksums st)\<rparr>
      in st1\<lparr>LastRunMigration := fst (latestApplied R st1), LastRunTimestamp := snd (latestApplied R st1)\<rparr>)"

text \<open>The call of Down with its two context checks, for a migration that was not skipped.\<close>

definition down_one :: "Context \<Rightarrow> Migration \<Rightarrow> history \<Rightarrow> go_error option \<times> history" where
  "down_one c m h =
     (case checkExecutionContext c h of
        (Some e, h1) \<Rightarrow> (Some e, h1)
      | (None, h1) \<Rightarrow>
     (case call_Down m h1 of
        (Some e, h2) \<Rightarrow> (Some (Errorw ''migration: revert %s: %w'' [mID m] e), h2)
      | (None, h2) \<Rightarrow>
     (case checkExecutionContext c h2 of
        (Some e, h3) \<Rightarrow>
          (Some (Errorw ''migration: reverted %s after lease loss; state was not checkpointed: %w'' [mID m] e), h3)
      | (None, h3) \<Rightarrow> (None, h3))))"

fun revert_range :: "Runner \<Rightarrow> Context \<Rightarrow> Migration list \<Rightarrow> State \<Rightarrow> history \<Rightarrow> (go_error + State) \<times> history" where
  "revert_range R c [] st h = (Inr st, h)"
| "revert_range R c (m # ms) st h =
     (if \<not> applied st (mID m) then revert_range R c ms st h
      else case (if skipped st (mID m) then (None, h) else down_one c m h) of
             (Some e, h1) \<Rightarrow> (Inl e, h1)
           | (None, h1) \<Rightarrow>
               let st' = mark_reverted R m st
               in case saveState R c st' h1 of
                    (Some e, h2) \<Rightarrow>
                      (Inl (Errorw ''migration: reverted %s but state checkpoint failed: %w'' [mID m] e), h2)
                  | (None, h2) \<Rightarrow> revert_range R c ms st' h2)"

definition revertState :: "Runner \<Rightarrow> Context \<Rightarrow> State \<Rightarrow> nat \<Rightarrow> history \<Rightarrow> (go_error + Status list) \<times> history" where
  "revertState R c st to h =
     (let ms = rev (drop to (migrations R))
      in case irreversible st ms of
           Some e \<Rightarrow> (Inl e, h)
         | None \<Rightarrow>
             (case revert_range R c ms st h of
                (Inl e, h') \<Rightarrow> (Inl e, h')
              | (Inr st', h') \<Rightarrow> (Inr (statuses R st'), h')))"

definition revert_op :: "Runner \<Rightarrow> string \<Rightarrow> Context \<Rightarrow> history \<Rightarrow> (go_error + Status list) \<times> history" where
  "revert_op R to0 c h =
     (case loadState R (Some c) h of
        (Inl e, h1) \<Rightarrow> (Inl e, h1)
      | (Inr st, h1) \<Rightarrow>
     (case validateState R st of
        Some e \<Rightarrow> (Inl e, h1)
      | None \<Rightarrow>
     (case resolveTarget R to0 True of
        Inl e \<Rightarrow> (Inl e, h1)
      | Inr to \<Rightarrow> revertState R c st to h1)))"

text \<open>The highest index of an applied migration, as the loop of \<^verbatim>\<open>RevertOne\<close> finds it.\<close>

fun last_applied_index :: "State \<Rightarrow> Migration list \<Rightarrow> nat \<Rightarrow> nat option" where
  "last_applied_index st ms 0 = None"
| "last_applied_index st ms (Suc k) =
     (if applied st (mID (ms ! k)) then Some k else last_applied_index st ms k)"

definition revert_one_op :: "Runner \<Rightarrow> Context \<Rightarrow> history \<Rightarrow> (go_error + Status list) \<times> history" where
  "revert_one_op R c h =
     (case loadState R (Some c) h of
        (Inl e, h1) \<Rightarrow> (Inl e, h1)
      | (Inr st, h1) \<Rightarrow>
     (case validateState R st of
        Some e \<Rightarrow> (Inl e, h1)
      | None \<Rightarrow>
     (case last_applied_index st (migrations R) (length (migrations R)) of
        Some i \<Rightarrow> revertState R c st i h1
      | None \<Rightarrow> (Inr (statuses R st), h1))))"

definition wrapUnlockError :: "go_error option \<Rightarrow> go_error option" where
  "wrapUnlockError = map_option (Errorw ''migration: release invalid lease: %w'' [])"

text \<open>Refusing an invalid lease: release it and join the two errors.\<close>

definition reject_lease :: "string \<Rightarrow> unlock_func \<Rightarrow> history \<Rightarrow> (go_error + 'a) \<times> history" where
  "reject_lease m u h =
     (case call_Unlock u h of
        (e, h1) \<Rightarrow> (Inl (the (errors_Join [Some (errors_New m), wrapUnlockError e])), h1))"

text \<open>The part of \<^verbatim>\<open>withLock\<close> after the lock is held: run the operation, release, join errors.\<close>

definition locked_run ::
    "unlock_func \<Rightarrow> Context \<Rightarrow> (Context \<Rightarrow> history \<Rightarrow> (go_error + 'a) \<times> history) \<Rightarrow> history
     \<Rightarrow> (go_error + 'a) \<times> history" where
  "locked_run u c operation h =
     (case operation c h of
        (res, h1) \<Rightarrow>
     (case call_Unlock u h1 of
        (ue, h2) \<Rightarrow>
          (case res of
             Inl oe \<Rightarrow>
               (Inl (case ue of
                       None \<Rightarrow> oe
                     | Some e \<Rightarrow> the (errors_Join [Some oe, Some (Errorw ''migration: release lock: %w'' [] e)])), h2)
           | Inr r \<Rightarrow>
               ((case ue of
                   Some e \<Rightarrow> Inl (Errorw ''migration: release lock: %w'' [] e)
                 | None \<Rightarrow> Inr r), h2))))"

definition withLock ::
    "Runner \<Rightarrow> Context option \<Rightarrow> (Context \<Rightarrow> history \<Rightarrow> (go_error + 'a) \<times> history) \<Rightarrow> history
     \<Rightarrow> (go_error + 'a) \<times> history" where
  "withLock R ctx operation h =
     (let c = (case ctx of None \<Rightarrow> Background | Some c \<Rightarrow> c)
      in case locker R of
           LeaseLocker lock \<Rightarrow>
             (case lock h of
                Inl e \<Rightarrow> (Inl (Errorw ''migration: acquire lease: %w'' [] e), h @ [EvLock (Some e)])
              | Inr lease \<Rightarrow>
                  let h1 = h @ [EvLock None]
                  in case lease_Unlock lease of
                       None \<Rightarrow> (Inl (errors_New ''migration: lease locker returned a nil unlock function''), h1)
                     | Some u \<Rightarrow>
                         (case lease_Context lease of
                            None \<Rightarrow> reject_lease ''migration: lease locker returned a nil context'' u h1
                          | Some run_err \<Rightarrow>
                              let token = TrimSpace (lease_FenceToken lease)
                              in if token = ''''
                                 then reject_lease ''migration: lease locker returned an empty fence token'' u h1
                                 else if \<not> store_fenced (store R)
                                 then reject_lease ''migration: LeaseLocker requires a FencedStore'' u h1
                                 else locked_run u \<lparr>ctx_Err = run_err, ctx_fence = Some token\<rparr> operation h1))
         | PlainLocker lock \<Rightarrow>
             (case lock h of
                Inl e \<Rightarrow> (Inl (Errorw ''migration: acquire lock: %w'' [] e), h @ [EvLock (Some e)])
              | Inr None \<Rightarrow> (Inl (errors_New ''migration: locker returned a nil unlock function''), h @ [EvLock None])
              | Inr (Some u) \<Rightarrow> locked_run u c operation (h @ [EvLock None])))"

definition Runner_List :: "Runner \<Rightarrow> Context option \<Rightarrow> history \<Rightarrow> (go_error + Status list) \<times> history" where
  "Runner_List R ctx h =
     (case loadState R ctx h of
        (Inl e, h1) \<Rightarrow> (Inl e, h1)
      | (Inr st, h1) \<Rightarrow>
          ((case validateState R st of Some e \<Rightarrow> Inl e | None \<Rightarrow> Inr (statuses R st)), h1))"

definition Run :: "Runner \<Rightarrow> Context option \<Rightarrow> RunOptions \<Rightarrow> history \<Rightarrow> (go_error + Status list) \<times> history" where
  "Run R ctx opts = withLock R ctx (run_op R opts)"

definition Revert :: "Runner \<Rightarrow> Context option \<Rightarrow> string \<Rightarrow> history \<Rightarrow> (go_error + Status list) \<times> history" where
  "Revert R ctx to0 h =
     (if TrimSpace to0 = ''''
      then (Inl (errors_New ''migration: revert target is required; use RevertOne for the latest migration''), h)
      else withLock R ctx (revert_op R to0) h)"

definition RevertOne :: "Runner \<Rightarrow> Context option \<Rightarrow> history \<Rightarrow> (go_error + Status list) \<times> history" where
  "RevertOne R ctx = withLock R ctx (revert_one_op R)"

end
