(* ===== verification/Migration_Trace.thy ===== *)
theory Migration_Trace
  imports Migration_Runner
begin

text \<open>
  What the runner does to its environment.  The shapes of the event sequences of one step, the
  durable state a history leaves behind, and the safety predicates on histories; then the trace
  lemmas of the loops of \<^verbatim>\<open>Run\<close> and \<^verbatim>\<open>revertState\<close>.
\<close>

section \<open>Observations on histories\<close>

text \<open>The state the store holds after a history: the last one saved without error.\<close>

fun durable :: "State \<Rightarrow> history \<Rightarrow> State" where
  "durable st [] = st"
| "durable st (EvSave s tok None # h) = durable s h"
| "durable st (ev # h) = durable st h"

text \<open>
  Up is called only on a migration that the durable state does not have as applied, Down only on
  one that it has and that was not merely skipped.
\<close>

fun safe_calls :: "State \<Rightarrow> history \<Rightarrow> bool" where
  "safe_calls st [] \<longleftrightarrow> True"
| "safe_calls st (EvSave s tok None # h) \<longleftrightarrow> safe_calls s h"
| "safe_calls st (EvUp i e # h) \<longleftrightarrow> \<not> applied st i \<and> safe_calls st h"
| "safe_calls st (EvDown i e # h) \<longleftrightarrow> applied st i \<and> \<not> skipped st i \<and> safe_calls st h"
| "safe_calls st (ev # h) \<longleftrightarrow> safe_calls st h"

text \<open>
  After a successful Up no other migration function is called before a save that records it has
  succeeded; after a successful Down, before a save that records its removal.
\<close>

fun checkpointed :: "(State \<Rightarrow> bool) option \<Rightarrow> history \<Rightarrow> bool" where
  "checkpointed p [] \<longleftrightarrow> True"
| "checkpointed p (EvUp i None # h) \<longleftrightarrow> p = None \<and> checkpointed (Some (\<lambda>s. applied s i)) h"
| "checkpointed p (EvUp i (Some e) # h) \<longleftrightarrow> p = None \<and> checkpointed None h"
| "checkpointed p (EvDown i None # h) \<longleftrightarrow> p = None \<and> checkpointed (Some (\<lambda>s. \<not> applied s i)) h"
| "checkpointed p (EvDown i (Some e) # h) \<longleftrightarrow> p = None \<and> checkpointed None h"
| "checkpointed p (EvSave s tok None # h) \<longleftrightarrow>
     (case p of None \<Rightarrow> True | Some q \<Rightarrow> q s) \<and> checkpointed None h"
| "checkpointed p (ev # h) \<longleftrightarrow> checkpointed p h"

fun up_ids :: "history \<Rightarrow> string list" where
  "up_ids [] = []"
| "up_ids (EvUp i e # h) = i # up_ids h"
| "up_ids (ev # h) = up_ids h"

fun down_ids :: "history \<Rightarrow> string list" where
  "down_ids [] = []"
| "down_ids (EvDown i e # h) = i # down_ids h"
| "down_ids (ev # h) = down_ids h"

definition saves_ok :: "(State \<Rightarrow> string option \<Rightarrow> bool) \<Rightarrow> history \<Rightarrow> bool" where
  "saves_ok P h \<longleftrightarrow> list_all (\<lambda>ev. case ev of EvSave s tok e \<Rightarrow> P s tok | _ \<Rightarrow> True) h"

definition no_locking :: "history \<Rightarrow> bool" where
  "no_locking h \<longleftrightarrow> (\<forall>e. EvLock e \<notin> set h \<and> EvUnlock e \<notin> set h)"

lemma durable_append [simp]: "durable st (a @ b) = durable (durable st a) b"
  by (induction st a rule: durable.induct) auto

lemma safe_calls_append [simp]: "safe_calls st (a @ b) \<longleftrightarrow> safe_calls st a \<and> safe_calls (durable st a) b"
  by (induction st a rule: safe_calls.induct) auto

lemma up_ids_append [simp]: "up_ids (a @ b) = up_ids a @ up_ids b"
  by (induction a rule: up_ids.induct) auto

lemma down_ids_append [simp]: "down_ids (a @ b) = down_ids a @ down_ids b"
  by (induction a rule: down_ids.induct) auto

lemma saves_ok_simps [simp]:
  "saves_ok P []"
  "saves_ok P (a @ b) \<longleftrightarrow> saves_ok P a \<and> saves_ok P b"
  "saves_ok P (ev # h) \<longleftrightarrow> (case ev of EvSave s tok e \<Rightarrow> P s tok | _ \<Rightarrow> True) \<and> saves_ok P h"
  by (auto simp: saves_ok_def)

lemma saves_ok_mono: "saves_ok P h \<Longrightarrow> (\<And>s tok. P s tok \<Longrightarrow> Q s tok) \<Longrightarrow> saves_ok Q h"
  by (auto simp: saves_ok_def list_all_iff split: event.splits)

lemma no_locking_simps [simp]:
  "no_locking []"
  "no_locking (a @ b) \<longleftrightarrow> no_locking a \<and> no_locking b"
  "no_locking (ev # h) \<longleftrightarrow> (case ev of EvLock _ \<Rightarrow> False | EvUnlock _ \<Rightarrow> False | _ \<Rightarrow> True) \<and> no_locking h"
  by (auto simp: no_locking_def split: event.splits)

text \<open>A checkpointed piece that ends with nothing pending composes with what follows.\<close>

fun pending_after :: "(State \<Rightarrow> bool) option \<Rightarrow> history \<Rightarrow> (State \<Rightarrow> bool) option" where
  "pending_after p [] = p"
| "pending_after p (EvUp i None # h) = pending_after (Some (\<lambda>s. applied s i)) h"
| "pending_after p (EvUp i (Some e) # h) = pending_after None h"
| "pending_after p (EvDown i None # h) = pending_after (Some (\<lambda>s. \<not> applied s i)) h"
| "pending_after p (EvDown i (Some e) # h) = pending_after None h"
| "pending_after p (EvSave s tok None # h) = pending_after None h"
| "pending_after p (ev # h) = pending_after p h"

lemma checkpointed_append [simp]:
  "checkpointed p (a @ b) \<longleftrightarrow> checkpointed p a \<and> checkpointed (pending_after p a) b"
  by (induction p a rule: checkpointed.induct) auto

lemma pending_after_append [simp]: "pending_after p (a @ b) = pending_after (pending_after p a) b"
  by (induction p a rule: pending_after.induct) auto

section \<open>One step\<close>

text \<open>The events of a save that failed or was refused.\<close>

inductive failed_save :: "Context \<Rightarrow> State \<Rightarrow> history \<Rightarrow> bool" for c st where
  "failed_save c st [EvCtx (Some x)]"
| "failed_save c st [EvCtx None]"
| "failed_save c st [EvCtx None, EvSave st (FenceTokenFromContext c) (Some x)]"

abbreviation save_events :: "Context \<Rightarrow> State \<Rightarrow> history" where
  "save_events c st \<equiv> [EvCtx None, EvSave st (FenceTokenFromContext c) None]"

lemma saveState_shape:
  assumes "saveState R c st h = (r, h')"
  obtains (saved) "r = None" "h' = h @ save_events c st"
  | (failed) e ev where "r = Some e" "h' = h @ ev" "failed_save c st ev"
proof -
  have call: "store_save_call R st tok k = (r, h') \<Longrightarrow> h' = k @ [EvSave st tok r]" for tok k
    by (auto simp: store_save_call_def Let_def)
  show thesis
  proof (cases "ctx_Err c h")
    case (Some x)
    with assms show thesis
      by (auto simp: saveState_def checkExecutionContext_def intro: failed failed_save.intros)
  next
    case None
    with assms consider "r \<noteq> None" "h' = h @ [EvCtx None]"
      | "store_save_call R st (FenceTokenFromContext c) (h @ [EvCtx None]) = (r, h')"
      by (auto simp: saveState_def checkExecutionContext_def split: option.splits if_splits)
    then show thesis
    proof cases
      case 1
      then show thesis by (auto intro: failed failed_save.intros)
    next
      case 2
      from call [OF this] show thesis
        by (cases r) (auto intro: saved failed failed_save.intros)
    qed
  qed
qed

inductive failed_apply :: "Context \<Rightarrow> Migration \<Rightarrow> State \<Rightarrow> history \<Rightarrow> bool" for c m st where
  "failed_apply c m st [EvCtx (Some x)]"
| "failed_apply c m st [EvCtx None, EvUp (mID m) (Some x)]"
| "failed_apply c m st [EvCtx None, EvUp (mID m) None, EvCtx (Some x)]"
| "failed_save c (mark_applied m t st) ev \<Longrightarrow>
     failed_apply c m st ([EvCtx None, EvUp (mID m) None, EvCtx None, EvNow t] @ ev)"

abbreviation apply_events :: "Context \<Rightarrow> Migration \<Rightarrow> int \<Rightarrow> State \<Rightarrow> history" where
  "apply_events c m t st \<equiv>
     [EvCtx None, EvUp (mID m) None, EvCtx None, EvNow t] @ save_events c (mark_applied m t st)"

lemma checkExecutionContext_shape:
  assumes "checkExecutionContext c h = (r, h')"
  obtains (live) "r = None" "h' = h @ [EvCtx None]"
  | (ended) e x where "r = Some e" "h' = h @ [EvCtx (Some x)]"
  using assms by (cases "ctx_Err c h") (auto simp: checkExecutionContext_def Let_def)

lemma apply_one_shape:
  assumes "apply_one R c m st h = (res, h')"
  obtains (succeeded) t where "res = Inr (mark_applied m t st)" "h' = h @ apply_events c m t st"
  | (failed) e ev where "res = Inl e" "h' = h @ ev" "failed_apply c m st ev"
proof -
  obtain r1 h1 where c1: "checkExecutionContext c h = (r1, h1)" by fastforce
  obtain r2 h2 where u: "call_Up m h1 = (r2, h2)" by fastforce
  obtain r3 h3 where c2: "checkExecutionContext c h2 = (r3, h3)" by fastforce
  obtain t h4 where ts: "timestamp R h3 = (t, h4)" by fastforce
  obtain r5 h5 where s: "saveState R c (mark_applied m t st) h4 = (r5, h5)" by fastforce
  have h2: "h2 = h1 @ [EvUp (mID m) r2]" using u by (auto simp: call_Up_def Let_def)
  have h4: "h4 = h3 @ [EvNow t]" using ts by (auto simp: timestamp_def)
  note steps = assms [unfolded apply_one_def c1]
  from c1 show thesis
  proof (cases rule: checkExecutionContext_shape)
    case ended
    with steps show thesis by (auto intro!: failed failed_apply.intros)
  next
    case live
    show thesis
    proof (cases r2)
      case (Some e)
      with steps live u h2 show thesis by (auto intro!: failed failed_apply.intros)
    next
      case None
      from c2 show thesis
      proof (cases rule: checkExecutionContext_shape)
        case ended
        with steps live u h2 c2 None show thesis by (auto intro!: failed failed_apply.intros)
      next
        case live2: live
        have pre: "h4 = h @ [EvCtx None, EvUp (mID m) None, EvCtx None, EvNow t]"
          using live live2 h2 h4 None by simp
        from s show thesis
        proof (cases rule: saveState_shape)
          case saved
          with steps live live2 u c2 ts s None pre show thesis
            by (intro that(1)) (auto simp: Let_def)
        next
          case (failed e ev)
          have "failed_apply c m st ([EvCtx None, EvUp (mID m) None, EvCtx None, EvNow t] @ ev)"
            using failed(3) by (rule failed_apply.intros(4))
          with steps live live2 u c2 ts s None pre failed show thesis
            by (intro that(2)) (auto simp: Let_def)
        qed
      qed
    qed
  qed
qed

section \<open>Effect of one step on the state\<close>

lemma timestamp_of_mark [simp]:
  "timestamp_of (mark_applied m t st) i = (if i = mID m then Some t else timestamp_of st i)"
  "timestamp_of (mark_skipped m t st) i = (if i = mID m then Some t else timestamp_of st i)"
  by (simp_all add: mark_applied_def mark_skipped_def set_checksum_def timestamp_of_def go_map)

lemma timestamp_of_reverted [simp]:
  "timestamp_of (mark_reverted R m st) i = (if i = mID m then None else timestamp_of st i)"
  by (simp add: mark_reverted_def timestamp_of_def go_map Let_def)

lemma skipped_mark [simp]:
  "skipped (mark_applied m t st) i \<longleftrightarrow> i \<noteq> mID m \<and> skipped st i"
  "skipped (mark_skipped m t st) i \<longleftrightarrow> i = mID m \<or> skipped st i"
  "skipped (mark_reverted R m st) i \<longleftrightarrow> i \<noteq> mID m \<and> skipped st i"
  by (auto simp: mark_applied_def mark_skipped_def mark_reverted_def set_checksum_def skipped_def
      go_map Let_def)

lemma applied_mark [simp]:
  "applied (mark_applied m t st) i \<longleftrightarrow> i = mID m \<or> applied st i"
  "applied (mark_skipped m t st) i \<longleftrightarrow> i = mID m \<or> applied st i"
  "applied (mark_reverted R m st) i \<longleftrightarrow> i \<noteq> mID m \<and> applied st i"
  by (auto simp: applied_def)

section \<open>The contract of every loop\<close>

text \<open>
  What each loop promises about the events it adds, whatever the environment answers: it does not
  touch the lock, calls migration functions only where the durable state allows it, checkpoints
  each before the next, saves only with the fence token of its context, and when it succeeds the
  state it returns is the durable one with nothing left unrecorded.
\<close>

definition loop_spec :: "Context \<Rightarrow> State \<Rightarrow> (go_error + State) \<Rightarrow> history \<Rightarrow> bool" where
  "loop_spec c st res ev \<longleftrightarrow> no_locking ev \<and> safe_calls st ev \<and> checkpointed None ev
     \<and> saves_ok (\<lambda>s tok. tok = FenceTokenFromContext c) ev
     \<and> (case res of Inr st' \<Rightarrow> st' = durable st ev \<and> pending_after None ev = None | Inl e \<Rightarrow> True)"

lemma loop_spec_Nil [simp]: "loop_spec c st (Inr st) []"
  by (simp add: loop_spec_def)

lemma loop_spec_append:
  assumes "loop_spec c st (Inr st') a" and "loop_spec c st' res b"
  shows "loop_spec c st res (a @ b)"
  using assms by (auto simp: loop_spec_def split: sum.splits)

lemma loop_spec_apply:
  "\<not> applied st (mID m) \<Longrightarrow> loop_spec c st (Inr (mark_applied m t st)) (apply_events c m t st)"
  by (simp add: loop_spec_def)

lemma loop_spec_failed_save:
  "failed_save c st' ev \<Longrightarrow> loop_spec c st (Inl e) ev"
  by (auto simp: loop_spec_def elim!: failed_save.cases)

lemma loop_spec_failed_apply:
  "failed_apply c m st ev \<Longrightarrow> \<not> applied st (mID m) \<Longrightarrow> loop_spec c st (Inl e) ev"
  by (auto simp: loop_spec_def elim!: failed_save.cases failed_apply.cases)

definition pending_ids :: "State \<Rightarrow> Migration list \<Rightarrow> string list" where
  "pending_ids st ms = map mID (filter (\<lambda>m. \<not> applied st (mID m)) ms)"

lemma pending_ids_cong:
  "(\<And>m. m \<in> set ms \<Longrightarrow> applied st (mID m) = applied st' (mID m)) \<Longrightarrow> pending_ids st ms = pending_ids st' ms"
  by (simp add: pending_ids_def cong: filter_cong)

lemma pending_ids_mark [simp]:
  "mID m \<notin> mID ` set ms \<Longrightarrow> pending_ids (mark_applied m t st) ms = pending_ids st ms"
  by (rule pending_ids_cong) (metis applied_mark(1) imageI)

lemma failed_apply_ids: "failed_apply c m st ev \<Longrightarrow> down_ids ev = [] \<and> (up_ids ev = [] \<or> up_ids ev = [mID m])"
  by (auto elim!: failed_apply.cases failed_save.cases)

text \<open>The trace of the first loop of \<^verbatim>\<open>Run\<close>: its contract, and the order of the calls to Up.\<close>

definition up_order :: "State \<Rightarrow> Migration list \<Rightarrow> (go_error + State) \<Rightarrow> history \<Rightarrow> bool" where
  "up_order st ms res ev \<longleftrightarrow> down_ids ev = [] \<and> prefix (up_ids ev) (pending_ids st ms)
     \<and> (isl res \<or> up_ids ev = pending_ids st ms)"

lemma run_range_spec:
  assumes "run_range R c ms st h = (res, h')" and "distinct (map mID ms)"
  shows "\<exists>ev. h' = h @ ev \<and> loop_spec c st res ev \<and> up_order st ms res ev"
  using assms
proof (induction ms arbitrary: st h)
  case Nil
  then show ?case by (auto simp: up_order_def pending_ids_def)
next
  case (Cons m ms)
  show ?case
  proof (cases "applied st (mID m)")
    case True
    with Cons show ?thesis by (simp add: up_order_def pending_ids_def)
  next
    case False
    obtain r1 h1 where one: "apply_one R c m st h = (r1, h1)" by fastforce
    have pend: "pending_ids st (m # ms) = mID m # pending_ids st ms"
      using False by (simp add: pending_ids_def)
    from one show ?thesis
    proof (cases rule: apply_one_shape)
      case (succeeded t)
      let ?st = "mark_applied m t st"
      have "run_range R c ms ?st h1 = (res, h')"
        using Cons.prems False one succeeded by simp
      from Cons.IH [OF this] Cons.prems(2) obtain ev
        where ev: "h' = h1 @ ev" "loop_spec c ?st res ev" "up_order ?st ms res ev"
        by auto
      from loop_spec_append [OF loop_spec_apply [OF False] ev(2)]
      have "loop_spec c st res (apply_events c m t st @ ev)" .
      moreover have "up_order st (m # ms) res (apply_events c m t st @ ev)"
        using ev(3) Cons.prems(2) by (simp add: up_order_def pend)
      moreover have "h' = h @ (apply_events c m t st @ ev)"
        using succeeded ev(1) by simp
      ultimately show ?thesis by blast
    next
      case (failed e ev)
      then have "res = Inl e" "h' = h @ ev"
        using Cons.prems(1) False one by auto
      moreover have "up_order st (m # ms) (Inl e) ev"
        using failed_apply_ids [OF failed(3)] by (auto simp: up_order_def pend)
      ultimately show ?thesis
        using loop_spec_failed_apply [OF failed(3) False] by blast
    qed
  qed
qed

text \<open>Saving one changed state: the shape shared by the other loops.\<close>

lemma loop_spec_save:
  assumes "saveState R c st' h = (r, h')"
    and "pre = [] \<or> pre = [EvNow t]"
  obtains (saved) ev where "r = None" "h' = h @ ev" "loop_spec c st (Inr st') (pre @ ev)" "up_ids ev = []" "down_ids ev = []"
  | (failed) x ev where "r = Some x" "h' = h @ ev" "\<And>e. loop_spec c st (Inl e) (pre @ ev)" "up_ids ev = []" "down_ids ev = []"
  using assms(1)
proof (cases rule: saveState_shape)
  case saved
  with assms(2) show thesis by (intro that(1)) (auto simp: loop_spec_def)
next
  case (failed x ev)
  with assms(2) show thesis
    by (intro that(2)) (auto simp: loop_spec_def elim!: failed_save.cases)
qed

lemma skip_range_spec:
  assumes "skip_range R c ms st h = (res, h')"
  shows "\<exists>ev. h' = h @ ev \<and> loop_spec c st res ev \<and> up_ids ev = [] \<and> down_ids ev = []"
  using assms
proof (induction ms arbitrary: st h)
  case Nil
  then show ?case by auto
next
  case (Cons m ms)
  show ?case
  proof (cases "applied st (mID m)")
    case True
    with Cons show ?thesis by simp
  next
    case False
    let ?t = "now R h" and ?h = "h @ [EvNow (now R h)]"
    let ?st = "mark_skipped m ?t st"
    obtain r h2 where sv: "saveState R c ?st ?h = (r, h2)" by fastforce
    have step: "skip_range R c (m # ms) st h =
        (case r of Some e \<Rightarrow> (Inl (Errorw ''migration: save skipped %s: %w'' [mID m] e), h2)
                 | None \<Rightarrow> skip_range R c ms ?st h2)"
      using False sv by (auto simp: timestamp_def Let_def split: option.splits)
    have pre: "[EvNow ?t] = [] \<or> [EvNow ?t] = [EvNow ?t]" by simp
    from sv pre show ?thesis
    proof (cases rule: loop_spec_save [where st = st and pre = "[EvNow ?t]" and t = ?t])
      case (saved ev)
      then have "skip_range R c ms ?st h2 = (res, h')" using step Cons.prems by simp
      from Cons.IH [OF this] obtain ev2
        where "h' = h2 @ ev2" "loop_spec c ?st res ev2" "up_ids ev2 = []" "down_ids ev2 = []" by blast
      with saved loop_spec_append [OF saved(3)] show ?thesis
        by (intro exI [of _ "([EvNow ?t] @ ev) @ ev2"]) auto
    next
      case (failed x ev)
      with step Cons.prems show ?thesis
        by (intro exI [of _ "[EvNow ?t] @ ev"]) auto
    qed
  qed
qed

lemma backfill_unchanged: "backfill ms st ch = (st', False) \<Longrightarrow> st' = st \<and> \<not> ch"
  by (induction ms arbitrary: st ch) (fastforce split: if_splits)+

lemma backfillChecksums_spec:
  assumes "backfillChecksums R c st h = (res, h')"
  shows "\<exists>ev. h' = h @ ev \<and> loop_spec c st res ev \<and> up_ids ev = [] \<and> down_ids ev = []"
proof -
  obtain st' ch where bf: "backfill (migrations R) st False = (st', ch)" by fastforce
  show ?thesis
  proof (cases ch)
    case False
    with bf backfill_unchanged [of "migrations R" st False st'] assms show ?thesis
      by (auto simp: backfillChecksums_def)
  next
    case True
    obtain r h2 where sv: "saveState R c st' h = (r, h2)" by fastforce
    note def = assms [unfolded backfillChecksums_def bf]
    have pre: "([]::history) = [] \<or> ([]::history) = [EvNow 0]" by simp
    from sv pre show ?thesis
      by (cases rule: loop_spec_save [where st = st]) (use def sv True in auto)
  qed
qed

section \<open>Reverting\<close>

inductive failed_down :: "Migration \<Rightarrow> history \<Rightarrow> bool" for m where
  "failed_down m [EvCtx (Some x)]"
| "failed_down m [EvCtx None, EvDown (mID m) (Some x)]"
| "failed_down m [EvCtx None, EvDown (mID m) None, EvCtx (Some x)]"

abbreviation down_events :: "Migration \<Rightarrow> history" where
  "down_events m \<equiv> [EvCtx None, EvDown (mID m) None, EvCtx None]"

lemma down_one_shape:
  assumes "down_one c m h = (r, h')"
  obtains (succeeded) "r = None" "h' = h @ down_events m"
  | (failed) e ev where "r = Some e" "h' = h @ ev" "failed_down m ev"
proof -
  obtain r1 h1 where c1: "checkExecutionContext c h = (r1, h1)" by fastforce
  obtain r2 h2 where d: "call_Down m h1 = (r2, h2)" by fastforce
  obtain r3 h3 where c2: "checkExecutionContext c h2 = (r3, h3)" by fastforce
  have h2: "h2 = h1 @ [EvDown (mID m) r2]" using d by (auto simp: call_Down_def Let_def)
  note steps = assms [unfolded down_one_def c1]
  from c1 show thesis
  proof (cases rule: checkExecutionContext_shape)
    case ended
    with steps show thesis by (auto intro!: that(2) failed_down.intros)
  next
    case live
    show thesis
    proof (cases r2)
      case (Some e)
      with steps live d h2 show thesis by (auto intro!: that(2) failed_down.intros)
    next
      case None
      from c2 show thesis
      proof (cases rule: checkExecutionContext_shape)
        case live2: live
        with steps live d h2 c2 None show thesis by (intro that(1)) auto
      next
        case ended
        with steps live d h2 c2 None show thesis by (auto intro!: that(2) failed_down.intros)
      qed
    qed
  qed
qed

text \<open>The migrations whose Down has to run: applied and not merely skipped.\<close>

definition revert_ids :: "State \<Rightarrow> Migration list \<Rightarrow> string list" where
  "revert_ids st ms = map mID (filter (\<lambda>m. applied st (mID m) \<and> \<not> skipped st (mID m)) ms)"

lemma revert_ids_mark [simp]:
  assumes "mID m \<notin> mID ` set ms"
  shows "revert_ids (mark_reverted R m st) ms = revert_ids st ms"
proof -
  have "mID x \<noteq> mID m" if "x \<in> set ms" for x
    using assms that by (metis imageI)
  then show ?thesis by (simp add: revert_ids_def cong: filter_cong)
qed

definition down_order :: "State \<Rightarrow> Migration list \<Rightarrow> (go_error + State) \<Rightarrow> history \<Rightarrow> bool" where
  "down_order st ms res ev \<longleftrightarrow> up_ids ev = [] \<and> prefix (down_ids ev) (revert_ids st ms)
     \<and> (isl res \<or> down_ids ev = revert_ids st ms)"

lemma loop_spec_failed_down:
  "failed_down m ev \<Longrightarrow> applied st (mID m) \<Longrightarrow> \<not> skipped st (mID m) \<Longrightarrow> loop_spec c st (Inl e) ev"
  by (auto simp: loop_spec_def elim!: failed_down.cases)

lemma loop_spec_down_save:
  assumes "saveState R c (mark_reverted R m st) h = (r, h')"
    and "pre = [] \<or> pre = down_events m \<and> applied st (mID m) \<and> \<not> skipped st (mID m)"
  obtains (saved) ev where "r = None" "h' = h @ ev" "loop_spec c st (Inr (mark_reverted R m st)) (pre @ ev)"
      "up_ids ev = []" "down_ids ev = []"
  | (failed) x ev where "r = Some x" "h' = h @ ev" "\<And>e. loop_spec c st (Inl e) (pre @ ev)"
      "up_ids ev = []" "down_ids ev = []"
  using assms(1)
proof (cases rule: saveState_shape)
  case saved
  with assms(2) show thesis by (intro that(1)) (auto simp: loop_spec_def)
next
  case (failed x ev)
  with assms(2) show thesis
    by (intro that(2)) (auto simp: loop_spec_def elim!: failed_save.cases)
qed

lemma revert_range_spec:
  assumes "revert_range R c ms st h = (res, h')" and "distinct (map mID ms)"
  shows "\<exists>ev. h' = h @ ev \<and> loop_spec c st res ev \<and> down_order st ms res ev"
  using assms
proof (induction ms arbitrary: st h)
  case Nil
  then show ?case by (auto simp: down_order_def revert_ids_def)
next
  case (Cons m ms)
  let ?st = "mark_reverted R m st"
  show ?case
  proof (cases "applied st (mID m)")
    case False
    with Cons show ?thesis by (simp add: down_order_def revert_ids_def)
  next
    case True
    obtain r1 h1 where d: "(if skipped st (mID m) then (None, h) else down_one c m h) = (r1, h1)" by fastforce
    obtain r2 h2 where sv: "saveState R c ?st h1 = (r2, h2)" by fastforce
    have step: "revert_range R c (m # ms) st h =
        (case r1 of Some e \<Rightarrow> (Inl e, h1)
           | None \<Rightarrow> (case r2 of
               Some e \<Rightarrow> (Inl (Errorw ''migration: reverted %s but state checkpoint failed: %w'' [mID m] e), h2)
             | None \<Rightarrow> revert_range R c ms ?st h2))"
      using True d sv by (auto simp: Let_def split: option.splits)
    from d consider (fail) e ev where "r1 = Some e" "h1 = h @ ev" "failed_down m ev" "\<not> skipped st (mID m)"
      | (go) pre where "r1 = None" "h1 = h @ pre"
          "pre = [] \<and> skipped st (mID m) \<or> pre = down_events m \<and> \<not> skipped st (mID m)"
      by (cases "skipped st (mID m)") (auto elim: down_one_shape)
    then show ?thesis
    proof cases
      case fail
      have "down_order st (m # ms) (Inl e) ev"
        using fail True by (auto simp: down_order_def revert_ids_def elim!: failed_down.cases)
      with fail step Cons.prems(1) loop_spec_failed_down [OF fail(3) True fail(4)] show ?thesis
        by auto
    next
      case go
      then have ids: "up_ids pre = []" "revert_ids st (m # ms) = down_ids pre @ revert_ids st ms"
        using True by (auto simp: revert_ids_def)
      from go True have pre: "pre = [] \<or> pre = down_events m \<and> applied st (mID m) \<and> \<not> skipped st (mID m)" by auto
      from sv pre show ?thesis
      proof (cases rule: loop_spec_down_save)
        case (saved ev)
        then have "revert_range R c ms ?st h2 = (res, h')" using step go Cons.prems by simp
        from Cons.IH [OF this] Cons.prems(2) obtain ev2
          where ev2: "h' = h2 @ ev2" "loop_spec c ?st res ev2" "down_order ?st ms res ev2" by auto
        have "down_order st (m # ms) res ((pre @ ev) @ ev2)"
          using ev2(3) saved ids Cons.prems(2) by (simp add: down_order_def)
        with saved ev2 go loop_spec_append [OF saved(3) ev2(2)] show ?thesis
          by (intro exI [of _ "(pre @ ev) @ ev2"]) auto
      next
        case (failed x ev)
        have "down_order st (m # ms) (Inl y) (pre @ ev)" for y
          using failed ids by (simp add: down_order_def)
        with failed step go Cons.prems show ?thesis
          by (intro exI [of _ "pre @ ev"]) auto
      qed
    qed
  qed
qed

end
