(* ===== verification/Migration_Validity.thy ===== *)
theory Migration_Validity
  imports Migration_Trace
begin

text \<open>
  Invariants of the runner: what \<^verbatim>\<open>NewRunner\<close> establishes, the durable-state validity that
  \<^verbatim>\<open>validateState\<close> checks and every save keeps, and the bounds of resolved targets.
\<close>

section \<open>What NewRunner establishes\<close>

definition runner_ok :: "Runner \<Rightarrow> bool" where
  "runner_ok R \<longleftrightarrow> migrations R \<noteq> [] \<and> map mID (migrations R) = map ID_String (parsed R)
     \<and> sorted_wrt (<) (parsed R) \<and> list_all ID_ok (parsed R)
     \<and> list_all (\<lambda>m. Up m \<noteq> None) (migrations R)
     \<and> (lease_based (locker R) \<longrightarrow> store_fenced (store R))
     \<and> (fencing_required (store R) \<longrightarrow> lease_based (locker R) \<and> store_fenced (store R))"

text \<open>An entry with its canonical ID.\<close>

definition canonical_entry :: "Migration \<Rightarrow> Migration" where
  "canonical_entry m = (case ParseID (mID m) of Inl e \<Rightarrow> m | Inr i \<Rightarrow> m\<lparr>mID := ID_String i\<rparr>)"

definition entries_ok :: "string list \<Rightarrow> (Migration \<times> ID) list \<Rightarrow> bool" where
  "entries_ok seen es \<longleftrightarrow> (\<forall>(m, i) \<in> set es. mID m = ID_String i \<and> ID_ok i \<and> Up m \<noteq> None)
     \<and> distinct (map (mID \<circ> fst) es) \<and> set (map (mID \<circ> fst) es) = set seen"

lemma collect_entries_ok:
  assumes "collect_entries seen es ms = Inr es'" and "entries_ok seen es"
  shows "\<exists>seen'. entries_ok seen' es' \<and> map fst es' = map fst es @ map canonical_entry ms"
  using assms
proof (induction ms arbitrary: seen es)
  case (Cons m ms)
  obtain i where i: "ParseID (mID m) = Inr i" and up: "Up m \<noteq> None"
    and fresh: "ID_String i \<notin> set seen"
    and rec: "collect_entries (ID_String i # seen) (es @ [(m\<lparr>mID := ID_String i\<rparr>, i)]) ms = Inr es'"
    using Cons.prems(1) by (auto split: sum.splits if_splits)
  have "entries_ok (ID_String i # seen) (es @ [(m\<lparr>mID := ID_String i\<rparr>, i)])"
    using Cons.prems(2) up fresh ParseID_ok [OF i] by (auto simp: entries_ok_def)
  from Cons.IH [OF rec this] show ?case
    by (auto simp: canonical_entry_def i)
qed auto

lemma entries_ok_inj: "entries_ok seen es \<Longrightarrow> distinct (map snd es)"
proof -
  assume ok: "entries_ok seen es"
  then have "map (mID \<circ> fst) es = map ID_String (map snd es)"
    by (auto simp: entries_ok_def)
  with ok show "distinct (map snd es)"
    by (simp add: entries_ok_def distinct_map del: map_map)
qed

lemma NewRunner_establishes:
  assumes "NewRunner ms s l clock = Inr R"
  shows "runner_ok R" and "mset (migrations R) = mset (map canonical_entry ms)"
proof -
  from assms obtain s' l' es where sl: "s = Some s'" "l = Some l'" and ne: "ms \<noteq> []"
    and fence: "check_fencing s' l' = None" and ce: "collect_entries [] [] ms = Inr es"
    and R: "R = \<lparr>migrations = map fst (sort_key snd es), parsed = map snd (sort_key snd es),
      store = s', locker = l', now = clock\<rparr>"
    by (auto simp: NewRunner_def Let_def split: if_splits option.splits sum.splits)
  have "entries_ok [] []" by (simp add: entries_ok_def)
  from collect_entries_ok [OF ce this] obtain seen
    where ok: "entries_ok seen es" and fst: "map fst es = map canonical_entry ms" by auto
  have set: "set (sort_key snd es) = set es" by simp
  have ids: "map mID (map fst (sort_key snd es)) = map ID_String (map snd (sort_key snd es))"
    using ok by (auto simp: entries_ok_def)
  have "distinct (map snd (sort_key snd es))"
    using entries_ok_inj [OF ok] by (metis mset_map mset_sort mset_eq_imp_distinct_iff)
  moreover have "sorted (map snd (sort_key snd es))" by simp
  ultimately have strict: "sorted_wrt (<) (map snd (sort_key snd es))"
    by (simp add: strict_sorted_iff)
  have "list_all ID_ok (map snd (sort_key snd es))" "list_all (\<lambda>m. Up m \<noteq> None) (map fst (sort_key snd es))"
    using ok by (auto simp: entries_ok_def list_all_iff)
  moreover have "es \<noteq> []" using fst ne by auto
  then have "sort_key snd es \<noteq> []" by (metis set set_empty)
  ultimately show "runner_ok R"
    using ids strict fence
    by (auto simp: R runner_ok_def check_fencing_def fencing_required_def split: if_splits option.splits)
  show "mset (migrations R) = mset (map canonical_entry ms)"
    by (simp add: R flip: fst)
qed

lemma NewRunner_fields:
  "NewRunner ms s l clock = Inr R \<Longrightarrow> s = Some (store R) \<and> l = Some (locker R) \<and> now R = clock"
  by (auto simp: NewRunner_def Let_def split: if_splits option.splits sum.splits)

lemma runner_ok_distinct: "runner_ok R \<Longrightarrow> distinct (map mID (migrations R))"
proof -
  assume ok: "runner_ok R"
  then have "distinct (parsed R)"
    by (simp add: runner_ok_def strict_sorted_iff)
  moreover have "inj_on ID_String (set (parsed R))"
    using ok by (auto simp: runner_ok_def list_all_iff intro!: inj_onI ID_String_inj)
  ultimately show "distinct (map mID (migrations R))"
    using ok by (simp add: runner_ok_def distinct_map)
qed

lemma runner_ok_length: "runner_ok R \<Longrightarrow> length (parsed R) = length (migrations R)"
  unfolding runner_ok_def by (metis length_map)

lemma runner_ok_canonical: "runner_ok R \<Longrightarrow> m \<in> set (migrations R) \<Longrightarrow> canonical (mID m)"
proof -
  assume ok: "runner_ok R" and m: "m \<in> set (migrations R)"
  then have "mID m \<in> set (map ID_String (parsed R))"
    unfolding runner_ok_def by (metis imageI image_set)
  then obtain i where "i \<in> set (parsed R)" "mID m = ID_String i" by auto
  with ok show "canonical (mID m)"
    by (simp add: runner_ok_def list_all_iff canonical_def CanonicalID_def ParseID_ID_String)
qed

lemma registered_mem: "distinct (map mID ms) \<Longrightarrow> m \<in> set ms \<Longrightarrow> registered ms (mID m) = Some m"
  by (auto simp: registered_def rev_map [symmetric] comp_def intro!: map_of_is_SomeI)

lemma registered_Some: "registered ms i = Some m \<Longrightarrow> m \<in> set ms \<and> mID m = i"
  unfolding registered_def by (drule map_of_SomeD) auto

section \<open>Valid durable state\<close>

definition valid_state :: "Runner \<Rightarrow> State \<Rightarrow> bool" where
  "valid_state R st \<longleftrightarrow> state_ok st
     \<and> (\<forall>i. applied st i \<longrightarrow> (\<exists>m. registered (migrations R) i = Some m
           \<and> (checksum_of st i = '''' \<or> checksum_of st i = Checksum m)))
     \<and> (\<forall>i. skipped st i \<longrightarrow> applied st i)
     \<and> (\<forall>i. go_get (Checksums st) i \<noteq> None \<longrightarrow> registered (migrations R) i \<noteq> None)"

lemma validate_applied_None:
  "validate_applied ms st m = None \<longleftrightarrow>
     (\<forall>i t. (i, Some t) \<in> set m \<longrightarrow> (\<exists>x. registered ms i = Some x
        \<and> (checksum_of st i = '''' \<or> checksum_of st i = Checksum x)))"
  by (induction ms st m rule: validate_applied.induct) (auto split: option.splits)

lemma validate_skipped_None: "validate_skipped st m = None \<longleftrightarrow> (\<forall>i \<in> fst ` set m. applied st i)"
  by (induction st m rule: validate_skipped.induct) auto

lemma validate_checksums_None: "validate_checksums ms m = None \<longleftrightarrow> (\<forall>i \<in> fst ` set m. registered ms i \<noteq> None)"
  by (induction ms m rule: validate_checksums.induct) auto

lemma applied_iff_mem:
  "gomap_ok (Migrations st) \<Longrightarrow> applied st i \<longleftrightarrow> (\<exists>t. (i, Some t) \<in> set (Migrations st))"
  by (auto simp: applied_def timestamp_of_def go_get_mem split: option.splits)

lemma validateState_iff:
  assumes "state_ok st"
  shows "validateState R st = None \<longleftrightarrow> valid_state R st"
proof -
  have "gomap_ok (Migrations st)"
    using assms by (simp add: state_ok_def canonical_keys_def)
  note mem = applied_iff_mem [OF this]
  have sk: "skipped st i \<longleftrightarrow> i \<in> fst ` set (SkippedMigrations st)" for i
    by (simp add: skipped_def map_of_eq_None_iff)
  have cs: "go_get (Checksums st) i \<noteq> None \<longleftrightarrow> i \<in> fst ` set (Checksums st)" for i
    by (simp add: map_of_eq_None_iff)
  have "validateState R st = None \<longleftrightarrow>
      validate_applied (migrations R) st (Migrations st) = None
      \<and> validate_skipped st (SkippedMigrations st) = None
      \<and> validate_checksums (migrations R) (Checksums st) = None"
    by (auto simp: validateState_def split: option.splits)
  then show ?thesis
    using assms unfolding valid_state_def validate_applied_None validate_skipped_None
      validate_checksums_None sk cs mem by blast
qed

text \<open>
  The runner's own invariant adds that a checksum is recorded only for an applied migration:
  without it a stale checksum of an unapplied migration, which \<^verbatim>\<open>validateState\<close> accepts, would make
  the state invalid once the migration has run.
\<close>

definition durable_inv :: "Runner \<Rightarrow> State \<Rightarrow> bool" where
  "durable_inv R st \<longleftrightarrow> valid_state R st \<and> (\<forall>i. checksum_of st i \<noteq> '''' \<longrightarrow> applied st i)"

lemma durable_inv_NewState: "durable_inv R NewState"
  by (simp add: durable_inv_def valid_state_def NewState_def state_ok_def applied_def timestamp_of_def
      skipped_def checksum_of_def)

lemma checksum_of_mark [simp]:
  "checksum_of (mark_applied m t st) i =
     (if i = mID m \<and> Checksum m \<noteq> '''' then Checksum m else checksum_of st i)"
  "checksum_of (mark_skipped m t st) i =
     (if i = mID m \<and> Checksum m \<noteq> '''' then Checksum m else checksum_of st i)"
  "checksum_of (mark_reverted R m st) i = (if i = mID m then '''' else checksum_of st i)"
  by (simp_all add: mark_applied_def mark_skipped_def mark_reverted_def set_checksum_def
      checksum_of_def go_map Let_def)

lemma Checksums_mark:
  "go_get (Checksums (mark_applied m t st)) i =
     (if i = mID m \<and> Checksum m \<noteq> '''' then Some (Checksum m) else go_get (Checksums st) i)"
  "go_get (Checksums (mark_skipped m t st)) i =
     (if i = mID m \<and> Checksum m \<noteq> '''' then Some (Checksum m) else go_get (Checksums st) i)"
  "go_get (Checksums (mark_reverted R m st)) i = (if i = mID m then None else go_get (Checksums st) i)"
  by (simp_all add: mark_applied_def mark_skipped_def mark_reverted_def set_checksum_def go_map Let_def)

lemma latest_applied_mem:
  "latest_applied st ms = (i, t) \<Longrightarrow> i = '''' \<or> i \<in> mID ` set ms"
  by (induction st ms rule: latest_applied.induct) (auto split: option.splits)

lemma state_ok_mark:
  assumes "state_ok st" and "canonical (mID m)"
  shows "state_ok (mark_applied m t st)" and "state_ok (mark_skipped m t st)"
  using assms by (simp_all add: state_ok_def mark_applied_def mark_skipped_def set_checksum_def)

lemma state_ok_reverted:
  assumes "runner_ok R" and "state_ok st" and "canonical (mID m)"
  shows "state_ok (mark_reverted R m st)"
proof -
  have last: "fst (latestApplied R s) = '''' \<or> canonical (fst (latestApplied R s))" for s
    using latest_applied_mem [of s "rev (migrations R)"] runner_ok_canonical [OF assms(1)]
    by (cases "latestApplied R s") (auto simp: latestApplied_def)
  show ?thesis
    using assms(2,3) last by (simp add: state_ok_def mark_reverted_def Let_def)
qed

lemma state_ok_checksum:
  "state_ok st \<Longrightarrow> canonical i \<Longrightarrow> state_ok (st\<lparr>Checksums := go_set i v (Checksums st)\<rparr>)"
  by (simp add: state_ok_def)

lemma durable_inv_marks:
  assumes R: "runner_ok R" and m: "m \<in> set (migrations R)" and st: "durable_inv R st"
  shows "\<not> applied st (mID m) \<Longrightarrow> durable_inv R (mark_applied m t st)"
    and "\<not> applied st (mID m) \<Longrightarrow> durable_inv R (mark_skipped m t st)"
    and "durable_inv R (mark_reverted R m st)"
proof -
  have reg: "registered (migrations R) (mID m) = Some m"
    using runner_ok_distinct [OF R] m by (rule registered_mem)
  have can: "canonical (mID m)" using R m by (rule runner_ok_canonical)
  have ok: "state_ok st" using st by (simp add: durable_inv_def valid_state_def)
  note defs = durable_inv_def valid_state_def Checksums_mark
  show "durable_inv R (mark_applied m t st)" if "\<not> applied st (mID m)"
    using st that reg state_ok_mark [OF ok can] by (auto simp: defs)
  show "durable_inv R (mark_skipped m t st)" if "\<not> applied st (mID m)"
    using st that reg state_ok_mark [OF ok can] by (auto simp: defs)
  show "durable_inv R (mark_reverted R m st)"
    using st reg state_ok_reverted [OF R ok can] by (auto simp: defs)
qed

lemma durable_inv_backfill:
  assumes R: "runner_ok R" and m: "m \<in> set (migrations R)" and st: "durable_inv R st"
    and "applied st (mID m)"
  shows "durable_inv R (st\<lparr>Checksums := go_set (mID m) (Checksum m) (Checksums st)\<rparr>)"
proof -
  let ?st = "st\<lparr>Checksums := go_set (mID m) (Checksum m) (Checksums st)\<rparr>"
  have reg: "registered (migrations R) (mID m) = Some m"
    using runner_ok_distinct [OF R] m by (rule registered_mem)
  have can: "canonical (mID m)" using R m by (rule runner_ok_canonical)
  have ap: "applied ?st = applied st" "skipped ?st = skipped st"
    by (simp_all add: applied_def skipped_def fun_eq_iff)
  have cs: "checksum_of ?st i = (if i = mID m then Checksum m else checksum_of st i)" for i
    by (simp add: checksum_of_def go_map)
  show ?thesis
    using assms(4) st reg state_ok_checksum [OF _ can]
    by (auto simp: durable_inv_def valid_state_def ap cs go_map)
qed

section \<open>Invariants of saved state\<close>

text \<open>
  The interface between the operations on the state and the loops that save it: a predicate that
  every change of the state keeps holds of every state the loops hand to the store.
\<close>

locale saved_invariant =
  fixes R :: Runner and P :: "State \<Rightarrow> bool"
  assumes keeps_applied: "m \<in> set (migrations R) \<Longrightarrow> \<not> applied st (mID m) \<Longrightarrow> P st \<Longrightarrow> P (mark_applied m t st)"
    and keeps_skipped: "m \<in> set (migrations R) \<Longrightarrow> \<not> applied st (mID m) \<Longrightarrow> P st \<Longrightarrow> P (mark_skipped m t st)"
    and keeps_reverted: "m \<in> set (migrations R) \<Longrightarrow> P st \<Longrightarrow> P (mark_reverted R m st)"
    and keeps_checksum: "m \<in> set (migrations R) \<Longrightarrow> applied st (mID m) \<Longrightarrow> P st \<Longrightarrow>
      P (st\<lparr>Checksums := go_set (mID m) (Checksum m) (Checksums st)\<rparr>)"
begin

abbreviation saves_P :: "history \<Rightarrow> bool" where
  "saves_P \<equiv> saves_ok (\<lambda>s tok. P s)"

abbreviation result_P :: "(go_error + State) \<Rightarrow> bool" where
  "result_P res \<equiv> (case res of Inr st \<Rightarrow> P st | Inl e \<Rightarrow> True)"

lemma saveState_keeps:
  assumes "saveState R c st h = (r, h')" and "P st"
  shows "\<exists>ev. h' = h @ ev \<and> saves_P ev"
  using assms by (auto elim!: saveState_shape failed_save.cases)

lemma apply_one_keeps:
  assumes "apply_one R c m st h = (res, h')" and "m \<in> set (migrations R)"
    and "\<not> applied st (mID m)" and "P st"
  shows "\<exists>ev. h' = h @ ev \<and> saves_P ev \<and> result_P res"
  using assms(1)
proof (cases rule: apply_one_shape)
  case (succeeded t)
  with keeps_applied [OF assms(2-4)] show ?thesis by auto
next
  case (failed e ev)
  with keeps_applied [OF assms(2-4)] show ?thesis
    by (auto elim!: failed_apply.cases failed_save.cases)
qed

lemma run_range_keeps:
  assumes "run_range R c ms st h = (res, h')" and "set ms \<subseteq> set (migrations R)" and "P st"
  shows "\<exists>ev. h' = h @ ev \<and> saves_P ev \<and> result_P res"
  using assms
proof (induction ms arbitrary: st h)
  case (Cons m ms)
  show ?case
  proof (cases "applied st (mID m)")
    case False
    obtain r1 h1 where one: "apply_one R c m st h = (r1, h1)" by fastforce
    from apply_one_keeps [OF one _ False Cons.prems(3)] Cons.prems(2)
    obtain ev where ev: "h1 = h @ ev" "saves_P ev" "result_P r1" by auto
    show ?thesis
    proof (cases r1)
      case (Inl e)
      with Cons.prems(1) False one ev show ?thesis by auto
    next
      case (Inr st')
      with Cons.prems False one have "run_range R c ms st' h1 = (res, h')" by simp
      from Cons.IH [OF this] Cons.prems(2) ev Inr show ?thesis by auto
    qed
  qed (use Cons in auto)
qed auto

lemma skip_range_keeps:
  assumes "skip_range R c ms st h = (res, h')" and "set ms \<subseteq> set (migrations R)" and "P st"
  shows "\<exists>ev. h' = h @ ev \<and> saves_P ev \<and> result_P res"
  using assms
proof (induction ms arbitrary: st h)
  case (Cons m ms)
  show ?case
  proof (cases "applied st (mID m)")
    case False
    let ?st = "mark_skipped m (now R h) st"
    obtain r h2 where sv: "saveState R c ?st (h @ [EvNow (now R h)]) = (r, h2)" by fastforce
    have P: "P ?st" using Cons.prems False by (auto intro: keeps_skipped)
    from saveState_keeps [OF sv P] obtain ev where ev: "h2 = (h @ [EvNow (now R h)]) @ ev" "saves_P ev" by auto
    show ?thesis
    proof (cases r)
      case (Some e)
      with Cons.prems(1) False sv ev show ?thesis by (auto simp: timestamp_def Let_def)
    next
      case None
      with Cons.prems(1) False sv have "skip_range R c ms ?st h2 = (res, h')"
        by (simp add: timestamp_def Let_def)
      from Cons.IH [OF this _ P] Cons.prems(2) ev show ?thesis by auto
    qed
  qed (use Cons in auto)
qed auto

lemma revert_range_keeps:
  assumes "revert_range R c ms st h = (res, h')" and "set ms \<subseteq> set (migrations R)" and "P st"
  shows "\<exists>ev. h' = h @ ev \<and> saves_P ev \<and> result_P res"
  using assms
proof (induction ms arbitrary: st h)
  case (Cons m ms)
  show ?case
  proof (cases "applied st (mID m)")
    case True
    let ?st = "mark_reverted R m st"
    obtain r1 h1 where d: "(if skipped st (mID m) then (None, h) else down_one c m h) = (r1, h1)" by fastforce
    then obtain pre where pre: "h1 = h @ pre" "saves_P pre"
      by (cases "skipped st (mID m)") (auto elim!: down_one_shape failed_down.cases)
    obtain r2 h2 where sv: "saveState R c ?st h1 = (r2, h2)" by fastforce
    have P: "P ?st" using Cons.prems by (auto intro: keeps_reverted)
    from saveState_keeps [OF sv P] obtain ev where ev: "h2 = h1 @ ev" "saves_P ev" by auto
    show ?thesis
    proof (cases "r1 = None \<and> r2 = None")
      case False
      then show ?thesis
        using Cons.prems(1) True d sv pre ev by (cases r1; cases r2) (auto simp: Let_def)
    next
      case r: True
      with Cons.prems(1) True d sv have "revert_range R c ms ?st h2 = (res, h')"
        by (simp add: Let_def)
      from Cons.IH [OF this _ P] Cons.prems(2) ev pre show ?thesis by auto
    qed
  qed (use Cons in auto)
qed auto

lemma backfill_keeps:
  "backfill ms st ch = (st', ch') \<Longrightarrow> set ms \<subseteq> set (migrations R) \<Longrightarrow> P st \<Longrightarrow> P st'"
  by (induction ms arbitrary: st ch) (auto split: if_splits intro: keeps_checksum)

lemma backfillChecksums_keeps:
  assumes "backfillChecksums R c st h = (res, h')" and "P st"
  shows "\<exists>ev. h' = h @ ev \<and> saves_P ev \<and> result_P res"
proof -
  obtain st' ch where bf: "backfill (migrations R) st False = (st', ch)" by fastforce
  from backfill_keeps [OF bf _ assms(2)] have P: "P st'" by simp
  show ?thesis
  proof (cases ch)
    case False
    with assms(1) bf P show ?thesis by (auto simp: backfillChecksums_def)
  next
    case True
    obtain r h2 where sv: "saveState R c st' h = (r, h2)" by fastforce
    from saveState_keeps [OF sv P] assms(1) bf True sv P show ?thesis
      by (cases r) (auto simp: backfillChecksums_def)
  qed
qed

end

interpretation valid_saves: saved_invariant R "\<lambda>st. runner_ok R \<longrightarrow> durable_inv R st" for R
  by unfold_locales (auto intro: durable_inv_marks durable_inv_backfill)

end
