(* ===== verification/Migration_Ops.thy ===== *)
theory Migration_Ops
  imports Migration_Validity
begin

text \<open>
  The operations as wholes: what a successful loop leaves in the state, the bounds of resolved
  targets, loading, locking, and the contract every public operation satisfies.
\<close>

section \<open>Results of the loops\<close>

lemma run_range_result:
  assumes "run_range R c ms st h = (Inr st', h')"
  shows "(applied st' i \<longleftrightarrow> applied st i \<or> i \<in> mID ` set ms)
    \<and> (applied st i \<longrightarrow> timestamp_of st' i = timestamp_of st i)
    \<and> (skipped st' i \<longleftrightarrow> skipped st i \<and> (applied st i \<or> i \<notin> mID ` set ms))"
  using assms
proof (induction ms arbitrary: st h)
  case (Cons m ms)
  show ?case
  proof (cases "applied st (mID m)")
    case True
    with Cons.prems have "run_range R c ms st h = (Inr st', h')" by simp
    from Cons.IH [OF this] True show ?thesis by auto
  next
    case False
    obtain r1 h1 where one: "apply_one R c m st h = (r1, h1)" by fastforce
    with Cons.prems False obtain st1 where r1: "r1 = Inr st1"
      by (cases r1) auto
    from one r1 obtain t where st1: "st1 = mark_applied m t st"
      by (auto elim: apply_one_shape)
    have rec: "run_range R c ms st1 h1 = (Inr st', h')"
      using Cons.prems False one r1 by simp
    from Cons.IH [OF rec] False show ?thesis by (auto simp: st1)
  qed
qed auto

lemma skip_range_result:
  assumes "skip_range R c ms st h = (Inr st', h')"
  shows "(applied st' i \<longleftrightarrow> applied st i \<or> i \<in> mID ` set ms)
    \<and> (applied st i \<longrightarrow> timestamp_of st' i = timestamp_of st i)
    \<and> (skipped st' i \<longleftrightarrow> skipped st i \<or> (\<not> applied st i \<and> i \<in> mID ` set ms))"
  using assms
proof (induction ms arbitrary: st h)
  case (Cons m ms)
  show ?case
  proof (cases "applied st (mID m)")
    case True
    with Cons.prems have "skip_range R c ms st h = (Inr st', h')" by simp
    from Cons.IH [OF this] True show ?thesis by auto
  next
    case False
    let ?st = "mark_skipped m (now R h) st"
    obtain r h2 where sv: "saveState R c ?st (h @ [EvNow (now R h)]) = (r, h2)" by fastforce
    have rec: "skip_range R c ms ?st h2 = (Inr st', h')"
      using Cons.prems False sv by (cases r) (auto simp: timestamp_def Let_def)
    from Cons.IH [OF rec] False show ?thesis by auto
  qed
qed auto

lemma revert_range_result:
  assumes "revert_range R c ms st h = (Inr st', h')"
  shows "timestamp_of st' i = (if i \<in> mID ` set ms then None else timestamp_of st i)
    \<and> ((skipped st i \<longrightarrow> applied st i) \<longrightarrow> (skipped st' i \<longleftrightarrow> skipped st i \<and> i \<notin> mID ` set ms))"
  using assms
proof (induction ms arbitrary: st h)
  case (Cons m ms)
  show ?case
  proof (cases "applied st (mID m)")
    case False
    with Cons.prems have "revert_range R c ms st h = (Inr st', h')" by simp
    from Cons.IH [OF this] False show ?thesis by (auto simp: applied_def)
  next
    case True
    let ?st = "mark_reverted R m st"
    obtain r1 h1 where d: "(if skipped st (mID m) then (None, h) else down_one c m h) = (r1, h1)" by fastforce
    obtain r2 h2 where sv: "saveState R c ?st h1 = (r2, h2)" by fastforce
    have rec: "revert_range R c ms ?st h2 = (Inr st', h')"
      using Cons.prems True d sv by (cases r1; cases r2) (auto simp: Let_def)
    from Cons.IH [OF rec] show ?thesis by (auto simp: applied_def)
  qed
qed auto

lemma backfill_result:
  "backfill ms st ch = (st', ch') \<Longrightarrow> timestamp_of st' = timestamp_of st \<and> skipped st' = skipped st"
  by (induction ms arbitrary: st ch) (fastforce simp: skipped_def fun_eq_iff split: if_splits)+

lemma backfillChecksums_result:
  assumes "backfillChecksums R c st h = (Inr st', h')"
  shows "timestamp_of st' = timestamp_of st" and "skipped st' = skipped st"
  using assms backfill_result [of "migrations R" st False]
  by (auto simp: backfillChecksums_def split: prod.splits option.splits if_splits)

section \<open>Resolved targets\<close>

lemma version_scan_bounds:
  "version_scan f v i match ds = Some k \<Longrightarrow> match = Some k \<or> (i \<le> k \<and> k < i + length ds \<and> ID_Version (ds ! (k - i)) = v)"
proof (induction f v i match ds rule: version_scan.induct)
  case (2 first v i match d ds)
  show ?case
  proof (cases "ID_Version d = v")
    case False
    with "2.IH"(1) "2.prems" show ?thesis by (auto simp: nth_Cons' Suc_diff_le)
  next
    case True
    with "2.IH"(2) "2.prems" show ?thesis by (cases first) (auto simp: nth_Cons' Suc_diff_le)
  qed
qed auto

lemma index_of_id_bounds:
  "index_of_id c i ms = Some k \<Longrightarrow> i \<le> k \<and> k < i + length ms \<and> mID (ms ! (k - i)) = c"
  by (induction c i ms rule: index_of_id.induct) (auto simp: nth_Cons' Suc_diff_le split: if_splits)

lemma resolveTarget_Inr:
  assumes "resolveTarget R t f = Inr k"
  obtains (latest) "k = length (migrations R) - 1"
  | (version) v where "version_scan f v 0 None (parsed R) = Some k"
  | (exact) c where "index_of_id c 0 (migrations R) = Some k"
proof -
  note unf = assms [unfolded resolveTarget_def Let_def]
  show thesis
  proof (cases "TrimSpace t = [] \<or> equal_fold_lit (TrimSpace t) ''latest''")
    case True
    then show thesis using unf by (intro latest) (simp only: if_True sum.inject)
  next
    case False
    note unf1 = unf [unfolded if_not_P [OF False]]
    show thesis
    proof (cases "versionPattern (TrimSpace t)")
      case None
      note unf2 = unf1 [unfolded None option.case]
      show thesis
      proof (cases "CanonicalID (TrimSpace t)")
        case (Inr c)
        with unf2 show thesis by (cases "index_of_id c 0 (migrations R)") (auto intro: exact)
      qed (use unf2 in simp)
    next
      case (Some abp)
      obtain a b p where abp: "abp = (a, b, p)" by (cases abp)
      note unf2 = unf1 [unfolded Some abp option.case prod.case]
      let ?v = "''v'' @ itoa (ParseUint_value a) @ ''.'' @ itoa (ParseUint_value b) @ ''.'' @ itoa (ParseUint_value p)"
      from unf2 show thesis
        by (cases "version_scan f ?v 0 None (parsed R)") (simp_all only: option.case sum.distinct sum.inject version)
    qed
  qed
qed

lemma resolveTarget_bounds:
  assumes "runner_ok R" and "resolveTarget R t f = Inr k"
  shows "k < length (migrations R)"
  using assms(2)
proof (cases rule: resolveTarget_Inr)
  case latest
  then show ?thesis using assms(1) by (simp add: runner_ok_def)
next
  case (version v)
  from version_scan_bounds [OF this] show ?thesis by (simp add: runner_ok_length [OF assms(1)])
next
  case (exact c)
  from index_of_id_bounds [OF this] show ?thesis by simp
qed

lemma resolveRunRange_bounds:
  assumes "runner_ok R" and "resolveRunRange R opts = Inr (from, to)"
  shows "from \<le> to" and "to < length (migrations R)"
  using assms resolveTarget_bounds [OF assms(1)]
  by (auto simp: resolveRunRange_def split: sum.splits if_splits)

lemma set_range:
  assumes "from \<le> to" and "to < length ms"
  shows "set (take (Suc to - from) (drop from ms)) \<union> set (take from ms) = set (take (Suc to) ms)"
proof -
  have "take (Suc to) ms = take from ms @ take (Suc to - from) (drop from ms)"
    using assms by (metis add_diff_inverse_nat le_SucI not_le take_add)
  then show ?thesis by auto
qed

section \<open>Loading\<close>

definition quiet :: "history \<Rightarrow> bool" where
  "quiet ev \<longleftrightarrow> list_all (\<lambda>e. case e of EvCtx _ \<Rightarrow> True | EvLoad _ \<Rightarrow> True | _ \<Rightarrow> False) ev"

lemma quiet_simps:
  assumes "quiet ev"
  shows "durable st ev = st" "safe_calls st ev" "checkpointed None ev" "up_ids ev = []" "down_ids ev = []"
    "saves_ok P ev" "no_locking ev" "pending_after p ev = p"
  using assms by (induction ev arbitrary: st) (auto simp: quiet_def split: event.splits)

lemma loadState_shape:
  assumes "loadState R ctx h = (r, h')"
  obtains (loaded) st0 st where "r = Inr st" "h' = h @ [EvCtx None, EvLoad None]" "state_ok st"
      "store_Load (store R) (h @ [EvCtx None]) = Inr st0" "normalize st0 = Inr st"
  | (failed) e ev where "r = Inl e" "h' = h @ ev" "quiet ev"
proof -
  let ?c = "case ctx of None \<Rightarrow> Background | Some c \<Rightarrow> c"
  show thesis
  proof (cases "ctx_Err ?c h")
    case (Some x)
    with assms show thesis
      by (intro failed [of _ "[EvCtx (Some x)]"]) (auto simp: loadState_def checkExecutionContext_def quiet_def)
  next
    case None
    note unf = assms [unfolded loadState_def checkExecutionContext_def Let_def None, simplified]
    show thesis
    proof (cases "store_Load (store R) (h @ [EvCtx None])")
      case (Inl e)
      with unf show thesis
        by (intro failed [of e "[EvCtx None, EvLoad (Some e)]"]) (auto simp: quiet_def)
    next
      case loaded0: (Inr st0)
      show thesis
      proof (cases "normalize st0")
        case (Inl e)
        with unf loaded0 show thesis
          by (intro failed [of "Errorw ''migration: normalize state: %w'' [] e" "[EvCtx None, EvLoad None]"])
            (auto simp: quiet_def)
      next
        case (Inr st)
        with unf loaded0 show thesis
          by (intro loaded [of st st0]) (auto intro: normalize_state_ok)
      qed
    qed
  qed
qed

section \<open>The contract of an operation\<close>

text \<open>
  \<open>op_spec\<close> relates the events of an operation to the state \<open>st\<close> it loaded: no operation touches
  the lock, each calls migration functions safely and checkpoints them, saves with the fence token
  of its context only, saves only well-formed states, and keeps the runner's invariant.
\<close>

interpretation ok_saves: saved_invariant R "\<lambda>st. runner_ok R \<longrightarrow> state_ok st" for R
  by unfold_locales
    (auto intro: state_ok_mark state_ok_reverted state_ok_checksum runner_ok_canonical)

definition op_spec :: "Runner \<Rightarrow> Context \<Rightarrow> State \<Rightarrow> history \<Rightarrow> bool" where
  "op_spec R c st ev \<longleftrightarrow> no_locking ev \<and> safe_calls st ev \<and> checkpointed None ev
     \<and> saves_ok (\<lambda>s tok. tok = FenceTokenFromContext c) ev
     \<and> saves_ok (\<lambda>s tok. state_ok s) ev
     \<and> (durable_inv R st \<longrightarrow> saves_ok (\<lambda>s tok. durable_inv R s) ev)"

lemma op_spec_Nil [simp]: "op_spec R c st []"
  by (simp add: op_spec_def)

text \<open>
  One loop of an operation, with its effect on the two invariants of saved state.
\<close>

definition piece :: "Runner \<Rightarrow> Context \<Rightarrow> State \<Rightarrow> (go_error + State) \<Rightarrow> history \<Rightarrow> bool" where
  "piece R c st res ev \<longleftrightarrow> loop_spec c st res ev
     \<and> saves_ok (\<lambda>s tok. state_ok s) ev \<and> (case res of Inr s \<Rightarrow> state_ok s | Inl e \<Rightarrow> True)
     \<and> (durable_inv R st \<longrightarrow> saves_ok (\<lambda>s tok. durable_inv R s) ev
          \<and> (case res of Inr s \<Rightarrow> durable_inv R s | Inl e \<Rightarrow> True))"

lemma piece_op_spec: "piece R c st res ev \<Longrightarrow> op_spec R c st ev"
  by (simp add: piece_def op_spec_def loop_spec_def)

lemma piece_append:
  assumes "piece R c st (Inr st') a" and "piece R c st' res b"
  shows "piece R c st res (a @ b)"
  using assms loop_spec_append [of c st st' a res b] by (auto simp: piece_def)

lemma backfillChecksums_piece:
  assumes "backfillChecksums R c st h = (res, h')" and "runner_ok R" and "state_ok st"
  shows "\<exists>ev. h' = h @ ev \<and> piece R c st res ev \<and> up_ids ev = [] \<and> down_ids ev = []"
  using backfillChecksums_spec [OF assms(1)] valid_saves.backfillChecksums_keeps [OF assms(1)]
    ok_saves.backfillChecksums_keeps [OF assms(1)] assms(2,3)
  by (cases res) (auto simp: piece_def)

lemma run_range_piece:
  assumes "run_range R c ms st h = (res, h')" and "runner_ok R" and "state_ok st"
    and "distinct (map mID ms)" and "set ms \<subseteq> set (migrations R)"
  shows "\<exists>ev. h' = h @ ev \<and> piece R c st res ev \<and> up_order st ms res ev"
  using run_range_spec [OF assms(1,4)] valid_saves.run_range_keeps [OF assms(1,5)]
    ok_saves.run_range_keeps [OF assms(1,5)] assms(2,3)
  by (cases res) (auto simp: piece_def)

lemma skip_range_piece:
  assumes "skip_range R c ms st h = (res, h')" and "runner_ok R" and "state_ok st"
    and "set ms \<subseteq> set (migrations R)"
  shows "\<exists>ev. h' = h @ ev \<and> piece R c st res ev \<and> up_ids ev = [] \<and> down_ids ev = []"
  using skip_range_spec [OF assms(1)] valid_saves.skip_range_keeps [OF assms(1,4)]
    ok_saves.skip_range_keeps [OF assms(1,4)] assms(2,3)
  by (cases res) (auto simp: piece_def)

lemma revert_range_piece:
  assumes "revert_range R c ms st h = (res, h')" and "runner_ok R" and "state_ok st"
    and "distinct (map mID ms)" and "set ms \<subseteq> set (migrations R)"
  shows "\<exists>ev. h' = h @ ev \<and> piece R c st res ev \<and> down_order st ms res ev"
  using revert_range_spec [OF assms(1,4)] valid_saves.revert_range_keeps [OF assms(1,5)]
    ok_saves.revert_range_keeps [OF assms(1,5)] assms(2,3)
  by (cases res) (auto simp: piece_def)

section \<open>Run, Revert and RevertOne under the lock\<close>

lemma slices:
  "set (take n (drop k ms)) \<subseteq> set ms" "set (take n ms) \<subseteq> set ms" "set (rev (drop k ms)) \<subseteq> set ms"
  by (meson in_set_dropD in_set_takeD subsetI, meson in_set_takeD subsetI, auto dest: in_set_dropD)

lemma distinct_slices:
  "distinct (map mID ms) \<Longrightarrow> distinct (map mID (take n (drop k ms)))"
  "distinct (map mID ms) \<Longrightarrow> distinct (map mID (rev (drop k ms)))"
  by (metis distinct_drop distinct_take drop_map take_map)
    (metis distinct_drop distinct_rev drop_map rev_map)

text \<open>The migrations Run applies, and what it leaves behind when it succeeds.\<close>

definition run_slice :: "Runner \<Rightarrow> nat \<Rightarrow> nat \<Rightarrow> Migration list" where
  "run_slice R from to = take (Suc to - from) (drop from (migrations R))"

lemma run_slice_ok:
  assumes "runner_ok R"
  shows "distinct (map mID (run_slice R from to))" and "set (run_slice R from to) \<subseteq> set (migrations R)"
  unfolding run_slice_def by (rule distinct_slices(1) [OF runner_ok_distinct [OF assms]]) (rule slices(1))

definition run_outcome :: "Runner \<Rightarrow> nat \<Rightarrow> nat \<Rightarrow> State \<Rightarrow> State \<Rightarrow> bool" where
  "run_outcome R from to st st' \<longleftrightarrow>
     (\<forall>i. (applied st' i \<longleftrightarrow> applied st i \<or> i \<in> mID ` set (take (Suc to) (migrations R)))
        \<and> (applied st i \<longrightarrow> timestamp_of st' i = timestamp_of st i)
        \<and> (skipped st' i \<longleftrightarrow>
             (skipped st i \<and> (applied st i \<or> i \<notin> mID ` set (run_slice R from to)))
             \<or> (\<not> applied st i \<and> i \<notin> mID ` set (run_slice R from to)
                 \<and> i \<in> mID ` set (take from (migrations R)))))"

definition run_trace :: "Runner \<Rightarrow> nat \<Rightarrow> nat \<Rightarrow> State \<Rightarrow> (go_error + Status list) \<Rightarrow> history \<Rightarrow> bool" where
  "run_trace R from to st res ev \<longleftrightarrow> down_ids ev = []
     \<and> prefix (up_ids ev) (pending_ids st (run_slice R from to))
     \<and> (case res of
          Inl e \<Rightarrow> True
        | Inr sts \<Rightarrow> up_ids ev = pending_ids st (run_slice R from to)
            \<and> sts = statuses R (durable st ev) \<and> run_outcome R from to st (durable st ev))"

lemma pending_ids_timestamps: "timestamp_of st' = timestamp_of st \<Longrightarrow> pending_ids st' ms = pending_ids st ms"
  by (simp add: pending_ids_def applied_def)

lemma run_loops:
  assumes R: "runner_ok R" and st: "state_ok st" and bounds: "from \<le> to" "to < length (migrations R)"
    and bf: "backfillChecksums R c st h = (Inr st2, h2)"
    and rr: "run_range R c (run_slice R from to) st2 h2 = (r3, h3)"
  obtains (failed) e ev where "r3 = Inl e" "h3 = h @ ev" "op_spec R c st ev" "\<And>e. run_trace R from to st (Inl e) ev"
  | (ran) st3 ev where "r3 = Inr st3" "h3 = h @ ev" "piece R c st (Inr st3) ev"
      "up_ids ev = pending_ids st (run_slice R from to)" "down_ids ev = []"
proof -
  obtain a where a: "h2 = h @ a" "piece R c st (Inr st2) a" "up_ids a = []" "down_ids a = []"
    using backfillChecksums_piece [OF bf R st] by blast
  have st2: "state_ok st2" using a(2) by (simp add: piece_def)
  have pend: "pending_ids st2 ms = pending_ids st ms" for ms
    by (rule pending_ids_timestamps) (rule backfillChecksums_result [OF bf])
  obtain b where b: "h3 = h2 @ b" "piece R c st2 r3 b" "up_order st2 (run_slice R from to) r3 b"
    using run_range_piece [OF rr R st2 run_slice_ok [OF R]] by blast
  note ab = piece_append [OF a(2) b(2)]
  show thesis
  proof (cases r3)
    case (Inl e)
    with a b ab pend show thesis
      by (intro failed [of e "a @ b"]) (auto simp: run_trace_def up_order_def piece_op_spec)
  next
    case (Inr st3)
    with a b ab pend show thesis
      by (intro ran [of st3 "a @ b"]) (auto simp: up_order_def)
  qed
qed

lemma run_outcomeI:
  assumes "from \<le> to" and "to < length (migrations R)"
    and "backfillChecksums R c st h = (Inr st2, h2)"
    and "run_range R c (run_slice R from to) st2 h2 = (Inr st3, h3)"
    and "skip_range R c (take from (migrations R)) st3 h3 = (Inr st4, h4)"
  shows "run_outcome R from to st st4"
proof -
  have "applied st2 = applied st" and bf: "timestamp_of st2 = timestamp_of st" "skipped st2 = skipped st"
    using backfillChecksums_result [OF assms(3)] by (simp_all add: applied_def fun_eq_iff)
  moreover have "mID ` set (take (Suc to) (migrations R)) =
      mID ` set (run_slice R from to) \<union> mID ` set (take from (migrations R))"
    using set_range [OF assms(1,2)] by (simp add: run_slice_def flip: image_Un)
  ultimately show ?thesis
    unfolding run_outcome_def
    using run_range_result [OF assms(4)] skip_range_result [OF assms(5)] by auto
qed

text \<open>The loops of Run, from the loaded and validated state on.\<close>

lemma run_body:
  assumes R: "runner_ok R" and st: "state_ok st" and bounds: "from \<le> to" "to < length (migrations R)"
    and op: "(case backfillChecksums R c st h of
        (Inl e, h2) \<Rightarrow> (Inl e, h2)
      | (Inr st2, h2) \<Rightarrow>
     (case run_range R c (run_slice R from to) st2 h2 of
        (Inl e, h3) \<Rightarrow> (Inl e, h3)
      | (Inr st3, h3) \<Rightarrow>
     (case skip_range R c (take from (migrations R)) st3 h3 of
        (Inl e, h4) \<Rightarrow> (Inl e, h4)
      | (Inr st4, h4) \<Rightarrow> (Inr (statuses R st4), h4)))) = (res, h')"
  shows "\<exists>ev. h' = h @ ev \<and> op_spec R c st ev \<and> run_trace R from to st res ev"
proof -
  obtain r2 h2 where bf: "backfillChecksums R c st h = (r2, h2)" by fastforce
  show ?thesis
  proof (cases r2)
    case (Inl e)
    with op bf have "res = Inl e" "h' = h2" by auto
    with backfillChecksums_piece [OF bf R st] show ?thesis
      by (auto simp: run_trace_def intro: piece_op_spec)
  next
    case (Inr st2)
    note bf = bf [unfolded Inr]
    obtain r3 h3 where rr: "run_range R c (run_slice R from to) st2 h2 = (r3, h3)" by fastforce
    from R st bounds bf rr show ?thesis
    proof (cases rule: run_loops)
      case (failed e ev)
      with op bf rr have "res = Inl e" "h' = h @ ev" by auto
      with failed show ?thesis by auto
    next
      case (ran st3 a)
      obtain r4 h4 where sk: "skip_range R c (take from (migrations R)) st3 h3 = (r4, h4)" by fastforce
      have "state_ok st3" using ran(3) by (simp add: piece_def)
      then obtain b where b: "h4 = h3 @ b" "piece R c st3 r4 b" "up_ids b = []" "down_ids b = []"
        using skip_range_piece [OF sk R _ slices(2)] by blast
      note ab = piece_append [OF ran(3) b(2)]
      have h': "h' = h @ (a @ b)" using op bf rr sk ran(1,2) b(1) by (cases r4) auto
      have "run_trace R from to st res (a @ b)"
      proof (cases r4)
        case (Inl e)
        then show ?thesis using op bf rr sk ran b by (auto simp: run_trace_def)
      next
        case (Inr st4)
        have "durable st (a @ b) = st4" using ab Inr by (simp add: piece_def loop_spec_def)
        moreover have "run_outcome R from to st st4"
          using run_outcomeI [OF bounds bf] rr sk ran(1) Inr by simp
        ultimately show ?thesis using op bf rr sk ran b Inr by (auto simp: run_trace_def)
      qed
      with h' piece_op_spec [OF ab] show ?thesis by blast
    qed
  qed
qed

text \<open>What any operation does between acquiring and releasing the lock.\<close>

definition op_trace :: "Runner \<Rightarrow> Context \<Rightarrow> (State \<Rightarrow> history \<Rightarrow> bool) \<Rightarrow> history \<Rightarrow> history \<Rightarrow> bool" where
  "op_trace R c Q h h' \<longleftrightarrow>
     (\<exists>st0 st ev. store_Load (store R) (h @ [EvCtx None]) = Inr st0 \<and> normalize st0 = Inr st
        \<and> validateState R st = None \<and> h' = h @ [EvCtx None, EvLoad None] @ ev \<and> op_spec R c st ev \<and> Q st ev)"

lemma run_op_trace:
  assumes R: "runner_ok R" and op: "run_op R opts c h = (res, h')"
  shows "(\<exists>ev e. res = Inl e \<and> h' = h @ ev \<and> quiet ev)
    \<or> (\<exists>from to. resolveRunRange R opts = Inr (from, to) \<and> op_trace R c (\<lambda>st. run_trace R from to st res) h h')"
proof -
  obtain r1 h1 where ld: "loadState R (Some c) h = (r1, h1)" by fastforce
  then show ?thesis
  proof (cases rule: loadState_shape)
    case (failed e ev)
    then show ?thesis using op ld by (auto simp: run_op_def)
  next
    case (loaded st0 st)
    have q: "quiet [EvCtx None, EvLoad None]" by (simp add: quiet_def)
    note unf = op [unfolded run_op_def ld prod.case loaded(1) sum.case]
    show ?thesis
    proof (cases "validateState R st = None \<and> (\<exists>b. resolveRunRange R opts = Inr b)")
      case False
      then have "\<exists>e. res = Inl e \<and> h' = h1" using unf
        by (cases "validateState R st"; cases "resolveRunRange R opts") auto
      then show ?thesis using loaded(2) q by blast
    next
      case True
      then obtain lo hi where v: "validateState R st = None" and rr: "resolveRunRange R opts = Inr (lo, hi)" by auto
      note bounds = resolveRunRange_bounds [OF R rr]
      have "\<exists>ev. h' = h1 @ ev \<and> op_spec R c st ev \<and> run_trace R lo hi st res ev"
        using unf by (intro run_body [OF R loaded(3) bounds]) (simp only: v rr option.case sum.case prod.case run_slice_def)
      then show ?thesis using v rr loaded unfolding op_trace_def by auto
    qed
  qed
qed

text \<open>Reverting everything from index \<open>to\<close> on.\<close>

definition blocked :: "Runner \<Rightarrow> nat \<Rightarrow> State \<Rightarrow> bool" where
  "blocked R to st \<longleftrightarrow>
     (\<exists>m \<in> set (drop to (migrations R)). applied st (mID m) \<and> \<not> skipped st (mID m) \<and> Down m = None)"

definition revert_outcome :: "Runner \<Rightarrow> nat \<Rightarrow> State \<Rightarrow> State \<Rightarrow> bool" where
  "revert_outcome R to st st' \<longleftrightarrow>
     (\<forall>i. timestamp_of st' i = (if i \<in> mID ` set (drop to (migrations R)) then None else timestamp_of st i)
        \<and> (skipped st' i \<longleftrightarrow> skipped st i \<and> i \<notin> mID ` set (drop to (migrations R))))"

definition revert_trace :: "Runner \<Rightarrow> nat \<Rightarrow> State \<Rightarrow> (go_error + Status list) \<Rightarrow> history \<Rightarrow> bool" where
  "revert_trace R to st res ev \<longleftrightarrow> up_ids ev = []
     \<and> prefix (down_ids ev) (revert_ids st (rev (drop to (migrations R))))
     \<and> (blocked R to st \<longrightarrow> ev = [] \<and> isl res)
     \<and> (case res of
          Inl e \<Rightarrow> True
        | Inr sts \<Rightarrow> down_ids ev = revert_ids st (rev (drop to (migrations R)))
            \<and> sts = statuses R (durable st ev) \<and> revert_outcome R to st (durable st ev))"

lemma irreversible_None:
  "irreversible st ms = None \<longleftrightarrow> (\<forall>m \<in> set ms. applied st (mID m) \<and> \<not> skipped st (mID m) \<longrightarrow> Down m \<noteq> None)"
  by (induction st ms rule: irreversible.induct) auto

lemma valid_skipped: "valid_state R st \<Longrightarrow> skipped st i \<Longrightarrow> applied st i"
  by (simp add: valid_state_def)

lemma revertState_trace:
  assumes R: "runner_ok R" and st: "valid_state R st" and op: "revertState R c st to h = (res, h')"
  shows "\<exists>ev. h' = h @ ev \<and> op_spec R c st ev \<and> revert_trace R to st res ev"
proof -
  let ?ms = "rev (drop to (migrations R))"
  have ok: "state_ok st" using st by (simp add: valid_state_def)
  have bl: "blocked R to st \<longleftrightarrow> irreversible st ?ms \<noteq> None"
    unfolding irreversible_None blocked_def by auto
  show ?thesis
  proof (cases "irreversible st ?ms")
    case (Some e)
    with op bl show ?thesis by (auto simp: revertState_def Let_def revert_trace_def)
  next
    case None
    obtain r1 h1 where rr: "revert_range R c ?ms st h = (r1, h1)" by fastforce
    obtain ev where ev: "h1 = h @ ev" "piece R c st r1 ev" "down_order st ?ms r1 ev"
      using revert_range_piece [OF rr R ok distinct_slices(2) [OF runner_ok_distinct [OF R]] slices(3)] by blast
    have "revert_outcome R to st st'" if "r1 = Inr st'" for st'
      using revert_range_result [of R c ?ms st h st' h1] rr that valid_skipped [OF st]
      by (auto simp: revert_outcome_def)
    moreover have "durable st ev = st'" if "r1 = Inr st'" for st'
      using ev(2) that by (simp add: piece_def loop_spec_def)
    ultimately show ?thesis
      using op rr ev None bl
      by (cases r1) (auto simp: revertState_def revert_trace_def down_order_def piece_op_spec)
  qed
qed

lemma revert_op_trace:
  assumes R: "runner_ok R" and op: "revert_op R target c h = (res, h')"
  shows "(\<exists>ev e. res = Inl e \<and> h' = h @ ev \<and> quiet ev)
    \<or> (\<exists>to. resolveTarget R target True = Inr to \<and> op_trace R c (\<lambda>st. revert_trace R to st res) h h')"
proof -
  obtain r1 h1 where ld: "loadState R (Some c) h = (r1, h1)" by fastforce
  then show ?thesis
  proof (cases rule: loadState_shape)
    case (failed e ev)
    then show ?thesis using op ld by (auto simp: revert_op_def)
  next
    case (loaded st0 st)
    have q: "quiet [EvCtx None, EvLoad None]" by (simp add: quiet_def)
    note unf = op [unfolded revert_op_def ld prod.case loaded(1) sum.case]
    show ?thesis
    proof (cases "validateState R st = None \<and> (\<exists>b. resolveTarget R target True = Inr b)")
      case False
      then have "\<exists>e. res = Inl e \<and> h' = h1" using unf
        by (cases "validateState R st"; cases "resolveTarget R target True") auto
      then show ?thesis using loaded(2) q by blast
    next
      case True
      then obtain hi where v: "validateState R st = None" and rr: "resolveTarget R target True = Inr hi" by auto
      have "valid_state R st" using v validateState_iff [OF loaded(3)] by simp
      from revertState_trace [OF R this] unf
      have "\<exists>ev. h' = h1 @ ev \<and> op_spec R c st ev \<and> revert_trace R hi st res ev" by (simp add: v rr)
      then show ?thesis using v rr loaded unfolding op_trace_def by auto
    qed
  qed
qed

text \<open>RevertOne finds the highest applied migration.\<close>

lemma last_applied_index_Some:
  "last_applied_index st ms n = Some i \<Longrightarrow>
     i < n \<and> applied st (mID (ms ! i)) \<and> (\<forall>j. i < j \<and> j < n \<longrightarrow> \<not> applied st (mID (ms ! j)))"
proof (induction n)
  case (Suc n)
  show ?case
  proof (cases "applied st (mID (ms ! n))")
    case False
    with Suc show ?thesis by (auto simp: less_Suc_eq)
  qed (use Suc.prems in auto)
qed simp

lemma last_applied_index_None:
  "last_applied_index st ms n = None \<Longrightarrow> j < n \<Longrightarrow> \<not> applied st (mID (ms ! j))"
  by (induction n) (auto simp: less_Suc_eq split: if_splits)

lemma revert_one_op_trace:
  assumes R: "runner_ok R" and op: "revert_one_op R c h = (res, h')"
  shows "(\<exists>ev e. res = Inl e \<and> h' = h @ ev \<and> quiet ev)
    \<or> op_trace R c (\<lambda>st ev. case last_applied_index st (migrations R) (length (migrations R)) of
          Some i \<Rightarrow> revert_trace R i st res ev
        | None \<Rightarrow> ev = [] \<and> res = Inr (statuses R st)) h h'"
proof -
  obtain r1 h1 where ld: "loadState R (Some c) h = (r1, h1)" by fastforce
  then show ?thesis
  proof (cases rule: loadState_shape)
    case (failed e ev)
    then show ?thesis using op ld by (auto simp: revert_one_op_def)
  next
    case (loaded st0 st)
    have q: "quiet [EvCtx None, EvLoad None]" by (simp add: quiet_def)
    note unf = op [unfolded revert_one_op_def ld prod.case loaded(1) sum.case]
    show ?thesis
    proof (cases "validateState R st")
      case (Some e)
      then show ?thesis using unf loaded(2) q by auto
    next
      case None
      have vs: "valid_state R st" using None validateState_iff [OF loaded(3)] by simp
      have "\<exists>ev. h' = h1 @ ev \<and> op_spec R c st ev
          \<and> (case last_applied_index st (migrations R) (length (migrations R)) of
              Some i \<Rightarrow> revert_trace R i st res ev | None \<Rightarrow> ev = [] \<and> res = Inr (statuses R st))"
      proof (cases "last_applied_index st (migrations R) (length (migrations R))")
        case (Some i)
        then show ?thesis using unf revertState_trace [OF R vs] None by simp
      next
        case no: None
        then show ?thesis using unf None by simp
      qed
      then show ?thesis using None loaded unfolding op_trace_def by auto
    qed
  qed
qed

end
