(* ===== verification/Migration_Lock.thy ===== *)
theory Migration_Lock
  imports Migration_Ops
begin

text \<open>
  Operations under the lock: the shapes of \<^verbatim>\<open>withLock\<close>, the interface \<open>locked_operation\<close> that its three
  clients \<^verbatim>\<open>Run\<close>, \<^verbatim>\<open>Revert\<close> and \<^verbatim>\<open>RevertOne\<close> provide, and what every client of that interface gets:
  a released lock, fenced saves and safe calls.
\<close>

section \<open>Shapes of withLock\<close>

text \<open>The context an operation runs with: the caller's, or one that carries the lease's token.\<close>

definition run_context :: "Runner \<Rightarrow> Context option \<Rightarrow> history \<Rightarrow> Context \<Rightarrow> bool" where
  "run_context R ctx h c \<longleftrightarrow>
     (case locker R of
        PlainLocker _ \<Rightarrow> c = (case ctx of None \<Rightarrow> Background | Some x \<Rightarrow> x)
      | LeaseLocker lock \<Rightarrow> (\<exists>lease. lock h = Inr lease \<and> ctx_fence c = Some (TrimSpace (lease_FenceToken lease))
          \<and> TrimSpace (lease_FenceToken lease) \<noteq> '''' \<and> store_fenced (store R)))"

text \<open>A locker that never succeeds with a nil unlock function.\<close>

definition unlockable :: "Locker \<Rightarrow> bool" where
  "unlockable l \<longleftrightarrow> (case l of
     PlainLocker lock \<Rightarrow> (\<forall>h. lock h \<noteq> Inr None)
   | LeaseLocker lock \<Rightarrow> (\<forall>h lease. lock h = Inr lease \<longrightarrow> lease_Unlock lease \<noteq> None))"

lemma locked_run_shape:
  assumes "locked_run u c operation h = (res, h')"
  obtains r h1 y where "operation c h = (r, h1)" "h' = h1 @ [EvUnlock y]" "if y = None then res = r else isl res"
proof -
  obtain r h1 where op: "operation c h = (r, h1)" by fastforce
  then have "h' = h1 @ [EvUnlock (u h1)]" "if u h1 = None then res = r else isl res"
    using assms by (cases r; cases "u h1"; auto simp: locked_run_def call_Unlock_def)+
  with op show thesis by (rule that)
qed

lemma reject_lease_shape:
  "reject_lease m u h = (res, h') \<Longrightarrow> \<exists>e y. res = Inl e \<and> h' = h @ [EvUnlock y]"
  by (auto simp: reject_lease_def call_Unlock_def)

lemma withLock_shape:
  assumes "withLock R ctx operation h = (res, h')"
  obtains (refused) e x where "res = Inl e" "h' = h @ [EvLock (Some x)]"
  | (rejected) e y where "res = Inl e" "h' = h @ [EvLock None, EvUnlock y]"
  | (stuck) e where "res = Inl e" "h' = h @ [EvLock None]" "\<not> unlockable (locker R)"
  | (held) c r h1 y where "operation c (h @ [EvLock None]) = (r, h1)" "h' = h1 @ [EvUnlock y]"
      "if y = None then res = r else isl res" "run_context R ctx h c"
proof (cases "locker R")
  case (PlainLocker lock)
  show thesis
  proof (cases "lock h")
    case (Inl e)
    then show thesis using assms PlainLocker by (auto simp: withLock_def intro: refused)
  next
    case (Inr u)
    show thesis
    proof (cases u)
      case None
      then show thesis using assms PlainLocker Inr
        by (auto simp: withLock_def unlockable_def intro!: stuck)
    next
      case (Some v)
      then have "locked_run v (case ctx of None \<Rightarrow> Background | Some x \<Rightarrow> x) operation (h @ [EvLock None]) = (res, h')"
        using assms PlainLocker Inr by (simp add: withLock_def)
      then show thesis using PlainLocker by (auto simp: run_context_def elim!: locked_run_shape intro: held)
    qed
  qed
next
  case (LeaseLocker lock)
  show thesis
  proof (cases "lock h")
    case (Inl e)
    then show thesis using assms LeaseLocker by (auto simp: withLock_def intro: refused)
  next
    case (Inr lease)
    let ?tok = "TrimSpace (lease_FenceToken lease)"
    show thesis
    proof (cases "lease_Unlock lease")
      case None
      have "\<not> unlockable (locker R)" using LeaseLocker Inr None by (fastforce simp: unlockable_def)
      then show thesis using assms LeaseLocker Inr None
        by (auto simp: withLock_def Let_def intro!: stuck)
    next
      case (Some u)
      note unf = assms [unfolded withLock_def Let_def LeaseLocker Locker.case Inr sum.case Some option.case]
      show thesis
      proof (cases "lease_Context lease = None \<or> ?tok = [] \<or> \<not> store_fenced (store R)")
        case True
        then obtain m where "reject_lease m u (h @ [EvLock None]) = (res, h')"
          using unf by (cases "lease_Context lease") (auto split: if_splits)
        then show thesis by (auto dest!: reject_lease_shape intro: rejected)
      next
        case False
        then obtain run_err where rc: "lease_Context lease = Some run_err" by auto
        have "locked_run u \<lparr>ctx_Err = run_err, ctx_fence = Some ?tok\<rparr> operation (h @ [EvLock None]) = (res, h')"
          using unf False rc by simp
        then show thesis using LeaseLocker Inr False
          by (auto simp: run_context_def elim!: locked_run_shape intro!: held)
      qed
    qed
  qed
qed

section \<open>The interface of an operation\<close>

definition traced :: "Runner \<Rightarrow> Context \<Rightarrow> history \<Rightarrow> history \<Rightarrow> bool" where
  "traced R c h ev \<longleftrightarrow> quiet ev \<or>
     (\<exists>st0 st ev'. store_Load (store R) (h @ [EvCtx None]) = Inr st0 \<and> normalize st0 = Inr st
        \<and> ev = [EvCtx None, EvLoad None] @ ev' \<and> op_spec R c st ev')"

lemma op_trace_traced: "op_trace R c Q h h' \<Longrightarrow> \<exists>ev. h' = h @ ev \<and> traced R c h ev"
  unfolding op_trace_def traced_def by blast

lemma quiet_traced: "quiet ev \<Longrightarrow> traced R c h ev"
  by (simp add: traced_def)

lemma lock_only:
  assumes "set ev \<subseteq> range EvLock \<union> range EvUnlock"
  shows "durable st ev = st" "safe_calls st ev" "checkpointed p ev" "saves_ok P ev"
  using assms by (induction ev) auto

lemma traced_facts:
  assumes "traced R c h ev"
  shows "no_locking ev" "checkpointed None ev" "saves_ok (\<lambda>s tok. tok = FenceTokenFromContext c) ev"
    "saves_ok (\<lambda>s tok. state_ok s) ev"
  using assms by (auto simp: traced_def op_spec_def quiet_simps)

text \<open>What the lock sees of an operation: a refusal, or one acquisition and one release around it.\<close>

definition lock_balanced :: "history \<Rightarrow> bool" where
  "lock_balanced ev \<longleftrightarrow> (\<exists>x. ev = [EvLock (Some x)])
     \<or> (\<exists>body y. ev = EvLock None # body @ [EvUnlock y] \<and> no_locking body)"

text \<open>The token every save of a lease-based runner carries.\<close>

definition lease_token :: "Locker \<Rightarrow> history \<Rightarrow> string option \<Rightarrow> bool" where
  "lease_token l h tok \<longleftrightarrow> (case l of
     PlainLocker _ \<Rightarrow> False
   | LeaseLocker lock \<Rightarrow> \<exists>lease. lock h = Inr lease
       \<and> tok = Some (TrimSpace (lease_FenceToken lease)) \<and> TrimSpace (lease_FenceToken lease) \<noteq> '''')"

locale locked_operation =
  fixes R :: Runner and operation :: "Context \<Rightarrow> history \<Rightarrow> (go_error + 'a) \<times> history"
  assumes op_traced: "runner_ok R \<Longrightarrow> operation c h = (res, h') \<Longrightarrow> \<exists>ev. h' = h @ ev \<and> traced R c h ev"
begin

lemma withLock_events:
  assumes "runner_ok R" and "withLock R ctx operation h = (res, h')"
  obtains (lockonly) ev where "h' = h @ ev" "set ev \<subseteq> range EvLock \<union> range EvUnlock" "isl res"
      "unlockable (locker R) \<Longrightarrow> lock_balanced ev"
  | (around) c ev r y where "h' = h @ [EvLock None] @ ev @ [EvUnlock y]" "traced R c (h @ [EvLock None]) ev"
      "run_context R ctx h c" "operation c (h @ [EvLock None]) = (r, h @ [EvLock None] @ ev)"
      "if y = None then res = r else isl res"
  using assms(2)
proof (cases rule: withLock_shape)
  case (held c r h1 y)
  then show thesis using op_traced [OF assms(1) held(1)] by (auto intro!: around)
qed (auto simp: lock_balanced_def intro!: lockonly)

lemma withLock_balanced:
  assumes "runner_ok R" and "unlockable (locker R)" and "withLock R ctx operation h = (res, h')"
  shows "\<exists>ev. h' = h @ ev \<and> lock_balanced ev"
  using assms(1,3)
proof (cases rule: withLock_events)
  case (around c ev r y)
  then have "lock_balanced (EvLock None # ev @ [EvUnlock y])"
    using traced_facts(1) unfolding lock_balanced_def by blast
  with around show ?thesis by auto
qed (use assms(2) in auto)

lemma withLock_fenced:
  assumes "runner_ok R" and "lease_based (locker R)" and "withLock R ctx operation h = (res, h')"
  shows "\<exists>ev. h' = h @ ev \<and> saves_ok (\<lambda>s tok. lease_token (locker R) h tok) ev"
  using assms(1,3)
proof (cases rule: withLock_events)
  case (lockonly ev)
  then show ?thesis using lock_only(4) by blast
next
  case (around c ev r y)
  have "lease_token (locker R) h (FenceTokenFromContext c)"
    using around(3) assms(2)
    by (cases "locker R") (auto simp: run_context_def lease_token_def FenceTokenFromContext_def)
  then have "saves_ok (\<lambda>s tok. lease_token (locker R) h tok) ev"
    using traced_facts(3) [OF around(2)] by (fastforce simp: saves_ok_def list_all_iff split: event.splits)
  with around show ?thesis by auto
qed

lemma withLock_checkpointed:
  assumes "runner_ok R" and "withLock R ctx operation h = (res, h')"
  shows "\<exists>ev. h' = h @ ev \<and> checkpointed None ev \<and> saves_ok (\<lambda>s tok. state_ok s) ev"
  using assms
proof (cases rule: withLock_events)
  case (lockonly ev)
  then show ?thesis using lock_only(3,4) by blast
next
  case (around c ev r y)
  have "checkpointed p [EvUnlock y]" for p by simp
  then show ?thesis using traced_facts(2,4) [OF around(2)] around(1) by fastforce
qed

end

interpretation run_locked: locked_operation R "run_op R opts" for R opts
proof
  fix c h res h' assume "runner_ok R" "run_op R opts c h = (res, h')"
  from run_op_trace [OF this] show "\<exists>ev. h' = h @ ev \<and> traced R c h ev"
    by (elim disjE exE conjE op_trace_traced) (auto intro: quiet_traced)
qed

interpretation revert_locked: locked_operation R "revert_op R target" for R target
proof
  fix c h res h' assume "runner_ok R" "revert_op R target c h = (res, h')"
  from revert_op_trace [OF this] show "\<exists>ev. h' = h @ ev \<and> traced R c h ev"
    by (elim disjE exE conjE op_trace_traced) (auto intro: quiet_traced)
qed

interpretation revert_one_locked: locked_operation R "revert_one_op R" for R
proof
  fix c h res h' assume "runner_ok R" "revert_one_op R c h = (res, h')"
  from revert_one_op_trace [OF this] show "\<exists>ev. h' = h @ ev \<and> traced R c h ev"
    by (elim disjE exE conjE op_trace_traced) (auto intro: quiet_traced)
qed

end
