(* ===== verification/Migration_Store.thy ===== *)
theory Migration_Store
  imports Migration_Lock
begin

text \<open>
  Stores (\<^verbatim>\<open>migration/store.go\<close>): the JSON copy \<^verbatim>\<open>cloneState\<close>, \<^verbatim>\<open>MemoryStore\<close>, the interface
  \<open>durable_store\<close> a store provides to the runner, and what the runner and any such store guarantee
  together over a whole sequence of commands.
\<close>

section \<open>Copying state through JSON\<close>

text \<open>
  The length of the UTF-8 encoding at the head of a string, zero if there is none.  \<^verbatim>\<open>encoding/json\<close>
  replaces every byte that does not start a valid encoding by U+FFFD.
\<close>

definition byte_in :: "string \<Rightarrow> nat \<Rightarrow> nat \<Rightarrow> nat \<Rightarrow> bool" where
  "byte_in s k lo hi \<longleftrightarrow> k < length s \<and> lo \<le> of_char (s ! k) \<and> of_char (s ! k) \<le> hi"

definition utf8_size :: "string \<Rightarrow> nat" where
  "utf8_size s =
     (if byte_in s 0 0 0x7F then 1
      else if byte_in s 0 0xC2 0xDF \<and> byte_in s 1 0x80 0xBF then 2
      else if (byte_in s 0 0xE0 0xE0 \<and> byte_in s 1 0xA0 0xBF
            \<or> byte_in s 0 0xE1 0xEC \<and> byte_in s 1 0x80 0xBF
            \<or> byte_in s 0 0xED 0xED \<and> byte_in s 1 0x80 0x9F
            \<or> byte_in s 0 0xEE 0xEF \<and> byte_in s 1 0x80 0xBF) \<and> byte_in s 2 0x80 0xBF then 3
      else if (byte_in s 0 0xF0 0xF0 \<and> byte_in s 1 0x90 0xBF
            \<or> byte_in s 0 0xF1 0xF3 \<and> byte_in s 1 0x80 0xBF
            \<or> byte_in s 0 0xF4 0xF4 \<and> byte_in s 1 0x80 0x8F)
            \<and> byte_in s 2 0x80 0xBF \<and> byte_in s 3 0x80 0xBF then 4
      else 0)"

fun json_text_loop :: "nat \<Rightarrow> string \<Rightarrow> string" where
  "json_text_loop 0 s = []"
| "json_text_loop (Suc n) s =
     (if s = [] then []
      else if utf8_size s = 0 then [CHR 0xEF, CHR 0xBF, CHR 0xBD] @ json_text_loop n (tl s)
      else take (utf8_size s) s @ json_text_loop n (drop (utf8_size s) s))"

text \<open>Every round consumes at least one byte, so the length of the string is enough fuel.\<close>

definition json_text :: "string \<Rightarrow> string" where
  "json_text s = json_text_loop (length s) s"

definition maxStateBytes :: nat where
  "maxStateBytes = 4 * 2 ^ 20"

text \<open>
  \<^verbatim>\<open>cloneState\<close>: \<^verbatim>\<open>EncodeState\<close> then \<^verbatim>\<open>DecodeState\<close>.  The identifiers of a normalised state are ASCII and
  survive; checksums are free text.  \<open>json_len\<close> is the length of the indented JSON of a state.
\<close>

definition cloneState :: "(State \<Rightarrow> nat) \<Rightarrow> State \<Rightarrow> go_error + State" where
  "cloneState json_len st =
     (case normalize st of
        Inl e \<Rightarrow> Inl e
      | Inr st1 \<Rightarrow>
          if json_len st1 > maxStateBytes
          then Inl (Errorf ''migration: state exceeds %d bytes'' [itoa maxStateBytes])
          else normalize (st1\<lparr>Checksums := map (\<lambda>(k, v). (k, json_text v)) (Checksums st1)\<rparr>))"

lemma cloneState_code [code]:
  "cloneState json_len st =
     (case normalize st of
        Inl e \<Rightarrow> Inl e
      | Inr st1 \<Rightarrow>
          if int (json_len st1) > 4194304
          then Inl (Errorf ''migration: state exceeds %d bytes'' [itoa maxStateBytes])
          else normalize (st1\<lparr>Checksums := map (\<lambda>(k, v). (k, json_text v)) (Checksums st1)\<rparr>))"
proof -
  have "n > maxStateBytes \<longleftrightarrow> int n > 4194304" for n
    by (auto simp: maxStateBytes_def)
  then show ?thesis by (simp only: cloneState_def)
qed

section \<open>The memory store\<close>

text \<open>
  The state a \<^verbatim>\<open>MemoryStore\<close> holds after a history.  A save that \<^verbatim>\<open>cloneState\<close> refuses is not recorded
  as successful, so the last alternative of the second equation is never taken in a run.
\<close>

fun mem_state :: "(State \<Rightarrow> nat) \<Rightarrow> State \<Rightarrow> history \<Rightarrow> State" where
  "mem_state jl st [] = st"
| "mem_state jl st (EvSave s tok None # h) =
     mem_state jl (case cloneState jl s of Inr s' \<Rightarrow> s' | Inl e \<Rightarrow> s) h"
| "mem_state jl st (ev # h) = mem_state jl st h"

definition MemoryStore :: "(State \<Rightarrow> nat) \<Rightarrow> Store" where
  "MemoryStore jl =
     \<lparr>store_fenced = False, store_fencing = None,
      store_Load = (\<lambda>h. cloneState jl (mem_state jl NewState h)),
      store_Save = (\<lambda>st tok h. case cloneState jl st of Inl e \<Rightarrow> Some e | Inr st' \<Rightarrow> None)\<rparr>"

section \<open>What a store promises\<close>

text \<open>
  A store is durable for a class of states if, as long as only such states were saved, what it
  loads is the last state saved.
\<close>

locale durable_store =
  fixes s :: Store and clean :: "State \<Rightarrow> bool"
  assumes load_durable: "saves_ok (\<lambda>st tok. state_ok st \<and> clean st) h \<Longrightarrow> store_Load s h = Inr st
    \<Longrightarrow> normalize st = Inr (durable NewState h)"

definition clean_state :: "State \<Rightarrow> bool" where
  "clean_state st \<longleftrightarrow> list_all (\<lambda>(k, v). json_text v = v) (Checksums st)"

lemma cloneState_clean:
  assumes "state_ok st" and "clean_state st" and "cloneState jl st = Inr st'"
  shows "st' = st"
proof -
  have "map (\<lambda>(k, v). (k, json_text v)) (Checksums st) = Checksums st"
    using assms(2) by (auto simp: clean_state_def list_all_iff intro!: map_idI)
  with assms show ?thesis by (auto simp: cloneState_def normalize_id split: if_splits)
qed

lemma state_ok_NewState [simp]: "state_ok NewState"
  by (simp add: state_ok_def NewState_def)

lemma clean_NewState [simp]: "clean_state NewState"
  by (simp add: clean_state_def NewState_def)

lemma mem_state_durable:
  assumes "saves_ok (\<lambda>st tok. state_ok st \<and> clean_state st) h"
  shows "mem_state jl st h = durable st h"
  using assms
proof (induction jl st h rule: mem_state.induct)
  case (2 jl st s tok h)
  have "(case cloneState jl s of Inr s' \<Rightarrow> s' | Inl e \<Rightarrow> s) = s"
    using "2.prems" cloneState_clean [of s jl] by (auto split: sum.splits)
  with 2 show ?case by simp
qed auto

lemma durable_ok:
  "saves_ok (\<lambda>st tok. P st) h \<Longrightarrow> P st \<Longrightarrow> P (durable st h)"
  by (induction st h rule: durable.induct) auto

interpretation mem_store: durable_store "MemoryStore jl" clean_state for jl
proof
  fix h st assume ok: "saves_ok (\<lambda>st tok. state_ok st \<and> clean_state st) h"
    and ld: "store_Load (MemoryStore jl) h = Inr st"
  let ?d = "durable NewState h"
  have d: "state_ok ?d \<and> clean_state ?d"
    by (rule durable_ok [OF ok]) simp
  have "cloneState jl ?d = Inr st"
    using ld mem_state_durable [OF ok] by (simp add: MemoryStore_def)
  with d have "st = ?d" using cloneState_clean by blast
  with d show "normalize st = Inr ?d" by (simp add: normalize_id)
qed

section \<open>Sequences of commands\<close>

datatype command =
    CmdList "Context option"
  | CmdRun "Context option" RunOptions
  | CmdRevert "Context option" string
  | CmdRevertOne "Context option"

fun perform :: "Runner \<Rightarrow> command \<Rightarrow> history \<Rightarrow> (go_error + Status list) \<times> history" where
  "perform R (CmdList ctx) h = Runner_List R ctx h"
| "perform R (CmdRun ctx opts) h = Run R ctx opts h"
| "perform R (CmdRevert ctx target) h = Revert R ctx target h"
| "perform R (CmdRevertOne ctx) h = RevertOne R ctx h"

fun session :: "Runner \<Rightarrow> command list \<Rightarrow> history \<Rightarrow> history" where
  "session R [] h = h"
| "session R (cmd # cmds) h = session R cmds (snd (perform R cmd h))"

text \<open>A history in which every call was safe and every saved state satisfies the invariant.\<close>

definition good_history :: "Runner \<Rightarrow> history \<Rightarrow> bool" where
  "good_history R h \<longleftrightarrow> safe_calls NewState h \<and> saves_ok (\<lambda>st tok. durable_inv R st) h"

lemma good_history_durable: "good_history R h \<Longrightarrow> durable_inv R (durable NewState h)"
  unfolding good_history_def by (blast intro: durable_ok durable_inv_NewState)

lemma good_history_extend:
  assumes "good_history R h" and "traced R c k ev" and "durable NewState k = durable NewState h"
    and "\<And>st0 st. store_Load (store R) (k @ [EvCtx None]) = Inr st0 \<Longrightarrow> normalize st0 = Inr st
           \<Longrightarrow> st = durable NewState h"
  shows "safe_calls (durable NewState h) ev" and "saves_ok (\<lambda>st tok. durable_inv R st) ev"
  using assms good_history_durable [OF assms(1)]
  by (auto simp: traced_def op_spec_def quiet_simps)

context durable_store
begin

lemma load_good:
  assumes "store R = s" and "\<And>st. durable_inv R st \<Longrightarrow> clean st" and "good_history R h"
    and "set k \<subseteq> range EvLock \<union> range EvCtx"
    and "store_Load (store R) (h @ k) = Inr st0" and "normalize st0 = Inr st"
  shows "st = durable NewState h"
proof -
  have k: "durable d k = d" "saves_ok P k" for d P
    using assms(4) by (induction k) auto
  have "saves_ok (\<lambda>st tok. durable_inv R st) (h @ k)"
    using assms(3) k by (simp add: good_history_def)
  then have "saves_ok (\<lambda>st tok. state_ok st \<and> clean st) (h @ k)"
    by (rule saves_ok_mono) (simp add: assms(2), simp add: durable_inv_def valid_state_def)
  from load_durable [OF this] assms(1,5,6) k show ?thesis by simp
qed

lemma locked_good:
  assumes R: "store R = s" "\<And>st. durable_inv R st \<Longrightarrow> clean st" "runner_ok R"
    and good: "good_history R h" and op: "locked_operation R operation"
    and run: "withLock R ctx operation h = (res, h')"
  shows "good_history R h'"
proof -
  consider (lockonly) ev where "h' = h @ ev" "set ev \<subseteq> range EvLock \<union> range EvUnlock"
    | (around) c ev y where "h' = h @ [EvLock None] @ ev @ [EvUnlock y]" "traced R c (h @ [EvLock None]) ev"
    by (rule locked_operation.withLock_events [OF op R(3) run]) blast+
  then show ?thesis
  proof cases
    case lockonly
    then show ?thesis using good lock_only [OF lockonly(2)] by (simp add: good_history_def)
  next
    case around
    have ld: "st = durable NewState h" if "store_Load (store R) ((h @ [EvLock None]) @ [EvCtx None]) = Inr st0"
      and "normalize st0 = Inr st" for st0 st
      using load_good [OF R(1,2) good, of "[EvLock None, EvCtx None]"] that by simp
    have "safe_calls (durable NewState h) ev" "saves_ok (\<lambda>st tok. durable_inv R st) ev"
      using good_history_extend [OF good around(2) _ ld] by simp_all
    then show ?thesis using good around(1) by (simp add: good_history_def)
  qed
qed

lemma perform_good:
  assumes R: "store R = s" "\<And>st. durable_inv R st \<Longrightarrow> clean st" "runner_ok R" and good: "good_history R h"
  shows "good_history R (snd (perform R cmd h))"
proof (cases cmd)
  case (CmdList ctx)
  obtain r1 h1 where ld: "loadState R ctx h = (r1, h1)" by fastforce
  then have "\<exists>ev. h1 = h @ ev \<and> quiet ev"
    by (cases rule: loadState_shape) (auto simp: quiet_def)
  then have "good_history R h1"
    using good by (auto simp: good_history_def quiet_simps)
  then show ?thesis using ld CmdList by (cases r1) (auto simp: Runner_List_def)
next
  case (CmdRun ctx opts)
  then show ?thesis using locked_good [OF R good run_locked.locked_operation_axioms]
    by (simp add: Run_def) (metis prod.collapse)
next
  case (CmdRevert ctx target)
  then show ?thesis using locked_good [OF R good revert_locked.locked_operation_axioms] good
    by (simp add: Revert_def) (metis prod.collapse)
next
  case (CmdRevertOne ctx)
  then show ?thesis using locked_good [OF R good revert_one_locked.locked_operation_axioms]
    by (simp add: RevertOne_def) (metis prod.collapse)
qed

lemma session_good:
  assumes R: "store R = s" "\<And>st. durable_inv R st \<Longrightarrow> clean st" "runner_ok R" and good: "good_history R h"
  shows "good_history R (session R cmds h)"
  using good by (induction cmds arbitrary: h) (simp_all add: perform_good [OF R])

lemma list_good:
  assumes R: "store R = s" "\<And>st. durable_inv R st \<Longrightarrow> clean st" and good: "good_history R h"
  shows "loadState R ctx h = (Inr st, h') \<Longrightarrow> st = durable NewState h \<and> validateState R st = None"
proof -
  assume "loadState R ctx h = (Inr st, h')"
  then show ?thesis
  proof (cases rule: loadState_shape)
    case (loaded st0 st1)
    from load_good [OF R good, of "[EvCtx None]" st0 st1] loaded have "st1 = durable NewState h" by simp
    moreover from this good_history_durable [OF good] have "valid_state R st1" by (simp add: durable_inv_def)
    ultimately show ?thesis using loaded validateState_iff by simp
  qed simp
qed

end

text \<open>Checksums that survive JSON make every state the runner saves one that survives JSON.\<close>

definition runner_clean :: "Runner \<Rightarrow> bool" where
  "runner_clean R \<longleftrightarrow> list_all (\<lambda>m. json_text (Checksum m) = Checksum m) (migrations R)"

lemma durable_inv_clean:
  assumes "runner_clean R" and "durable_inv R st"
  shows "clean_state st"
proof -
  have "json_text v = v" if kv: "(k, v) \<in> set (Checksums st)" for k v
  proof (cases "v = ''''")
    case True
    then show ?thesis by (simp add: json_text_def)
  next
    case False
    have "gomap_ok (Checksums st)"
      using assms(2) by (simp add: durable_inv_def valid_state_def state_ok_def canonical_keys_def)
    then have "checksum_of st k = v"
      using kv by (simp add: checksum_of_def go_get_mem)
    with False assms(2) obtain m where "registered (migrations R) k = Some m" "v = Checksum m"
      unfolding durable_inv_def valid_state_def by metis
    then show ?thesis using assms(1) registered_Some by (fastforce simp: runner_clean_def list_all_iff)
  qed
  then show ?thesis by (auto simp: clean_state_def list_all_iff)
qed

end
