(* ===== verification/Migration_Properties.thy ===== *)
theory Migration_Properties
  imports Migration_Store
begin

text \<open>
  The properties of the migration runner, each about a runner that \<^verbatim>\<open>NewRunner\<close> accepted and about
  every behaviour of the store, the locker, the clock, the context and the migration functions.
\<close>

section \<open>A sample runner\<close>

text \<open>Two migrations given out of order, on a memory store: the concrete input of the witnesses.\<close>

definition sample_migration :: "string \<Rightarrow> Migration" where
  "sample_migration i = \<lparr>mID = i, Description = '''', Checksum = ''c'',
     Up = Some (\<lambda>h. None), Down = Some (\<lambda>h. None)\<rparr>"

definition sample_migrations :: "Migration list" where
  "sample_migrations = [sample_migration ''v1.0.0-2-b'', sample_migration ''v1.0.0-1-a.js'']"

definition sample_locker :: Locker where
  "sample_locker = PlainLocker (\<lambda>h. Inr (Some (\<lambda>h. None)))"

definition sample_store :: Store where
  "sample_store = MemoryStore (\<lambda>st. 100)"

definition sample_clock :: "history \<Rightarrow> int" where
  "sample_clock h = int (length h)"

definition sample_runner :: Runner where
  "sample_runner = projr (NewRunner sample_migrations (Some sample_store) (Some sample_locker) sample_clock)"

definition sample_options :: RunOptions where
  "sample_options = \<lparr>From = ''v1.0.0-2-b'', To = ''latest''\<rparr>"

lemma sample_new:
  "NewRunner sample_migrations (Some sample_store) (Some sample_locker) sample_clock = Inr sample_runner"
proof -
  have "\<not> isl (NewRunner sample_migrations (Some sample_store) (Some sample_locker) sample_clock)"
    by code_simp
  then show ?thesis by (simp add: sample_runner_def)
qed

lemma sample_run_ok: "\<not> isl (fst (Run sample_runner None sample_options []))"
  by code_simp

lemma sample_run:
  "Run sample_runner None sample_options [] =
     (Inr (projr (fst (Run sample_runner None sample_options []))), snd (Run sample_runner None sample_options []))"
  using sample_run_ok by (cases "Run sample_runner None sample_options []") auto

lemma unlockable_sample [simp]: "unlockable sample_locker"
  by (simp add: unlockable_def sample_locker_def)

text \<open>The same migrations under a lease, on a store that accepts fence tokens.\<close>

definition sample_lease_locker :: Locker where
  "sample_lease_locker = LeaseLocker (\<lambda>h. Inr \<lparr>lease_Context = Some (\<lambda>h. None),
     lease_FenceToken = '' 7 '', lease_Unlock = Some (\<lambda>h. None)\<rparr>)"

definition sample_fenced_runner :: Runner where
  "sample_fenced_runner = projr (NewRunner sample_migrations (Some (sample_store\<lparr>store_fenced := True\<rparr>))
     (Some sample_lease_locker) sample_clock)"

lemma sample_fenced_new:
  "NewRunner sample_migrations (Some (sample_store\<lparr>store_fenced := True\<rparr>))
     (Some sample_lease_locker) sample_clock = Inr sample_fenced_runner"
proof -
  have "\<not> isl (NewRunner sample_migrations (Some (sample_store\<lparr>store_fenced := True\<rparr>))
     (Some sample_lease_locker) sample_clock)"
    by code_simp
  then show ?thesis by (simp add: sample_fenced_runner_def)
qed

lemma sample_clean: "runner_clean sample_runner"
  by code_simp

section \<open>Run\<close>

text \<open>
  C1.  A successful Run acquires the lock, loads and validates the state, applies exactly the
  pending migrations of the resolved range in registry order, and releases the lock; afterwards
  every migration up to the target is applied, the ones before the range are marked skipped, what
  was applied before keeps its timestamp, and the returned list describes the saved state.
\<close>

theorem Run_result:
  assumes "NewRunner ms s l clock = Inr R" and "Run R ctx opts h = (Inr sts, h')"
  shows "\<exists>from to st0 st ev. resolveRunRange R opts = Inr (from, to)
    \<and> store_Load (store R) (h @ [EvLock None, EvCtx None]) = Inr st0 \<and> normalize st0 = Inr st
    \<and> validateState R st = None
    \<and> h' = h @ [EvLock None, EvCtx None, EvLoad None] @ ev @ [EvUnlock None]
    \<and> up_ids ev = pending_ids st (run_slice R from to) \<and> down_ids ev = []
    \<and> run_outcome R from to st (durable st ev) \<and> sts = statuses R (durable st ev)"
proof -
  have R: "runner_ok R" using assms(1) by (rule NewRunner_establishes)
  from assms(2) [unfolded Run_def] show ?thesis
  proof (cases rule: withLock_shape)
    case (held c r h1 y)
    then have y: "y = None" and r: "r = Inr sts" by (auto split: if_splits)
    from run_op_trace [OF R held(1) [unfolded r]] show ?thesis
      using held(2) y by (auto simp: op_trace_def run_trace_def)
  qed simp_all
qed

theorem Run_result_witness:
  "\<exists>from to st0 st ev. resolveRunRange sample_runner sample_options = Inr (from, to)
    \<and> store_Load (store sample_runner) [EvLock None, EvCtx None] = Inr st0 \<and> normalize st0 = Inr st
    \<and> validateState sample_runner st = None
    \<and> snd (Run sample_runner None sample_options []) = [EvLock None, EvCtx None, EvLoad None] @ ev @ [EvUnlock None]
    \<and> up_ids ev = pending_ids st (run_slice sample_runner from to) \<and> down_ids ev = []
    \<and> run_outcome sample_runner from to st (durable st ev)
    \<and> projr (fst (Run sample_runner None sample_options [])) = statuses sample_runner (durable st ev)"
  using Run_result [OF sample_new sample_run] by simp

section \<open>Every command\<close>

text \<open>What any command adds to the history, in the terms of the interface \<open>locked_operation\<close>.\<close>

lemma perform_events:
  assumes R: "runner_ok R" and p: "perform R cmd h = (res, h')"
  obtains (unlocked) ev where "h' = h @ ev" "quiet ev"
  | (locked) ctx operation where "locked_operation R (operation :: Context \<Rightarrow> history \<Rightarrow> (go_error + Status list) \<times> history)"
      "withLock R ctx operation h = (res, h')"
proof (cases cmd)
  case (CmdList ctx)
  obtain r1 h1 where ld: "loadState R ctx h = (r1, h1)" by fastforce
  then have "\<exists>ev. h1 = h @ ev \<and> quiet ev"
    by (cases rule: loadState_shape) (auto simp: quiet_def)
  moreover have "h' = h1" using p ld CmdList by (cases r1) (auto simp: Runner_List_def)
  ultimately show thesis using unlocked by blast
next
  case (CmdRun ctx opts)
  then show thesis using p run_locked.locked_operation_axioms by (auto simp: Run_def intro: locked)
next
  case (CmdRevert ctx target)
  show thesis
  proof (cases "TrimSpace target = []")
    case True
    then show thesis using p CmdRevert by (intro unlocked [of "[]"]) (auto simp: Revert_def quiet_def)
  next
    case False
    then show thesis using p CmdRevert revert_locked.locked_operation_axioms
      by (auto simp: Revert_def intro: locked)
  qed
next
  case (CmdRevertOne ctx)
  then show thesis using p revert_one_locked.locked_operation_axioms by (auto simp: RevertOne_def intro: locked)
qed

text \<open>
  C13.  Whatever the environment does, no command calls another migration function after a
  successful Up or Down before a save that records it has succeeded, and every state a command
  hands to the store is well formed: canonical, duplicate-free keys throughout.
\<close>

theorem perform_checkpoints:
  assumes "NewRunner ms s l clock = Inr R" and "perform R cmd h = (res, h')"
  shows "\<exists>ev. h' = h @ ev \<and> checkpointed None ev \<and> saves_ok (\<lambda>st tok. state_ok st) ev"
  using NewRunner_establishes(1) [OF assms(1)] assms(2)
proof (cases rule: perform_events)
  case (unlocked ev)
  then show ?thesis by (auto simp: quiet_simps)
next
  case (locked c operation)
  then show ?thesis using locked_operation.withLock_checkpointed NewRunner_establishes(1) [OF assms(1)] by blast
qed

theorem perform_checkpoints_witness:
  "\<exists>ev. snd (perform sample_runner (CmdRun None sample_options) []) = [] @ ev \<and> checkpointed None ev
     \<and> saves_ok (\<lambda>st tok. state_ok st) ev"
  using perform_checkpoints [OF sample_new surjective_pairing] by blast

text \<open>
  C17.  The lock is never leaked and never released twice: if the locker hands out release
  functions, every command either does not touch the lock, fails to acquire it, or acquires it
  once, does all its work under it and releases it once, last of all, on success and on every
  error path.
\<close>

theorem perform_releases_lock:
  assumes "NewRunner ms s l clock = Inr R" and "unlockable (locker R)" and "perform R cmd h = (res, h')"
  shows "\<exists>ev. h' = h @ ev \<and> (lock_balanced ev \<or> quiet ev)"
  using NewRunner_establishes(1) [OF assms(1)] assms(3)
proof (cases rule: perform_events)
  case (locked c operation)
  then show ?thesis
    using locked_operation.withLock_balanced [OF _ NewRunner_establishes(1) [OF assms(1)] assms(2)] by blast
qed blast

theorem perform_releases_lock_witness:
  "unlockable (locker sample_runner)
   \<and> (\<exists>ev. snd (perform sample_runner (CmdRevertOne None) []) = [] @ ev \<and> (lock_balanced ev \<or> quiet ev))"
proof -
  have u: "unlockable (locker sample_runner)"
    using NewRunner_fields [OF sample_new] by (simp add: unlockable_sample)
  from u perform_releases_lock [OF sample_new u surjective_pairing] show ?thesis by blast
qed

lemma perform_fenced:
  assumes R: "runner_ok R" and lease: "lease_based (locker R)" and run: "perform R cmd h = (res, h')"
  shows "\<exists>ev. h' = h @ ev \<and> saves_ok (\<lambda>st tok. lease_token (locker R) h tok) ev"
  using R run
proof (cases rule: perform_events)
  case (unlocked ev)
  then show ?thesis by (auto simp: quiet_simps)
next
  case (locked c operation)
  then show ?thesis using locked_operation.withLock_fenced [OF _ R lease] by blast
qed

text \<open>
  C15.  A runner on a lease, and any runner on a store that requires fencing, saves only with the
  non-blank token of the lease it holds.
\<close>

theorem perform_saves_fenced:
  assumes "NewRunner ms s l clock = Inr R" and "lease_based (locker R) \<or> fencing_required (store R)"
    and "perform R cmd h = (res, h')"
  shows "\<exists>ev. h' = h @ ev \<and> saves_ok (\<lambda>st tok. lease_token (locker R) h tok) ev"
proof -
  have R: "runner_ok R" using assms(1) by (rule NewRunner_establishes)
  have "lease_based (locker R)" using assms(2) R by (auto simp: runner_ok_def)
  then show ?thesis using perform_fenced [OF R _ assms(3)] by blast
qed

theorem perform_saves_fenced_witness:
  "\<exists>ev. snd (perform sample_fenced_runner (CmdRun None sample_options) []) = [] @ ev
     \<and> saves_ok (\<lambda>st tok. lease_token (locker sample_fenced_runner) [] tok) ev"
proof -
  have "locker sample_fenced_runner = sample_lease_locker"
    using NewRunner_fields [OF sample_fenced_new] by simp
  then have "lease_based (locker sample_fenced_runner)" by (simp add: sample_lease_locker_def)
  then show ?thesis using perform_saves_fenced [OF sample_fenced_new _ surjective_pairing] by blast
qed

section \<open>Sessions on the memory store\<close>

text \<open>
  C4.  Over any sequence of List, Run, Revert and RevertOne commands on a memory store, failing in
  any way at any point, no migration is applied while the durable state has it as applied, none
  is reverted unless the durable state has it as applied and not skipped, and every saved state
  satisfies the runner's invariant.
\<close>

theorem session_safe:
  assumes "NewRunner ms (Some (MemoryStore jl)) l clock = Inr R" and "runner_clean R"
  shows "good_history R (session R cmds [])"
proof -
  have R: "runner_ok R" using assms(1) by (rule NewRunner_establishes)
  have s: "store R = MemoryStore jl"
    using NewRunner_fields [OF assms(1)] by simp
  have "good_history R []" by (simp add: good_history_def)
  with mem_store.session_good [OF s durable_inv_clean [OF assms(2)] R] show ?thesis by blast
qed

theorem session_safe_witness:
  "runner_clean sample_runner
   \<and> good_history sample_runner (session sample_runner [CmdRun None sample_options, CmdRevertOne None, CmdList None] [])"
  using session_safe [OF sample_new [unfolded sample_store_def] sample_clean] sample_clean by blast



section \<open>Revert and RevertOne\<close>

text \<open>
  C24.  A successful Revert calls Down exactly on the migrations from the target on that are applied
  and were not merely skipped, the latest first; afterwards none of the migrations from the target
  on is applied or skipped, and every other one is as it was.
\<close>

theorem Revert_result:
  assumes "NewRunner ms s l clock = Inr R" and "Revert R ctx target h = (Inr sts, h')"
  shows "\<exists>to st0 st ev. resolveTarget R target True = Inr to
    \<and> store_Load (store R) (h @ [EvLock None, EvCtx None]) = Inr st0 \<and> normalize st0 = Inr st
    \<and> h' = h @ [EvLock None, EvCtx None, EvLoad None] @ ev @ [EvUnlock None]
    \<and> up_ids ev = [] \<and> down_ids ev = revert_ids st (rev (drop to (migrations R)))
    \<and> revert_outcome R to st (durable st ev) \<and> sts = statuses R (durable st ev)"
proof -
  have R: "runner_ok R" using assms(1) by (rule NewRunner_establishes)
  have "withLock R ctx (revert_op R target) h = (Inr sts, h')"
    using assms(2) by (auto simp: Revert_def split: if_splits)
  then show ?thesis
  proof (cases rule: withLock_shape)
    case (held c r h1 y)
    then have y: "y = None" and r: "r = Inr sts" by (auto split: if_splits)
    from revert_op_trace [OF R held(1) [unfolded r]] show ?thesis
      using held(2) y by (auto simp: op_trace_def revert_trace_def)
  qed simp_all
qed

text \<open>
  Revert is all or nothing about reversibility: if any migration that would have to be
  reverted has no Down, Revert fails before it calls any Down and before it saves anything.
\<close>

theorem Revert_irreversible:
  assumes "NewRunner ms s l clock = Inr R" and "resolveTarget R target True = Inr to"
    and "\<And>st0 st. store_Load (store R) (h @ [EvLock None, EvCtx None]) = Inr st0 \<Longrightarrow> normalize st0 = Inr st
           \<Longrightarrow> blocked R to st"
    and "Revert R ctx target h = (res, h')"
  shows "isl res \<and> (\<exists>ev. h' = h @ ev \<and> up_ids ev = [] \<and> down_ids ev = [] \<and> saves_ok (\<lambda>st tok. False) ev)"
proof (cases "TrimSpace target = []")
  case True
  then show ?thesis using assms(4) by (auto simp: Revert_def)
next
  case False
  have R: "runner_ok R" using assms(1) by (rule NewRunner_establishes)
  have "withLock R ctx (revert_op R target) h = (res, h')"
    using assms(4) False by (simp add: Revert_def)
  then show ?thesis
  proof (cases rule: withLock_shape)
    case (held c r h1 y)
    from revert_op_trace [OF R held(1)] assms(2)
    have "isl r \<and> (\<exists>ev. h1 = h @ [EvLock None] @ ev \<and> quiet ev)"
    proof (elim disjE exE conjE)
      fix k assume "resolveTarget R target True = Inr k"
        and "op_trace R c (\<lambda>st. revert_trace R k st r) (h @ [EvLock None]) h1"
      with assms(2,3) show ?thesis
        by (auto simp: op_trace_def revert_trace_def quiet_def)
    qed (use assms(2) in auto)
    then obtain ev where ev: "h1 = h @ [EvLock None] @ ev" "quiet ev" "isl r" by blast
    then show ?thesis using held(2,3) by (auto simp: quiet_simps split: if_splits)
  qed auto
qed

text \<open>
  A successful RevertOne reverts the latest applied migration of the registry and nothing
  else: Down is called on it alone, and not at all if it was merely skipped; with nothing applied
  it changes nothing.
\<close>

theorem RevertOne_result:
  assumes "NewRunner ms s l clock = Inr R" and "RevertOne R ctx h = (Inr sts, h')"
  shows "\<exists>st0 st ev. store_Load (store R) (h @ [EvLock None, EvCtx None]) = Inr st0 \<and> normalize st0 = Inr st
    \<and> h' = h @ [EvLock None, EvCtx None, EvLoad None] @ ev @ [EvUnlock None]
    \<and> up_ids ev = [] \<and> sts = statuses R (durable st ev)
    \<and> (case last_applied_index st (migrations R) (length (migrations R)) of
         None \<Rightarrow> ev = [] \<and> (\<forall>m \<in> set (migrations R). \<not> applied st (mID m))
       | Some i \<Rightarrow> let k = mID (migrations R ! i) in
           (\<forall>j. i < j \<and> j < length (migrations R) \<longrightarrow> \<not> applied st (mID (migrations R ! j)))
           \<and> down_ids ev = (if skipped st k then [] else [k])
           \<and> (\<forall>j. timestamp_of (durable st ev) j = (if j = k then None else timestamp_of st j)))"
proof -
  have R: "runner_ok R" using assms(1) by (rule NewRunner_establishes)
  let ?ms = "migrations R"
  from assms(2) [unfolded RevertOne_def] show ?thesis
  proof (cases rule: withLock_shape)
    case (held c r h1 y)
    then have y: "y = None" and r: "r = Inr sts" by (auto split: if_splits)
    from revert_one_op_trace [OF R held(1) [unfolded r]] obtain st0 st ev
      where ld: "store_Load (store R) (h @ [EvLock None, EvCtx None]) = Inr st0" "normalize st0 = Inr st"
      and h1: "h1 = h @ [EvLock None, EvCtx None, EvLoad None] @ ev"
      and ev: "case last_applied_index st ?ms (length ?ms) of
          Some i \<Rightarrow> revert_trace R i st (Inr sts) ev | None \<Rightarrow> ev = [] \<and> Inr sts = (Inr (statuses R st) :: go_error + Status list)"
      by (auto simp: op_trace_def)
    show ?thesis
    proof (cases "last_applied_index st ?ms (length ?ms)")
      case None
      have "\<forall>m \<in> set ?ms. \<not> applied st (mID m)"
        using last_applied_index_None [OF None] by (metis in_set_conv_nth)
      with None ev ld h1 held(2) y show ?thesis by auto
    next
      case (Some i)
      note i = last_applied_index_Some [OF Some]
      have dr: "drop i ?ms = ?ms ! i # drop (Suc i) ?ms" using i by (simp add: Cons_nth_drop_Suc)
      have later: "\<not> applied st (mID m)" if "m \<in> set (drop (Suc i) ?ms)" for m
        using that i by (auto simp: in_set_conv_nth)
      then have ids: "revert_ids st (rev (drop i ?ms)) =
          (if skipped st (mID (?ms ! i)) then [] else [mID (?ms ! i)])"
        using i by (auto simp: dr revert_ids_def filter_empty_conv)
      have "timestamp_of (durable st ev) j = (if j = mID (?ms ! i) then None else timestamp_of st j)" for j
        using ev Some later by (auto simp: revert_trace_def revert_outcome_def dr applied_def)
      with Some ev ld h1 held(2) y i ids show ?thesis
        by (auto simp: revert_trace_def Let_def)
    qed
  qed simp_all
qed

text \<open>The sample migrations on a store that has the first as skipped and the second as applied.\<close>

definition applied_store :: Store where
  "applied_store = \<lparr>store_fenced = False, store_fencing = None,
     store_Load = (\<lambda>h. Inr (NewState\<lparr>Migrations := [(''v1.0.0-1-a'', Some 5), (''v1.0.0-2-b'', Some 6)],
       SkippedMigrations := [(''v1.0.0-1-a'', 5)]\<rparr>)),
     store_Save = (\<lambda>st tok h. None)\<rparr>"

definition applied_runner :: Runner where
  "applied_runner = projr (NewRunner sample_migrations (Some applied_store) (Some sample_locker) sample_clock)"

lemma applied_new:
  "NewRunner sample_migrations (Some applied_store) (Some sample_locker) sample_clock = Inr applied_runner"
proof -
  have "\<not> isl (NewRunner sample_migrations (Some applied_store) (Some sample_locker) sample_clock)" by code_simp
  then show ?thesis by (simp add: applied_runner_def)
qed

lemma success_pair: "\<not> isl (fst p) \<Longrightarrow> p = (Inr (projr (fst p)), snd p)"
  by (cases p) auto

lemma applied_revert_ok: "\<not> isl (fst (Revert applied_runner None ''v1.0.0'' []))"
  by code_simp

lemma applied_revert_one_ok: "\<not> isl (fst (RevertOne applied_runner None []))"
  by code_simp

theorem Revert_result_witness:
  "\<exists>to st0 st ev. resolveTarget applied_runner ''v1.0.0'' True = Inr to
    \<and> store_Load (store applied_runner) ([] @ [EvLock None, EvCtx None]) = Inr st0 \<and> normalize st0 = Inr st
    \<and> snd (Revert applied_runner None ''v1.0.0'' []) =
        [] @ [EvLock None, EvCtx None, EvLoad None] @ ev @ [EvUnlock None]
    \<and> up_ids ev = [] \<and> down_ids ev = revert_ids st (rev (drop to (migrations applied_runner)))
    \<and> revert_outcome applied_runner to st (durable st ev)
    \<and> projr (fst (Revert applied_runner None ''v1.0.0'' [])) = statuses applied_runner (durable st ev)"
  using Revert_result [OF applied_new success_pair [OF applied_revert_ok]] .

theorem RevertOne_result_witness:
  "\<exists>st0 st ev. store_Load (store applied_runner) ([] @ [EvLock None, EvCtx None]) = Inr st0 \<and> normalize st0 = Inr st
    \<and> snd (RevertOne applied_runner None []) =
        [] @ [EvLock None, EvCtx None, EvLoad None] @ ev @ [EvUnlock None]
    \<and> up_ids ev = [] \<and> projr (fst (RevertOne applied_runner None [])) = statuses applied_runner (durable st ev)"
  using RevertOne_result [OF applied_new success_pair [OF applied_revert_one_ok]] by blast

text \<open>A runner whose only migration has no Down, and a store that has it as applied.\<close>

definition stuck_store :: Store where
  "stuck_store = \<lparr>store_fenced = False, store_fencing = None,
     store_Load = (\<lambda>h. Inr (NewState\<lparr>Migrations := [(''v1.0.0-1-a'', Some 5)]\<rparr>)),
     store_Save = (\<lambda>st tok h. None)\<rparr>"

definition stuck_migrations :: "Migration list" where
  "stuck_migrations = [(sample_migration ''v1.0.0-1-a'')\<lparr>Down := None\<rparr>]"

definition stuck_runner :: Runner where
  "stuck_runner = projr (NewRunner stuck_migrations (Some stuck_store) (Some sample_locker) sample_clock)"

lemma stuck_new: "NewRunner stuck_migrations (Some stuck_store) (Some sample_locker) sample_clock = Inr stuck_runner"
proof -
  have "\<not> isl (NewRunner stuck_migrations (Some stuck_store) (Some sample_locker) sample_clock)" by code_simp
  then show ?thesis by (simp add: stuck_runner_def)
qed

definition stuck_state :: State where
  "stuck_state = projr (normalize (NewState\<lparr>Migrations := [(''v1.0.0-1-a'', Some 5)]\<rparr>))"

lemma stuck_blocked: "blocked stuck_runner 0 stuck_state"
proof -
  have "list_ex (\<lambda>m. applied stuck_state (mID m) \<and> \<not> skipped stuck_state (mID m) \<and> Option.is_none (Down m))
      (migrations stuck_runner)"
    by code_simp
  then show ?thesis by (auto simp: blocked_def list_ex_iff Option.is_none_def)
qed

theorem Revert_irreversible_witness:
  "isl (fst (Revert stuck_runner None ''latest'' [])) \<and> (\<exists>ev. snd (Revert stuck_runner None ''latest'' []) = [] @ ev
     \<and> up_ids ev = [] \<and> down_ids ev = [] \<and> saves_ok (\<lambda>st tok. False) ev)"
proof (rule Revert_irreversible [OF stuck_new])
  show "resolveTarget stuck_runner ''latest'' True = Inr 0" by code_simp
  fix st0 st
  assume "store_Load (store stuck_runner) ([] @ [EvLock None, EvCtx None]) = Inr st0" "normalize st0 = Inr st"
  moreover have "store stuck_runner = stuck_store" using NewRunner_fields [OF stuck_new] by simp
  ultimately have "st = stuck_state" by (auto simp: stuck_store_def stuck_state_def)
  then show "blocked stuck_runner 0 st" by (simp add: stuck_blocked)
qed (rule surjective_pairing)

end
