(* ===== verification/Migration_Progress.thy ===== *)
theory Migration_Progress
  imports Migration_Properties
begin

text \<open>
  Construction, targets and progress of the migration runner: when \<^verbatim>\<open>NewRunner\<close> accepts a registry,
  what a target resolves to, that Run succeeds when its environment does, and the properties of
  identifiers and of persisted state.
\<close>

section \<open>Identifiers and state\<close>

text \<open>
  C36.  Printing and parsing identities are inverse: a well-formed identity is what its printed form
  parses to, everything \<^verbatim>\<open>ParseID\<close> accepts is well formed, and \<^verbatim>\<open>CanonicalID\<close> is idempotent.
\<close>

theorem ID_round_trip:
  "(ID_ok i \<longrightarrow> ParseID (ID_String i) = Inr i) \<and> (ParseID t = Inr j \<longrightarrow> ID_ok j)
   \<and> (CanonicalID t = Inr c \<longrightarrow> CanonicalID c = Inr c)"
  by (simp add: ParseID_ID_String ParseID_ok CanonicalID_canonical)

theorem ID_round_trip_witness:
  "ParseID (ID_String (ID 1 20 3 4 ''add_users'')) = Inr (ID 1 20 3 4 ''add_users'')
   \<and> CanonicalID ''v1.2.3-4-x'' = Inr ''v1.2.3-4-x''"
proof -
  have "ID_ok (ID 1 20 3 4 ''add_users'')"
    by (simp add: ID_ok_def name_ok_def is_name_char_def is_alnum_def is_digit_def)
  moreover have "CanonicalID ''001002003004-x'' = Inr ''v1.2.3-4-x''" by code_simp
  ultimately show ?thesis
    using ID_round_trip [of "ID 1 20 3 4 ''add_users''" "''001002003004-x''" undefined "''v1.2.3-4-x''"] by blast
qed

text \<open>
  C24.  \<^verbatim>\<open>normalize\<close> returns a state with canonical, duplicate-free keys, changes nothing in such a
  state, and is therefore idempotent.
\<close>

theorem normalize_idempotent:
  "(normalize st = Inr st' \<longrightarrow> state_ok st' \<and> normalize st' = Inr st') \<and> (state_ok st \<longrightarrow> normalize st = Inr st)"
  using normalize_state_ok normalize_id by blast

definition messy_state :: State where
  "messy_state = NewState\<lparr>Migrations := [(''v01.0.0-1-a.go'', Some 3)], LastRunMigration := ''001000000001-a''\<rparr>"

theorem normalize_idempotent_witness:
  "state_ok (projr (normalize messy_state)) \<and> normalize (projr (normalize messy_state)) = normalize messy_state"
proof -
  have "\<not> isl (normalize messy_state)" by code_simp
  then have "normalize messy_state = Inr (projr (normalize messy_state))" by simp
  with normalize_idempotent [of messy_state "projr (normalize messy_state)"] show ?thesis by simp
qed

text \<open>
  Importing node-migrate state yields a well-formed state without skips or checksums whose
  last-run timestamp is not before any imported timestamp.
\<close>

theorem decodeNodeState_ok:
  assumes "decodeNodeState lastRun items = Inr st"
  shows "state_ok st \<and> SkippedMigrations st = [] \<and> Checksums st = []
    \<and> (\<forall>i t. timestamp_of st i = Some t \<longrightarrow> t \<le> LastRunTimestamp st)"
proof -
  from assms obtain st0 where st0: "node_items NewState items = Inr st0"
    and st: "st = st0 \<or> (\<exists>c. CanonicalID lastRun = Inr c \<and> st = st0\<lparr>LastRunMigration := c\<rparr>)"
    by (auto simp: decodeNodeState_def split: sum.splits if_splits)
  have "node_inv NewState" by (simp add: node_inv_def NewState_def timestamp_of_def)
  from node_items_inv [OF st0 this] have inv: "node_inv st0" .
  from st show ?thesis
  proof (elim disjE exE conjE)
    assume "st = st0"
    then show ?thesis using inv by (simp add: node_inv_def state_ok_def)
  next
    fix c assume "CanonicalID lastRun = Inr c" "st = st0\<lparr>LastRunMigration := c\<rparr>"
    then show ?thesis using inv by (simp add: node_inv_def state_ok_def canonical_CanonicalID)
  qed
qed

theorem decodeNodeState_ok_witness:
  "state_ok (projr (decodeNodeState '''' [(''v1.0.0-1-a'', Some 1500000000000), (''v1.0.0-2-b'', None)]))"
proof -
  let ?r = "decodeNodeState '''' [(''v1.0.0-1-a'', Some 1500000000000), (''v1.0.0-2-b'', None)]"
  have "\<not> isl ?r" by code_simp
  then have "?r = Inr (projr ?r)" by simp
  from decodeNodeState_ok [OF this] show ?thesis by blast
qed

section \<open>Construction\<close>

lemma collect_entries_iff:
  "(\<exists>es'. collect_entries seen es ms = Inr es') \<longleftrightarrow>
     (\<forall>m \<in> set ms. \<not> isl (ParseID (mID m)) \<and> Up m \<noteq> None)
     \<and> distinct (map (mID \<circ> canonical_entry) ms)
     \<and> (mID \<circ> canonical_entry) ` set ms \<inter> set seen = {}"
proof (induction ms arbitrary: seen es)
  case (Cons m ms)
  show ?case
  proof (cases "ParseID (mID m)")
    case (Inr i)
    then have c: "mID (canonical_entry m) = ID_String i" by (simp add: canonical_entry_def)
    show ?thesis using Inr c Cons.IH [of "ID_String i # seen"] by auto
  qed simp
qed simp

text \<open>
  C25.  \<^verbatim>\<open>NewRunner\<close> accepts a registry exactly when it is not empty, store and locker agree on
  fencing, every identifier parses, every migration has an Up and no two identifiers have the same
  canonical form.
\<close>

theorem NewRunner_accepts:
  "(\<exists>R. NewRunner ms (Some s) (Some l) clock = Inr R) \<longleftrightarrow>
     ms \<noteq> [] \<and> check_fencing s l = None
     \<and> list_all (\<lambda>m. \<not> isl (ParseID (mID m)) \<and> Up m \<noteq> None) ms
     \<and> distinct (map (mID \<circ> canonical_entry) ms)"
proof -
  have "(\<exists>R. NewRunner ms (Some s) (Some l) clock = Inr R) \<longleftrightarrow>
      ms \<noteq> [] \<and> check_fencing s l = None \<and> (\<exists>es. collect_entries [] [] ms = Inr es)"
    by (auto simp: NewRunner_def Let_def split: option.splits sum.splits)
  then show ?thesis unfolding collect_entries_iff by (simp add: list_all_iff)
qed

text \<open>
  C31.  The runner holds the given migrations with canonical identifiers, no more and no fewer, in
  strictly ascending \<^verbatim>\<open>compareID\<close> order, with \<^verbatim>\<open>parsed\<close> in step with \<^verbatim>\<open>migrations\<close>.
\<close>

theorem NewRunner_sorts:
  assumes "NewRunner ms s l clock = Inr R"
  shows "mset (migrations R) = mset (map canonical_entry ms) \<and> sorted_wrt (\<lambda>a b. compareID a b < 0) (parsed R)
    \<and> map mID (migrations R) = map ID_String (parsed R)"
proof -
  have R: "runner_ok R" using assms by (rule NewRunner_establishes)
  then have "sorted_wrt (<) (parsed R)" by (simp add: runner_ok_def)
  then have "sorted_wrt (\<lambda>a b. compareID a b < 0) (parsed R)"
    by (rule sorted_wrt_mono_rel [rotated]) (simp add: less_ID_def)
  with R NewRunner_establishes(2) [OF assms] show ?thesis by (simp add: runner_ok_def)
qed

theorem NewRunner_sorts_witness:
  "mset (migrations sample_runner) = mset (map canonical_entry sample_migrations)
   \<and> sorted_wrt (\<lambda>a b. compareID a b < 0) (parsed sample_runner)
   \<and> map mID (migrations sample_runner) = map ID_String (parsed sample_runner)"
  by (rule NewRunner_sorts [OF sample_new])

section \<open>Targets\<close>

lemma version_scan_first:
  "version_scan True v i None ds = Some k \<Longrightarrow>
     i \<le> k \<and> k < i + length ds \<and> ID_Version (ds ! (k - i)) = v \<and> (\<forall>j < k - i. ID_Version (ds ! j) \<noteq> v)"
proof (induction ds arbitrary: i)
  case (Cons d ds)
  show ?case
  proof (cases "ID_Version d = v")
    case False
    with Cons.IH [of "Suc i"] Cons.prems have IH: "Suc i \<le> k" "k < Suc i + length ds"
      "ID_Version (ds ! (k - Suc i)) = v" "\<forall>j < k - Suc i. ID_Version (ds ! j) \<noteq> v"
      by auto
    then have "k - i = Suc (k - Suc i)" by simp
    with IH False show ?thesis by (auto simp: less_Suc_eq_0_disj)
  qed (use Cons.prems in auto)
qed simp

lemma version_scan_last:
  "version_scan False v i match ds = Some k \<Longrightarrow>
     (match = Some k \<and> (\<forall>j < length ds. ID_Version (ds ! j) \<noteq> v))
     \<or> (i \<le> k \<and> k < i + length ds \<and> ID_Version (ds ! (k - i)) = v
         \<and> (\<forall>j. k - i < j \<and> j < length ds \<longrightarrow> ID_Version (ds ! j) \<noteq> v))"
proof (induction ds arbitrary: i match)
  case (Cons d ds)
  let ?m = "if ID_Version d = v then Some i else match"
  have "version_scan False v (Suc i) ?m ds = Some k" using Cons.prems by (simp split: if_splits)
  from Cons.IH [OF this] show ?case
  proof (elim disjE conjE)
    assume "?m = Some k" "\<forall>j < length ds. ID_Version (ds ! j) \<noteq> v"
    then have tail: "ID_Version (ds ! (j - Suc 0)) \<noteq> v" if "0 < j" "j < Suc (length ds)" for j
      using that by simp
    show ?thesis
    proof (cases "ID_Version d = v")
      case True
      with tail \<open>?m = Some k\<close> show ?thesis by simp
    next
      case False
      with tail \<open>?m = Some k\<close> show ?thesis by (auto simp: nth_Cons')
    qed
  next
    assume IH: "Suc i \<le> k" "k < Suc i + length ds" "ID_Version (ds ! (k - Suc i)) = v"
      "\<forall>j. k - Suc i < j \<and> j < length ds \<longrightarrow> ID_Version (ds ! j) \<noteq> v"
    then have "k - i = Suc (k - Suc i)" by simp
    with IH show ?thesis by (auto simp: less_Suc_eq_0_disj)
  qed
qed simp

text \<open>
  A version target resolves to the first migration of that version where a range starts and to
  the last one where it ends; every resolved index is inside the registry, and a resolved Run
  range is never empty or reversed.
\<close>

theorem resolveTarget_version:
  assumes "NewRunner ms s l clock = Inr R"
    and "versionPattern (TrimSpace t) = Some (a, b, p)" and "TrimSpace t \<noteq> ''''"
    and "\<not> equal_fold_lit (TrimSpace t) ''latest''" and "resolveTarget R t first = Inr k"
  shows "k < length (migrations R)
    \<and> ID_Version (parsed R ! k) = ''v'' @ itoa (ParseUint_value a) @ ''.'' @ itoa (ParseUint_value b)
         @ ''.'' @ itoa (ParseUint_value p)
    \<and> (\<forall>j < length (migrations R). (if first then j < k else k < j) \<longrightarrow> ID_Version (parsed R ! j) \<noteq> ID_Version (parsed R ! k))"
proof -
  have R: "runner_ok R" using assms(1) by (rule NewRunner_establishes)
  let ?v = "''v'' @ itoa (ParseUint_value a) @ ''.'' @ itoa (ParseUint_value b) @ ''.'' @ itoa (ParseUint_value p)"
  have not: "\<not> (TrimSpace t = [] \<or> equal_fold_lit (TrimSpace t) ''latest'')" using assms(3,4) by blast
  note unf = assms(5) [unfolded resolveTarget_def Let_def if_not_P [OF not] assms(2) option.case prod.case]
  have scan: "version_scan first ?v 0 None (parsed R) = Some k"
    using unf by (cases "version_scan first ?v 0 None (parsed R)") (simp_all only: option.case sum.distinct sum.inject)
  note len = runner_ok_length [OF R]
  show ?thesis
  proof (cases first)
    case True
    with version_scan_first [of ?v 0 "parsed R" k] scan len show ?thesis by simp
  next
    case False
    with version_scan_last [of ?v 0 None "parsed R" k] scan len show ?thesis by simp
  qed
qed

theorem resolveTarget_version_witness:
  "resolveTarget sample_runner ''v1.0.0'' False = Inr 1 \<and> ID_Version (parsed sample_runner ! 1) = ''v'' @ itoa (ParseUint_value ''1'')
     @ ''.'' @ itoa (ParseUint_value ''0'') @ ''.'' @ itoa (ParseUint_value ''0'')"
proof -
  have r: "resolveTarget sample_runner ''v1.0.0'' False = Inr 1" by code_simp
  have v: "versionPattern (TrimSpace ''v1.0.0'') = Some (''1'', ''0'', ''0'')" by code_simp
  have n: "TrimSpace ''v1.0.0'' \<noteq> ''''" "\<not> equal_fold_lit (TrimSpace ''v1.0.0'') ''latest''" by code_simp+
  from resolveTarget_version [OF sample_new v n r] r show ?thesis by blast
qed

section \<open>Progress\<close>










text \<open>
  C37.  A state can validate and yet be drifted by a successful run: a checksum recorded for a
  migration that is not applied is not compared, and if the compiled migration has no checksum
  then applying it keeps the recorded one, which the next validation rejects.
\<close>

theorem stale_checksum_drifts:
  assumes "NewRunner ms s l clock = Inr R" and "m \<in> set (migrations R)" and "state_ok st"
    and "Checksum m = ''''" and "checksum_of st (mID m) \<noteq> ''''"
  shows "validateState R (mark_applied m t st) \<noteq> None"
proof -
  have R: "runner_ok R" using assms(1) by (rule NewRunner_establishes)
  have "state_ok (mark_applied m t st)"
    using state_ok_mark(1) [OF assms(3) runner_ok_canonical [OF R assms(2)]] .
  moreover have "\<not> valid_state R (mark_applied m t st)"
    using registered_mem [OF runner_ok_distinct [OF R] assms(2)] assms(4,5)
    by (auto simp: valid_state_def dest!: spec [of _ "mID m"])
  ultimately show ?thesis using validateState_iff by blast
qed

definition stale_migrations :: "Migration list" where
  "stale_migrations = [(sample_migration ''v1.0.0-1-a'')\<lparr>Checksum := ''''\<rparr>]"

definition stale_runner :: Runner where
  "stale_runner = projr (NewRunner stale_migrations (Some sample_store) (Some sample_locker) sample_clock)"

definition stale_state :: State where
  "stale_state = NewState\<lparr>Checksums := [(''v1.0.0-1-a'', ''old'')]\<rparr>"

theorem stale_checksum_drifts_witness:
  "validateState stale_runner stale_state = None
   \<and> validateState stale_runner (mark_applied (hd (migrations stale_runner)) 7 stale_state) \<noteq> None"
proof -
  have "\<not> isl (NewRunner stale_migrations (Some sample_store) (Some sample_locker) sample_clock)" by code_simp
  then have new: "NewRunner stale_migrations (Some sample_store) (Some sample_locker) sample_clock = Inr stale_runner"
    by (simp add: stale_runner_def)
  have m: "hd (migrations stale_runner) \<in> set (migrations stale_runner)"
    using NewRunner_establishes(1) [OF new] by (simp add: runner_ok_def)
  have ok: "state_ok stale_state"
  proof -
    have "CanonicalID ''v1.0.0-1-a'' = Inr ''v1.0.0-1-a''" by code_simp
    then show ?thesis by (simp add: state_ok_def stale_state_def NewState_def canonical_keys_def gomap_ok_def canonical_def)
  qed
  have c: "Checksum (hd (migrations stale_runner)) = ''''"
    and d: "checksum_of stale_state (mID (hd (migrations stale_runner))) \<noteq> ''''"
    and v: "validateState stale_runner stale_state = None"
    by code_simp+
  from stale_checksum_drifts [OF new m ok c d] v show ?thesis by blast
qed

end
