(* ===== verification/Migration_Codec.thy ===== *)
theory Migration_Codec
  imports Migration_Store
begin

text \<open>
  Migration state as bytes (\<^verbatim>\<open>migration/migration.go\<close>): \<^verbatim>\<open>DecodeState\<close>, \<^verbatim>\<open>EncodeState\<close> and \<^verbatim>\<open>decodeTimestamp\<close>.

  \<^verbatim>\<open>encoding/json\<close> is a parameter, one function per structure the code decodes or encodes.  What the
  code relies on is \<open>json_faithful\<close>: unmarshalling what was marshalled gives the same values back.
  A decoded map is listed in the order the marshalled one was.
\<close>

section \<open>The codec\<close>

record raw_state =
  raw_LastRunMigration :: string
  raw_LastRunTimestamp :: string
  raw_Migrations :: "int option gomap"
  raw_SkippedMigrations :: "int gomap"
  raw_Checksums :: "string gomap"

record state_json =
  json_encode :: "State \<Rightarrow> go_error + string"
  json_probe :: "string \<Rightarrow> go_error + string"
  json_state :: "string \<Rightarrow> go_error + raw_state"
  json_node :: "string \<Rightarrow> go_error + string \<times> (string \<times> int option) list"
  json_int64 :: "string \<Rightarrow> go_error + int"
  json_string :: "string \<Rightarrow> go_error + string"

definition decodeTimestamp :: "state_json \<Rightarrow> string \<Rightarrow> go_error + int" where
  "decodeTimestamp J raw =
     (if raw = [] \<or> raw = ''null'' \<or> raw = [CHR 0x22, CHR 0x22] then Inr 0
      else case json_int64 J raw of
             Inr number \<Rightarrow> Inr number
           | Inl _ \<Rightarrow>
               (let invalid = Inl (Errorf ''migration: invalid timestamp %s'' [raw])
                in case json_string J raw of
                     Inl _ \<Rightarrow> invalid
                   | Inr v \<Rightarrow> (case ParseInt v of Inl _ \<Rightarrow> invalid | Inr n \<Rightarrow> Inr n)))"

text \<open>
  A reader is the bytes it delivers and the error it then returns, none at the end of the input.
  \<^verbatim>\<open>io.LimitReader\<close> stops one byte past the limit without asking the reader again.
\<close>

type_synonym reader = "string \<times> go_error option"

definition too_large :: go_error where
  "too_large = Errorf ''migration: state exceeds %d bytes'' [itoa maxStateBytes]"

definition DecodeState :: "state_json \<Rightarrow> reader \<Rightarrow> go_error + State" where
  "DecodeState J rd =
     (case rd of (bytes, rerr) \<Rightarrow>
      if length bytes \<le> maxStateBytes \<and> rerr \<noteq> None
      then Inl (Errorw ''migration: read state: %w'' [] (the rerr))
      else if length bytes > maxStateBytes then Inl too_large
      else if TrimSpace bytes = '''' then Inr NewState
      else case json_probe J bytes of
             Inl e \<Rightarrow> Inl (Errorw ''migration: decode state: %w'' [] e)
           | Inr ms \<Rightarrow>
               if ms \<noteq> [] \<and> hd ms = CHR ''['' then
                 (case json_node J bytes of
                    Inl e \<Rightarrow> Inl (Errorw ''migration: decode node state: %w'' [] e)
                  | Inr (lastRun, items) \<Rightarrow> decodeNodeState lastRun items)
               else case json_state J bytes of
                      Inl e \<Rightarrow> Inl (Errorw ''migration: decode state: %w'' [] e)
                    | Inr raw \<Rightarrow>
                        (case decodeTimestamp J (raw_LastRunTimestamp raw) of
                           Inl e \<Rightarrow> Inl e
                         | Inr t \<Rightarrow>
                             normalize \<lparr>LastRunMigration = raw_LastRunMigration raw, LastRunTimestamp = t,
                               Migrations = raw_Migrations raw, SkippedMigrations = raw_SkippedMigrations raw,
                               Checksums = raw_Checksums raw\<rparr>))"

text \<open>The writer is nil, or answers whether writing the bytes fails; the result is the bytes written.\<close>

definition EncodeState :: "state_json \<Rightarrow> (string \<Rightarrow> go_error option) option \<Rightarrow> State \<Rightarrow> go_error + string" where
  "EncodeState J writer st =
     (case writer of
        None \<Rightarrow> Inl (errors_New ''migration: nil state writer'')
      | Some wr \<Rightarrow>
     (case normalize st of
        Inl e \<Rightarrow> Inl e
      | Inr st1 \<Rightarrow>
     (case json_encode J st1 of
        Inl e \<Rightarrow> Inl (Errorw ''migration: encode state: %w'' [] e)
      | Inr bytes \<Rightarrow>
          if length bytes > maxStateBytes then Inl too_large
          else case wr bytes of
                 Some e \<Rightarrow> Inl (Errorw ''migration: write state: %w'' [] e)
               | None \<Rightarrow> Inr bytes)))"

text \<open>\<^verbatim>\<open>bytes.Buffer\<close> as a writer: it never fails.\<close>

abbreviation buffer :: "(string \<Rightarrow> go_error option) option" where
  "buffer \<equiv> Some (\<lambda>_. None)"

section \<open>Round trip\<close>

text \<open>What the code relies on of \<^verbatim>\<open>encoding/json\<close>, for one normalised state of valid UTF-8.\<close>

definition json_faithful :: "state_json \<Rightarrow> State \<Rightarrow> bool" where
  "json_faithful J st \<longleftrightarrow>
     (case json_encode J st of
        Inl _ \<Rightarrow> True
      | Inr bytes \<Rightarrow>
          TrimSpace bytes \<noteq> ''''
        \<and> (case json_probe J bytes of Inl _ \<Rightarrow> False | Inr ms \<Rightarrow> ms = [] \<or> hd ms \<noteq> CHR ''['')
        \<and> json_state J bytes =
            Inr \<lparr>raw_LastRunMigration = LastRunMigration st, raw_LastRunTimestamp = itoa_int (LastRunTimestamp st),
                 raw_Migrations = Migrations st, raw_SkippedMigrations = SkippedMigrations st,
                 raw_Checksums = Checksums st\<rparr>
        \<and> json_int64 J (itoa_int (LastRunTimestamp st)) = Inr (LastRunTimestamp st))"

lemma decodeTimestamp_itoa:
  assumes "json_int64 J (itoa_int t) = Inr t"
  shows "decodeTimestamp J (itoa_int t) = Inr t"
proof -
  have "itoa_int t \<noteq> []" by (simp add: itoa_int_def)
  moreover have "hd (itoa_int t) = CHR ''-'' \<or> is_digit (hd (itoa_int t))"
    by (auto simp: itoa_int_def itoa_hd_digit)
  then have "itoa_int t \<noteq> ''null''" "itoa_int t \<noteq> [CHR 0x22, CHR 0x22]"
    by (auto simp: is_digit_def)
  ultimately show ?thesis using assms by (simp add: decodeTimestamp_def)
qed

text \<open>Decoding what was encoded gives the normalised state back.\<close>

lemma DecodeState_EncodeState:
  assumes n: "normalize st = Inr st1" and faithful: "json_faithful J st1"
    and enc: "EncodeState J buffer st = Inr bytes"
  shows "DecodeState J (bytes, None) = Inr st1"
proof -
  from n enc have e: "json_encode J st1 = Inr bytes" and len: "length bytes \<le> maxStateBytes"
    by (auto simp: EncodeState_def split: sum.splits if_splits)
  from faithful e obtain ms where j: "TrimSpace bytes \<noteq> ''''" "json_probe J bytes = Inr ms" "ms = [] \<or> hd ms \<noteq> CHR ''[''"
    "json_state J bytes =
            Inr \<lparr>raw_LastRunMigration = LastRunMigration st1, raw_LastRunTimestamp = itoa_int (LastRunTimestamp st1),
                 raw_Migrations = Migrations st1, raw_SkippedMigrations = SkippedMigrations st1,
                 raw_Checksums = Checksums st1\<rparr>"
    "json_int64 J (itoa_int (LastRunTimestamp st1)) = Inr (LastRunTimestamp st1)"
    by (auto simp: json_faithful_def split: sum.splits)
  from normalize_state_ok [OF n] have "normalize st1 = Inr st1" by (rule normalize_id)
  with j len show ?thesis
    by (cases st1) (auto simp: DecodeState_def decodeTimestamp_itoa split: sum.splits)
qed

text \<open>The copy through bytes is the copy \<open>cloneState\<close> of a memory store.\<close>

definition clone_bytes :: "state_json \<Rightarrow> State \<Rightarrow> go_error + State" where
  "clone_bytes J st = (case EncodeState J buffer st of Inl e \<Rightarrow> Inl e | Inr bytes \<Rightarrow> DecodeState J (bytes, None))"

lemma clone_bytes_cloneState:
  assumes "normalize st = Inr st1" and "json_faithful J st1" and "clean_state st1"
    and "json_encode J st1 = Inr bytes"
  shows "clone_bytes J st = cloneState (\<lambda>_. length bytes) st"
proof -
  have "map (\<lambda>(k, v). (k, json_text v)) (Checksums st1) = Checksums st1"
    using assms(3) by (auto simp: clean_state_def list_all_iff intro!: map_idI)
  moreover from normalize_state_ok [OF assms(1)] have "normalize st1 = Inr st1" by (rule normalize_id)
  ultimately show ?thesis
    using DecodeState_EncodeState [OF assms(1,2), of bytes] assms(1,4)
    by (auto simp: clone_bytes_def cloneState_def EncodeState_def too_large_def)
qed

text \<open>Whatever the bytes are, what is decoded from them is well formed.\<close>

lemma node_inv_NewState [simp]: "node_inv NewState"
  by (auto simp: node_inv_def NewState_def timestamp_of_def)

lemma decodeNodeState_state_ok:
  assumes "decodeNodeState lastRun items = Inr st"
  shows "state_ok st"
proof -
  from assms obtain st1 where 1: "node_items NewState items = Inr st1"
    and 2: "st = st1 \<or> (\<exists>c. CanonicalID lastRun = Inr c \<and> st = st1\<lparr>LastRunMigration := c\<rparr>)"
    by (auto simp: decodeNodeState_def split: sum.splits if_splits)
  have "node_inv st1" using node_items_inv [OF 1] by simp
  with 2 show ?thesis by (auto simp: node_inv_def state_ok_def canonical_CanonicalID)
qed

lemma DecodeState_state_ok:
  assumes "DecodeState J rd = Inr st"
  shows "state_ok st"
  using assms
  by (auto simp: DecodeState_def decodeNodeState_state_ok normalize_state_ok
      split: prod.splits sum.splits if_splits)

end
