(* ===== verification/Migration_Cloud.thy ===== *)
theory Migration_Cloud
  imports Migration_Properties Migration_Codec
begin

text \<open>
  Migration state in a cloud bucket (\<^verbatim>\<open>migration/cloudstore/store.go\<close>), and what a runner on such a
  store does.  The bucket is a parameter: what reading, writing and closing answer, at any point of
  the history of the runner's calls, and which errors mean that the object is missing.  The
  application's fenced writer is a parameter too.
\<close>

section \<open>The store\<close>

record bucket =
  bk_NewReader :: "string \<Rightarrow> history \<Rightarrow> go_error + reader \<times> go_error option"
  bk_NotFound :: "go_error \<Rightarrow> bool"
  bk_WriteAll :: "string \<Rightarrow> string \<Rightarrow> history \<Rightarrow> go_error option"
  bk_Close :: "go_error option"

type_synonym FencedWriteFunc = "string \<Rightarrow> string \<Rightarrow> string \<Rightarrow> history \<Rightarrow> go_error option"

record CloudStore =
  cs_bucket :: bucket
  cs_key :: string
  cs_owned :: bool
  cs_fencedWrite :: "FencedWriteFunc option"

definition newStore :: "bucket option \<Rightarrow> string \<Rightarrow> bool \<Rightarrow> FencedWriteFunc option \<Rightarrow> go_error + CloudStore" where
  "newStore b key0 owned write =
     (case b of
        None \<Rightarrow> Inl (errors_New ''migration cloudstore: nil bucket'')
      | Some bucket \<Rightarrow>
          let key = TrimSpace (TrimPrefix key0 ''/'')
          in if key = '''' then Inl (errors_New ''migration cloudstore: empty object key'')
             else if Contains key ''..''
             then Inl (errors_New (''migration cloudstore: object key must not contain '' @ [CHR 0x27] @ ''..'' @ [CHR 0x27]))
             else Inr \<lparr>cs_bucket = bucket, cs_key = key, cs_owned = owned, cs_fencedWrite = write\<rparr>)"

definition New :: "bucket option \<Rightarrow> string \<Rightarrow> go_error + CloudStore" where
  "New b key = newStore b key False None"

definition NewFenced :: "bucket option \<Rightarrow> string \<Rightarrow> FencedWriteFunc option \<Rightarrow> go_error + CloudStore" where
  "NewFenced b key write = newStore b key False write"

text \<open>
  \<^verbatim>\<open>Open\<close> and \<^verbatim>\<open>OpenFenced\<close>, with the answer of \<^verbatim>\<open>blob.OpenBucket\<close>; the second component says whether the
  bucket was closed again.
\<close>

definition OpenFenced ::
    "(string \<Rightarrow> go_error + bucket) \<Rightarrow> string \<Rightarrow> string \<Rightarrow> FencedWriteFunc option \<Rightarrow> (go_error + CloudStore) \<times> bool" where
  "OpenFenced openBucket url key write =
     (if TrimSpace url = '''' then (Inl (errors_New ''migration cloudstore: empty bucket URL''), False)
      else case openBucket url of
             Inl e \<Rightarrow> (Inl (Errorw ''migration cloudstore: open bucket: %w'' [] e), False)
           | Inr b \<Rightarrow>
               (case newStore (Some b) key True write of
                  Inl e \<Rightarrow> (Inl e, True)
                | Inr s \<Rightarrow> (Inr s, False)))"

definition Open :: "(string \<Rightarrow> go_error + bucket) \<Rightarrow> string \<Rightarrow> string \<Rightarrow> (go_error + CloudStore) \<times> bool" where
  "Open openBucket url key = OpenFenced openBucket url key None"

definition Cloud_Load :: "state_json \<Rightarrow> CloudStore \<Rightarrow> history \<Rightarrow> go_error + State" where
  "Cloud_Load J s h =
     (case bk_NewReader (cs_bucket s) (cs_key s) h of
        Inl e \<Rightarrow>
          if bk_NotFound (cs_bucket s) e then Inr NewState
          else Inl (Errorw ''migration cloudstore: read state: %w'' [] e)
      | Inr (rd, closeErr) \<Rightarrow>
          (case DecodeState J rd of
             Inl e \<Rightarrow> Inl (Errorw ''migration cloudstore: decode state: %w'' [] e)
           | Inr st \<Rightarrow>
               (case closeErr of
                  Some e \<Rightarrow> Inl (Errorw ''migration cloudstore: close state reader: %w'' [] e)
                | None \<Rightarrow> Inr st)))"

definition Cloud_Save :: "state_json \<Rightarrow> CloudStore \<Rightarrow> State \<Rightarrow> history \<Rightarrow> go_error option" where
  "Cloud_Save J s st h =
     (case EncodeState J buffer st of
        Inl e \<Rightarrow> Some e
      | Inr bytes \<Rightarrow>
          map_option (Errorw ''migration cloudstore: write state: %w'' []) (bk_WriteAll (cs_bucket s) (cs_key s) bytes h))"

definition Cloud_SaveFenced :: "state_json \<Rightarrow> CloudStore \<Rightarrow> State \<Rightarrow> string \<Rightarrow> history \<Rightarrow> go_error option" where
  "Cloud_SaveFenced J s st token0 h =
     (let token = TrimSpace token0
      in if token = '''' then Some (errors_New ''migration cloudstore: empty fence token'')
         else case cs_fencedWrite s of
                None \<Rightarrow> Some (errors_New ''migration cloudstore: no fenced writer configured'')
              | Some write \<Rightarrow>
                  (case EncodeState J buffer st of
                     Inl e \<Rightarrow> Some e
                   | Inr bytes \<Rightarrow>
                       map_option (Errorw ''migration cloudstore: fenced write state: %w'' []) (write (cs_key s) bytes token h)))"

definition ValidateMigrationFencing :: "CloudStore option \<Rightarrow> go_error option" where
  "ValidateMigrationFencing s =
     (case s of
        Some s' \<Rightarrow> if cs_fencedWrite s' \<noteq> None then None
                  else Some (errors_New ''migration cloudstore: use NewFenced or OpenFenced with an atomic fenced writer'')
      | None \<Rightarrow> Some (errors_New ''migration cloudstore: use NewFenced or OpenFenced with an atomic fenced writer''))"

definition MigrationFencingRequired :: bool where
  "MigrationFencingRequired = True"

definition Cloud_Close :: "CloudStore \<Rightarrow> go_error option \<times> CloudStore" where
  "Cloud_Close s = (if \<not> cs_owned s then (None, s) else (bk_Close (cs_bucket s), s\<lparr>cs_owned := False\<rparr>))"

text \<open>The store a runner sees.\<close>

definition cloud_Store :: "state_json \<Rightarrow> CloudStore \<Rightarrow> Store" where
  "cloud_Store J s =
     \<lparr>store_fenced = True, store_fencing = Some (MigrationFencingRequired, ValidateMigrationFencing (Some s)),
      store_Load = Cloud_Load J s,
      store_Save = (\<lambda>st tok h. case tok of None \<Rightarrow> Cloud_Save J s st h | Some t \<Rightarrow> Cloud_SaveFenced J s st t h)\<rparr>"

section \<open>A runner on a cloud store\<close>

text \<open>
  C20.  A runner on a bucket never overwrites the state object unconditionally: it is refused unless
  the store has a fenced writer and the locker gives out leases, and then every save of every
  command goes through the fenced writer with the non-blank token of the lease.
\<close>

theorem cloud_writes_fenced:
  assumes "NewRunner ms (Some (cloud_Store J s)) l clock = Inr R" and "perform R cmd h = (res, h')"
  shows "(\<exists>write. cs_fencedWrite s = Some write
        \<and> (\<forall>st tok k. TrimSpace tok \<noteq> '''' \<longrightarrow> store_Save (store R) st (Some tok) k =
             (case EncodeState J buffer st of
                Inl e \<Rightarrow> Some e
              | Inr bytes \<Rightarrow> map_option (Errorw ''migration cloudstore: fenced write state: %w'' [])
                               (write (cs_key s) bytes (TrimSpace tok) k))))
    \<and> (\<exists>ev. h' = h @ ev \<and> saves_ok (\<lambda>st tok. lease_token (locker R) h tok) ev)"
proof -
  have R: "runner_ok R" using assms(1) by (rule NewRunner_establishes)
  have store: "store R = cloud_Store J s" using NewRunner_fields [OF assms(1)] by simp
  have fence: "check_fencing (store R) (locker R) = None"
    using assms(1) by (auto simp: NewRunner_def Let_def split: if_splits option.splits sum.splits)
  then have "cs_fencedWrite s \<noteq> None" "lease_based (locker R)"
    by (auto simp: store cloud_Store_def check_fencing_def MigrationFencingRequired_def ValidateMigrationFencing_def
        split: if_splits)
  then show ?thesis
    using perform_fenced [OF R _ assms(2)]
    by (auto simp: store cloud_Store_def Cloud_SaveFenced_def Let_def)
qed

text \<open>A bucket with no object, a writer that accepts everything, and the lease of the sample runner.\<close>

definition sample_cloud :: CloudStore where
  "sample_cloud = \<lparr>cs_bucket = \<lparr>bk_NewReader = (\<lambda>k h. Inl (errors_New ''404'')), bk_NotFound = (\<lambda>e. True),
       bk_WriteAll = (\<lambda>k d h. None), bk_Close = None\<rparr>,
     cs_key = ''state.json'', cs_owned = False, cs_fencedWrite = Some (\<lambda>k d t h. None)\<rparr>"

definition no_json :: state_json where
  "no_json = \<lparr>json_encode = (\<lambda>st. Inr ''{}''), json_probe = (\<lambda>b. Inr ''''),
     json_state = (\<lambda>b. Inl (errors_New ''json'')), json_node = (\<lambda>b. Inl (errors_New ''json'')),
     json_int64 = (\<lambda>b. Inl (errors_New ''json'')), json_string = (\<lambda>b. Inl (errors_New ''json''))\<rparr>"

definition sample_cloud_runner :: Runner where
  "sample_cloud_runner = projr (NewRunner sample_migrations (Some (cloud_Store no_json sample_cloud))
     (Some sample_lease_locker) sample_clock)"

lemma sample_cloud_new:
  "NewRunner sample_migrations (Some (cloud_Store no_json sample_cloud)) (Some sample_lease_locker) sample_clock
     = Inr sample_cloud_runner"
proof -
  have "\<not> isl (NewRunner sample_migrations (Some (cloud_Store no_json sample_cloud)) (Some sample_lease_locker) sample_clock)"
    by code_simp
  then show ?thesis by (simp add: sample_cloud_runner_def)
qed

theorem cloud_writes_fenced_witness:
  "cs_fencedWrite sample_cloud \<noteq> None
   \<and> (\<exists>ev. snd (perform sample_cloud_runner (CmdRun None sample_options) []) = [] @ ev
        \<and> saves_ok (\<lambda>st tok. lease_token (locker sample_cloud_runner) [] tok) ev)"
  using cloud_writes_fenced [OF sample_cloud_new surjective_pairing, of "CmdRun None sample_options" "[]"] by blast

end
