(* ===== verification/Migration_Files.thy ===== *)
theory Migration_Files
  imports Migration_Codec
begin

text \<open>
  Files of the migration package: the operating-system calls that \<^verbatim>\<open>migration/store.go\<close> and
  \<^verbatim>\<open>migration/create.go\<close> make, and the file store.

  The disk is a map from paths to files, each with its bytes and whether they are known to have
  reached the medium.  Every call is recorded with its error and the disk it leaves, so that a
  statement about all recorded disks is a statement about a crash after any call.  Whether a call
  fails is the parameter \<open>OS\<close>, any function of the call and of everything recorded so far; nobody else
  writes to the directory between the calls of one operation.  Directories are not part of the
  disk: a missing one is an error of the call that needs it.
\<close>

section \<open>Calls and disks\<close>

record os_file =
  content :: string
  synced :: bool

type_synonym disk = "os_file gomap"

text \<open>
  A call of the kernel, of the context (\<open>CtxErr\<close>), or a whole \<^verbatim>\<open>Lock\<close> or unlock of a \<^verbatim>\<open>FileLocker\<close>,
  which creates its lock file.
\<close>

datatype os_call =
    CtxErr
  | MkdirAll string
  | CreateTemp string
  | Chmod string
  | WriteFile string string
  | SyncFile string
  | CloseFile string
  | Rename string string
  | Link string string
  | Remove string
  | OpenFile string
  | ReadFile string
  | ReadDir string
  | OpenDir string
  | SyncDir string
  | CloseDir string
  | LockFile string
  | UnlockFile string

record world =
  w_disk :: disk
  w_calls :: "(os_call \<times> go_error option \<times> disk) list"

text \<open>
  Besides the errors: the random part of the name \<^verbatim>\<open>os.CreateTemp\<close> picks, how many bytes a failing
  write or read still moved, what \<^verbatim>\<open>filepath.Abs\<close>, \<^verbatim>\<open>filepath.EvalSymlinks\<close> and \<^verbatim>\<open>filepath.Glob\<close> answer, and
  the subdirectories of a directory.
\<close>

record OS =
  os_err :: "os_call \<Rightarrow> world \<Rightarrow> go_error option"
  os_random :: "world \<Rightarrow> string"
  os_moved :: "world \<Rightarrow> nat"
  os_Abs :: "string \<Rightarrow> go_error + string"
  os_EvalSymlinks :: "string \<Rightarrow> world \<Rightarrow> go_error + string"
  os_Glob :: "string \<Rightarrow> world \<Rightarrow> go_error + string list"
  os_subdirs :: "string \<Rightarrow> world \<Rightarrow> string list"

definition ErrNotExist :: go_error where
  "ErrNotExist = errors_New ''file does not exist''"

definition ErrExist :: go_error where
  "ErrExist = errors_New ''file already exists''"

text \<open>What the kernel refuses by itself: a name that is taken, a name that is missing.\<close>

fun refused :: "os_call \<Rightarrow> disk \<Rightarrow> go_error option" where
  "refused (CreateTemp p) d = (if go_get d p \<noteq> None then Some ErrExist else None)"
| "refused (Link a b) d = (if go_get d b \<noteq> None then Some ErrExist else if go_get d a = None then Some ErrNotExist else None)"
| "refused (Rename a b) d = (if go_get d a = None then Some ErrNotExist else None)"
| "refused (Remove a) d = (if go_get d a = None then Some ErrNotExist else None)"
| "refused (OpenFile a) d = (if go_get d a = None then Some ErrNotExist else None)"
| "refused _ d = None"

definition on_file :: "string \<Rightarrow> (os_file \<Rightarrow> os_file) \<Rightarrow> disk \<Rightarrow> disk" where
  "on_file p f d = (case go_get d p of None \<Rightarrow> d | Some x \<Rightarrow> go_set p (f x) d)"

definition append_bytes :: "string \<Rightarrow> os_file \<Rightarrow> os_file" where
  "append_bytes s x = x\<lparr>content := content x @ s, synced := False\<rparr>"

fun effect :: "os_call \<Rightarrow> disk \<Rightarrow> disk" where
  "effect (CreateTemp p) d = go_set p \<lparr>content = '''', synced = False\<rparr> d"
| "effect (WriteFile p s) d = on_file p (append_bytes s) d"
| "effect (SyncFile p) d = on_file p (synced_update (\<lambda>_. True)) d"
| "effect (Rename a b) d = (case go_get d a of None \<Rightarrow> d | Some x \<Rightarrow> go_set b x (go_del a d))"
| "effect (Link a b) d = (case go_get d a of None \<Rightarrow> d | Some x \<Rightarrow> go_set b x d)"
| "effect (Remove a) d = go_del a d"
| "effect (LockFile p) d = (if go_get d p = None then go_set p \<lparr>content = '''', synced = False\<rparr> d else d)"
| "effect _ d = d"

text \<open>A failing write may have written part of the data; every other failing call changes nothing.\<close>

fun failed_effect :: "nat \<Rightarrow> os_call \<Rightarrow> disk \<Rightarrow> disk" where
  "failed_effect n (WriteFile p s) d = on_file p (append_bytes (take n s)) d"
| "failed_effect n _ d = d"

definition exec :: "OS \<Rightarrow> os_call \<Rightarrow> world \<Rightarrow> go_error option \<times> world" where
  "exec os c w =
     (let e = (case refused c (w_disk w) of Some x \<Rightarrow> Some x | None \<Rightarrow> os_err os c w);
          d = (if e = None then effect c (w_disk w) else failed_effect (os_moved os w) c (w_disk w))
      in (e, \<lparr>w_disk = d, w_calls = w_calls w @ [(c, e, d)]\<rparr>))"

section \<open>Paths\<close>

text \<open>\<^verbatim>\<open>filepath.Join\<close> of a clean absolute directory and a file name, and \<^verbatim>\<open>filepath.Dir\<close> of a clean absolute path.\<close>

definition join_path :: "string \<Rightarrow> string \<Rightarrow> string" where
  "join_path d n = (if d = ''/'' then d @ n else d @ ''/'' @ n)"

definition filepath_Dir :: "string \<Rightarrow> string" where
  "filepath_Dir p =
     (let d = rev (tl (dropWhile (\<lambda>c. c \<noteq> CHR ''/'') (rev p))) in if d = [] then ''/'' else d)"

definition file_name :: "string \<Rightarrow> bool" where
  "file_name n \<longleftrightarrow> n \<noteq> [] \<and> CHR ''/'' \<notin> set n"

lemma filepath_Dir_join:
  assumes "file_name n" and "d \<noteq> []"
  shows "filepath_Dir (join_path d n) = d"
proof -
  have "dropWhile (\<lambda>c. c \<noteq> CHR ''/'') (rev n @ CHR ''/'' # x) = CHR ''/'' # x" for x
    using assms by (subst dropWhile_append2) (auto simp: file_name_def)
  with assms show ?thesis by (auto simp: filepath_Dir_def join_path_def)
qed

lemma join_path_inj [simp]: "join_path d m = join_path d n \<longleftrightarrow> m = n"
  by (simp add: join_path_def)

section \<open>Writing a temporary file\<close>

text \<open>
  The calls after \<^verbatim>\<open>os.CreateTemp\<close>, the same in \<^verbatim>\<open>FileStore.Save\<close> and \<^verbatim>\<open>CreateFileContext\<close> but for the
  error texts: permissions, data, fsync and close; the file is closed on every error.
\<close>

definition write_temporary :: "OS \<Rightarrow> string list \<Rightarrow> string \<Rightarrow> string \<Rightarrow> world \<Rightarrow> go_error option \<times> world" where
  "write_temporary os texts t data w =
     (case exec os (Chmod t) w of
        (Some e, w1) \<Rightarrow> (Some (Errorw (texts ! 0) [] e), snd (exec os (CloseFile t) w1))
      | (None, w1) \<Rightarrow>
     (case exec os (WriteFile t data) w1 of
        (Some e, w2) \<Rightarrow> (Some (Errorw (texts ! 1) [] e), snd (exec os (CloseFile t) w2))
      | (None, w2) \<Rightarrow>
     (case exec os (SyncFile t) w2 of
        (Some e, w3) \<Rightarrow> (Some (Errorw (texts ! 2) [] e), snd (exec os (CloseFile t) w3))
      | (None, w3) \<Rightarrow>
     (case exec os (CloseFile t) w3 of
        (Some e, w4) \<Rightarrow> (Some (Errorw (texts ! 3) [] e), w4)
      | (None, w4) \<Rightarrow> (None, w4)))))"

text \<open>Syncing the directory, at the end of both.\<close>

definition sync_directory :: "OS \<Rightarrow> string \<Rightarrow> string \<Rightarrow> string \<Rightarrow> world \<Rightarrow> go_error option \<times> world" where
  "sync_directory os open_text sync_text dir w =
     (case exec os (OpenDir dir) w of
        (Some e, w1) \<Rightarrow> (Some (Errorw open_text [] e), w1)
      | (None, w1) \<Rightarrow>
     (case exec os (SyncDir dir) w1 of
        (se, w2) \<Rightarrow>
     (case exec os (CloseDir dir) w2 of
        (ce, w3) \<Rightarrow> (map_option (Errorw sync_text []) (errors_Join [se, ce]), w3))))"

section \<open>The file store\<close>

record FileStore =
  fs_path :: string

definition NewFileStore :: "OS \<Rightarrow> string \<Rightarrow> go_error + FileStore" where
  "NewFileStore os path =
     (if path = '''' then Inl (errors_New ''migration: empty state path'')
      else case os_Abs os path of
             Inl e \<Rightarrow> Inl (Errorw ''migration: resolve state path: %w'' [] e)
           | Inr absolute \<Rightarrow> Inr \<lparr>fs_path = absolute\<rparr>)"

definition FileStore_Load :: "state_json \<Rightarrow> OS \<Rightarrow> FileStore \<Rightarrow> world \<Rightarrow> (go_error + State) \<times> world" where
  "FileStore_Load J os s w =
     (case exec os (OpenFile (fs_path s)) w of
        (Some e, w1) \<Rightarrow>
          (if errors_Is e ErrNotExist then Inr NewState else Inl (Errorw ''migration: open state: %w'' [] e), w1)
      | (None, w1) \<Rightarrow>
     (case exec os (ReadFile (fs_path s)) w1 of
        (rerr, w2) \<Rightarrow>
          let bytes = (case go_get (w_disk w1) (fs_path s) of None \<Rightarrow> '''' | Some x \<Rightarrow> content x);
              rd = (if rerr = None then bytes else take (os_moved os w1) bytes, rerr);
              w3 = snd (exec os (CloseFile (fs_path s)) w2)
          in ((case DecodeState J rd of
                 Inl e \<Rightarrow> Inl (Errorw ''migration: load %s: %w'' [fs_path s] e)
               | Inr st \<Rightarrow> Inr st), w3)))"

definition save_texts :: "string list" where
  "save_texts = [''migration: set state permissions: %w'', ''migration: write temporary state: %w'',
     ''migration: sync temporary state: %w'', ''migration: close temporary state: %w'']"

text \<open>\<^verbatim>\<open>Save\<close> from the temporary file on; the caller removes that file at the end, whatever happened.\<close>

definition replace_state :: "OS \<Rightarrow> FileStore \<Rightarrow> string \<Rightarrow> string \<Rightarrow> world \<Rightarrow> go_error option \<times> world" where
  "replace_state os s t data w =
     (case write_temporary os save_texts t data w of
        (Some e, w1) \<Rightarrow> (Some e, w1)
      | (None, w1) \<Rightarrow>
     (case exec os CtxErr w1 of
        (Some e, w2) \<Rightarrow> (Some e, w2)
      | (None, w2) \<Rightarrow>
     (case exec os (Rename t (fs_path s)) w2 of
        (Some e, w3) \<Rightarrow> (Some (Errorw ''migration: replace state: %w'' [] e), w3)
      | (None, w3) \<Rightarrow>
          sync_directory os ''migration: open state directory for sync: %w''
            ''migration: sync state directory: %w'' (filepath_Dir (fs_path s)) w3)))"

definition temporary_path :: "OS \<Rightarrow> FileStore \<Rightarrow> world \<Rightarrow> string" where
  "temporary_path os s w = join_path (filepath_Dir (fs_path s)) (''.migrate-'' @ os_random os w)"

definition FileStore_Save :: "state_json \<Rightarrow> OS \<Rightarrow> FileStore \<Rightarrow> State \<Rightarrow> world \<Rightarrow> go_error option \<times> world" where
  "FileStore_Save J os s st w =
     (case exec os CtxErr w of
        (Some e, w1) \<Rightarrow> (Some e, w1)
      | (None, w1) \<Rightarrow>
     (case EncodeState J buffer st of
        Inl e \<Rightarrow> (Some e, w1)
      | Inr data \<Rightarrow>
     (case exec os (MkdirAll (filepath_Dir (fs_path s))) w1 of
        (Some e, w2) \<Rightarrow> (Some (Errorw ''migration: create state directory: %w'' [] e), w2)
      | (None, w2) \<Rightarrow>
     (let t = temporary_path os s w2
      in case exec os (CreateTemp t) w2 of
           (Some e, w3) \<Rightarrow> (Some (Errorw ''migration: create temporary state: %w'' [] e), w3)
         | (None, w3) \<Rightarrow>
             (case replace_state os s t data w3 of
                (res, w4) \<Rightarrow> (res, snd (exec os (Remove t) w4)))))))"

end
