(* ===== verification/Migration_Files_Properties.thy ===== *)
theory Migration_Files_Properties
  imports Migration_Files
begin

text \<open>
  What the file operations promise: a state file is replaced atomically, at every call a crash
  could come after, and a saved state is the one that is loaded.
\<close>

section \<open>Disks along a run\<close>

text \<open>Every disk recorded between two worlds satisfies a predicate.\<close>

definition through :: "(disk \<Rightarrow> bool) \<Rightarrow> world \<Rightarrow> world \<Rightarrow> bool" where
  "through P w w' \<longleftrightarrow>
     (\<exists>cs. w_calls w' = w_calls w @ cs \<and> (\<forall>(c, e, d) \<in> set cs. P d)
         \<and> w_disk w' = (if cs = [] then w_disk w else snd (snd (last cs))))"

lemma through_refl [simp]: "through P w w"
  by (auto simp: through_def)

lemma through_trans: "through P w1 w2 \<Longrightarrow> through P w2 w3 \<Longrightarrow> through P w1 w3"
  unfolding through_def by (elim exE conjE) (rule_tac x = "cs @ csa" in exI, auto)

lemma through_mono: "through P w w' \<Longrightarrow> (\<And>d. P d \<Longrightarrow> Q d) \<Longrightarrow> through Q w w'"
  unfolding through_def by fastforce

lemma through_end: "through P w w' \<Longrightarrow> P (w_disk w) \<Longrightarrow> P (w_disk w')"
  unfolding through_def by (auto dest!: last_in_set split: if_splits)

text \<open>The paths a call may change.\<close>

fun touches :: "os_call \<Rightarrow> string set" where
  "touches (CreateTemp p) = {p}"
| "touches (WriteFile p s) = {p}"
| "touches (SyncFile p) = {p}"
| "touches (Rename a b) = {a, b}"
| "touches (Link a b) = {b}"
| "touches (Remove a) = {a}"
| "touches (LockFile p) = {p}"
| "touches _ = {}"

definition same_but :: "string set \<Rightarrow> disk \<Rightarrow> disk \<Rightarrow> bool" where
  "same_but S d d' \<longleftrightarrow> (\<forall>q. q \<notin> S \<longrightarrow> go_get d' q = go_get d q)"

lemma same_but_refl [simp]: "same_but S d d"
  by (simp add: same_but_def)

lemma same_but_trans: "same_but S d1 d2 \<Longrightarrow> same_but S d2 d3 \<Longrightarrow> same_but S d1 d3"
  by (simp add: same_but_def)

lemma same_but_mono: "same_but S d d' \<Longrightarrow> S \<subseteq> T \<Longrightarrow> same_but T d d'"
  by (auto simp: same_but_def)

lemma same_butD: "same_but S d d' \<Longrightarrow> q \<notin> S \<Longrightarrow> go_get d' q = go_get d q"
  by (simp add: same_but_def)

lemma go_get_on_file: "go_get (on_file p f d) q = (if q = p then map_option f (go_get d p) else go_get d q)"
  by (auto simp: on_file_def go_map split: option.splits)

lemma effect_touches: "same_but (touches c) d (effect c d)" "same_but (touches c) d (failed_effect n c d)"
  by (cases c; auto simp: same_but_def go_get_on_file go_map split: option.splits)+

lemma exec_result:
  assumes "exec os c w = (e, w')"
  shows "w_disk w' = (if e = None then effect c (w_disk w) else failed_effect (os_moved os w) c (w_disk w))"
    and "e = None \<Longrightarrow> refused c (w_disk w) = None"
    and "w_calls w' = w_calls w @ [(c, e, w_disk w')]"
  using assms by (auto simp: exec_def Let_def split: option.splits)

lemma exec_same: "exec os c w = (e, w') \<Longrightarrow> same_but (touches c) (w_disk w) (w_disk w')"
  by (auto simp: exec_result(1) effect_touches)

section \<open>Rules for sequences of calls\<close>

text \<open>
  A run from a world keeps every disk it passes in \<open>P\<close> and ends with a result and a disk in \<open>Q\<close>.
\<close>

definition run_ok :: "(disk \<Rightarrow> bool) \<Rightarrow> ('r \<Rightarrow> disk \<Rightarrow> bool) \<Rightarrow> world \<Rightarrow> 'r \<times> world \<Rightarrow> bool" where
  "run_ok P Q w r \<longleftrightarrow> through P w (snd r) \<and> Q (fst r) (w_disk (snd r))"

lemma run_ok_ret: "Q r (w_disk w) \<Longrightarrow> run_ok P Q w (r, w)"
  by (simp add: run_ok_def)

lemma run_ok_mono:
  "run_ok P Q w r \<Longrightarrow> (\<And>d. P d \<Longrightarrow> P' d) \<Longrightarrow> (\<And>x d. Q x d \<Longrightarrow> Q' x d) \<Longrightarrow> run_ok P' Q' w r"
  unfolding run_ok_def using through_mono by blast

lemma run_ok_call:
  assumes "P (failed_effect (os_moved os w) c (w_disk w))"
    and "refused c (w_disk w) = None \<Longrightarrow> P (effect c (w_disk w))"
  shows "run_ok P (\<lambda>e d. P d \<and> (if e = None then refused c (w_disk w) = None \<and> d = effect c (w_disk w)
    else d = failed_effect (os_moved os w) c (w_disk w))) w (exec os c w)"
proof -
  obtain e w' where x: "exec os c w = (e, w')" by fastforce
  have "P (w_disk w')"
    using exec_result(1,2) [OF x] assms by (cases e) auto
  then show ?thesis
    using exec_result [OF x] x by (auto simp: run_ok_def through_def)
qed

lemma run_ok_step:
  assumes "run_ok P R w m" and "\<And>x w1. R x (w_disk w1) \<Longrightarrow> run_ok P Q w1 (f x w1)"
  shows "run_ok P Q w (case m of (x, w1) \<Rightarrow> f x w1)"
  using assms through_trans unfolding run_ok_def by (cases m) fastforce

text \<open>One call whose failure ends the run.\<close>

lemma run_ok_exec:
  assumes "P (failed_effect (os_moved os w) c (w_disk w))"
    and "refused c (w_disk w) = None \<Longrightarrow> P (effect c (w_disk w))"
    and "\<And>e w1. w_disk w1 = failed_effect (os_moved os w) c (w_disk w) \<Longrightarrow> run_ok P Q w1 (f e w1)"
    and "\<And>w1. refused c (w_disk w) = None \<Longrightarrow> w_disk w1 = effect c (w_disk w) \<Longrightarrow> run_ok P Q w1 (g w1)"
  shows "run_ok P Q w (case exec os c w of (Some e, w1) \<Rightarrow> f e w1 | (None, w1) \<Rightarrow> g w1)"
  by (rule run_ok_step [OF run_ok_call [of P, OF assms(1,2)]]) (auto split: option.splits intro: assms(3,4))

lemma run_ok_last:
  assumes "P (failed_effect (os_moved os w) c (w_disk w)) \<and> Q r (failed_effect (os_moved os w) c (w_disk w))"
    and "refused c (w_disk w) = None \<Longrightarrow> P (effect c (w_disk w)) \<and> Q r (effect c (w_disk w))"
  shows "run_ok P Q w (r, snd (exec os c w))"
  using run_ok_call [of P os w c] assms by (auto simp: run_ok_def split: if_splits)

lemma run_ok_then:
  assumes "run_ok P R w m" and "\<And>e w1. R (Some e) (w_disk w1) \<Longrightarrow> run_ok P Q w1 (f e w1)"
    and "\<And>w1. R None (w_disk w1) \<Longrightarrow> run_ok P Q w1 (g w1)"
  shows "run_ok P Q w (case m of (Some e, w1) \<Rightarrow> f e w1 | (None, w1) \<Rightarrow> g w1)"
  by (rule run_ok_step [OF assms(1)]) (auto split: option.splits intro: assms(2,3))

section \<open>Temporary files\<close>

lemma write_temporary_run:
  assumes "go_get (w_disk w) t = Some \<lparr>content = '''', synced = False\<rparr>"
  shows "run_ok (same_but {t} (w_disk w))
    (\<lambda>res d. same_but {t} (w_disk w) d \<and> (res = None \<longrightarrow> go_get d t = Some \<lparr>content = data, synced = True\<rparr>)) w
    (write_temporary os texts t data w)"
  unfolding write_temporary_def
  by (intro run_ok_exec run_ok_ret run_ok_last)
     (auto simp: same_but_def go_get_on_file append_bytes_def assms)

lemma sync_directory_run: "P (w_disk w) \<Longrightarrow> run_ok P (\<lambda>res d. d = w_disk w) w (sync_directory os a b dir w)"
  unfolding sync_directory_def
  by (intro run_ok_exec run_ok_ret run_ok_step [OF run_ok_call]) (auto split: if_splits)

section \<open>The file store\<close>

text \<open>
  The state file holds the old bytes or all of the new ones, synced; no other file that was there
  changes.
\<close>

definition old_or_new :: "string \<Rightarrow> string \<Rightarrow> disk \<Rightarrow> disk \<Rightarrow> bool" where
  "old_or_new p data d0 d \<longleftrightarrow>
     (\<forall>q. q \<noteq> p \<longrightarrow> go_get d0 q \<noteq> None \<longrightarrow> go_get d q = go_get d0 q)
   \<and> (go_get d p = go_get d0 p \<or> go_get d p = Some \<lparr>content = data, synced = True\<rparr>)"

lemma old_or_new_same: "same_but {t} d0 d \<Longrightarrow> p \<noteq> t \<Longrightarrow> go_get d0 t = None \<Longrightarrow> old_or_new p data d0 d"
  unfolding old_or_new_def same_but_def by (metis singletonD)

abbreviation saved :: "string \<Rightarrow> string \<Rightarrow> go_error option \<Rightarrow> disk \<Rightarrow> bool" where
  "saved p data \<equiv> \<lambda>res d. res = None \<longrightarrow> go_get d p = Some \<lparr>content = data, synced = True\<rparr>"

lemma replace_state_run:
  assumes t: "go_get (w_disk w) t = Some \<lparr>content = '''', synced = False\<rparr>" and neq: "fs_path s \<noteq> t"
    and d0: "same_but {t} d0 (w_disk w)" "go_get d0 t = None"
  shows "run_ok (old_or_new (fs_path s) data d0)
    (\<lambda>res d. old_or_new (fs_path s) data d0 d \<and> saved (fs_path s) data res d) w (replace_state os s t data w)"
proof -
  have wt: "run_ok (old_or_new (fs_path s) data d0)
      (\<lambda>res d. same_but {t} d0 d \<and> saved t data res d) w
      (write_temporary os save_texts t data w)"
    using d0 neq by (intro run_ok_mono [OF write_temporary_run [OF t]])
      (auto intro: old_or_new_same same_but_trans)
  have renamed: "old_or_new (fs_path s) data d0 d \<and> go_get d (fs_path s) = Some \<lparr>content = data, synced = True\<rparr>"
    if "same_but {t} d0 d1" "go_get d1 t = Some \<lparr>content = data, synced = True\<rparr>" "d = effect (Rename t (fs_path s)) d1" for d d1
    using that neq d0 by (auto simp: old_or_new_def same_but_def go_map)
  show ?thesis
    unfolding replace_state_def
    by (intro run_ok_then [OF wt] run_ok_exec run_ok_ret run_ok_mono [OF sync_directory_run])
      (use neq d0 old_or_new_same renamed in auto)
qed

lemma FileStore_Save_run:
  assumes path: "fs_path s = join_path dir base" "file_name base" "dir \<noteq> []" "\<not> HasPrefix base ''.migrate-''"
    and enc: "EncodeState J buffer st = Inr data"
  shows "run_ok (old_or_new (fs_path s) data (w_disk w)) (saved (fs_path s) data) w (FileStore_Save J os s st w)"
proof -
  have dir: "filepath_Dir (fs_path s) = dir" using path filepath_Dir_join by simp
  have neq: "fs_path s \<noteq> temporary_path os s w1" for w1
    using path unfolding temporary_path_def dir by (auto simp: HasPrefix_def)
  let ?P = "old_or_new (fs_path s) data (w_disk w)"
  have start: "?P (w_disk w)" by (simp add: old_or_new_def)
  have created: "run_ok ?P (saved (fs_path s) data) w1
      (case replace_state os s (temporary_path os s w0) data w1 of
         (res, w4) \<Rightarrow> (res, snd (exec os (Remove (temporary_path os s w0)) w4)))"
    if "go_get (w_disk w) (temporary_path os s w0) = None"
      "w_disk w1 = go_set (temporary_path os s w0) \<lparr>content = '''', synced = False\<rparr> (w_disk w)" for w0 w1
  proof -
    have rs: "run_ok ?P (\<lambda>res d. ?P d \<and> saved (fs_path s) data res d) w1
        (replace_state os s (temporary_path os s w0) data w1)"
      by (rule replace_state_run) (use that neq in \<open>auto simp: same_but_def go_map\<close>)
    show ?thesis
      by (intro run_ok_step [OF rs] run_ok_last)
        (use that neq in \<open>auto simp: old_or_new_def go_map\<close>)
  qed
  have temp: "?P (go_set (temporary_path os s w0) \<lparr>content = '''', synced = False\<rparr> (w_disk w))"
    if "go_get (w_disk w) (temporary_path os s w0) = None" for w0
    using that neq by (auto simp: old_or_new_def go_map)
  show ?thesis
    unfolding FileStore_Save_def enc dir Let_def sum.case
    by (intro run_ok_exec run_ok_ret) (auto simp: start split: if_splits intro: created temp)
qed

text \<open>What a reader whose calls succeed loads from a disk.\<close>

definition loaded :: "state_json \<Rightarrow> OS \<Rightarrow> FileStore \<Rightarrow> disk \<Rightarrow> go_error + State" where
  "loaded J os s d = fst (FileStore_Load J os s \<lparr>w_disk = d, w_calls = []\<rparr>)"

lemma loaded_disk:
  assumes "\<And>c w. os_err os c w = None"
  shows "loaded J os s d =
    (case go_get d (fs_path s) of
       None \<Rightarrow> Inr NewState
     | Some x \<Rightarrow> (case DecodeState J (content x, None) of
                   Inl e \<Rightarrow> Inl (Errorw ''migration: load %s: %w'' [fs_path s] e)
                 | Inr st \<Rightarrow> Inr st))"
  by (auto simp: loaded_def FileStore_Load_def exec_def Let_def assms ErrNotExist_def split: option.splits)

text \<open>
  C12.  Saving to a file store is atomic.  Whatever calls fail, and wherever the process is stopped,
  a reader finds the state that was stored before or the whole new one, which has then been synced;
  no other existing file changes; and once \<^verbatim>\<open>Save\<close> has returned without error the new state is what is loaded.
\<close>

theorem FileStore_Save_atomic:
  assumes "fs_path s = join_path dir base" and "file_name base" and "dir \<noteq> []"
    and "\<not> HasPrefix base ''.migrate-''"
    and n: "normalize st = Inr st1" and faithful: "json_faithful J st1"
    and enc: "EncodeState J buffer st = Inr data"
    and run: "FileStore_Save J os s st w = (res, w')"
    and rd: "\<And>c v. os_err rd c v = None"
  shows "through (\<lambda>d. (\<forall>q. q \<noteq> fs_path s \<longrightarrow> go_get (w_disk w) q \<noteq> None \<longrightarrow> go_get d q = go_get (w_disk w) q)
           \<and> (go_get d (fs_path s) = go_get (w_disk w) (fs_path s) \<and> loaded J rd s d = loaded J rd s (w_disk w)
              \<or> map_option synced (go_get d (fs_path s)) = Some True \<and> loaded J rd s d = Inr st1)) w w'
       \<and> (res = None \<longrightarrow> loaded J rd s (w_disk w') = Inr st1)"
proof -
  have new: "loaded J rd s d = Inr st1" if "go_get d (fs_path s) = Some \<lparr>content = data, synced = True\<rparr>" for d
    using that DecodeState_EncodeState [OF n faithful enc] by (simp add: loaded_disk [OF rd])
  have old: "loaded J rd s d = loaded J rd s (w_disk w)" if "go_get d (fs_path s) = go_get (w_disk w) (fs_path s)" for d
    using that by (simp add: loaded_disk [OF rd])
  have "run_ok (old_or_new (fs_path s) data (w_disk w)) (saved (fs_path s) data) w (res, w')"
    using FileStore_Save_run [OF assms(1-4) enc, of w os] run by simp
  then show ?thesis
    unfolding run_ok_def old_or_new_def by (auto elim!: through_mono dest: new old)
qed

definition sample_state :: State where
  "sample_state = NewState\<lparr>LastRunMigration := ''v1.2.3-1-a'', LastRunTimestamp := 5,
     Migrations := [(''v1.2.3-1-a'', Some 5)]\<rparr>"

definition sample_json :: state_json where
  "sample_json =
     \<lparr>json_encode = (\<lambda>st. if st = sample_state then Inr ''{s}'' else Inl (errors_New ''json'')),
      json_probe = (\<lambda>b. if b = ''{s}'' then Inr ''{}'' else Inl (errors_New ''json'')),
      json_state = (\<lambda>b. if b = ''{s}''
         then Inr \<lparr>raw_LastRunMigration = ''v1.2.3-1-a'', raw_LastRunTimestamp = ''5'',
                   raw_Migrations = [(''v1.2.3-1-a'', Some 5)], raw_SkippedMigrations = [], raw_Checksums = []\<rparr>
         else Inl (errors_New ''json'')),
      json_node = (\<lambda>b. Inl (errors_New ''json'')),
      json_int64 = (\<lambda>b. if b = ''5'' then Inr 5 else Inl (errors_New ''json'')),
      json_string = (\<lambda>b. Inl (errors_New ''json''))\<rparr>"

definition working_os :: OS where
  "working_os =
     \<lparr>os_err = (\<lambda>c w. None), os_random = (\<lambda>w. ''7''), os_moved = (\<lambda>w. 0), os_Abs = Inr,
      os_EvalSymlinks = (\<lambda>p w. Inr p), os_Glob = (\<lambda>p w. Inr []), os_subdirs = (\<lambda>p w. [])\<rparr>"

lemma normalize_sample [simp]: "normalize sample_state = Inr sample_state"
  by code_simp

lemma sample_faithful [simp]: "json_faithful sample_json sample_state"
  by code_simp

lemma EncodeState_sample [simp]: "EncodeState sample_json buffer sample_state = Inr ''{s}''"
  by (simp add: EncodeState_def sample_json_def maxStateBytes_def)

lemma EncodeState_code [code]:
  "EncodeState J writer st =
     (case writer of
        None \<Rightarrow> Inl (errors_New ''migration: nil state writer'')
      | Some wr \<Rightarrow>
     (case normalize st of
        Inl e \<Rightarrow> Inl e
      | Inr st1 \<Rightarrow>
     (case json_encode J st1 of
        Inl e \<Rightarrow> Inl (Errorw ''migration: encode state: %w'' [] e)
      | Inr bytes \<Rightarrow>
          if int (length bytes) > 4194304 then Inl too_large
          else case wr bytes of
                 Some e \<Rightarrow> Inl (Errorw ''migration: write state: %w'' [] e)
               | None \<Rightarrow> Inr bytes)))"
proof -
  have "n > maxStateBytes \<longleftrightarrow> int n > 4194304" for n
    by (auto simp: maxStateBytes_def)
  then show ?thesis by (simp only: EncodeState_def)
qed

lemma save_succeeds:
  "fst (FileStore_Save sample_json working_os \<lparr>fs_path = ''/m/state.json''\<rparr> sample_state \<lparr>w_disk = [], w_calls = []\<rparr>) = None"
  by code_simp

theorem FileStore_Save_atomic_witness:
  "FileStore_Save sample_json working_os \<lparr>fs_path = ''/m/state.json''\<rparr> sample_state \<lparr>w_disk = [], w_calls = []\<rparr>
     = (None, snd (FileStore_Save sample_json working_os \<lparr>fs_path = ''/m/state.json''\<rparr> sample_state \<lparr>w_disk = [], w_calls = []\<rparr>))
   \<and> loaded sample_json working_os \<lparr>fs_path = ''/m/state.json''\<rparr>
       (w_disk (snd (FileStore_Save sample_json working_os \<lparr>fs_path = ''/m/state.json''\<rparr> sample_state \<lparr>w_disk = [], w_calls = []\<rparr>)))
     = Inr sample_state"
proof -
  let ?s = "\<lparr>fs_path = ''/m/state.json''\<rparr>" and ?w = "\<lparr>w_disk = [], w_calls = []\<rparr>"
  obtain res w' where run: "FileStore_Save sample_json working_os ?s sample_state ?w = (res, w')" by fastforce
  moreover from run have "res = None" using save_succeeds by simp
  moreover have "fs_path ?s = join_path ''/m'' ''state.json''" by (simp add: join_path_def)
  ultimately show ?thesis
    using FileStore_Save_atomic [OF \<open>fs_path ?s = _\<close> _ _ _ normalize_sample sample_faithful EncodeState_sample run, of working_os]
    by (simp add: file_name_def HasPrefix_def) (simp add: working_os_def)
qed

end
