(* ===== verification/Migration_Create.thy ===== *)
theory Migration_Create
  imports Migration_Files_Properties
begin

text \<open>
  Creating migration skeletons (\<^verbatim>\<open>migration/create.go\<close>): checks of the arguments, the next sequence
  number of a version, the generated file, and its publication by a hard link.
\<close>

section \<open>Names\<close>

definition is_word_char :: "char \<Rightarrow> bool" where
  "is_word_char c \<longleftrightarrow> is_alnum c \<or> c = CHR ''_''"

definition packagePattern :: "string \<Rightarrow> bool" where
  "packagePattern s \<longleftrightarrow> s \<noteq> [] \<and> is_word_char (hd s) \<and> \<not> is_digit (hd s) \<and> list_all is_word_char s"

definition namePattern :: "string \<Rightarrow> bool" where
  "namePattern s \<longleftrightarrow> s \<noteq> [] \<and> is_alnum (hd s) \<and> list_all is_word_char s"

definition parseVersionPart :: "string \<Rightarrow> string \<Rightarrow> go_error + nat" where
  "parseVersionPart label v =
     (case ParseUint v of
        Inl e \<Rightarrow> Inl (Errorw ''migration: invalid %s version component %q: %w'' [label, v] (num_error_value e))
      | Inr n \<Rightarrow> Inr n)"

text \<open>
  \<^verbatim>\<open>strings.FieldsFunc\<close>.  The separators are all runes but ASCII letters and digits; every byte of a
  longer rune is one, so splitting the bytes is splitting the runes.
\<close>

function FieldsFunc :: "(char \<Rightarrow> bool) \<Rightarrow> string \<Rightarrow> string list" where
  "FieldsFunc sep [] = []"
| "FieldsFunc sep (c # s) =
     (if sep c then FieldsFunc sep s
      else (c # takeWhile (\<lambda>x. \<not> sep x) s) # FieldsFunc sep (dropWhile (\<lambda>x. \<not> sep x) s))"
  by pat_completeness auto

termination
  by (relation "measure (\<lambda>(sep, s). length s)") (auto simp: le_imp_less_Suc length_dropWhile_le)

definition capitalise :: "string \<Rightarrow> string" where
  "capitalise part = (if part = [] then [] else ascii_upper (hd part) # tl part)"

definition exportedIdentifier :: "string \<Rightarrow> string" where
  "exportedIdentifier v =
     (let r = concat (map capitalise (FieldsFunc (\<lambda>c. \<not> is_alnum c) v)) in if r = [] then ''Migration'' else r)"

section \<open>The next sequence number\<close>

text \<open>\<^verbatim>\<open>strings.IndexByte\<close>, none for -1.\<close>

definition IndexByte :: "string \<Rightarrow> char \<Rightarrow> nat option" where
  "IndexByte s c = (if c \<in> set s then Some (length (takeWhile (\<lambda>x. x \<noteq> c) s)) else None)"

text \<open>The number a directory entry takes up, if it is a migration file of the version.\<close>

definition entry_number :: "string \<Rightarrow> string \<times> bool \<Rightarrow> nat option" where
  "entry_number pre entry =
     (case entry of (n, isDir) \<Rightarrow>
        if isDir \<or> \<not> HasPrefix n pre \<or> \<not> HasSuffix n ''.go'' then None
        else let remainder = TrimSuffix (TrimPrefix n pre) ''.go''
             in case IndexByte remainder CHR ''_'' of
                  None \<Rightarrow> None
                | Some separator \<Rightarrow>
                    if separator = 0 then None
                    else case ParseUint (take separator remainder) of Inl _ \<Rightarrow> None | Inr number \<Rightarrow> Some number)"

fun next_sequence :: "string \<Rightarrow> string \<Rightarrow> nat \<Rightarrow> (string \<times> bool) list \<Rightarrow> go_error + nat" where
  "next_sequence pre version sequence [] = Inr sequence"
| "next_sequence pre version sequence (entry # entries) =
     (case entry_number pre entry of
        None \<Rightarrow> next_sequence pre version sequence entries
      | Some number \<Rightarrow>
          if int number = 18446744073709551615
          then Inl (Errorf ''migration: sequence exhausted for %s'' [version])
          else next_sequence pre version (if number \<ge> sequence then number + 1 else sequence) entries)"

text \<open>\<^verbatim>\<open>os.ReadDir\<close>: the files and the subdirectories of a directory, by name.\<close>

definition name_in :: "string \<Rightarrow> string \<Rightarrow> string option" where
  "name_in dir p =
     (let n = drop (length (join_path dir '''')) p
      in if HasPrefix p (join_path dir '''') \<and> file_name n then Some n else None)"

definition entries_of :: "OS \<Rightarrow> string \<Rightarrow> world \<Rightarrow> (string \<times> bool) list" where
  "entries_of os dir w =
     sort_key fst (map (\<lambda>n. (n, False)) (List.map_filter (\<lambda>(p, x). name_in dir p) (w_disk w))
       @ map (\<lambda>n. (n, True)) (os_subdirs os dir w))"

section \<open>The generated file\<close>

definition version_prefix :: "nat \<Rightarrow> nat \<Rightarrow> nat \<Rightarrow> string" where
  "version_prefix a b c = ''v'' @ itoa a @ ''_'' @ itoa b @ ''_'' @ itoa c @ ''_''"

definition canonical_version :: "nat \<Rightarrow> nat \<Rightarrow> nat \<Rightarrow> string" where
  "canonical_version a b c = ''v'' @ itoa a @ ''.'' @ itoa b @ ''.'' @ itoa c"

definition migration_file_name :: "nat \<Rightarrow> nat \<Rightarrow> nat \<Rightarrow> nat \<Rightarrow> string \<Rightarrow> string" where
  "migration_file_name a b c n name = version_prefix a b c @ itoa n @ ''_'' @ map ascii_lower name @ ''.go''"

definition migration_id :: "nat \<Rightarrow> nat \<Rightarrow> nat \<Rightarrow> nat \<Rightarrow> string \<Rightarrow> string" where
  "migration_id a b c n name = canonical_version a b c @ ''-'' @ itoa n @ ''-'' @ name"

definition variable :: "nat \<Rightarrow> nat \<Rightarrow> nat \<Rightarrow> nat \<Rightarrow> string \<Rightarrow> string" where
  "variable a b c n name =
     ''V'' @ itoa a @ ''_'' @ itoa b @ ''_'' @ itoa c @ ''_'' @ itoa n @ ''_'' @ exportedIdentifier name"

definition line :: "string \<Rightarrow> string" where
  "line s = s @ [CHR 0x0A]"

text \<open>\<^verbatim>\<open>%q\<close> of text with no byte to escape, which holds for identifiers and names.\<close>

definition quoted :: "string \<Rightarrow> string" where
  "quoted s = [CHR 0x22] @ s @ [CHR 0x22]"

definition skeleton :: "string \<Rightarrow> nat \<Rightarrow> nat \<Rightarrow> nat \<Rightarrow> nat \<Rightarrow> string \<Rightarrow> string" where
  "skeleton packageName a b c n name =
     (let var = variable a b c n name; i = migration_id a b c n name; tab = [CHR 0x09]
      in concat (map line
          [''package '' @ packageName,
           '''',
           ''import ('',
           tab @ quoted ''context'',
           '''',
           tab @ quoted ''github.com/gofynd/fit-go/migration'',
           '')'',
           '''',
           ''// '' @ var @ '' is migration '' @ i @ ''.'',
           ''var '' @ var @ '' = migration.Migration{'',
           tab @ ''ID:          '' @ quoted i @ '','',
           tab @ ''Description: '' @ quoted (map (\<lambda>x. if x = CHR ''_'' then CHR '' '' else x) name) @ '','',
           tab @ ''Up: func(ctx context.Context) error {'',
           tab @ tab @ ''return nil'',
           tab @ ''},'',
           tab @ ''Down: func(ctx context.Context) error {'',
           tab @ tab @ ''return nil'',
           tab @ ''},'',
           ''}'']))"

section \<open>CreateFileContext\<close>

record CreatedFile =
  cf_ID :: string
  cf_Path :: string

fun remove_stale :: "OS \<Rightarrow> string list \<Rightarrow> world \<Rightarrow> go_error option \<times> world" where
  "remove_stale os [] w = (None, w)"
| "remove_stale os (p # ps) w =
     (case exec os (Remove p) w of
        (Some e, w1) \<Rightarrow>
          if errors_Is e ErrNotExist then remove_stale os ps w1
          else (Some (Errorw ''migration: remove stale temporary file: %w'' [] e), w1)
      | (None, w1) \<Rightarrow> remove_stale os ps w1)"

definition create_texts :: "string list" where
  "create_texts = [''migration: set temporary file permissions: %w'', ''migration: write temporary file: %w'',
     ''migration: sync temporary file: %w'', ''migration: close temporary file: %w'']"

definition publish :: "OS \<Rightarrow> string \<Rightarrow> string \<Rightarrow> string \<Rightarrow> string \<Rightarrow> world \<Rightarrow> go_error option \<times> world" where
  "publish os dir t path text w =
     (case write_temporary os create_texts t text w of
        (Some e, w1) \<Rightarrow> (Some e, w1)
      | (None, w1) \<Rightarrow>
     (case exec os CtxErr w1 of
        (Some e, w2) \<Rightarrow> (Some e, w2)
      | (None, w2) \<Rightarrow>
     (case exec os (Link t path) w2 of
        (Some e, w3) \<Rightarrow> (Some (Errorw ''migration: publish file: %w'' [] e), w3)
      | (None, w3) \<Rightarrow>
     (case exec os (Remove t) w3 of
        (Some e, w4) \<Rightarrow> (Some (Errorw ''migration: remove published temporary file: %w'' [] e), w4)
      | (None, w4) \<Rightarrow>
          sync_directory os ''migration: open directory for sync: %w'' ''migration: sync directory: %w'' dir w4))))"

definition write_migration :: "OS \<Rightarrow> string \<Rightarrow> string \<Rightarrow> string \<Rightarrow> world \<Rightarrow> go_error option \<times> world" where
  "write_migration os dir path text w =
     (let t = join_path dir (''.fit-migrate-create-'' @ os_random os w @ ''.tmp'')
      in case exec os (CreateTemp t) w of
           (Some e, w1) \<Rightarrow> (Some (Errorw ''migration: create temporary file: %w'' [] e), w1)
         | (None, w1) \<Rightarrow>
             (case publish os dir t path text w1 of
                (res, w2) \<Rightarrow> (res, snd (exec os (Remove t) w2))))"

text \<open>The file of the next number, once the directory has been listed.\<close>

definition create_next ::
    "OS \<Rightarrow> string \<Rightarrow> string \<Rightarrow> nat \<Rightarrow> nat \<Rightarrow> nat \<Rightarrow> string \<Rightarrow> world \<Rightarrow> (go_error + CreatedFile) \<times> world" where
  "create_next os dir packageName a b c name w =
     (case next_sequence (version_prefix a b c) (canonical_version a b c) 1 (entries_of os dir w) of
        Inl e \<Rightarrow> (Inl e, w)
      | Inr n \<Rightarrow>
          let path = join_path dir (migration_file_name a b c n name)
          in case write_migration os dir path (skeleton packageName a b c n name) w of
               (Some e, w1) \<Rightarrow> (Inl e, w1)
             | (None, w1) \<Rightarrow> (Inr \<lparr>cf_ID = migration_id a b c n name, cf_Path = path\<rparr>, w1))"

text \<open>What runs under the directory lock.\<close>

definition create_locked ::
    "OS \<Rightarrow> string \<Rightarrow> string \<Rightarrow> nat \<Rightarrow> nat \<Rightarrow> nat \<Rightarrow> string \<Rightarrow> world \<Rightarrow> (go_error + CreatedFile) \<times> world" where
  "create_locked os dir packageName a b c name w =
     (case exec os CtxErr w of
        (Some e, w1) \<Rightarrow> (Inl e, w1)
      | (None, w1) \<Rightarrow>
     (case os_Glob os (join_path dir ''.fit-migrate-create-*.tmp'') w1 of
        Inl e \<Rightarrow> (Inl (Errorw ''migration: find stale temporary files: %w'' [] e), w1)
      | Inr stale \<Rightarrow>
     (case remove_stale os stale w1 of
        (Some e, w2) \<Rightarrow> (Inl e, w2)
      | (None, w2) \<Rightarrow>
     (case exec os (ReadDir dir) w2 of
        (Some e, w3) \<Rightarrow> (Inl (Errorw ''migration: list directory: %w'' [] e), w3)
      | (None, w3) \<Rightarrow> create_next os dir packageName a b c name w3))))"

definition create_in :: "OS \<Rightarrow> string \<Rightarrow> string \<Rightarrow> nat \<Rightarrow> nat \<Rightarrow> nat \<Rightarrow> string \<Rightarrow> world \<Rightarrow> (go_error + CreatedFile) \<times> world" where
  "create_in os dir packageName a b c name w =
     (let lock = join_path dir ''.fit-migrate-create.lock''
      in case exec os (LockFile lock) w of
           (Some e, w1) \<Rightarrow> (Inl (Errorw ''migration: lock migration directory: %w'' [] e), w1)
         | (None, w1) \<Rightarrow>
             (case create_locked os dir packageName a b c name w1 of
                (res, w2) \<Rightarrow>
             (case exec os (UnlockFile lock) w2 of
                (None, w3) \<Rightarrow> (res, w3)
              | (Some ue, w3) \<Rightarrow>
                  (Inl (the (errors_Join [(case res of Inl e \<Rightarrow> Some e | Inr _ \<Rightarrow> None),
                     Some (Errorw ''migration: unlock migration directory: %w'' [] ue)])), w3))))"

definition CreateFileContext ::
    "OS \<Rightarrow> string \<Rightarrow> string \<Rightarrow> string \<Rightarrow> string \<Rightarrow> world \<Rightarrow> (go_error + CreatedFile) \<times> world" where
  "CreateFileContext os directory packageName version name w =
     (if \<not> packagePattern packageName then (Inl (Errorf ''migration: invalid Go package %q'' [packageName]), w)
      else if \<not> namePattern name
      then (Inl (Errorf ''migration: invalid migration name %q; use letters, numbers, and underscores'' [name]), w)
      else case versionPattern (TrimSpace version) of
        None \<Rightarrow> (Inl (Errorf ''migration: invalid version %q; want vX.Y.Z'' [version]), w)
      | Some (va, vb, vc) \<Rightarrow>
     (case parseVersionPart ''major'' va of
        Inl e \<Rightarrow> (Inl e, w)
      | Inr a \<Rightarrow>
     (case parseVersionPart ''minor'' vb of
        Inl e \<Rightarrow> (Inl e, w)
      | Inr b \<Rightarrow>
     (case parseVersionPart ''patch'' vc of
        Inl e \<Rightarrow> (Inl e, w)
      | Inr c \<Rightarrow>
          if directory = '''' then (Inl (errors_New ''migration: empty migration directory''), w)
          else case exec os (MkdirAll directory) w of
            (Some e, w1) \<Rightarrow> (Inl (Errorw ''migration: create directory: %w'' [] e), w1)
          | (None, w1) \<Rightarrow>
         (case os_Abs os directory of
            Inl e \<Rightarrow> (Inl (Errorw ''migration: resolve directory: %w'' [] e), w1)
          | Inr absolute \<Rightarrow>
         (case os_EvalSymlinks os absolute w1 of
            Inl e \<Rightarrow> (Inl (Errorw ''migration: resolve directory links: %w'' [] e), w1)
          | Inr dir \<Rightarrow> create_in os dir packageName a b c name w1))))))"

end
