(* ===== verification/Migration_Create_Properties.thy ===== *)
theory Migration_Create_Properties
  imports Migration_Create
begin

text \<open>
  What creating a migration promises: the next free sequence number, a file that appears complete
  or not at all, no change to any other file, and identifiers that do not collide.
\<close>

section \<open>Sequence numbers\<close>

lemma entry_number_bound: "entry_number pre e = Some k \<Longrightarrow> k < 2 ^ 64"
  by (auto simp: entry_number_def Let_def ParseUint_Inr split: prod.splits if_splits option.splits sum.splits)

lemma next_sequence_above:
  assumes "next_sequence pre v s es = Inr n"
  shows "s \<le> n \<and> (s < 2 ^ 64 \<longrightarrow> n < 2 ^ 64) \<and> (\<forall>e \<in> set es. \<forall>k. entry_number pre e = Some k \<longrightarrow> k < n)"
  using assms
proof (induction es arbitrary: s)
  case (Cons e es)
  show ?case
  proof (cases "entry_number pre e")
    case None
    then show ?thesis using Cons by simp
  next
    case (Some k)
    with Cons.prems have "int k \<noteq> 18446744073709551615"
      and rec: "next_sequence pre v (if k \<ge> s then k + 1 else s) es = Inr n"
      by (auto split: if_splits)
    moreover have "k < 2 ^ 64" by (rule entry_number_bound [OF Some])
    ultimately have "k + 1 < 2 ^ 64" by simp
    with Cons.IH [OF rec] Some show ?thesis by (auto split: if_splits)
  qed
qed simp

lemma TrimSuffix_append [simp]: "TrimSuffix (s @ p) p = s"
  by (simp add: TrimSuffix_def HasSuffix_def)

lemma TrimPrefix_append [simp]: "TrimPrefix (p @ s) p = s"
  by (simp add: TrimPrefix_def HasPrefix_def)

lemma HasPrefix_append [simp]: "HasPrefix (p @ s) p"
  by (simp add: HasPrefix_def)

lemma HasSuffix_append [simp]: "HasSuffix (s @ p) p"
  by (simp add: HasSuffix_def)

lemma itoa_no_underscore: "CHR ''_'' \<notin> set (itoa n)"
  using itoa_digits [of n] by (auto simp: is_digit_def)

lemma entry_number_file:
  assumes "n < 2 ^ 64"
  shows "entry_number (version_prefix a b c) (migration_file_name a b c n name, False) = Some n"
proof -
  let ?r = "itoa n @ CHR ''_'' # map ascii_lower name"
  have f: "migration_file_name a b c n name = (version_prefix a b c @ ?r) @ ''.go''"
    by (simp add: migration_file_name_def)
  have r: "TrimSuffix (TrimPrefix (migration_file_name a b c n name) (version_prefix a b c)) ''.go'' = ?r"
    unfolding f append_assoc TrimPrefix_append using TrimSuffix_append [of ?r "''.go''"] by simp
  have "takeWhile (\<lambda>x. x \<noteq> CHR ''_'') ?r = itoa n"
    using itoa_no_underscore [of n] by (subst takeWhile_append2) auto
  then have i: "IndexByte ?r CHR ''_'' = Some (length (itoa n))"
    by (simp add: IndexByte_def)
  have "HasPrefix (migration_file_name a b c n name) (version_prefix a b c)"
    unfolding f append_assoc by (rule HasPrefix_append)
  moreover have "HasSuffix (migration_file_name a b c n name) ''.go''"
    unfolding f by (rule HasSuffix_append)
  ultimately show ?thesis
    using assms by (simp add: entry_number_def r i)
qed

lemma name_in_join: "file_name m \<Longrightarrow> name_in dir (join_path dir m) = Some m"
  by (auto simp: name_in_def join_path_def HasPrefix_def)

lemma entries_of_file:
  assumes "file_name m" and "go_get (w_disk w) (join_path dir m) \<noteq> None"
  shows "(m, False) \<in> set (entries_of os dir w)"
proof -
  from assms(2) obtain x where "(join_path dir m, x) \<in> set (w_disk w)"
    by (auto dest: map_of_SomeD)
  then have "m \<in> set (List.map_filter (\<lambda>(p, x). name_in dir p) (w_disk w))"
    using name_in_join [OF assms(1)] by (force simp: map_filter_def)
  then show ?thesis by (simp add: entries_of_def)
qed

section \<open>Publication\<close>

text \<open>The lock file and the temporary files of a directory.\<close>

definition scratch :: "string \<Rightarrow> string set" where
  "scratch dir = {join_path dir n | n. HasPrefix n ''.fit-migrate-create''}"

lemma migration_not_scratch: "join_path dir (migration_file_name a b c n name) \<notin> scratch dir"
  by (auto simp: scratch_def migration_file_name_def version_prefix_def HasPrefix_def)

lemma scratch_temp: "join_path dir (''.fit-migrate-create-'' @ r) \<in> scratch dir"
  by (auto simp: scratch_def HasPrefix_def)

lemma scratch_lock: "join_path dir ''.fit-migrate-create.lock'' \<in> scratch dir"
  by (auto simp: scratch_def HasPrefix_def)

text \<open>
  Pattern matching in the directory returns only names that match, and the directory resolves to
  the same real one throughout.
\<close>

definition glob_sound :: "OS \<Rightarrow> string \<Rightarrow> bool" where
  "glob_sound os dir \<longleftrightarrow>
     (\<forall>v ps. os_Glob os (join_path dir ''.fit-migrate-create-*.tmp'') v = Inr ps \<longrightarrow> set ps \<subseteq> scratch dir)"

definition resolves :: "OS \<Rightarrow> string \<Rightarrow> string \<Rightarrow> bool" where
  "resolves os directory dir \<longleftrightarrow>
     (\<exists>absolute. os_Abs os directory = Inr absolute \<and> (\<forall>v. os_EvalSymlinks os absolute v = Inr dir))"

lemma glob_soundD:
  "glob_sound os dir \<Longrightarrow> os_Glob os (join_path dir ''.fit-migrate-create-*.tmp'') v = Inr ps \<Longrightarrow> p \<in> set ps \<Longrightarrow> p \<in> scratch dir"
  unfolding glob_sound_def by blast

text \<open>Every file outside a set is as before, but for one that was missing and is now complete.\<close>

definition published :: "string set \<Rightarrow> string \<Rightarrow> string \<Rightarrow> disk \<Rightarrow> disk \<Rightarrow> bool" where
  "published S path text d0 d \<longleftrightarrow> same_but (insert path S) d0 d
     \<and> (go_get d path = go_get d0 path \<or> go_get d0 path = None \<and> go_get d path = Some \<lparr>content = text, synced = True\<rparr>)"

abbreviation complete :: "string \<Rightarrow> string \<Rightarrow> disk \<Rightarrow> go_error option \<Rightarrow> disk \<Rightarrow> bool" where
  "complete path text d0 \<equiv> \<lambda>res d. res = None \<longrightarrow> go_get d0 path = None \<and> go_get d path = Some \<lparr>content = text, synced = True\<rparr>"

lemma published_same: "same_but S d0 d \<Longrightarrow> path \<notin> S \<Longrightarrow> published S path text d0 d"
  by (auto simp: published_def same_but_def)

lemma publish_run:
  assumes t: "go_get (w_disk w) t = Some \<lparr>content = '''', synced = False\<rparr>" "t \<in> S"
    and S: "path \<notin> S" "same_but S d0 (w_disk w)"
  shows "run_ok (published S path text d0) (\<lambda>res d. published S path text d0 d \<and> complete path text d0 res d) w
    (publish os dir t path text w)"
proof -
  have wt: "run_ok (published S path text d0)
      (\<lambda>res d. same_but S d0 d \<and> (res = None \<longrightarrow> go_get d t = Some \<lparr>content = text, synced = True\<rparr>)) w
      (write_temporary os create_texts t text w)"
  proof (rule run_ok_mono [OF write_temporary_run [OF t(1)]])
    fix d assume "same_but {t} (w_disk w) d"
    then have "same_but S d0 d" using same_but_trans [OF S(2)] same_but_mono t(2) by blast
    with S(1) show "published S path text d0 d" by (intro published_same)
  qed (use same_but_trans [OF S(2)] same_but_mono t(2) in blast)
  have linked: "published S path text d0 d \<and> go_get d0 path = None \<and> go_get d path = Some \<lparr>content = text, synced = True\<rparr>"
    if "same_but S d0 d1" "go_get d1 t = Some \<lparr>content = text, synced = True\<rparr>" "go_get d1 path = None" "d = go_set path \<lparr>content = text, synced = True\<rparr> d1" for d d1
    using that S t(2) by (auto simp: published_def same_but_def go_map)
  have removed: "published S path text d0 (go_del t d)" "go_get (go_del t d) path = go_get d path"
    if "published S path text d0 d" for d
    using that S t(2) by (auto simp: published_def same_but_def go_map)
  show ?thesis
    unfolding publish_def
    by (intro run_ok_then [OF wt] run_ok_exec run_ok_ret run_ok_mono [OF sync_directory_run])
      (use S published_same linked removed in \<open>auto split: if_splits\<close>)
qed

lemma write_migration_run:
  assumes dir: "path \<notin> scratch dir" and d0: "same_but (scratch dir) d0 (w_disk w)"
  shows "run_ok (published (scratch dir) path text d0)
    (\<lambda>res d. published (scratch dir) path text d0 d \<and> complete path text d0 res d) w
    (write_migration os dir path text w)"
proof -
  define t where "t = join_path dir (''.fit-migrate-create-'' @ os_random os w @ ''.tmp'')"
  have t: "t \<in> scratch dir" unfolding t_def by (rule scratch_temp)
  then have neq: "path \<noteq> t" using dir by blast
  let ?P = "published (scratch dir) path text d0"
  have created: "same_but (scratch dir) d0 (go_set t x (w_disk w))" for x
    using d0 t by (auto simp: same_but_def go_map)
  have pub: "run_ok ?P (\<lambda>res d. ?P d \<and> complete path text d0 res d) w1 (publish os dir t path text w1)"
    if "w_disk w1 = go_set t \<lparr>content = '''', synced = False\<rparr> (w_disk w)" for w1
    by (rule publish_run [OF _ t dir]) (use that created in \<open>auto simp: go_map\<close>)
  have removed: "?P (go_del t d)" if "?P d" for d
    using that neq t by (auto simp: published_def same_but_def go_map)
  show ?thesis
    unfolding write_migration_def Let_def t_def [symmetric]
    by (intro run_ok_exec run_ok_ret run_ok_step [OF pub] run_ok_last)
      (use d0 dir neq created removed published_same in \<open>auto simp: go_map\<close>)
qed

lemma remove_stale_run:
  assumes "set ps \<subseteq> S" and "same_but S d0 (w_disk w)"
  shows "run_ok (same_but S d0) (\<lambda>res d. same_but S d0 d) w (remove_stale os ps w)"
  using assms
proof (induction ps arbitrary: w)
  case (Cons p ps)
  have del: "same_but S d0 (go_del p d)" if "same_but S d0 d" for d
    using that Cons.prems(1) by (auto simp: same_but_def go_map)
  show ?case
    unfolding remove_stale.simps
    by (intro run_ok_exec) (use Cons del in \<open>auto intro: run_ok_ret\<close>)
qed (simp add: run_ok_ret)

section \<open>Creating a migration\<close>

text \<open>
  Every disk on the way: no migration that was there has changed, and a file that was not there is
  a whole skeleton.
\<close>

definition created_ok :: "string \<Rightarrow> string \<Rightarrow> nat \<Rightarrow> nat \<Rightarrow> nat \<Rightarrow> string \<Rightarrow> disk \<Rightarrow> disk \<Rightarrow> bool" where
  "created_ok dir pkg a b c name d0 d \<longleftrightarrow>
     (\<forall>q. q \<notin> scratch dir \<longrightarrow>
        (case go_get d0 q of
           Some x \<Rightarrow> go_get d q = Some x
         | None \<Rightarrow> go_get d q = None
             \<or> (\<exists>n. q = join_path dir (migration_file_name a b c n name)
                  \<and> go_get d q = Some \<lparr>content = skeleton pkg a b c n name, synced = True\<rparr>)))"

lemma created_ok_same: "same_but (scratch dir) d0 d \<Longrightarrow> created_ok dir pkg a b c name d0 d"
  by (auto simp: created_ok_def same_but_def split: option.splits)

lemma created_ok_published:
  assumes "published (scratch dir) (join_path dir (migration_file_name a b c n name)) (skeleton pkg a b c n name) d0 d"
  shows "created_ok dir pkg a b c name d0 d"
proof -
  let ?path = "join_path dir (migration_file_name a b c n name)" and ?x = "\<lparr>content = skeleton pkg a b c n name, synced = True\<rparr>"
  have "go_get d q = go_get d0 q \<or> q = ?path \<and> go_get d0 q = None \<and> go_get d q = Some ?x" if "q \<notin> scratch dir" for q
    using assms that by (cases "q = ?path") (simp_all add: published_def same_but_def)
  then show ?thesis
    unfolding created_ok_def by (intro allI impI) (fastforce split: option.split)
qed

text \<open>What a successful creation returns.\<close>

definition created_new :: "string \<Rightarrow> string \<Rightarrow> nat \<Rightarrow> nat \<Rightarrow> nat \<Rightarrow> string \<Rightarrow> disk \<Rightarrow> CreatedFile \<Rightarrow> disk \<Rightarrow> bool" where
  "created_new dir pkg a b c name d0 f d \<longleftrightarrow>
     (\<exists>n. n < 2 ^ 64 \<and> f = \<lparr>cf_ID = migration_id a b c n name, cf_Path = join_path dir (migration_file_name a b c n name)\<rparr>
        \<and> go_get d0 (cf_Path f) = None
        \<and> go_get d (cf_Path f) = Some \<lparr>content = skeleton pkg a b c n name, synced = True\<rparr>
        \<and> (\<forall>m k. file_name m \<longrightarrow> go_get d0 (join_path dir m) \<noteq> None
              \<longrightarrow> entry_number (version_prefix a b c) (m, False) = Some k \<longrightarrow> k < n))"

abbreviation create_result :: "string \<Rightarrow> string \<Rightarrow> nat \<Rightarrow> nat \<Rightarrow> nat \<Rightarrow> string \<Rightarrow> disk \<Rightarrow> go_error + CreatedFile \<Rightarrow> disk \<Rightarrow> bool" where
  "create_result dir pkg a b c name d0 \<equiv>
     \<lambda>res d. created_ok dir pkg a b c name d0 d \<and> (\<forall>f. res = Inr f \<longrightarrow> created_new dir pkg a b c name d0 f d)"

lemma entry_not_scratch:
  assumes "entry_number (version_prefix a b c) (m, isDir) = Some k"
  shows "join_path dir m \<notin> scratch dir"
proof -
  have "HasPrefix m (version_prefix a b c)"
    using assms by (auto simp: entry_number_def split: if_splits)
  then have "m \<noteq> []" "hd m = CHR ''v''"
    by (cases m; auto simp: HasPrefix_def version_prefix_def)+
  then show ?thesis by (cases m) (auto simp: scratch_def HasPrefix_def)
qed

lemma create_next_run:
  assumes d0: "same_but (scratch dir) d0 (w_disk w)"
  shows "run_ok (created_ok dir pkg a b c name d0) (create_result dir pkg a b c name d0) w
    (create_next os dir pkg a b c name w)"
proof (cases "next_sequence (version_prefix a b c) (canonical_version a b c) 1 (entries_of os dir w)")
  case (Inl e)
  then show ?thesis using d0 by (auto simp: create_next_def intro: run_ok_ret created_ok_same)
next
  case (Inr n)
  define path where "path = join_path dir (migration_file_name a b c n name)"
  have out: "path \<notin> scratch dir" unfolding path_def by (rule migration_not_scratch)
  let ?text = "skeleton pkg a b c n name"
  have above: "k < n" if "file_name m" "go_get d0 (join_path dir m) \<noteq> None" "entry_number (version_prefix a b c) (m, False) = Some k" for m k
  proof -
    have "go_get (w_disk w) (join_path dir m) \<noteq> None"
      using that d0 entry_not_scratch [OF that(3)] by (simp add: same_but_def)
    from entries_of_file [OF that(1) this] next_sequence_above [OF Inr] that(3) show ?thesis by blast
  qed
  have wr: "run_ok (created_ok dir pkg a b c name d0)
      (\<lambda>res d. created_ok dir pkg a b c name d0 d \<and> complete path ?text d0 res d) w (write_migration os dir path ?text w)"
    by (rule run_ok_mono [OF write_migration_run [OF out d0]]) (auto simp: path_def intro: created_ok_published)
  show ?thesis
    unfolding create_next_def Inr sum.case Let_def path_def [symmetric]
    by (intro run_ok_then [OF wr] run_ok_ret)
      (use above next_sequence_above [OF Inr] in \<open>auto simp: created_new_def path_def\<close>)
qed

lemma create_locked_run:
  assumes d0: "same_but (scratch dir) d0 (w_disk w)"
    and glob: "glob_sound os dir"
  shows "run_ok (created_ok dir pkg a b c name d0) (create_result dir pkg a b c name d0) w
    (create_locked os dir pkg a b c name w)"
proof -
  let ?P = "created_ok dir pkg a b c name d0"
  have stale: "run_ok ?P (\<lambda>res d. same_but (scratch dir) d0 d) w1 (remove_stale os ps w1)"
    if "set ps \<subseteq> scratch dir" "same_but (scratch dir) d0 (w_disk w1)" for ps w1
    by (rule run_ok_mono [OF remove_stale_run [OF that]]) (auto intro: created_ok_same)
  have globbed: "run_ok ?P (create_result dir pkg a b c name d0) w1
      (case remove_stale os ps w1 of
         (Some e, w2) \<Rightarrow> (Inl e, w2)
       | (None, w2) \<Rightarrow>
      (case exec os (ReadDir dir) w2 of
         (Some e, w3) \<Rightarrow> (Inl (Errorw ''migration: list directory: %w'' [] e), w3)
       | (None, w3) \<Rightarrow> create_next os dir pkg a b c name w3))"
    if "set ps \<subseteq> scratch dir" "same_but (scratch dir) d0 (w_disk w1)" for ps w1
    by (intro run_ok_then [OF stale [OF that]] run_ok_exec run_ok_ret create_next_run)
      (auto intro: created_ok_same)
  show ?thesis
    unfolding create_locked_def
    by (intro run_ok_exec run_ok_ret)
      (use d0 in \<open>auto split: sum.split intro!: globbed run_ok_ret dest: glob_soundD [OF glob] intro: created_ok_same\<close>)
qed

lemma create_in_run:
  assumes glob: "glob_sound os dir"
  shows "run_ok (created_ok dir pkg a b c name (w_disk w)) (create_result dir pkg a b c name (w_disk w)) w
    (create_in os dir pkg a b c name w)"
proof -
  let ?P = "created_ok dir pkg a b c name (w_disk w)"
  have start: "?P (w_disk w)" by (simp add: created_ok_same)
  have lock: "same_but (scratch dir) (w_disk w) (effect (LockFile (join_path dir ''.fit-migrate-create.lock'')) (w_disk w))"
    using scratch_lock [of dir] by (auto simp: same_but_def go_map)
  have locked: "run_ok ?P (create_result dir pkg a b c name (w_disk w)) w1 (create_locked os dir pkg a b c name w1)"
    if "w_disk w1 = effect (LockFile (join_path dir ''.fit-migrate-create.lock'')) (w_disk w)" for w1
    by (rule create_locked_run [OF _ glob]) (use that lock in simp_all)
  show ?thesis
    unfolding create_in_def Let_def
    by (intro run_ok_exec run_ok_ret run_ok_step [OF locked])
      (use start lock created_ok_same in auto)
qed

text \<open>The arguments are refused before anything happens, or they name a version.\<close>

lemma CreateFileContext_cases:
  assumes "resolves os directory dir"
  obtains (refused) e where "CreateFileContext os directory pkg version name w = (Inl e, w)"
    | (accepted) a b c where "a < 2 ^ 64" and "b < 2 ^ 64" and "c < 2 ^ 64" and "namePattern name"
      and "CreateFileContext os directory pkg version name w =
          (case exec os (MkdirAll directory) w of
             (Some e, w1) \<Rightarrow> (Inl (Errorw ''migration: create directory: %w'' [] e), w1)
           | (None, w1) \<Rightarrow> create_in os dir pkg a b c name w1)"
proof (cases "\<exists>va vb vc a b c. packagePattern pkg \<and> namePattern name \<and> directory \<noteq> ''''
    \<and> versionPattern (TrimSpace version) = Some (va, vb, vc) \<and> ParseUint va = Inr a \<and> ParseUint vb = Inr b \<and> ParseUint vc = Inr c")
  case True
  then obtain va vb vc a b c where "packagePattern pkg" "namePattern name" "directory \<noteq> ''''"
    "versionPattern (TrimSpace version) = Some (va, vb, vc)"
    and p: "ParseUint va = Inr a" "ParseUint vb = Inr b" "ParseUint vc = Inr c" by blast
  moreover from p have "a < 2 ^ 64" "b < 2 ^ 64" "c < 2 ^ 64" by (simp_all add: ParseUint_Inr)
  ultimately show thesis
    using assms
    by (intro accepted [of a b c])
      (auto simp: CreateFileContext_def parseVersionPart_def resolves_def split: option.split prod.split)
next
  case False
  then have "\<exists>e. CreateFileContext os directory pkg version name w = (Inl e, w)"
    by (auto simp: CreateFileContext_def parseVersionPart_def split: sum.splits option.splits prod.splits)
  with refused show thesis by blast
qed

lemma CreateFileContext_run:
  assumes glob: "glob_sound os dir"
    and dir: "resolves os directory dir"
  shows "\<exists>a b c. a < 2 ^ 64 \<and> b < 2 ^ 64 \<and> c < 2 ^ 64 \<and>
    run_ok (created_ok dir pkg a b c name (w_disk w))
      (\<lambda>res d. create_result dir pkg a b c name (w_disk w) res d \<and> (\<forall>f. res = Inr f \<longrightarrow> namePattern name)) w
      (CreateFileContext os directory pkg version name w)"
  using dir
proof (cases rule: CreateFileContext_cases [where pkg = pkg and version = version and name = name and w = w])
  case (refused e)
  show ?thesis
    unfolding refused by (rule exI [of _ 0] conjI run_ok_ret | simp add: created_ok_same)+
next
  case (accepted a b c)
  let ?P = "created_ok dir pkg a b c name (w_disk w)"
  let ?Q = "\<lambda>res d. create_result dir pkg a b c name (w_disk w) res d \<and> (\<forall>f. res = Inr f \<longrightarrow> namePattern name)"
  have inner: "run_ok ?P ?Q w1 (create_in os dir pkg a b c name w1)" if "w_disk w1 = w_disk w" for w1
    by (rule run_ok_mono [OF create_in_run [OF glob]]) (use accepted(4) that in auto)
  have "run_ok ?P ?Q w (CreateFileContext os directory pkg version name w)"
    unfolding accepted(5)
    by (intro run_ok_exec run_ok_ret inner) (auto simp: created_ok_same)
  with accepted(1-3) show ?thesis by blast
qed

section \<open>Properties\<close>

lemma namePattern_name_ok: "namePattern s \<Longrightarrow> name_ok s"
  by (auto simp: namePattern_def name_ok_def list_all_iff is_word_char_def is_name_char_def)

lemma ParseID_migration_id:
  assumes "a < 2 ^ 64" "b < 2 ^ 64" "c < 2 ^ 64" "n < 2 ^ 64" "namePattern name"
  shows "ParseID (migration_id a b c n name) = Inr (ID a b c n name)"
proof -
  have "migration_id a b c n name = ID_String (ID a b c n name)"
    by (simp add: migration_id_def canonical_version_def ID_String_def)
  then show ?thesis
    using ParseID_ID_String [of "ID a b c n name"] assms by (simp add: ID_ok_def namePattern_name_ok)
qed


lemma file_name_migration:
  assumes "namePattern name"
  shows "file_name (migration_file_name a b c n name)"
proof -
  have "CHR ''/'' \<notin> set (itoa k)" for k
    using itoa_digits [of k] by (auto simp: is_digit_def)
  moreover have "ascii_lower x \<noteq> CHR ''/''" if "x \<in> set name" for x
  proof
    assume "ascii_lower x = CHR ''/''"
    then have "(of_char (ascii_lower x) :: nat) = 47" by simp
    then have "(of_char x :: nat) = 47" by (auto simp: ascii_lower_def split: if_splits)
    moreover from assms that have "is_word_char x" by (simp add: namePattern_def list_all_iff)
    ultimately show False by (auto simp: is_word_char_def is_alnum_def is_digit_def)
  qed
  then have "CHR ''/'' \<notin> set (map ascii_lower name)" by force
  ultimately show ?thesis
    by (simp add: file_name_def migration_file_name_def version_prefix_def)
qed








lemma working [simp]: "os_Abs working_os = Inr" "os_EvalSymlinks working_os p w = Inr p" "os_Glob working_os p w = Inr []" "os_random working_os w = ''7''"
  by (simp_all add: working_os_def)












text \<open>
  Sequence numbers grow.  Two migrations of the same version created one after the other in
  one directory have identifiers in that order, the second with the larger sequence number.
\<close>

theorem create_increases:
  assumes "glob_sound os dir" and "resolves os directory dir"
    and "CreateFileContext os directory pkg version name w = (Inr f, w1)"
    and "CreateFileContext os directory pkg' version' name' w1 = (Inr g, w2)"
    and "ParseID (cf_ID f) = Inr i" and "ParseID (cf_ID g) = Inr j"
    and "Major i = Major j" and "Minor i = Minor j" and "Patch i = Patch j"
  shows "Sequence i < Sequence j \<and> compareID i j < 0"
proof -
  from CreateFileContext_run [OF assms(1,2), where pkg = pkg and name = name and w = w and version = version] assms(3)
  obtain a b c n where abc: "a < 2 ^ 64" "b < 2 ^ 64" "c < 2 ^ 64" "n < 2 ^ 64" "namePattern name"
    and f: "f = \<lparr>cf_ID = migration_id a b c n name, cf_Path = join_path dir (migration_file_name a b c n name)\<rparr>"
    and on: "go_get (w_disk w1) (cf_Path f) \<noteq> None"
    unfolding run_ok_def created_new_def by auto
  from CreateFileContext_run [OF assms(1,2), where pkg = pkg' and name = name' and w = w1 and version = version'] assms(4)
  obtain a' b' c' n' where abc': "a' < 2 ^ 64" "b' < 2 ^ 64" "c' < 2 ^ 64" "n' < 2 ^ 64" "namePattern name'"
    and g: "g = \<lparr>cf_ID = migration_id a' b' c' n' name', cf_Path = join_path dir (migration_file_name a' b' c' n' name')\<rparr>"
    and above: "\<And>m k. file_name m \<Longrightarrow> go_get (w_disk w1) (join_path dir m) \<noteq> None
      \<Longrightarrow> entry_number (version_prefix a' b' c') (m, False) = Some k \<Longrightarrow> k < n'"
    unfolding run_ok_def created_new_def by auto
  have ij: "i = ID a b c n name" "j = ID a' b' c' n' name'"
    using assms(5,6) ParseID_migration_id [OF abc] ParseID_migration_id [OF abc'] by (simp_all add: f g)
  with assms(7-9) have v: "a' = a" "b' = b" "c' = c" by simp_all
  have "n < n'"
  proof (rule above)
    show "file_name (migration_file_name a b c n name)"
      using abc(5) by (rule file_name_migration)
    show "go_get (w_disk w1) (join_path dir (migration_file_name a b c n name)) \<noteq> None"
      using on by (simp add: f)
    show "entry_number (version_prefix a' b' c') (migration_file_name a b c n name, False) = Some n"
      unfolding v by (rule entry_number_file [OF abc(4)])
  qed
  then show ?thesis by (simp add: ij v compareID_def)
qed


section \<open>Go identifiers\<close>

lemma itoa_cut: "itoa m @ CHR ''_'' # s = itoa n @ CHR ''_'' # t \<Longrightarrow> m = n \<and> s = t"
proof -
  assume eq: "itoa m @ CHR ''_'' # s = itoa n @ CHR ''_'' # t"
  have "takeWhile (\<lambda>x. x \<noteq> CHR ''_'') (itoa k @ CHR ''_'' # u) = itoa k" for k u
    using itoa_no_underscore [of k] by (subst takeWhile_append2) auto
  with eq have "itoa m = itoa n" by metis
  with eq show ?thesis using itoa_inj by auto
qed

text \<open>
  Variables of different versions or numbers differ, which is why the separators stay in the name:
  without them \<^verbatim>\<open>v1.2.31\<close> and \<^verbatim>\<open>v1.23.1\<close> would collide.
\<close>

theorem variable_inj:
  "variable a b c n s = variable a' b' c' n' t \<longleftrightarrow>
     a = a' \<and> b = b' \<and> c = c' \<and> n = n' \<and> exportedIdentifier s = exportedIdentifier t"
  by (auto simp: variable_def dest!: itoa_cut)

end
