(* ===== verification/Migration_CLI.thy ===== *)
theory Migration_CLI
  imports Migration_Properties Migration_Create_Properties
begin

text \<open>
  The command line of migrations (\<^verbatim>\<open>migration/migrationcli/cli.go\<close>): the arguments of \<^verbatim>\<open>run\<close>, and the
  dispatch to the runner and to the creation of files.  What is written to the standard output is
  collected; whether writing it fails is a parameter.
\<close>

section \<open>Arguments of run\<close>

definition requires_value :: go_error where
  "requires_value = errors_New ''migration: --from requires a value''"

text \<open>\<^verbatim>\<open>strings.Cut\<close> at the first equals sign, when there is one: the part after it.\<close>

definition after_equals :: "string \<Rightarrow> string" where
  "after_equals s = tl (dropWhile (\<lambda>c. c \<noteq> CHR ''='') s)"

fun run_args_loop :: "RunOptions \<Rightarrow> bool \<Rightarrow> string list \<Rightarrow> go_error + RunOptions \<times> bool" where
  "run_args_loop options targetSet [] = Inr (options, False)"
| "run_args_loop options targetSet (argument # args) =
     (if argument = ''-h'' \<or> argument = ''--help'' then Inr (\<lparr>From = '''', To = ''''\<rparr>, True)
      else if argument = ''--from'' \<or> argument = ''-from'' then
        (case args of
           [] \<Rightarrow> Inl requires_value
         | v # rest \<Rightarrow>
             if TrimSpace v = '''' then Inl requires_value
             else run_args_loop (options\<lparr>From := v\<rparr>) targetSet rest)
      else if HasPrefix argument ''--from='' \<or> HasPrefix argument ''-from='' then
        (let v = after_equals argument
         in if TrimSpace v = '''' then Inl requires_value
            else run_args_loop (options\<lparr>From := v\<rparr>) targetSet args)
      else if HasPrefix argument ''-'' then Inl (Errorf ''migration: unknown run option %q'' [argument])
      else if targetSet then Inl (errors_New ''migration: run accepts at most one target'')
      else run_args_loop (options\<lparr>To := argument\<rparr>) True args)"

definition parseRunArgs :: "string list \<Rightarrow> go_error + RunOptions \<times> bool" where
  "parseRunArgs args = run_args_loop \<lparr>From = '''', To = ''latest''\<rparr> False args"

section \<open>Commands\<close>

record CLI =
  cli_Runner :: "Runner option"
  cli_MigrationDir :: string
  cli_PackageName :: string

datatype cli_output = OutStatuses "Status list" | OutCreated CreatedFile | OutUsage string

record cli_state =
  cl_history :: history
  cl_world :: world
  cl_out :: "cli_output list"

definition emit :: "(cli_output \<Rightarrow> go_error option) \<Rightarrow> cli_output \<Rightarrow> cli_state \<Rightarrow> go_error option \<times> cli_state" where
  "emit wr out s = (wr out, s\<lparr>cl_out := cl_out s @ [out]\<rparr>)"

definition run_command ::
    "(cli_output \<Rightarrow> go_error option) \<Rightarrow> Runner \<Rightarrow> command \<Rightarrow> cli_state \<Rightarrow> go_error option \<times> cli_state" where
  "run_command wr R cmd s =
     (case perform R cmd (cl_history s) of
        (Inl e, h) \<Rightarrow> (Some e, s\<lparr>cl_history := h\<rparr>)
      | (Inr sts, h) \<Rightarrow> emit wr (OutStatuses sts) (s\<lparr>cl_history := h\<rparr>))"

definition Execute ::
    "(cli_output \<Rightarrow> go_error option) \<Rightarrow> OS \<Rightarrow> CLI \<Rightarrow> Context option \<Rightarrow> string list \<Rightarrow> cli_state \<Rightarrow> go_error option \<times> cli_state" where
  "Execute wr os cli ctx args s =
     (case args of
        [] \<Rightarrow> (Some (errors_New ''migration: command required: list, run, revert, revert-one, or create''), s)
      | name # rest \<Rightarrow>
     (if name = ''list'' then
        (case cli_Runner cli of
           None \<Rightarrow> (Some (errors_New ''migration: list requires a runner''), s)
         | Some R \<Rightarrow> run_command wr R (CmdList ctx) s)
      else if name = ''run'' then
        (case parseRunArgs rest of
           Inl e \<Rightarrow> (Some e, s)
         | Inr (options, True) \<Rightarrow> emit wr (OutUsage ''usage: migration run [--from <version-or-id>] [target]'') s
         | Inr (options, False) \<Rightarrow>
             (case cli_Runner cli of
                None \<Rightarrow> (Some (errors_New ''migration: run requires a runner''), s)
              | Some R \<Rightarrow> run_command wr R (CmdRun ctx options) s))
      else if name = ''revert'' then
        (case cli_Runner cli of
           None \<Rightarrow> (Some (errors_New ''migration: revert requires a runner''), s)
         | Some R \<Rightarrow>
             (case rest of
                [target] \<Rightarrow> run_command wr R (CmdRevert ctx target) s
              | _ \<Rightarrow> (Some (errors_New ''migration: revert requires a target version or migration ID''), s)))
      else if name = ''revert-one'' then
        (case cli_Runner cli of
           None \<Rightarrow> (Some (errors_New ''migration: revert-one requires a runner''), s)
         | Some R \<Rightarrow>
             if rest \<noteq> [] then (Some (errors_New ''migration: revert-one does not accept arguments''), s)
             else run_command wr R (CmdRevertOne ctx) s)
      else if name = ''create'' then
        (case rest of
           [version, migration] \<Rightarrow>
             if TrimSpace (cli_MigrationDir cli) = '''' \<or> TrimSpace (cli_PackageName cli) = ''''
             then (Some (errors_New ''migration: create requires MigrationDir and PackageName''), s)
             else (case CreateFileContext os (cli_MigrationDir cli) (cli_PackageName cli) version migration (cl_world s) of
                     (Inl e, w) \<Rightarrow> (Some e, s\<lparr>cl_world := w\<rparr>)
                   | (Inr f, w) \<Rightarrow> emit wr (OutCreated f) (s\<lparr>cl_world := w\<rparr>))
         | _ \<Rightarrow> (Some (errors_New ''migration: create requires <version> <name>''), s))
      else (Some (Errorf ''migration: unknown command %q'' [name]), s)))"

text \<open>Invocations one after the other, as a shell would make them.\<close>

fun invocations ::
    "(cli_output \<Rightarrow> go_error option) \<Rightarrow> OS \<Rightarrow> CLI \<Rightarrow> (Context option \<times> string list) list \<Rightarrow> cli_state \<Rightarrow> cli_state" where
  "invocations wr os cli [] s = s"
| "invocations wr os cli ((ctx, args) # rest) s = invocations wr os cli rest (snd (Execute wr os cli ctx args s))"

section \<open>Properties\<close>

lemma emit_history [simp]: "cl_history (snd (emit wr out s)) = cl_history s"
  by (simp add: emit_def)

lemma run_command_history [simp]:
  "cl_history (snd (run_command wr R cmd s)) = snd (perform R cmd (cl_history s))"
  by (auto simp: run_command_def split: prod.splits sum.splits)

text \<open>An invocation does nothing to the migrations, or performs one command of the runner.\<close>

definition one_command :: "CLI \<Rightarrow> cli_state \<Rightarrow> go_error option \<times> cli_state \<Rightarrow> bool" where
  "one_command cli s r \<longleftrightarrow> cl_history (snd r) = cl_history s
     \<or> (\<exists>R cmd. cli_Runner cli = Some R \<and> cl_history (snd r) = snd (perform R cmd (cl_history s)))"

lemma one_command_same: "one_command cli s (e, s)" "one_command cli s (e, s\<lparr>cl_world := w\<rparr>)"
  "one_command cli s (emit wr out s)" "one_command cli s (emit wr out (s\<lparr>cl_world := w\<rparr>))"
  by (simp_all add: one_command_def)

lemma one_command_run: "cli_Runner cli = Some R \<Longrightarrow> one_command cli s (run_command wr R cmd s)"
  by (auto simp: one_command_def)

lemma Execute_one_command: "one_command cli s (Execute wr os cli ctx args s)"
proof (cases args)
  case (Cons name rest)
  then show ?thesis
    by (auto simp: Execute_def one_command_same one_command_run
        split: option.split sum.split list.split prod.split bool.split)
qed (simp add: Execute_def one_command_same)

text \<open>
  However the command line is used, migrations stay safe.  Over any sequence of invocations
  with any arguments on a memory store, no migration is applied while the durable state has it as
  applied, none is reverted unless the durable state has it as applied and not skipped, and every
  saved state satisfies the runner's invariant.
\<close>

theorem invocations_safe:
  assumes "NewRunner ms (Some (MemoryStore jl)) l clock = Inr R" and "runner_clean R" and "cli_Runner cli = Some R"
  shows "good_history R (cl_history (invocations wr os cli calls \<lparr>cl_history = [], cl_world = w, cl_out = []\<rparr>))"
proof -
  have R: "runner_ok R" using assms(1) by (rule NewRunner_establishes)
  have s: "store R = MemoryStore jl" using NewRunner_fields [OF assms(1)] by simp
  have step: "good_history R (snd (perform R cmd h))" if "good_history R h" for cmd h
    using mem_store.perform_good [OF s durable_inv_clean [OF assms(2)] R that] by blast
  have "good_history R (cl_history (invocations wr os cli calls st))" if "good_history R (cl_history st)" for st
    using that
  proof (induction calls arbitrary: st)
    case (Cons call calls)
    obtain ctx args where call: "call = (ctx, args)" by (cases call)
    have "good_history R (cl_history (snd (Execute wr os cli ctx args st)))"
      using Execute_one_command [of cli st wr os ctx args] assms(3) step [OF Cons.prems] Cons.prems
      by (auto simp: one_command_def)
    with Cons.IH show ?case by (simp add: call)
  qed simp
  then show ?thesis by (simp add: good_history_def)
qed

definition sample_cli :: CLI where
  "sample_cli = \<lparr>cli_Runner = Some sample_runner, cli_MigrationDir = ''/m'', cli_PackageName = ''m''\<rparr>"

theorem invocations_safe_witness:
  "good_history sample_runner (cl_history (invocations (\<lambda>_. None) working_os sample_cli
     [(None, [''run'', ''--from=v1.0.0'']), (None, [''revert-one'']), (None, [''list'', ''x'']), (None, [''bogus''])]
     \<lparr>cl_history = [], cl_world = \<lparr>w_disk = [], w_calls = []\<rparr>, cl_out = []\<rparr>))"
  by (rule invocations_safe [OF sample_new [unfolded sample_store_def] sample_clean]) (simp add: sample_cli_def)

text \<open>
  Both spellings of the option mean the same, whatever was parsed before and whatever follows.
\<close>

lemma after_equals_from: "after_equals (''--from='' @ v) = v"
  by (simp add: after_equals_def)

theorem from_spellings:
  assumes "TrimSpace v \<noteq> ''''"
  shows "run_args_loop options t (''--from'' # v # args) = run_args_loop options t ((''--from='' @ v) # args)"
  using assms after_equals_from [of v] by (simp add: HasPrefix_def)

text \<open>
  The accepted arguments of \<^verbatim>\<open>run\<close> are the intended ones: without a help option, a result has
  the last value given for \<^verbatim>\<open>--from\<close>, which is not blank, or the initial one; its target is the only
  positional argument, or the initial one; and no target begins with a dash.
\<close>

theorem parseRunArgs_target:
  assumes "parseRunArgs args = Inr (options, False)"
  shows "(From options = '''' \<or> TrimSpace (From options) \<noteq> '''') \<and> (To options = ''latest'' \<or> \<not> HasPrefix (To options) ''-'')
    \<and> (To options = ''latest'' \<or> To options \<in> set args)"
proof -
  have "run_args_loop o0 t xs = Inr (o1, False) \<Longrightarrow>
    (From o1 = From o0 \<or> TrimSpace (From o1) \<noteq> '''') \<and> (To o1 = To o0 \<or> \<not> HasPrefix (To o1) ''-'' \<and> To o1 \<in> set xs)" for o0 t xs o1
    by (induction o0 t xs rule: run_args_loop.induct) (auto simp: Let_def split: if_splits list.splits)
  from this [OF assms [unfolded parseRunArgs_def]] show ?thesis by auto
qed

end
