(* ===== verification/Migration_Lockers.thy ===== *)
theory Migration_Lockers
  imports Migration_Store
begin

text \<open>
  The lockers of \<^verbatim>\<open>migration/store.go\<close>: the in-process lock of \<^verbatim>\<open>MemoryStore\<close>, the \<^verbatim>\<open>FileLocker\<close>, and the
  adapters for locks of the application.

  A call of \<^verbatim>\<open>Lock\<close> that succeeds gives out a handle, the closure that unlocks.  The channel of capacity
  one is a flag; sending blocks while it is set.  The advisory file lock is held by at most one
  process: \<^verbatim>\<open>flock\<close> grants it only when no other process holds it.
\<close>

section \<open>Mutual exclusion\<close>

text \<open>A lock: its states, its steps, and the handles not yet unlocked.\<close>

locale exclusive_lock =
  fixes start :: 's and step :: "'s \<Rightarrow> 's \<Rightarrow> bool" and active :: "'s \<Rightarrow> nat set" and invariant :: "'s \<Rightarrow> bool"
  assumes invariant_start: "invariant start"
    and invariant_step: "invariant s \<Longrightarrow> step s t \<Longrightarrow> invariant t"
    and invariant_exclusive: "invariant s \<Longrightarrow> h \<in> active s \<Longrightarrow> k \<in> active s \<Longrightarrow> h = k"
begin

lemma reachable_invariant: "step\<^sup>*\<^sup>* start s \<Longrightarrow> invariant s"
  by (induction rule: rtranclp_induct) (auto intro: invariant_start invariant_step)

lemma at_most_one: "step\<^sup>*\<^sup>* start s \<Longrightarrow> h \<in> active s \<Longrightarrow> k \<in> active s \<Longrightarrow> h = k"
  using invariant_exclusive reachable_invariant by blast

end

section \<open>The lock of a memory store\<close>

record mem_lock =
  ml_full :: bool
  ml_once :: "nat \<Rightarrow> bool"
  ml_next :: nat

definition new_mem_lock :: mem_lock where
  "new_mem_lock = \<lparr>ml_full = False, ml_once = (\<lambda>_. False), ml_next = 0\<rparr>"

text \<open>
  \<^verbatim>\<open>MemoryStore.Lock\<close>: no value while the call blocks.  When the channel is free and the context is
  done, \<^verbatim>\<open>select\<close> may take either.
\<close>

definition MemoryStore_Lock :: "go_error option \<Rightarrow> bool \<Rightarrow> mem_lock \<Rightarrow> ((go_error + nat) \<times> mem_lock) option" where
  "MemoryStore_Lock ctx_err pick s =
     (if \<not> ml_full s \<and> (ctx_err = None \<or> pick)
      then Some (Inr (ml_next s), s\<lparr>ml_full := True, ml_next := Suc (ml_next s)\<rparr>)
      else case ctx_err of Some e \<Rightarrow> Some (Inl e, s) | None \<Rightarrow> None)"

definition MemoryStore_unlock :: "nat \<Rightarrow> mem_lock \<Rightarrow> mem_lock" where
  "MemoryStore_unlock h s =
     (if ml_once s h then s else s\<lparr>ml_full := False, ml_once := (ml_once s)(h := True)\<rparr>)"

inductive mem_lock_step :: "mem_lock \<Rightarrow> mem_lock \<Rightarrow> bool" where
  mem_Lock: "MemoryStore_Lock ctx_err pick s = Some (res, s') \<Longrightarrow> mem_lock_step s s'"
| mem_unlock: "h < ml_next s \<Longrightarrow> mem_lock_step s (MemoryStore_unlock h s)"

inductive_cases mem_lock_stepE: "mem_lock_step s t"

definition mem_active :: "mem_lock \<Rightarrow> nat set" where
  "mem_active s = {h. h < ml_next s \<and> \<not> ml_once s h}"

definition mem_lock_inv :: "mem_lock \<Rightarrow> bool" where
  "mem_lock_inv s \<longleftrightarrow> (if ml_full s then \<exists>h. mem_active s = {h} else mem_active s = {})
     \<and> (\<forall>h \<ge> ml_next s. \<not> ml_once s h)"

lemma MemoryStore_Lock_inv:
  assumes "mem_lock_inv s" and "MemoryStore_Lock ctx_err pick s = Some (res, s')"
  shows "mem_lock_inv s'"
proof (cases "\<not> ml_full s \<and> (ctx_err = None \<or> pick)")
  case True
  with assms have s': "s' = s\<lparr>ml_full := True, ml_next := Suc (ml_next s)\<rparr>" and "mem_active s = {}"
    by (auto simp: MemoryStore_Lock_def mem_lock_inv_def)
  moreover have "mem_active s' = insert (ml_next s) (mem_active s)"
    using assms(1) s' by (auto simp: mem_active_def mem_lock_inv_def less_Suc_eq)
  ultimately show ?thesis using assms(1) by (auto simp: mem_lock_inv_def)
next
  case False
  with assms show ?thesis by (auto simp: MemoryStore_Lock_def split: option.splits if_splits)
qed

lemma MemoryStore_unlock_inv:
  assumes "mem_lock_inv s" and "h < ml_next s"
  shows "mem_lock_inv (MemoryStore_unlock h s)"
proof (cases "ml_once s h")
  case False
  then have "h \<in> mem_active s" using assms(2) by (simp add: mem_active_def)
  then have "mem_active s = {h}" using assms(1) by (auto simp: mem_lock_inv_def split: if_splits)
  moreover have "mem_active (MemoryStore_unlock h s) = mem_active s - {h}"
    using False by (auto simp: mem_active_def MemoryStore_unlock_def)
  ultimately show ?thesis using assms False by (auto simp: mem_lock_inv_def MemoryStore_unlock_def)
qed (use assms in \<open>simp add: MemoryStore_unlock_def\<close>)

interpretation mem_mutex: exclusive_lock new_mem_lock mem_lock_step mem_active mem_lock_inv
proof
  show "mem_lock_inv new_mem_lock" by (auto simp: mem_lock_inv_def new_mem_lock_def mem_active_def)
next
  fix s t assume "mem_lock_inv s" "mem_lock_step s t"
  then show "mem_lock_inv t"
    by (auto elim!: mem_lock_stepE intro: MemoryStore_Lock_inv MemoryStore_unlock_inv)
next
  fix s h k assume "mem_lock_inv s" "h \<in> mem_active s" "k \<in> mem_active s"
  then show "h = k" by (auto simp: mem_lock_inv_def split: if_splits)
qed

section \<open>The file locker\<close>

text \<open>
  Several processes, each with one locker on the same path: the gate of each, which processes are
  between their gate and the result of \<^verbatim>\<open>TryLockContext\<close>, who holds the advisory lock, and the handles
  with the process they belong to and what unlocking them gave.
\<close>

record file_lock =
  fl_gate :: "nat \<Rightarrow> bool"
  fl_trying :: "nat \<Rightarrow> bool"
  fl_holder :: "nat option"
  fl_owner :: "nat \<Rightarrow> nat"
  fl_once :: "nat \<Rightarrow> go_error option option"
  fl_next :: nat

definition new_file_lock :: file_lock where
  "new_file_lock = \<lparr>fl_gate = (\<lambda>_. False), fl_trying = (\<lambda>_. False), fl_holder = None,
     fl_owner = (\<lambda>_. 0), fl_once = (\<lambda>_. None), fl_next = 0\<rparr>"

text \<open>The first half of \<^verbatim>\<open>Lock\<close>: the checks and the gate.  The answer is none while it blocks.\<close>

definition FileLocker_enter ::
    "bool \<Rightarrow> go_error option \<Rightarrow> bool \<Rightarrow> nat \<Rightarrow> file_lock \<Rightarrow> (go_error option \<times> file_lock) option" where
  "FileLocker_enter valid ctx_err pick p s =
     (if \<not> valid then Some (Some (errors_New ''migration: invalid file locker''), s)
      else if \<not> fl_gate s p \<and> (ctx_err = None \<or> pick)
      then Some (None, s\<lparr>fl_gate := (fl_gate s)(p := True), fl_trying := (fl_trying s)(p := True)\<rparr>)
      else case ctx_err of Some e \<Rightarrow> Some (Some e, s) | None \<Rightarrow> None)"

definition release_gate :: "nat \<Rightarrow> file_lock \<Rightarrow> file_lock" where
  "release_gate p s = s\<lparr>fl_gate := (fl_gate s)(p := False), fl_trying := (fl_trying s)(p := False)\<rparr>"

text \<open>The second half: the directory, then the answer of \<^verbatim>\<open>TryLockContext\<close>.\<close>

definition FileLocker_finish ::
    "go_error option \<Rightarrow> go_error + bool \<Rightarrow> nat \<Rightarrow> file_lock \<Rightarrow> (go_error + nat) \<times> file_lock" where
  "FileLocker_finish mkdir_err answer p s =
     (case mkdir_err of
        Some e \<Rightarrow> (Inl (Errorw ''migration: create lock directory: %w'' [] e), release_gate p s)
      | None \<Rightarrow>
     (case answer of
        Inl e \<Rightarrow> (Inl e, release_gate p s)
      | Inr False \<Rightarrow> (Inl (errors_New ''migration: lock was not acquired''), release_gate p s)
      | Inr True \<Rightarrow>
          (Inr (fl_next s), s\<lparr>fl_trying := (fl_trying s)(p := False), fl_holder := Some p,
             fl_owner := (fl_owner s)(fl_next s := p), fl_next := Suc (fl_next s)\<rparr>)))"

text \<open>The closure: once only, unlock, then free the gate.  A failing unlock leaves the advisory lock as it is.\<close>

definition FileLocker_unlock :: "go_error option \<Rightarrow> nat \<Rightarrow> file_lock \<Rightarrow> go_error option \<times> file_lock" where
  "FileLocker_unlock unlock_err h s =
     (case fl_once s h of
        Some e \<Rightarrow> (e, s)
      | None \<Rightarrow>
          (unlock_err, s\<lparr>fl_once := (fl_once s)(h := Some unlock_err),
             fl_holder := (if unlock_err = None then None else fl_holder s),
             fl_gate := (fl_gate s)(fl_owner s h := False)\<rparr>))"

inductive file_lock_step :: "file_lock \<Rightarrow> file_lock \<Rightarrow> bool" where
  file_enter: "FileLocker_enter valid ctx_err pick p s = Some (res, s') \<Longrightarrow> file_lock_step s s'"
| file_finish: "fl_trying s p \<Longrightarrow> answer = Inr True \<longrightarrow> fl_holder s \<in> {None, Some p}
    \<Longrightarrow> FileLocker_finish mkdir_err answer p s = (res, s') \<Longrightarrow> file_lock_step s s'"
| file_unlock: "h < fl_next s \<Longrightarrow> FileLocker_unlock unlock_err h s = (res, s') \<Longrightarrow> file_lock_step s s'"

definition file_active :: "file_lock \<Rightarrow> nat set" where
  "file_active s = {h. h < fl_next s \<and> fl_once s h = None}"

definition file_lock_inv :: "file_lock \<Rightarrow> bool" where
  "file_lock_inv s \<longleftrightarrow>
     (\<forall>h \<in> file_active s. fl_holder s = Some (fl_owner s h) \<and> fl_gate s (fl_owner s h) \<and> \<not> fl_trying s (fl_owner s h))
   \<and> (\<forall>h \<in> file_active s. \<forall>k \<in> file_active s. fl_owner s h = fl_owner s k \<longrightarrow> h = k)
   \<and> (\<forall>p. fl_trying s p \<longrightarrow> fl_gate s p)
   \<and> (\<forall>h \<ge> fl_next s. fl_once s h = None)"

lemma file_lock_inv_exclusive:
  "file_lock_inv s \<Longrightarrow> h \<in> file_active s \<Longrightarrow> k \<in> file_active s \<Longrightarrow> h = k"
  unfolding file_lock_inv_def by (metis option.inject)

lemma FileLocker_enter_inv:
  assumes "file_lock_inv s" and "FileLocker_enter valid ctx_err pick p s = Some (res, s')"
  shows "file_lock_inv s'"
  using assms
  by (auto simp: FileLocker_enter_def file_lock_inv_def file_active_def split: if_splits option.splits)

lemma release_gate_inv: "file_lock_inv s \<Longrightarrow> fl_trying s p \<Longrightarrow> file_lock_inv (release_gate p s)"
  by (auto simp: file_lock_inv_def file_active_def release_gate_def)

lemma granted_inv:
  assumes inv: "file_lock_inv s" and "fl_trying s p" and "fl_holder s \<in> {None, Some p}"
  shows "file_lock_inv (s\<lparr>fl_trying := (fl_trying s)(p := False), fl_holder := Some p,
             fl_owner := (fl_owner s)(fl_next s := p), fl_next := Suc (fl_next s)\<rparr>)" (is "file_lock_inv ?t")
proof -
  have "h \<notin> file_active s" for h
    using assms by (auto simp: file_lock_inv_def)
  then have "file_active s = {}" by blast
  then have "file_active ?t = {fl_next s}"
    using inv by (auto simp: file_active_def file_lock_inv_def less_Suc_eq)
  then show ?thesis using inv assms(2) by (auto simp: file_lock_inv_def)
qed

lemma FileLocker_unlock_inv:
  assumes inv: "file_lock_inv s" and "h < fl_next s" and "FileLocker_unlock unlock_err h s = (res, s')"
  shows "file_lock_inv s'"
proof (cases "fl_once s h")
  case None
  then have "h \<in> file_active s" using assms(2) by (simp add: file_active_def)
  then have one: "file_active s = {h}"
    using file_lock_inv_exclusive [OF inv] by blast
  have s': "s' = s\<lparr>fl_once := (fl_once s)(h := Some unlock_err),
             fl_holder := (if unlock_err = None then None else fl_holder s),
             fl_gate := (fl_gate s)(fl_owner s h := False)\<rparr>"
    using assms(3) None by (auto simp: FileLocker_unlock_def)
  have "file_active s' = file_active s - {h}"
    by (auto simp: s' file_active_def)
  then show ?thesis using inv one assms(2) by (auto simp: file_lock_inv_def s')
qed (use assms in \<open>auto simp: FileLocker_unlock_def\<close>)

interpretation file_mutex: exclusive_lock new_file_lock file_lock_step file_active file_lock_inv
proof
  show "file_lock_inv new_file_lock" by (auto simp: file_lock_inv_def new_file_lock_def file_active_def)
next
  fix s t assume inv: "file_lock_inv s" and "file_lock_step s t"
  from this(2) show "file_lock_inv t"
  proof cases
    case (file_finish p answer mkdir_err res)
    then show ?thesis
      using release_gate_inv [OF inv] granted_inv [OF inv]
      by (auto simp: FileLocker_finish_def split: option.splits sum.splits bool.splits)
  qed (use inv FileLocker_enter_inv FileLocker_unlock_inv in blast)+
next
  fix s h k assume "file_lock_inv s" "h \<in> file_active s" "k \<in> file_active s"
  then show "h = k" by (rule file_lock_inv_exclusive)
qed

section \<open>Adapters\<close>

definition FuncLocker :: "(history \<Rightarrow> go_error + unlock_func option) option \<Rightarrow> Locker" where
  "FuncLocker lock =
     PlainLocker (\<lambda>h. case lock of None \<Rightarrow> Inl (errors_New ''migration: nil lock function'') | Some f \<Rightarrow> f h)"

definition FuncLeaseLocker_LockLease :: "(history \<Rightarrow> go_error + Lease) option \<Rightarrow> history \<Rightarrow> go_error + Lease" where
  "FuncLeaseLocker_LockLease lock h =
     (case lock of None \<Rightarrow> Inl (errors_New ''migration: nil lease lock function'') | Some f \<Rightarrow> f h)"

definition FuncLeaseLocker :: "(history \<Rightarrow> go_error + Lease) option \<Rightarrow> Locker" where
  "FuncLeaseLocker lock = LeaseLocker (FuncLeaseLocker_LockLease lock)"

text \<open>\<^verbatim>\<open>FuncLeaseLocker.Lock\<close>, which the runner does not use: the unlock function without the lease.\<close>

definition FuncLeaseLocker_Lock :: "(history \<Rightarrow> go_error + Lease) option \<Rightarrow> history \<Rightarrow> go_error + unlock_func option" where
  "FuncLeaseLocker_Lock lock h =
     (case FuncLeaseLocker_LockLease lock h of Inl e \<Rightarrow> Inl e | Inr l \<Rightarrow> Inr (lease_Unlock l))"

section \<open>Properties\<close>

text \<open>
  C18.  Migrations are never run by two holders of one lock.  However the calls of \<^verbatim>\<open>Lock\<close>, their
  cancellations and failures, and the unlock functions of several processes interleave, also when
  an unlock function is called again later or fails, at most one handle of a file locker has not
  been unlocked, and its process holds the advisory lock and its own gate.
\<close>

theorem FileLocker_exclusive:
  assumes "file_lock_step\<^sup>*\<^sup>* new_file_lock s" and "h \<in> file_active s"
  shows "file_active s = {h} \<and> fl_holder s = Some (fl_owner s h) \<and> fl_gate s (fl_owner s h)"
proof -
  have "file_active s = {h}" using file_mutex.at_most_one [OF assms(1)] assms(2) by blast
  then show ?thesis
    using file_mutex.reachable_invariant [OF assms(1)] by (simp add: file_lock_inv_def)
qed

text \<open>Process 1 locks and unlocks twice over while process 2 is waiting, which then gets the lock.\<close>

definition handed_over :: file_lock where
  "handed_over =
     snd (FileLocker_finish None (Inr True) 2
      (snd (FileLocker_unlock None 0
      (snd (FileLocker_unlock None 0
      (snd (FileLocker_finish None (Inr True) 1
      (snd (the (FileLocker_enter True None True 2
      (snd (the (FileLocker_enter True None True 1 new_file_lock)))))))))))))"

lemma handed_over_reachable: "file_lock_step\<^sup>*\<^sup>* new_file_lock handed_over"
proof -
  let ?s1 = "snd (the (FileLocker_enter True None True 1 new_file_lock))"
  let ?s2 = "snd (the (FileLocker_enter True None True 2 ?s1))"
  let ?s3 = "snd (FileLocker_finish None (Inr True) 1 ?s2)"
  let ?s4 = "snd (FileLocker_unlock None 0 ?s3)"
  let ?s5 = "snd (FileLocker_unlock None 0 ?s4)"
  note defs = FileLocker_enter_def new_file_lock_def FileLocker_finish_def FileLocker_unlock_def
  have 1: "file_lock_step new_file_lock ?s1" by (rule file_enter [of True None True 1 _ None]) (simp add: defs)
  have 2: "file_lock_step ?s1 ?s2" by (rule file_enter [of True None True 2 _ None]) (simp add: defs)
  have 3: "file_lock_step ?s2 ?s3" by (rule file_finish [of _ 1 "Inr True" None "Inr 0"]) (simp_all add: defs)
  have 4: "file_lock_step ?s3 ?s4" by (rule file_unlock [of 0 _ None None]) (simp_all add: defs)
  have 5: "file_lock_step ?s4 ?s5" by (rule file_unlock [of 0 _ None None]) (simp_all add: defs)
  have 6: "file_lock_step ?s5 handed_over"
    unfolding handed_over_def by (rule file_finish [of _ 2 "Inr True" None "Inr 1"]) (simp_all add: defs)
  from 1 2 3 4 5 6 show ?thesis
    by (meson converse_rtranclp_into_rtranclp rtranclp.rtrancl_refl)
qed

theorem FileLocker_exclusive_witness:
  "file_active handed_over = {1} \<and> fl_holder handed_over = Some (fl_owner handed_over 1)"
proof -
  have "1 \<in> file_active handed_over"
    by (simp add: file_active_def handed_over_def FileLocker_enter_def new_file_lock_def FileLocker_finish_def FileLocker_unlock_def)
  from FileLocker_exclusive [OF handed_over_reachable this] show ?thesis by simp
qed

text \<open>The same of the lock of a memory store.\<close>

theorem MemoryStore_Lock_exclusive:
  "mem_lock_step\<^sup>*\<^sup>* new_mem_lock s \<Longrightarrow> h \<in> mem_active s \<Longrightarrow> k \<in> mem_active s \<Longrightarrow> h = k"
  by (rule mem_mutex.at_most_one)

end
