(* ===== verification/Redis_RESP.thy ===== *)
theory Redis_RESP
  imports Go_Prelude
begin

text \<open>
  The RESP2 codec of the ioredis compatibility transport (\<^verbatim>\<open>redis/ioredis_resp.go\<close>): encoding of
  commands, decoding of replies under the byte, value, line and nesting limits.

  The reader is the byte stream still to come, a string, and the error that reading past its end
  gives (\<^verbatim>\<open>io.EOF\<close>, a network error).  \<^verbatim>\<open>bufio.Reader\<close> hands a line out in fragments of its buffer size;
  the accumulated length only grows, so the line limit is exceeded exactly when the line with its
  newline, or what is left of the stream if it has none, is longer than the limit.
\<close>

section \<open>Limits and budget\<close>

definition ioredisRESPMaxBulkBytes :: int where
  "ioredisRESPMaxBulkBytes = 536870912"

definition ioredisRESPMaxAggregateBytes :: int where
  "ioredisRESPMaxAggregateBytes = ioredisRESPMaxBulkBytes + 1048576"

definition ioredisRESPMaxValues :: int where
  "ioredisRESPMaxValues = 1048576"

definition ioredisRESPMaxArrayElements :: int where
  "ioredisRESPMaxArrayElements = 1048576"

definition ioredisRESPMaxLineBytes :: int where
  "ioredisRESPMaxLineBytes = 65536"

definition ioredisRESPMaxDepth :: nat where
  "ioredisRESPMaxDepth = 128"

record DecodeBudget =
  bytesRemaining :: int
  valuesRemaining :: int

definition newDecodeBudget :: DecodeBudget where
  "newDecodeBudget = \<lparr>bytesRemaining = ioredisRESPMaxAggregateBytes, valuesRemaining = ioredisRESPMaxValues\<rparr>"

definition consumeBytes :: "int \<Rightarrow> DecodeBudget \<Rightarrow> go_error + DecodeBudget" where
  "consumeBytes k b =
     (if k < 0 \<or> k > bytesRemaining b
      then Inl (Errorf ''RESP reply exceeds aggregate size limit of %d bytes'' [itoa_int ioredisRESPMaxAggregateBytes])
      else Inr (b\<lparr>bytesRemaining := bytesRemaining b - k\<rparr>))"

definition consumeValue :: "DecodeBudget \<Rightarrow> go_error + DecodeBudget" where
  "consumeValue b =
     (if valuesRemaining b \<le> 0
      then Inl (Errorf ''RESP reply exceeds aggregate value limit of %d'' [itoa_int ioredisRESPMaxValues])
      else Inr (b\<lparr>valuesRemaining := valuesRemaining b - 1\<rparr>))"

section \<open>Encoding commands\<close>

definition CRLF :: string where
  "CRLF = [CHR 0x0D, CHR 0x0A]"

definition encode_argument :: "string \<Rightarrow> string" where
  "encode_argument a = CHR 0x24 # itoa (length a) @ CRLF @ a @ CRLF"

fun encodeIORedisRESPCommands :: "string list list \<Rightarrow> go_error + string" where
  "encodeIORedisRESPCommands [] = Inr []"
| "encodeIORedisRESPCommands (command # commands) =
     (if command = [] \<or> hd command = '''' then Inl (errors_New ''ioredis RESP command is empty'')
      else case encodeIORedisRESPCommands commands of
             Inl e \<Rightarrow> Inl e
           | Inr wire \<Rightarrow> Inr (CHR 0x2A # itoa (length command) @ CRLF @ concat (map encode_argument command) @ wire))"

section \<open>Decoding replies\<close>

text \<open>
  A decoded value.  A server error is the second result of \<^verbatim>\<open>readIORedisRESPValue\<close> at the top level
  and an element like any other inside an array.
\<close>

datatype resp_value = VNil | VStr string | VErr string | VInt int | VArr "resp_value list"

definition io_EOF :: go_error where
  "io_EOF = errors_New ''EOF''"

definition io_ErrUnexpectedEOF :: go_error where
  "io_ErrUnexpectedEOF = errors_New ''unexpected EOF''"

text \<open>A result that carries the unread stream and the budget.\<close>

type_synonym 'a reading = "go_error + 'a \<times> string \<times> DecodeBudget"

definition readLine :: "go_error \<Rightarrow> string \<Rightarrow> DecodeBudget \<Rightarrow> string reading" where
  "readLine eof s b =
     (let body = takeWhile (\<lambda>c. c \<noteq> CHR 0x0A) s;
          found = (length body < length s);
          line = (if found then body @ [CHR 0x0A] else body)
      in if int (length line) > ioredisRESPMaxLineBytes
         then Inl (Errorf ''RESP line exceeds limit of %d bytes'' [itoa_int ioredisRESPMaxLineBytes])
         else if \<not> found then Inl eof
         else case consumeBytes (int (length line)) b of
                Inl e \<Rightarrow> Inl e
              | Inr b' \<Rightarrow>
                  if length line < 2 \<or> drop (length line - 2) line \<noteq> CRLF
                  then Inl (errors_New ''invalid RESP line terminator'')
                  else Inr (take (length line - 2) line, drop (length line) s, b'))"

text \<open>The payload of a bulk string: \<^verbatim>\<open>io.CopyN\<close>, then \<^verbatim>\<open>io.ReadFull\<close> of the terminator.\<close>

definition readBulk :: "go_error \<Rightarrow> nat \<Rightarrow> string \<Rightarrow> DecodeBudget \<Rightarrow> resp_value reading" where
  "readBulk eof n s b =
     (if length s < n then Inl eof
      else let rest = drop n s
           in if rest = [] then Inl eof
              else if length rest < 2 then Inl (if eof = io_EOF then io_ErrUnexpectedEOF else eof)
              else if take 2 rest \<noteq> CRLF then Inl (errors_New ''invalid RESP bulk terminator'')
              else Inr (VStr (take n s), drop 2 rest, b))"

text \<open>The header of a value that is followed by a length or an integer.\<close>

definition readInteger :: "go_error \<Rightarrow> string \<Rightarrow> string \<Rightarrow> DecodeBudget \<Rightarrow> int reading" where
  "readInteger eof message s b =
     (case readLine eof s b of
        Inl e \<Rightarrow> Inl e
      | Inr (line, rest, b') \<Rightarrow>
          (case ParseInt line of
             Inl e \<Rightarrow> Inl (errors_New message)
           | Inr n \<Rightarrow> Inr (n, rest, b')))"

text \<open>The cases that do not recurse, by prefix byte; arrays return their announced length.\<close>

definition readBulkValue :: "go_error \<Rightarrow> string \<Rightarrow> DecodeBudget \<Rightarrow> resp_value reading" where
  "readBulkValue eof s b =
     (case readInteger eof ''invalid RESP bulk length'' s b of
        Inl e \<Rightarrow> Inl e
      | Inr (n, rest, b1) \<Rightarrow>
          if n < -1 then Inl (errors_New ''invalid RESP bulk length'')
          else if n = -1 then Inr (VNil, rest, b1)
          else if n > ioredisRESPMaxBulkBytes
          then Inl (Errorf ''RESP bulk length %d exceeds limit of %d'' [itoa_int n, itoa_int ioredisRESPMaxBulkBytes])
          else (case consumeBytes (n + 2) b1 of
                  Inl e \<Rightarrow> Inl e
                | Inr b2 \<Rightarrow> readBulk eof (nat n) rest b2))"

definition readArrayLength :: "go_error \<Rightarrow> string \<Rightarrow> DecodeBudget \<Rightarrow> nat option reading" where
  "readArrayLength eof s b =
     (case readInteger eof ''invalid RESP array length'' s b of
        Inl e \<Rightarrow> Inl e
      | Inr (n, rest, b1) \<Rightarrow>
          if n < -1 then Inl (errors_New ''invalid RESP array length'')
          else if n = -1 then Inr (None, rest, b1)
          else if n > ioredisRESPMaxArrayElements
          then Inl (Errorf ''RESP array length %d exceeds limit of %d'' [itoa_int n, itoa_int ioredisRESPMaxArrayElements])
          else if n > valuesRemaining b1
          then Inl (Errorf ''RESP array length %d exceeds remaining aggregate value limit'' [itoa_int n])
          else Inr (Some (nat n), rest, b1))"

function (sequential) readValue :: "go_error \<Rightarrow> string \<Rightarrow> DecodeBudget \<Rightarrow> nat \<Rightarrow> resp_value reading"
  and readValues :: "go_error \<Rightarrow> nat \<Rightarrow> string \<Rightarrow> DecodeBudget \<Rightarrow> nat \<Rightarrow> resp_value list reading" where
  "readValue eof s b depth =
     (if depth > ioredisRESPMaxDepth
      then Inl (Errorf ''RESP nesting depth exceeds limit of %d'' [itoa ioredisRESPMaxDepth])
      else case consumeValue b of
        Inl e \<Rightarrow> Inl e
      | Inr b1 \<Rightarrow>
     (case s of
        [] \<Rightarrow> Inl eof
      | c # rest \<Rightarrow>
     (case consumeBytes 1 b1 of
        Inl e \<Rightarrow> Inl e
      | Inr b2 \<Rightarrow>
          if c = CHR 0x2B then
            (case readLine eof rest b2 of Inl e \<Rightarrow> Inl e | Inr (line, r, b3) \<Rightarrow> Inr (VStr line, r, b3))
          else if c = CHR 0x2D then
            (case readLine eof rest b2 of Inl e \<Rightarrow> Inl e | Inr (line, r, b3) \<Rightarrow> Inr (VErr line, r, b3))
          else if c = CHR 0x3A then
            (case readInteger eof ''invalid RESP integer'' rest b2 of Inl e \<Rightarrow> Inl e | Inr (n, r, b3) \<Rightarrow> Inr (VInt n, r, b3))
          else if c = CHR 0x24 then readBulkValue eof rest b2
          else if c = CHR 0x2A then
            (case readArrayLength eof rest b2 of
               Inl e \<Rightarrow> Inl e
             | Inr (None, r, b3) \<Rightarrow> Inr (VNil, r, b3)
             | Inr (Some n, r, b3) \<Rightarrow>
                 (case readValues eof n r b3 (Suc depth) of
                    Inl e \<Rightarrow> Inl e
                  | Inr (vs, r', b4) \<Rightarrow> Inr (VArr vs, r', b4)))
          else Inl (errors_New ''unsupported RESP2 type prefix''))))"
| "readValues eof 0 s b depth = Inr ([], s, b)"
| "readValues eof (Suc n) s b depth =
     (case readValue eof s b depth of
        Inl e \<Rightarrow> Inl e
      | Inr (v, r, b1) \<Rightarrow>
          (case readValues eof n r b1 depth of
             Inl e \<Rightarrow> Inl e
           | Inr (vs, r', b2) \<Rightarrow> Inr (v # vs, r', b2)))"
  by pat_completeness auto

text \<open>Recursion ends: every array goes one level deeper, and the depth is bounded.\<close>

termination
  by (relation "inv_image (less_than <*lex*> less_than)
        (\<lambda>x. case x of Inl (eof, s, b, d) \<Rightarrow> (Suc ioredisRESPMaxDepth - d, 0)
                     | Inr (eof, n, s, b, d) \<Rightarrow> (Suc ioredisRESPMaxDepth - d, n))") auto

declare readValue.simps [simp del] readValues.simps [simp del]

text \<open>\<^verbatim>\<open>readIORedisRESPValue\<close>: the kind of failure decides whether the connection is at fault.\<close>

datatype resp_failure = IOFailure go_error | ProtocolFailure go_error

definition readIORedisRESPValue :: "(go_error \<Rightarrow> bool) \<Rightarrow> go_error \<Rightarrow> string \<Rightarrow> resp_failure + resp_value \<times> string" where
  "readIORedisRESPValue io_error eof s =
     (case readValue eof s newDecodeBudget 0 of
        Inl e \<Rightarrow> Inl (if io_error e then IOFailure e else ProtocolFailure e)
      | Inr (v, rest, b) \<Rightarrow> Inr (v, rest))"

end
