(* ===== verification/Redis_RESP_Framing.thy ===== *)
theory Redis_RESP_Framing
  imports Redis_RESP "HOL-Library.Sublist"
begin

text \<open>
  Framing of RESP replies: every reader of the decoder, when it succeeds, has consumed a prefix of
  the stream that decides its result, charges that prefix to the budget byte for byte, and on any
  proper part of that prefix fails with the error of the stream's end and nothing else.
\<close>

section \<open>Framed readers\<close>

type_synonym 'a reader = "go_error \<Rightarrow> string \<Rightarrow> DecodeBudget \<Rightarrow> 'a reading"

text \<open>The errors that mean the stream ended.\<close>

definition stream_end :: "go_error \<Rightarrow> go_error \<Rightarrow> bool" where
  "stream_end eof e \<longleftrightarrow> e = eof \<or> (eof = io_EOF \<and> e = io_ErrUnexpectedEOF)"

definition frames :: "'a reader \<Rightarrow> 'a \<Rightarrow> string \<Rightarrow> nat \<Rightarrow> DecodeBudget \<Rightarrow> DecodeBudget \<Rightarrow> bool" where
  "frames f v c k b b' \<longleftrightarrow> (\<forall>eof r. f eof (c @ r) b = Inr (v, r, b'))
     \<and> (\<forall>eof p. strict_prefix p c \<longrightarrow> (\<exists>e. f eof p b = Inl e \<and> stream_end eof e))
     \<and> bytesRemaining b' = bytesRemaining b - int (length c)
     \<and> valuesRemaining b' = valuesRemaining b - int k"

definition bindr :: "'a reader \<Rightarrow> ('a \<Rightarrow> 'b reader) \<Rightarrow> 'b reader" where
  "bindr f g = (\<lambda>eof s b. case f eof s b of Inl e \<Rightarrow> Inl e | Inr (v, r, b1) \<Rightarrow> g v eof r b1)"

lemma frames_bindr:
  assumes f: "frames f v c1 k1 b b1" and g: "frames (g v) w c2 k2 b1 b2"
  shows "frames (bindr f g) w (c1 @ c2) (k1 + k2) b b2"
proof -
  have "\<exists>e. bindr f g eof p b = Inl e \<and> stream_end eof e" if p: "strict_prefix p (c1 @ c2)" for eof p
  proof (cases "strict_prefix p c1")
    case True
    then obtain e where "f eof p b = Inl e" "stream_end eof e" using f unfolding frames_def by blast
    then show ?thesis by (simp add: bindr_def)
  next
    case False
    then obtain q where q: "p = c1 @ q" "strict_prefix q c2"
      using p by (metis prefix_append prefix_order.le_less prefix_order.less_le same_prefix_prefix append_Nil2)
    have "f eof (c1 @ q) b = Inr (v, q, b1)" using f by (simp add: frames_def)
    moreover obtain e where "g v eof q b1 = Inl e" "stream_end eof e" using g q unfolding frames_def by blast
    ultimately show ?thesis using q by (simp add: bindr_def)
  qed
  then show ?thesis using f g by (simp add: frames_def bindr_def)
qed

lemma frames_return: "frames (\<lambda>eof s b. Inr (v, s, b)) v [] 0 b b"
  by (simp add: frames_def)

lemma frames_map: "frames f v c k b b' \<Longrightarrow> frames (bindr f (\<lambda>x eof s b. Inr (h x, s, b))) (h v) c k b b'"
  using frames_bindr [of f v c k b b' "\<lambda>x eof s b. Inr (h x, s, b)" "h v" "[]" 0 b'] frames_return [of "h v" b']
  by simp

text \<open>
  The interface of a reader: whatever it accepts, it frames, with a number of values that depends
  on the result alone.
\<close>

locale framed_reader =
  fixes f :: "'a reader" and weight :: "'a \<Rightarrow> nat"
  assumes framed: "f eof s b = Inr (v, r, b') \<Longrightarrow> \<exists>c. s = c @ r \<and> frames f v c (weight v) b b'"
begin

lemma consumes:
  assumes "f eof s b = Inr (v, r, b')"
  shows "int (length s) - int (length r) = bytesRemaining b - bytesRemaining b'"
    and "valuesRemaining b' = valuesRemaining b - int (weight v)"
  using framed [OF assms] by (auto simp: frames_def)

lemma deterministic:
  assumes "f eof s b = Inr (v, r, b')"
  shows "\<exists>c. s = c @ r \<and> (\<forall>eof' r'. f eof' (c @ r') b = Inr (v, r', b'))"
  using framed [OF assms] by (auto simp: frames_def)

lemma truncated:
  assumes "f eof (c @ r) b = Inr (v, r, b')" and "strict_prefix p c"
  shows "\<exists>e. f eof' p b = Inl e \<and> stream_end eof' e"
  using framed [OF assms(1)] assms(2) by (auto simp: frames_def)

end

section \<open>Lines and integers\<close>

lemma takeWhile_found:
  assumes "length (takeWhile P s) < length s"
  shows "\<exists>c r. s = takeWhile P s @ c # r \<and> \<not> P c"
proof -
  have "dropWhile P s \<noteq> []" using assms by (metis append_Nil2 nat_less_le takeWhile_dropWhile_id)
  then obtain c r where d: "dropWhile P s = c # r" by (cases "dropWhile P s") auto
  moreover have "\<not> P c" using d by (metis dropWhile_eq_Cons_conv)
  ultimately show ?thesis by (metis takeWhile_dropWhile_id)
qed

lemma consumeBytes_Inr:
  "consumeBytes k b = Inr b' \<longleftrightarrow> 0 \<le> k \<and> k \<le> bytesRemaining b \<and> b' = b\<lparr>bytesRemaining := bytesRemaining b - k\<rparr>"
  by (auto simp: consumeBytes_def)

lemma consumeValue_Inr:
  "consumeValue b = Inr b' \<longleftrightarrow> 0 < valuesRemaining b \<and> b' = b\<lparr>valuesRemaining := valuesRemaining b - 1\<rparr>"
  by (auto simp: consumeValue_def)

lemma readLine_line:
  assumes "CHR 0x0A \<notin> set body"
  shows "readLine eof (body @ CHR 0x0A # r) b =
    (if int (length body) + 1 > ioredisRESPMaxLineBytes
     then Inl (Errorf ''RESP line exceeds limit of %d bytes'' [itoa_int ioredisRESPMaxLineBytes])
     else case consumeBytes (int (length body) + 1) b of
            Inl e \<Rightarrow> Inl e
          | Inr b' \<Rightarrow>
              if body = [] \<or> last body \<noteq> CHR 0x0D then Inl (errors_New ''invalid RESP line terminator'')
              else Inr (butlast body, r, b'))"
proof -
  have tw: "takeWhile (\<lambda>c. c \<noteq> CHR 0x0A) (body @ CHR 0x0A # r) = body"
    using assms by (auto simp: takeWhile_append)
  show ?thesis
  proof (cases body rule: rev_cases)
    case Nil
    then show ?thesis unfolding readLine_def Let_def tw by (simp split: sum.splits)
  next
    case (snoc ini x)
    have "drop (length (body @ [CHR 0x0A]) - 2) (body @ [CHR 0x0A]) = [x, CHR 0x0A]"
      "take (length (body @ [CHR 0x0A]) - 2) (body @ [CHR 0x0A]) = butlast body"
      by (simp_all add: snoc)
    then show ?thesis unfolding readLine_def Let_def tw
      by (simp add: snoc CRLF_def add.commute split: sum.splits)
  qed
qed

lemma readLine_unterminated:
  assumes "CHR 0x0A \<notin> set s" and "int (length s) \<le> ioredisRESPMaxLineBytes"
  shows "readLine eof s b = Inl eof"
proof -
  have "takeWhile (\<lambda>c. c \<noteq> CHR 0x0A) s = s" using assms(1) by (auto simp: takeWhile_eq_all_conv)
  then show ?thesis unfolding readLine_def Let_def using assms(2) by (simp only:) simp
qed

lemma frames_readLine:
  assumes "CHR 0x0A \<notin> set line" and "int (length line) + 2 \<le> ioredisRESPMaxLineBytes"
    and "int (length line) + 2 \<le> bytesRemaining b"
  shows "frames readLine line (line @ CRLF) 0 b (b\<lparr>bytesRemaining := bytesRemaining b - (int (length line) + 2)\<rparr>)"
proof -
  have body: "CHR 0x0A \<notin> set (line @ [CHR 0x0D])" using assms(1) by simp
  have "readLine eof p b = Inl eof" if "strict_prefix p (line @ CRLF)" for eof p
  proof (rule readLine_unterminated)
    have "prefix p (line @ [CHR 0x0D])"
      using that by (metis CRLF_def append.assoc append_Cons append_Nil prefix_snoc strict_prefix_def)
    then show "CHR 0x0A \<notin> set p" "int (length p) \<le> ioredisRESPMaxLineBytes"
      using body assms(2) by (auto dest: set_mono_prefix prefix_length_le)
  qed
  moreover have "readLine eof ((line @ CRLF) @ r) b =
      Inr (line, r, b\<lparr>bytesRemaining := bytesRemaining b - (int (length line) + 2)\<rparr>)" for eof r
    using readLine_line [OF body, of eof r b] assms(2,3) by (simp add: CRLF_def consumeBytes_def algebra_simps)
  ultimately show ?thesis by (auto simp: frames_def stream_end_def CRLF_def)
qed

lemma readLine_framed:
  assumes "readLine eof s b = Inr (line, r, b')"
  shows "s = line @ CRLF @ r \<and> frames readLine line (line @ CRLF) 0 b b' \<and> CHR 0x0A \<notin> set line"
proof -
  let ?body = "takeWhile (\<lambda>c. c \<noteq> CHR 0x0A) s"
  have "length ?body < length s"
    using assms by (auto simp: readLine_def Let_def split: if_splits)
  then obtain rest where s: "s = ?body @ CHR 0x0A # rest" using takeWhile_found by blast
  have nl: "CHR 0x0A \<notin> set ?body" by (auto dest: set_takeWhileD)
  note rl = assms [unfolded readLine_line [OF nl, of eof rest b, folded s]]
  then have lim: "int (length ?body) + 1 \<le> ioredisRESPMaxLineBytes"
    and cr: "?body \<noteq> []" "last ?body = CHR 0x0D" and line: "line = butlast ?body" and r: "r = rest"
    and cb: "consumeBytes (int (length ?body) + 1) b = Inr b'"
    by (auto split: if_splits sum.splits)
  have body: "?body = line @ [CHR 0x0D]" using cr line by (metis append_butlast_last_id)
  then have "CHR 0x0A \<notin> set line" using nl by (metis in_set_conv_decomp append.assoc append_Cons)
  moreover have "frames readLine line (line @ CRLF) 0 b b'"
    using frames_readLine [OF calculation, of b] lim cb body by (simp add: consumeBytes_Inr add.commute)
  moreover have "s = line @ CRLF @ r" using s body r by (simp add: CRLF_def)
  ultimately show ?thesis by blast
qed

interpretation line_reader: framed_reader readLine "\<lambda>v. 0"
  by unfold_locales (use readLine_framed in fastforce)

text \<open>A reader that checks its result without reading further.\<close>

definition checked :: "('a \<Rightarrow> DecodeBudget \<Rightarrow> go_error + 'b) \<Rightarrow> 'a \<Rightarrow> 'b reader" where
  "checked h v = (\<lambda>eof s b. case h v b of Inl e \<Rightarrow> Inl e | Inr w \<Rightarrow> Inr (w, s, b))"

lemma frames_checked: "h v b = Inr w \<Longrightarrow> frames (checked h v) w [] 0 b b"
  by (simp add: frames_def checked_def)

lemma bindr_Inr:
  "bindr f g eof s b = Inr (w, r, b2) \<longleftrightarrow> (\<exists>v r1 b1. f eof s b = Inr (v, r1, b1) \<and> g v eof r1 b1 = Inr (w, r, b2))"
  by (auto simp: bindr_def split: sum.splits)

lemma bindr_framed:
  assumes f: "\<And>v r b'. f eof s b = Inr (v, r, b') \<Longrightarrow> \<exists>c. s = c @ r \<and> frames f v c (k v) b b'"
    and g: "\<And>v s1 b1. f eof s b = Inr (v, s1, b1) \<Longrightarrow> g v eof s1 b1 = Inr (w, r, b2)
        \<Longrightarrow> \<exists>c. s1 = c @ r \<and> frames (g v) w c n b1 b2 \<and> k v + n = m"
    and "bindr f g eof s b = Inr (w, r, b2)"
  shows "\<exists>c. s = c @ r \<and> frames (bindr f g) w c m b b2"
proof -
  from assms(3) obtain v r1 b1 where fv: "f eof s b = Inr (v, r1, b1)" and gv: "g v eof r1 b1 = Inr (w, r, b2)"
    by (auto simp: bindr_Inr)
  obtain c1 where c1: "s = c1 @ r1" "frames f v c1 (k v) b b1" using f [OF fv] by blast
  obtain c2 where c2: "r1 = c2 @ r" "frames (g v) w c2 n b1 b2" "k v + n = m" using g [OF fv gv] by blast
  have "frames (bindr f g) w (c1 @ c2) m b b2" using frames_bindr [where g = g, OF c1(2) c2(2)] c2(3) by simp
  then show ?thesis using c1 c2 by auto
qed

lemma checked_framed:
  "checked h v eof s b = Inr (w, r, b') \<Longrightarrow> \<exists>c. s = c @ r \<and> frames (checked h v) w c 0 b b'"
  using frames_checked [of h v b w] by (auto simp: checked_def split: sum.splits)

lemma readInteger_bindr:
  "(\<lambda>eof. readInteger eof m) = bindr readLine (checked (\<lambda>line b. case ParseInt line of
     Inl e \<Rightarrow> Inl (errors_New m) | Inr n \<Rightarrow> Inr n))"
  by (auto simp: fun_eq_iff readInteger_def bindr_def checked_def split: sum.splits)

interpretation integer_reader: framed_reader "\<lambda>eof. readInteger eof m" "\<lambda>v. 0" for m
proof
  fix eof s b v r b'
  assume "readInteger eof m s b = Inr (v, r, b')"
  then have "bindr readLine (checked (\<lambda>line b. case ParseInt line of
      Inl e \<Rightarrow> Inl (errors_New m) | Inr n \<Rightarrow> Inr n)) eof s b = Inr (v, r, b')"
    by (simp flip: readInteger_bindr)
  then show "\<exists>c. s = c @ r \<and> frames (\<lambda>eof. readInteger eof m) v c 0 b b'"
    unfolding readInteger_bindr
    by (intro bindr_framed [where k = "\<lambda>v. 0" and n = 0]) (use line_reader.framed checked_framed in auto)
qed

section \<open>Bulk strings\<close>

definition bulkBody :: "int \<Rightarrow> resp_value reader" where
  "bulkBody n eof rest b =
     (if n < -1 then Inl (errors_New ''invalid RESP bulk length'')
      else if n = -1 then Inr (VNil, rest, b)
      else if n > ioredisRESPMaxBulkBytes
      then Inl (Errorf ''RESP bulk length %d exceeds limit of %d'' [itoa_int n, itoa_int ioredisRESPMaxBulkBytes])
      else (case consumeBytes (n + 2) b of
              Inl e \<Rightarrow> Inl e
            | Inr b2 \<Rightarrow> readBulk eof (nat n) rest b2))"

lemma readBulkValue_bindr: "readBulkValue = bindr (\<lambda>eof. readInteger eof ''invalid RESP bulk length'') bulkBody"
  by (auto simp: fun_eq_iff readBulkValue_def bindr_def bulkBody_def split: sum.splits)

lemma frames_bulkBody:
  assumes "int (length a) \<le> ioredisRESPMaxBulkBytes" and "int (length a) + 2 \<le> bytesRemaining b"
  shows "frames (bulkBody (int (length a))) (VStr a) (a @ CRLF) 0 b
    (b\<lparr>bytesRemaining := bytesRemaining b - (int (length a) + 2)\<rparr>)"
proof -
  let ?b = "b\<lparr>bytesRemaining := bytesRemaining b - (int (length a) + 2)\<rparr>"
  have body: "bulkBody (int (length a)) eof s b = readBulk eof (length a) s ?b" for eof s
    using assms by (simp add: bulkBody_def consumeBytes_def)
  have "\<exists>e. readBulk eof (length a) p ?b = Inl e \<and> stream_end eof e" if sp: "strict_prefix p (a @ CRLF)" for eof p
  proof (cases "length p < length a")
    case True
    then show ?thesis by (simp add: readBulk_def stream_end_def)
  next
    case False
    have "length p < length a + 2"
      using sp prefix_length_less by (fastforce simp: CRLF_def)
    then have "length (drop (length a) p) < 2" by simp
    then show ?thesis using False by (simp add: readBulk_def stream_end_def Let_def)
  qed
  moreover have "readBulk eof (length a) ((a @ CRLF) @ r) ?b = Inr (VStr a, r, ?b)" for eof r
    by (simp add: readBulk_def CRLF_def)
  ultimately show ?thesis by (simp add: frames_def body CRLF_def)
qed

lemma bulkBody_framed:
  assumes "bulkBody n eof s b = Inr (v, r, b')"
  shows "\<exists>c. s = c @ r \<and> frames (bulkBody n) v c 0 b b' \<and> (v = VNil \<or> (\<exists>a. v = VStr a))"
proof (cases "n = -1")
  case True
  then show ?thesis using assms frames_return [of VNil b] by (auto simp: bulkBody_def frames_def)
next
  case False
  with assms have n: "0 \<le> n" "n \<le> ioredisRESPMaxBulkBytes" "n + 2 \<le> bytesRemaining b"
    and rb: "readBulk eof (nat n) s (b\<lparr>bytesRemaining := bytesRemaining b - (n + 2)\<rparr>) = Inr (v, r, b')"
    by (auto simp: bulkBody_def consumeBytes_Inr split: if_splits sum.splits)
  let ?a = "take (nat n) s"
  from rb have len: "nat n \<le> length s" and cr: "take 2 (drop (nat n) s) = CRLF"
    and v: "v = VStr ?a" and r: "r = drop 2 (drop (nat n) s)" and b': "b' = b\<lparr>bytesRemaining := bytesRemaining b - (n + 2)\<rparr>"
    by (auto simp: readBulk_def Let_def split: if_splits)
  have la: "int (length ?a) = n" using len n by simp
  have s: "s = (?a @ CRLF) @ r" using cr r by (metis append_take_drop_id append.assoc)
  have "frames (bulkBody n) v (?a @ CRLF) 0 b b'"
    using frames_bulkBody [of ?a b, unfolded la] n b' v by simp
  with s v show ?thesis by blast
qed

section \<open>Array lengths\<close>

lemma readArrayLength_bindr:
  "readArrayLength = bindr (\<lambda>eof. readInteger eof ''invalid RESP array length'') (checked (\<lambda>n b.
     if n < -1 then Inl (errors_New ''invalid RESP array length'')
     else if n = -1 then Inr None
     else if n > ioredisRESPMaxArrayElements
     then Inl (Errorf ''RESP array length %d exceeds limit of %d'' [itoa_int n, itoa_int ioredisRESPMaxArrayElements])
     else if n > valuesRemaining b
     then Inl (Errorf ''RESP array length %d exceeds remaining aggregate value limit'' [itoa_int n])
     else Inr (Some (nat n))))"
  by (auto simp: fun_eq_iff readArrayLength_def bindr_def checked_def split: sum.splits)

interpretation array_header: framed_reader readArrayLength "\<lambda>v. 0"
  by unfold_locales
    (unfold readArrayLength_bindr, rule bindr_framed [where k = "\<lambda>v. 0" and n = 0],
      auto intro: integer_reader.framed checked_framed)

interpretation bulk_reader: framed_reader readBulkValue "\<lambda>v. 0"
  by unfold_locales
    (unfold readBulkValue_bindr, rule bindr_framed [where k = "\<lambda>v. 0" and n = 0],
      auto intro: integer_reader.framed dest: bulkBody_framed)

section \<open>Values\<close>

text \<open>The number of values a reply counts as, and how deep it nests.\<close>

fun nvalues :: "resp_value \<Rightarrow> nat" where
  "nvalues (VArr vs) = Suc (sum_list (map nvalues vs))"
| "nvalues v = 1"

fun vdepth :: "resp_value \<Rightarrow> nat" where
  "vdepth (VArr vs) = foldr max (map (\<lambda>v. Suc (vdepth v)) vs) 0"
| "vdepth v = 0"

lemma foldr_max_le: "foldr max (map f vs) 0 \<le> (k::nat) \<longleftrightarrow> (\<forall>v \<in> set vs. f v \<le> k)"
  by (induction vs) auto

abbreviation value_reader :: "nat \<Rightarrow> resp_value reader" where
  "value_reader d \<equiv> \<lambda>eof s b. readValue eof s b d"

abbreviation values_reader :: "nat \<Rightarrow> nat \<Rightarrow> resp_value list reader" where
  "values_reader n d \<equiv> \<lambda>eof s b. readValues eof n s b d"

text \<open>The readers behind the prefix bytes.\<close>

definition arrayBody :: "nat \<Rightarrow> nat option \<Rightarrow> resp_value reader" where
  "arrayBody d n = (case n of
     None \<Rightarrow> (\<lambda>eof s b. Inr (VNil, s, b))
   | Some k \<Rightarrow> bindr (values_reader k (Suc d)) (\<lambda>vs eof s b. Inr (VArr vs, s, b)))"

definition tagged :: "nat \<Rightarrow> char \<Rightarrow> resp_value reader" where
  "tagged d c =
     (if c = CHR 0x2B then bindr readLine (\<lambda>l eof s b. Inr (VStr l, s, b))
      else if c = CHR 0x2D then bindr readLine (\<lambda>l eof s b. Inr (VErr l, s, b))
      else if c = CHR 0x3A then bindr (\<lambda>eof. readInteger eof ''invalid RESP integer'') (\<lambda>n eof s b. Inr (VInt n, s, b))
      else if c = CHR 0x24 then readBulkValue
      else if c = CHR 0x2A then bindr readArrayLength (arrayBody d)
      else (\<lambda>eof s b. Inl (errors_New ''unsupported RESP2 type prefix'')))"

lemma readValue_tagged:
  assumes "d \<le> ioredisRESPMaxDepth" and "consumeValue b = Inr b1" and "consumeBytes 1 b1 = Inr b2"
  shows "readValue eof (c # s) b d = tagged d c eof s b2" and "readValue eof [] b d = Inl eof"
  using assms
  by (auto simp: readValue.simps tagged_def bindr_def arrayBody_def split: sum.splits option.splits)

lemma readValue_Inr:
  assumes "readValue eof s b d = Inr (v, r, b')"
  obtains c s' b1 b2 where "s = c # s'" "d \<le> ioredisRESPMaxDepth" "consumeValue b = Inr b1"
    "consumeBytes 1 b1 = Inr b2" "tagged d c eof s' b2 = Inr (v, r, b')"
proof -
  have d: "d \<le> ioredisRESPMaxDepth" using assms by (auto simp: readValue.simps split: if_splits)
  obtain b1 where b1: "consumeValue b = Inr b1"
    using assms by (auto simp: readValue.simps split: if_splits sum.splits)
  obtain c s' where s: "s = c # s'"
    using assms b1 d by (cases s) (auto simp: readValue.simps)
  obtain b2 where b2: "consumeBytes 1 b1 = Inr b2"
    using assms b1 d s by (cases "consumeBytes 1 b1") (auto simp: readValue.simps)
  show thesis using that [OF s d b1 b2] readValue_tagged(1) [OF d b1 b2] assms s by simp
qed

lemma frames_readValue:
  assumes "d \<le> ioredisRESPMaxDepth" and "consumeValue b = Inr b1" and "consumeBytes 1 b1 = Inr b2"
    and "frames (tagged d c) v w k b2 b'"
  shows "frames (value_reader d) v (c # w) (Suc k) b b'"
proof -
  note rv = readValue_tagged [OF assms(1-3)]
  have "\<exists>e. readValue eof p b d = Inl e \<and> stream_end eof e" if p: "strict_prefix p (c # w)" for eof p
  proof (cases p)
    case Nil
    then show ?thesis by (simp add: rv stream_end_def)
  next
    case (Cons x q)
    then have "x = c" "strict_prefix q w" using p by (auto simp: strict_prefix_def)
    moreover from this obtain e where "tagged d c eof q b2 = Inl e" "stream_end eof e"
      using assms(4) unfolding frames_def by blast
    ultimately show ?thesis using Cons by (simp add: rv)
  qed
  then show ?thesis
    using assms(2-4) by (auto simp: frames_def rv consumeValue_Inr consumeBytes_Inr)
qed

lemma readValues_bindr:
  "values_reader (Suc n) d = bindr (value_reader d) (\<lambda>v. bindr (values_reader n d) (\<lambda>vs eof s b. Inr (v # vs, s, b)))"
  by (auto simp: fun_eq_iff readValues.simps bindr_def split: sum.splits)

lemma scalar_framed:
  assumes "framed_reader f (\<lambda>v. 0)" and tg: "tagged d c = bindr f (\<lambda>x eof s b. Inr (h x, s, b))"
    and run: "tagged d c eof s b = Inr (v, r, b')" and h: "\<And>x. nvalues (h x) = Suc 0" "\<And>x. vdepth (h x) = 0"
  shows "\<exists>w k. s = w @ r \<and> frames (tagged d c) v w k b b' \<and> nvalues v = Suc k \<and> vdepth v = 0"
proof -
  from run [unfolded tg] obtain x where x: "f eof s b = Inr (x, r, b')" and v: "v = h x" by (auto simp: bindr_Inr)
  from framed_reader.framed [OF assms(1) x] obtain w where w: "s = w @ r" "frames f x w 0 b b'" by blast
  from frames_map [OF w(2), of h] w(1) v h show ?thesis unfolding tg by auto
qed

lemma array_framed:
  assumes arr: "\<And>n s b vs r b'. readValues eof n s b (Suc d) = Inr (vs, r, b') \<Longrightarrow>
      \<exists>w. s = w @ r \<and> frames (values_reader n (Suc d)) vs w (sum_list (map nvalues vs)) b b'
        \<and> (\<forall>v \<in> set vs. vdepth v + Suc d \<le> ioredisRESPMaxDepth)"
    and body: "arrayBody d n eof s b = Inr (v, r, b')" and d: "d \<le> ioredisRESPMaxDepth"
  shows "\<exists>w k. s = w @ r \<and> frames (arrayBody d n) v w k b b' \<and> nvalues v = Suc k \<and> vdepth v + d \<le> ioredisRESPMaxDepth"
proof (cases n)
  case None
  then show ?thesis using body d frames_return [of VNil b] by (auto simp: arrayBody_def)
next
  case (Some m)
  then obtain vs where vs: "readValues eof m s b (Suc d) = Inr (vs, r, b')" "v = VArr vs"
    using body by (auto simp: arrayBody_def bindr_Inr)
  obtain w where w: "s = w @ r" "frames (values_reader m (Suc d)) vs w (sum_list (map nvalues vs)) b b'"
    and dep: "\<forall>v \<in> set vs. vdepth v + Suc d \<le> ioredisRESPMaxDepth" using arr [OF vs(1)] by blast
  have "vdepth v \<le> ioredisRESPMaxDepth - d"
    using dep vs(2) by (auto simp: foldr_max_le)
  then have "vdepth v + d \<le> ioredisRESPMaxDepth" using d by simp
  moreover have "frames (arrayBody d n) v w (sum_list (map nvalues vs)) b b'"
    using frames_map [OF w(2), of VArr] Some vs(2) by (simp add: arrayBody_def)
  ultimately show ?thesis using w(1) vs(2) by auto
qed

lemma tagged_framed:
  assumes arr: "\<And>n s b vs r b'. readValues eof n s b (Suc d) = Inr (vs, r, b') \<Longrightarrow>
      \<exists>w. s = w @ r \<and> frames (values_reader n (Suc d)) vs w (sum_list (map nvalues vs)) b b'
        \<and> (\<forall>v \<in> set vs. vdepth v + Suc d \<le> ioredisRESPMaxDepth)"
    and run: "tagged d c eof s b = Inr (v, r, b')" and d: "d \<le> ioredisRESPMaxDepth"
  shows "\<exists>w k. s = w @ r \<and> frames (tagged d c) v w k b b' \<and> nvalues v = Suc k \<and> vdepth v + d \<le> ioredisRESPMaxDepth"
proof -
  consider "c = CHR 0x2B" | "c = CHR 0x2D" | "c = CHR 0x3A" | "c = CHR 0x24" | "c = CHR 0x2A"
    using run by (auto simp: tagged_def split: if_splits)
  then show ?thesis
  proof cases
    case 1
    with scalar_framed [OF line_reader.framed_reader_axioms _ run, of VStr] d show ?thesis
      by (auto simp: tagged_def)
  next
    case 2
    with scalar_framed [OF line_reader.framed_reader_axioms _ run, of VErr] d show ?thesis
      by (auto simp: tagged_def)
  next
    case 3
    with scalar_framed [OF integer_reader.framed_reader_axioms _ run, of "''invalid RESP integer''" VInt] d
    show ?thesis by (auto simp: tagged_def)
  next
    case 4
    then have tg: "tagged d c = readBulkValue" by (simp add: tagged_def)
    note rb = run [unfolded tg]
    then have "v = VNil \<or> (\<exists>a. v = VStr a)"
      unfolding readBulkValue_bindr bindr_Inr by (blast dest: bulkBody_framed)
    then have "nvalues v = Suc 0" "vdepth v = 0" by auto
    then show ?thesis using bulk_reader.framed [OF rb] d unfolding tg by auto
  next
    case 5
    then have tg: "tagged d c = bindr readArrayLength (arrayBody d)" by (simp add: tagged_def)
    from run [unfolded tg] obtain n r1 b1 where len: "readArrayLength eof s b = Inr (n, r1, b1)"
      and body: "arrayBody d n eof r1 b1 = Inr (v, r, b')" by (auto simp: bindr_Inr)
    obtain w1 where w1: "s = w1 @ r1" "frames readArrayLength n w1 0 b b1"
      using array_header.framed [OF len] by blast
    obtain w2 k where w2: "r1 = w2 @ r" "frames (arrayBody d n) v w2 k b1 b'" "nvalues v = Suc k"
      "vdepth v + d \<le> ioredisRESPMaxDepth" using array_framed [OF arr body d] by blast
    from frames_bindr [where g = "arrayBody d", OF w1(2) w2(2)] w1(1) w2 show ?thesis
      unfolding tg by auto
  qed
qed

lemma readValues_framed:
  assumes V: "\<And>s b v r b'. readValue eof s b d = Inr (v, r, b') \<Longrightarrow>
      \<exists>c. s = c @ r \<and> frames (value_reader d) v c (nvalues v) b b' \<and> vdepth v + d \<le> ioredisRESPMaxDepth"
    and "readValues eof n s b d = Inr (vs, r, b')"
  shows "\<exists>c. s = c @ r \<and> frames (values_reader n d) vs c (sum_list (map nvalues vs)) b b'
       \<and> (\<forall>v \<in> set vs. vdepth v + d \<le> ioredisRESPMaxDepth)"
  using assms(2)
proof (induction n arbitrary: s b vs)
  case 0
  then show ?case using frames_return [of "[]" b] by (auto simp: readValues.simps)
next
  case (Suc n)
  then obtain v vs' r1 b1 where v: "readValue eof s b d = Inr (v, r1, b1)"
    and vs': "readValues eof n r1 b1 d = Inr (vs', r, b')" and vs: "vs = v # vs'"
    by (auto simp: readValues.simps split: sum.splits)
  obtain c1 where c1: "s = c1 @ r1" "frames (value_reader d) v c1 (nvalues v) b b1"
    "vdepth v + d \<le> ioredisRESPMaxDepth" using V [OF v] by blast
  obtain c2 where c2: "r1 = c2 @ r" "frames (values_reader n d) vs' c2 (sum_list (map nvalues vs')) b1 b'"
    "\<forall>v \<in> set vs'. vdepth v + d \<le> ioredisRESPMaxDepth" using Suc.IH [OF vs'] by blast
  have "frames (values_reader (Suc n) d) vs (c1 @ c2) (nvalues v + sum_list (map nvalues vs')) b b'"
    unfolding readValues_bindr vs
    by (rule frames_bindr [OF c1(2)]) (rule frames_map [OF c2(2)])
  then show ?case using c1 c2 vs by auto
qed

lemma readValue_framed:
  "readValue eof s b d = Inr (v, r, b') \<Longrightarrow>
     \<exists>c. s = c @ r \<and> frames (value_reader d) v c (nvalues v) b b' \<and> vdepth v + d \<le> ioredisRESPMaxDepth"
proof (induction "Suc ioredisRESPMaxDepth - d" arbitrary: d s b v r b')
  case 0
  then show ?case by (auto simp: readValue.simps)
next
  case (Suc m)
  have arr: "\<exists>w. s = w @ r \<and> frames (values_reader n (Suc d)) vs w (sum_list (map nvalues vs)) b b'
        \<and> (\<forall>v \<in> set vs. vdepth v + Suc d \<le> ioredisRESPMaxDepth)"
    if "readValues eof n s b (Suc d) = Inr (vs, r, b')" for n s b vs r b'
    by (rule readValues_framed [OF Suc.hyps(1) that]) (use Suc.hyps(2) in simp_all)
  from Suc.prems show ?case
  proof (rule readValue_Inr)
    fix c s' b1 b2
    assume s: "s = c # s'" and d: "d \<le> ioredisRESPMaxDepth" and b: "consumeValue b = Inr b1" "consumeBytes 1 b1 = Inr b2"
      and run: "tagged d c eof s' b2 = Inr (v, r, b')"
    obtain w k where w: "s' = w @ r" "frames (tagged d c) v w k b2 b'" "nvalues v = Suc k"
      "vdepth v + d \<le> ioredisRESPMaxDepth" using tagged_framed [OF arr run d] by blast
    then show ?thesis using frames_readValue [OF d b w(2)] s by (intro exI [of _ "c # w"]) simp
  qed
qed

interpretation value_reader: framed_reader "value_reader d" nvalues for d
  by unfold_locales (blast dest: readValue_framed)

end
