(* ===== verification/Redis_RESP_Properties.thy ===== *)
theory Redis_RESP_Properties
  imports Redis_RESP_Framing
begin

text \<open>
  The properties of the RESP codec: replies and commands survive encoding and decoding, decoding
  stays inside its limits and consumes exactly one reply, and a reply cut short is always reported
  as the end of the stream.
\<close>

section \<open>Encoded replies\<close>

text \<open>The RESP2 encoding of a reply, as a server sends it.\<close>

fun encode_value :: "resp_value \<Rightarrow> string" where
  "encode_value VNil = CHR 0x24 # ''-1'' @ CRLF"
| "encode_value (VStr a) = encode_argument a"
| "encode_value (VErr l) = CHR 0x2D # l @ CRLF"
| "encode_value (VInt i) = CHR 0x3A # itoa_int i @ CRLF"
| "encode_value (VArr vs) = CHR 0x2A # itoa (length vs) @ CRLF @ concat (map encode_value vs)"

fun value_ok :: "resp_value \<Rightarrow> bool" where
  "value_ok VNil \<longleftrightarrow> True"
| "value_ok (VStr a) \<longleftrightarrow> int (length a) \<le> ioredisRESPMaxBulkBytes"
| "value_ok (VErr l) \<longleftrightarrow> CHR 0x0A \<notin> set l \<and> int (length l) + 2 \<le> ioredisRESPMaxLineBytes"
| "value_ok (VInt i) \<longleftrightarrow> - (2 ^ 63) \<le> i \<and> i < 2 ^ 63"
| "value_ok (VArr vs) \<longleftrightarrow> list_all value_ok vs"

definition charge :: "nat \<Rightarrow> nat \<Rightarrow> DecodeBudget \<Rightarrow> DecodeBudget" where
  "charge n k b = b\<lparr>bytesRemaining := bytesRemaining b - int n, valuesRemaining := valuesRemaining b - int k\<rparr>"

lemma charge_simps [simp]:
  "bytesRemaining (charge n k b) = bytesRemaining b - int n"
  "valuesRemaining (charge n k b) = valuesRemaining b - int k"
  "charge m j (charge n k b) = charge (n + m) (k + j) b"
  "charge 0 0 b = b"
  by (simp_all add: charge_def algebra_simps)

lemma length_itoa: "n < 10 ^ k \<Longrightarrow> 0 < k \<Longrightarrow> length (itoa n) \<le> k"
proof (induction n arbitrary: k rule: itoa.induct)
  case (1 n)
  show ?case
  proof (cases "n < 10")
    case False
    obtain j where k: "k = Suc j" "0 < j"
      using 1 False by (cases k; cases "k - 1") auto
    have "n div 10 < 10 ^ j" using "1.prems"(1) k by (simp add: less_mult_imp_div_less mult.commute)
    with "1.IH" [OF False this k(2)] False k show ?thesis by (simp add: itoa.simps [of n])
  qed (use 1 in \<open>simp add: itoa.simps [of n]\<close>)
qed

lemma itoa_int_line:
  assumes "- (2 ^ 63) \<le> i" and "i < 2 ^ 63"
  shows "CHR 0x0A \<notin> set (itoa_int i)" and "length (itoa_int i) \<le> 20"
proof -
  have nl: "CHR 0x0A \<notin> set (itoa n)" for n using itoa_digits [of n] by (auto simp: is_digit_def)
  then show "CHR 0x0A \<notin> set (itoa_int i)" by (auto simp: itoa_int_def)
  have "nat \<bar>i\<bar> < 10 ^ 19" using assms by (simp add: nat_less_iff abs_less_iff)
  then have "length (itoa (nat \<bar>i\<bar>)) \<le> 19" by (rule length_itoa) simp
  then show "length (itoa_int i) \<le> 20" by (auto simp: itoa_int_def)
qed

lemma frames_charge:
  assumes "frames f v c k b b'" and "b' = b\<lparr>bytesRemaining := x\<rparr>" 
  shows "frames f v c k b (charge (length c) k b)"
proof -
  have "bytesRemaining b' = bytesRemaining b - int (length c)" "valuesRemaining b' = valuesRemaining b - int k"
    using assms(1) by (simp_all add: frames_def)
  then have "b' = charge (length c) k b" using assms(2) by (cases b) (simp add: charge_def)
  with assms(1) show ?thesis by simp
qed

lemma frames_line:
  assumes "CHR 0x0A \<notin> set l" and "int (length l) + 2 \<le> ioredisRESPMaxLineBytes"
    and "int (length (l @ CRLF)) \<le> bytesRemaining b"
  shows "frames readLine l (l @ CRLF) 0 b (charge (length (l @ CRLF)) 0 b)"
  using frames_charge [OF frames_readLine [OF assms(1,2)]] assms(3) by (simp add: CRLF_def)

lemma frames_integer:
  assumes "- (2 ^ 63) \<le> i" and "i < 2 ^ 63" and "int (length (itoa_int i @ CRLF)) \<le> bytesRemaining b"
  shows "frames (\<lambda>eof. readInteger eof m) i (itoa_int i @ CRLF) 0 b (charge (length (itoa_int i @ CRLF)) 0 b)"
proof -
  note line = itoa_int_line [OF assms(1,2)]
  have "frames readLine (itoa_int i) (itoa_int i @ CRLF) 0 b (charge (length (itoa_int i @ CRLF)) 0 b)"
    using line assms(3) by (intro frames_line) (auto simp: ioredisRESPMaxLineBytes_def)
  moreover have "frames (checked (\<lambda>l b. case ParseInt l of Inl e \<Rightarrow> Inl (errors_New m) | Inr n \<Rightarrow> Inr n) (itoa_int i)) i [] 0 c c" for c
    by (rule frames_checked) (simp add: ParseInt_itoa_int [OF assms(1,2)])
  ultimately show ?thesis
    unfolding readInteger_bindr using frames_bindr by fastforce
qed

text \<open>When a value fits: limits of its parts, nesting, and what is left of the budget.\<close>

definition fits :: "resp_value list \<Rightarrow> nat \<Rightarrow> DecodeBudget \<Rightarrow> bool" where
  "fits vs d b \<longleftrightarrow> (\<forall>v \<in> set vs. value_ok v \<and> vdepth v + d \<le> ioredisRESPMaxDepth)
     \<and> int (length (concat (map encode_value vs))) \<le> bytesRemaining b
     \<and> int (sum_list (map nvalues vs)) \<le> valuesRemaining b \<and> valuesRemaining b \<le> ioredisRESPMaxArrayElements"

lemma length_le_nvalues: "length vs \<le> sum_list (map nvalues vs)"
proof (induction vs)
  case (Cons v vs)
  have "0 < nvalues v" by (cases v) auto
  with Cons show ?case by simp
qed simp

lemma frames_list:
  assumes "\<And>v d b. v \<in> set vs \<Longrightarrow> fits [v] d b \<Longrightarrow>
      frames (value_reader d) v (encode_value v) (nvalues v) b (charge (length (encode_value v)) (nvalues v) b)"
    and "fits vs d b"
  shows "frames (values_reader (length vs) d) vs (concat (map encode_value vs)) (sum_list (map nvalues vs)) b
    (charge (length (concat (map encode_value vs))) (sum_list (map nvalues vs)) b)"
  using assms
proof (induction vs arbitrary: b)
  case Nil
  then show ?case using frames_return [of "[]" b] by (simp add: readValues.simps)
next
  case (Cons v vs)
  let ?b = "charge (length (encode_value v)) (nvalues v) b"
  have fit: "fits [v] d b" "fits vs d ?b" using Cons.prems(2) by (auto simp: fits_def)
  have first: "frames (value_reader d) v (encode_value v) (nvalues v) b ?b"
    by (rule Cons.prems(1) [OF list.set_intros(1) fit(1)])
  have rest: "frames (values_reader (length vs) d) vs (concat (map encode_value vs)) (sum_list (map nvalues vs)) ?b
      (charge (length (concat (map encode_value vs))) (sum_list (map nvalues vs)) ?b)"
    by (rule Cons.IH [OF Cons.prems(1) fit(2)]) simp_all
  from frames_bindr [OF first, where g = "\<lambda>v. bindr (values_reader (length vs) d) (\<lambda>vs eof s b. Inr (v # vs, s, b))",
      OF frames_map [OF rest, of "Cons v"]]
  show ?case by (simp add: readValues_bindr add.commute)
qed

lemma frames_tag:
  assumes "d \<le> ioredisRESPMaxDepth" and "1 \<le> valuesRemaining b" and "1 \<le> bytesRemaining b"
    and "frames (tagged d c) v w k (charge 1 1 b) (charge n m (charge 1 1 b))"
  shows "frames (value_reader d) v (c # w) (Suc k) b (charge (Suc n) (Suc m) b)"
  using frames_readValue [of d b "b\<lparr>valuesRemaining := valuesRemaining b - 1\<rparr>" "charge 1 1 b" c v w k "charge n m (charge 1 1 b)"] assms
  by (simp add: consumeValue_Inr consumeBytes_Inr charge_def diff_diff_eq)

lemma itoa_int_nat: "itoa_int (int n) = itoa n"
  by (simp add: itoa_int_def)

lemma frames_array_header:
  assumes "int n \<le> ioredisRESPMaxArrayElements" and "int n \<le> valuesRemaining b" and "int (length (itoa n @ CRLF)) \<le> bytesRemaining b"
  shows "frames readArrayLength (Some n) (itoa n @ CRLF) 0 b (charge (length (itoa n @ CRLF)) 0 b)"
proof -
  have len: "int n < 2 ^ 63" using assms(1) by (simp add: ioredisRESPMaxArrayElements_def)
  note header = frames_integer [of "int n" b "''invalid RESP array length''", unfolded itoa_int_nat]
  let ?check = "\<lambda>n b. if n < -1 then Inl (errors_New ''invalid RESP array length'')
     else if n = -1 then Inr None
     else if n > ioredisRESPMaxArrayElements
     then Inl (Errorf ''RESP array length %d exceeds limit of %d'' [itoa_int n, itoa_int ioredisRESPMaxArrayElements])
     else if n > valuesRemaining b
     then Inl (Errorf ''RESP array length %d exceeds remaining aggregate value limit'' [itoa_int n])
     else Inr (Some (nat n))"
  have "frames (checked ?check (int n)) (Some n) [] 0 (charge k 0 b) (charge k 0 b)" for k
    by (rule frames_checked) (use assms in simp)
  from frames_bindr [where g = "checked ?check", OF header this] len assms(3) show ?thesis
    unfolding readArrayLength_bindr by simp
qed

lemma frames_encode:
  "fits [v] d b \<Longrightarrow> frames (value_reader d) v (encode_value v) (nvalues v) b (charge (length (encode_value v)) (nvalues v) b)"
proof (induction v arbitrary: d b)
  case VNil
  have "itoa_int (-1) = ''-1''" by code_simp
  with frames_integer [of "-1" "charge 1 1 b" "''invalid RESP bulk length''"] VNil
  have "frames (\<lambda>eof. readInteger eof ''invalid RESP bulk length'') (-1) (''-1'' @ CRLF) 0 (charge 1 1 b) (charge 4 0 (charge 1 1 b))"
    by (simp add: fits_def CRLF_def eval_nat_numeral)
  moreover have "frames (bulkBody (-1)) VNil [] 0 c c" for c
    by (simp add: frames_def bulkBody_def)
  ultimately have "frames readBulkValue VNil (''-1'' @ CRLF) 0 (charge 1 1 b) (charge 4 0 (charge 1 1 b))"
    unfolding readBulkValue_bindr using frames_bindr by fastforce
  with VNil show ?case using frames_tag [of d b "CHR 0x24" VNil "''-1'' @ CRLF" 0 4 0]
    by (simp add: fits_def tagged_def CRLF_def eval_nat_numeral)
next
  case (VStr a)
  let ?h = "itoa (length a) @ CRLF" and ?b = "charge 1 1 b"
  have ok: "int (length a) \<le> ioredisRESPMaxBulkBytes" and d: "d \<le> ioredisRESPMaxDepth"
    and len: "int (length ?h + length a + 2) + 1 \<le> bytesRemaining b" and v: "1 \<le> valuesRemaining b"
    using VStr by (simp_all add: fits_def encode_argument_def CRLF_def)
  have "frames (\<lambda>eof. readInteger eof ''invalid RESP bulk length'') (int (length a)) ?h 0 ?b (charge (length ?h) 0 ?b)"
    using frames_integer [of "int (length a)" ?b, unfolded itoa_int_nat] ok len
    by (simp add: ioredisRESPMaxBulkBytes_def)
  moreover have "frames (bulkBody (int (length a))) (VStr a) (a @ CRLF) 0 (charge (length ?h) 0 ?b)
      (charge (length (a @ CRLF)) 0 (charge (length ?h) 0 ?b))"
    by (rule frames_charge [OF frames_bulkBody]) (use ok len in \<open>simp_all add: CRLF_def\<close>)
  ultimately have "frames readBulkValue (VStr a) (?h @ (a @ CRLF)) (0 + 0) ?b
      (charge (length (a @ CRLF)) 0 (charge (length ?h) 0 ?b))"
    unfolding readBulkValue_bindr by (rule frames_bindr [where g = bulkBody])
  with VStr d v len show ?case
    using frames_tag [of d b "CHR 0x24" "VStr a" "?h @ (a @ CRLF)" 0 "length ?h + length (a @ CRLF)" 0]
    by (simp add: tagged_def encode_argument_def add.assoc)
next
  case (VErr l)
  let ?b = "charge 1 1 b"
  have "frames readLine l (l @ CRLF) 0 ?b (charge (length (l @ CRLF)) 0 ?b)"
    by (rule frames_line) (use VErr in \<open>simp_all add: fits_def CRLF_def\<close>)
  from frames_map [OF this, of VErr] VErr show ?case
    using frames_tag [of d b "CHR 0x2D" "VErr l" "l @ CRLF" 0 "length (l @ CRLF)" 0]
    by (simp add: fits_def tagged_def CRLF_def)
next
  case (VInt i)
  let ?b = "charge 1 1 b"
  have "frames (\<lambda>eof. readInteger eof ''invalid RESP integer'') i (itoa_int i @ CRLF) 0 ?b (charge (length (itoa_int i @ CRLF)) 0 ?b)"
    by (rule frames_integer) (use VInt in \<open>simp_all add: fits_def CRLF_def\<close>)
  from frames_map [OF this, of VInt] VInt show ?case
    using frames_tag [of d b "CHR 0x3A" "VInt i" "itoa_int i @ CRLF" 0 "length (itoa_int i @ CRLF)" 0]
    by (simp add: fits_def tagged_def CRLF_def)
next
  case (VArr vs)
  let ?h = "itoa (length vs) @ CRLF" and ?b = "charge 1 1 b"
  let ?c = "concat (map encode_value vs)" and ?k = "sum_list (map nvalues vs)"
  have d: "d \<le> ioredisRESPMaxDepth" and len: "int (length ?h + length ?c) + 1 \<le> bytesRemaining b"
    and v: "int ?k + 1 \<le> valuesRemaining b" "valuesRemaining b \<le> ioredisRESPMaxArrayElements"
    and ok: "list_all value_ok vs" and dep0: "foldr max (map (\<lambda>v. Suc (vdepth v)) vs) 0 + d \<le> ioredisRESPMaxDepth"
    using VArr.prems by (simp_all add: fits_def)
  have dep: "foldr max (map (\<lambda>v. Suc (vdepth v)) vs) 0 \<le> ioredisRESPMaxDepth - d" using dep0 by linarith
  have n: "int (length vs) \<le> int ?k" using length_le_nvalues [of vs] by simp
  have "frames readArrayLength (Some (length vs)) ?h 0 ?b (charge (length ?h) 0 ?b)"
    by (rule frames_array_header) (use n v len in simp_all)
  moreover have "fits vs (Suc d) (charge (length ?h) 0 ?b)"
    using dep ok len v d unfolding foldr_max_le by (fastforce simp: fits_def list_all_iff)
  then have "frames (values_reader (length vs) (Suc d)) vs ?c ?k (charge (length ?h) 0 ?b)
      (charge (length ?c) ?k (charge (length ?h) 0 ?b))"
    by (rule frames_list [rotated]) (rule VArr.IH)
  from frames_map [OF this, of VArr] have "frames (arrayBody d (Some (length vs))) (VArr vs) ?c ?k (charge (length ?h) 0 ?b)
      (charge (length ?c) ?k (charge (length ?h) 0 ?b))" by (simp add: arrayBody_def)
  ultimately have "frames (bindr readArrayLength (arrayBody d)) (VArr vs) (?h @ ?c) (0 + ?k) ?b
      (charge (length ?c) ?k (charge (length ?h) 0 ?b))"
    by (rule frames_bindr [where g = "arrayBody d"])
  then have "frames (tagged d CHR 0x2A) (VArr vs) (?h @ ?c) (0 + ?k) ?b (charge (length ?c) ?k (charge (length ?h) 0 ?b))"
    by (simp add: tagged_def)
  with d v len show ?case
    using frames_tag [of d b "CHR 0x2A" "VArr vs" "?h @ ?c" ?k "length ?h + length ?c" ?k]
    by (simp add: add.assoc)
qed

section \<open>Encoded commands\<close>

abbreviation command_value :: "string list \<Rightarrow> resp_value" where
  "command_value cmd \<equiv> VArr (map VStr cmd)"

lemma encode_commands:
  "encodeIORedisRESPCommands cmds =
     (if list_all (\<lambda>cmd. cmd \<noteq> [] \<and> hd cmd \<noteq> '''') cmds
      then Inr (concat (map (encode_value \<circ> command_value) cmds))
      else Inl (errors_New ''ioredis RESP command is empty''))"
  by (induction cmds) (auto simp: comp_def)

text \<open>Reading one reply after another, each under a fresh budget, as the reader loop does.\<close>

fun readReplies :: "(go_error \<Rightarrow> bool) \<Rightarrow> go_error \<Rightarrow> nat \<Rightarrow> string \<Rightarrow> resp_failure + resp_value list \<times> string" where
  "readReplies io eof 0 s = Inr ([], s)"
| "readReplies io eof (Suc n) s =
     (case readIORedisRESPValue io eof s of
        Inl e \<Rightarrow> Inl e
      | Inr (v, r) \<Rightarrow>
          (case readReplies io eof n r of Inl e \<Rightarrow> Inl e | Inr (vs, r') \<Rightarrow> Inr (v # vs, r')))"

lemma readReplies_encode:
  assumes "\<And>v. v \<in> set vs \<Longrightarrow> fits [v] 0 newDecodeBudget"
  shows "readReplies io eof (length vs) (concat (map encode_value vs) @ rest) = Inr (vs, rest)"
  using assms
proof (induction vs)
  case (Cons v vs)
  have "readIORedisRESPValue io eof (encode_value v @ (concat (map encode_value vs) @ rest)) =
      Inr (v, concat (map encode_value vs) @ rest)"
    using frames_encode [of v 0 newDecodeBudget] Cons.prems by (simp add: readIORedisRESPValue_def frames_def)
  with Cons show ?case by simp
qed simp

section \<open>Remaining budget\<close>

text \<open>A successful reader never overdraws: every charge was checked against what was left.\<close>

definition in_budget :: "DecodeBudget \<Rightarrow> bool" where
  "in_budget b \<longleftrightarrow> 0 \<le> bytesRemaining b \<and> 0 \<le> valuesRemaining b"

lemma consume_nonneg:
  "consumeBytes k b = Inr b' \<Longrightarrow> in_budget b \<Longrightarrow> in_budget b'"
  "consumeValue b = Inr b' \<Longrightarrow> in_budget b \<Longrightarrow> in_budget b'"
  by (auto simp: consumeBytes_Inr consumeValue_Inr in_budget_def)

lemma readLine_nonneg: "readLine eof s b = Inr (l, r, b') \<Longrightarrow> in_budget b \<Longrightarrow> in_budget b'"
  by (auto simp: readLine_def Let_def split: if_splits sum.splits dest: consume_nonneg)

lemma readInteger_nonneg: "readInteger eof m s b = Inr (n, r, b') \<Longrightarrow> in_budget b \<Longrightarrow> in_budget b'"
  by (auto simp: readInteger_def split: sum.splits dest: readLine_nonneg)

lemma readBulkValue_nonneg: "readBulkValue eof s b = Inr (v, r, b') \<Longrightarrow> in_budget b \<Longrightarrow> in_budget b'"
  by (auto simp: readBulkValue_def readBulk_def Let_def split: sum.splits if_splits
      dest!: readInteger_nonneg consume_nonneg)

lemma readArrayLength_nonneg: "readArrayLength eof s b = Inr (v, r, b') \<Longrightarrow> in_budget b \<Longrightarrow> in_budget b'"
  by (auto simp: readArrayLength_def split: sum.splits if_splits dest: readInteger_nonneg)

lemma tagged_nonneg:
  assumes arr: "\<And>n s b vs r b'. readValues eof n s b (Suc d) = Inr (vs, r, b') \<Longrightarrow> in_budget b \<Longrightarrow> in_budget b'"
    and run: "tagged d c eof s b = Inr (v, r, b')" and "in_budget b"
  shows "in_budget b'"
  using run assms(3)
  by (auto simp: tagged_def arrayBody_def bindr_Inr split: if_splits option.splits
      dest: readLine_nonneg readInteger_nonneg readBulkValue_nonneg dest!: readArrayLength_nonneg dest: arr)

lemma readValues_nonneg:
  assumes "\<And>s b v r b'. readValue eof s b d = Inr (v, r, b') \<Longrightarrow> in_budget b \<Longrightarrow> in_budget b'"
    and "readValues eof n s b d = Inr (vs, r, b')" and "in_budget b"
  shows "in_budget b'"
  using assms(2,3)
proof (induction n arbitrary: s b vs)
  case (Suc n)
  then obtain v vs' r1 b1 where "readValue eof s b d = Inr (v, r1, b1)" "readValues eof n r1 b1 d = Inr (vs', r, b')"
    by (auto simp: readValues.simps split: sum.splits)
  with Suc assms(1) show ?case by blast
qed (simp add: readValues.simps)

lemma readValue_nonneg:
  "readValue eof s b d = Inr (v, r, b') \<Longrightarrow> in_budget b \<Longrightarrow> in_budget b'"
proof (induction "Suc ioredisRESPMaxDepth - d" arbitrary: d s b v r b')
  case 0
  then show ?case by (auto simp: readValue.simps)
next
  case (Suc m)
  have V: "in_budget b'" if "readValue eof s b (Suc d) = Inr (v, r, b')" "in_budget b" for s b v r b'
    using Suc.hyps(1) [of "Suc d"] Suc.hyps(2) that by fastforce
  have arr: "in_budget b'" if "readValues eof n s b (Suc d) = Inr (vs, r, b')" "in_budget b" for n s b vs r b'
    by (rule readValues_nonneg [OF _ that]) (rule V)
  from Suc.prems(1) show ?case
  proof (rule readValue_Inr)
    fix c s' b1 b2
    assume b: "consumeValue b = Inr b1" "consumeBytes 1 b1 = Inr b2" and run: "tagged d c eof s' b2 = Inr (v, r, b')"
    have "in_budget b2" using b Suc.prems(2) consume_nonneg by blast
    then show ?thesis by (rule tagged_nonneg [OF arr run, rotated 2])
  qed
qed

section \<open>Properties\<close>

text \<open>
  C21.  Every reply within the limits is decoded to itself, and decoding leaves exactly the bytes that
  follow it.
\<close>

theorem decode_encode:
  assumes "fits [v] 0 newDecodeBudget"
  shows "readIORedisRESPValue io_error eof (encode_value v @ rest) = Inr (v, rest)"
  using frames_encode [OF assms] by (simp add: frames_def readIORedisRESPValue_def)

definition sample_reply :: resp_value where
  "sample_reply = VArr [VStr ''k'', VNil, VInt (-5), VArr [VErr ''ERR x'']]"

lemma sample_reply_fits: "fits [sample_reply] 0 newDecodeBudget"
proof -
  have "list_all (\<lambda>v. value_ok v \<and> vdepth v + 0 \<le> ioredisRESPMaxDepth) [sample_reply]"
    "int (length (concat (map encode_value [sample_reply]))) \<le> bytesRemaining newDecodeBudget"
    "int (sum_list (map nvalues [sample_reply])) \<le> valuesRemaining newDecodeBudget"
    "valuesRemaining newDecodeBudget \<le> ioredisRESPMaxArrayElements"
    by code_simp+
  then show ?thesis by (simp add: fits_def)
qed

theorem decode_encode_witness:
  "readIORedisRESPValue (\<lambda>e. e = io_EOF) io_EOF (encode_value sample_reply @ ''+'') = Inr (sample_reply, ''+'')"
  by (rule decode_encode [OF sample_reply_fits])

text \<open>
  C11.  Decoding stays inside its limits: an accepted reply nests at most 128 deep, counts at most
  2^20 values, takes at most 513 MiB of the stream, and is a prefix of the stream that determines
  the result whatever follows it.
\<close>

theorem decode_bounded:
  assumes "readIORedisRESPValue io_error eof s = Inr (v, rest)"
  shows "vdepth v \<le> 128 \<and> nvalues v \<le> 2 ^ 20 \<and> int (length s) - int (length rest) \<le> 513 * 2 ^ 20
    \<and> (\<exists>c. s = c @ rest \<and> (\<forall>io' eof' rest'. readIORedisRESPValue io' eof' (c @ rest') = Inr (v, rest')))"
proof -
  obtain b' where rv: "readValue eof s newDecodeBudget 0 = Inr (v, rest, b')"
    using assms by (auto simp: readIORedisRESPValue_def split: sum.splits)
  from readValue_framed [OF rv] obtain c where c: "s = c @ rest" "frames (value_reader 0) v c (nvalues v) newDecodeBudget b'"
    and d: "vdepth v \<le> ioredisRESPMaxDepth" by auto
  have nonneg: "in_budget b'"
    by (rule readValue_nonneg [OF rv]) (simp add: in_budget_def newDecodeBudget_def ioredisRESPMaxAggregateBytes_def
        ioredisRESPMaxBulkBytes_def ioredisRESPMaxValues_def)
  have "int (nvalues v) \<le> 2 ^ 20" "int (length c) \<le> 513 * 2 ^ 20"
    using c(2) nonneg by (simp_all add: in_budget_def frames_def newDecodeBudget_def ioredisRESPMaxAggregateBytes_def
        ioredisRESPMaxBulkBytes_def ioredisRESPMaxValues_def)
  moreover have "readIORedisRESPValue io' eof' (c @ rest') = Inr (v, rest')" for io' eof' rest'
    using c(2) by (simp add: readIORedisRESPValue_def frames_def)
  ultimately show ?thesis using c(1) d by (auto simp: ioredisRESPMaxDepth_def)
qed

theorem decode_bounded_witness:
  "vdepth sample_reply \<le> 128 \<and> nvalues sample_reply \<le> 2 ^ 20"
  using decode_bounded [OF decode_encode_witness] by blast

text \<open>
  A reply that is cut short is never taken for a malformed one: on every proper prefix of an
  accepted reply the decoder reports the end of the stream as an I/O failure, which lets the
  client reconnect, not a protocol failure, which would not.
\<close>

theorem decode_truncated:
  assumes "readIORedisRESPValue io_error eof (c @ rest) = Inr (v, rest)" and "strict_prefix p c"
    and "io_error eof'" and "io_error io_ErrUnexpectedEOF"
  shows "\<exists>e. readIORedisRESPValue io_error eof' p = Inl (IOFailure e)"
proof -
  obtain b' where "readValue eof (c @ rest) newDecodeBudget 0 = Inr (v, rest, b')"
    using assms(1) by (auto simp: readIORedisRESPValue_def split: sum.splits)
  from value_reader.truncated [OF this assms(2)] obtain e where "readValue eof' p newDecodeBudget 0 = Inl e" "stream_end eof' e"
    by blast
  with assms(3,4) show ?thesis by (auto simp: readIORedisRESPValue_def stream_end_def)
qed

theorem decode_truncated_witness:
  "\<exists>e. readIORedisRESPValue (\<lambda>e. e = io_EOF \<or> e = io_ErrUnexpectedEOF) io_EOF (take 9 (encode_value sample_reply)) = Inl (IOFailure e)"
proof (rule decode_truncated)
  show "readIORedisRESPValue (\<lambda>e. e = io_EOF \<or> e = io_ErrUnexpectedEOF) io_EOF (encode_value sample_reply @ '''') = Inr (sample_reply, '''')"
    by (rule decode_encode [OF sample_reply_fits])
  have "9 < length (encode_value sample_reply)" by code_simp
  then show "strict_prefix (take 9 (encode_value sample_reply)) (encode_value sample_reply)"
    by (auto simp: strict_prefix_def take_is_prefix)
qed simp_all

text \<open>
  A pipeline survives the wire: commands are refused exactly when one is empty or has an empty
  name; otherwise the encoding decodes, command by command, to arrays of bulk strings that are
  the commands, in order and with nothing left over.
\<close>

theorem commands_round_trip:
  "(isl (encodeIORedisRESPCommands cmds) \<longleftrightarrow> \<not> list_all (\<lambda>cmd. cmd \<noteq> [] \<and> hd cmd \<noteq> '''') cmds)
   \<and> (\<forall>wire. encodeIORedisRESPCommands cmds = Inr wire \<longrightarrow> list_all (\<lambda>cmd. fits [command_value cmd] 0 newDecodeBudget) cmds
        \<longrightarrow> readReplies io eof (length cmds) (wire @ rest) = Inr (map command_value cmds, rest))"
proof -
  have "readReplies io eof (length cmds) (concat (map (encode_value \<circ> command_value) cmds) @ rest) =
      Inr (map command_value cmds, rest)"
    if "list_all (\<lambda>cmd. fits [command_value cmd] 0 newDecodeBudget) cmds"
    using readReplies_encode [of "map command_value cmds" io eof rest] that by (auto simp: list_all_iff comp_def)
  then show ?thesis by (auto simp: encode_commands)
qed

definition sample_commands :: "string list list" where
  "sample_commands = [[''set'', ''k'', ''v''], [''get'', ''k'']]"

theorem commands_round_trip_witness:
  "readReplies (\<lambda>e. True) io_EOF (length sample_commands) (projr (encodeIORedisRESPCommands sample_commands) @ '''')
     = Inr (map command_value sample_commands, '''')"
proof -
  have "\<not> isl (encodeIORedisRESPCommands sample_commands)" by code_simp
  then have e: "encodeIORedisRESPCommands sample_commands = Inr (projr (encodeIORedisRESPCommands sample_commands))" by simp
  have f: "list_all (\<lambda>cmd. list_all (\<lambda>v. value_ok v \<and> vdepth v + 0 \<le> ioredisRESPMaxDepth) [command_value cmd]
      \<and> int (length (concat (map encode_value [command_value cmd]))) \<le> bytesRemaining newDecodeBudget
      \<and> int (sum_list (map nvalues [command_value cmd])) \<le> valuesRemaining newDecodeBudget) sample_commands"
    by code_simp
  have m: "valuesRemaining newDecodeBudget \<le> ioredisRESPMaxArrayElements" by code_simp
  from f m have "list_all (\<lambda>cmd. fits [command_value cmd] 0 newDecodeBudget) sample_commands"
    by (simp add: fits_def list_all_iff)
  with commands_round_trip [of sample_commands "\<lambda>e. True" io_EOF "''''"] e show ?thesis by blast
qed

end
