(* ===== verification/Redis_Transport.thy ===== *)
theory Redis_Transport
  imports Redis_RESP_Properties
begin

text \<open>
  The RESP transport of the ioredis compatibility client (\<^verbatim>\<open>redis/ioredis_resp.go\<close>,
  \<^verbatim>\<open>redis/ioredis_connection.go\<close> and the exchange types of \<^verbatim>\<open>redis/ioredis_compat.go\<close>): option checks,
  the accounting of a batch write, one exchange, and connection startup.

  The socket is a parameter: what a write that begins after \<open>n\<close> bytes accepts, the error it
  returns, the number of bytes the counting connection has seen since the batch began, and the
  context error that takes precedence, if any.  Deadlines only make writes and reads fail and are
  part of these answers.
\<close>

section \<open>Errors\<close>

definition context_Canceled :: go_error where
  "context_Canceled = errors_New ''context canceled''"

definition context_DeadlineExceeded :: go_error where
  "context_DeadlineExceeded = errors_New ''context deadline exceeded''"

definition io_ErrNoProgress :: go_error where
  "io_ErrNoProgress = errors_New ''multiple Read calls return no data or error''"

definition IORedisConnectionClosedError :: go_error where
  "IORedisConnectionClosedError = errors_New ''Connection is closed.''"

definition newIORedisSafeError :: "string \<Rightarrow> go_error \<Rightarrow> go_error" where
  "newIORedisSafeError message cause =
     (if errors_Is cause context_Canceled then GoError ''%s: %w'' [message] [context_Canceled]
      else if errors_Is cause context_DeadlineExceeded then GoError ''%s: %w'' [message] [context_DeadlineExceeded]
      else if errors_Is cause io_ErrUnexpectedEOF then GoError ''%s: %w'' [message] [io_ErrUnexpectedEOF]
      else if errors_Is cause io_EOF then GoError ''%s: %w'' [message] [io_EOF]
      else if errors_Is cause IORedisConnectionClosedError then GoError ''%s: %w'' [message] [IORedisConnectionClosedError]
      else errors_New message)"

section \<open>Options\<close>

record IORedisRESPOptions =
  Addr :: string
  Username :: string
  Password :: string
  DB :: int
  ConnectionName :: string
  ConnectTimeout :: int
  SocketTimeout :: int
  KeepAlive :: int
  DisableClientInfo :: bool
  DisableReadyCheck :: bool
  MaxLoadingRetryTime :: int
  clientInfoLibraryVersion :: string

definition ioredisLibraryVersion :: string where
  "ioredisLibraryVersion = ''5.11.1''"

definition NewIORedisRESPTransportFactory :: "IORedisRESPOptions \<Rightarrow> go_error + IORedisRESPOptions" where
  "NewIORedisRESPTransportFactory opts =
     (if TrimSpace (Addr opts) = '''' then Inl (errors_New ''ioredis RESP address is required'')
      else if DB opts < 0 then Inl (errors_New ''ioredis RESP database must be non-negative'')
      else if ConnectTimeout opts < 0 then Inl (errors_New ''ioredis RESP connect timeout must be non-negative'')
      else if SocketTimeout opts < 0 then Inl (errors_New ''ioredis RESP socket timeout must be non-negative'')
      else if KeepAlive opts < 0 then Inl (errors_New ''ioredis RESP keepalive must be non-negative'')
      else if MaxLoadingRetryTime opts < 0
      then Inl (errors_New ''ioredis RESP loading retry time must be non-negative'')
      else Inr (opts\<lparr>ConnectTimeout := (if ConnectTimeout opts = 0 then 10000000000 else ConnectTimeout opts),
                MaxLoadingRetryTime := (if MaxLoadingRetryTime opts = 0 then 10000000000 else MaxLoadingRetryTime opts),
                clientInfoLibraryVersion :=
                  (if clientInfoLibraryVersion opts = '''' then ioredisLibraryVersion else clientInfoLibraryVersion opts)\<rparr>))"

section \<open>Exchanges\<close>

datatype IORedisReply = Reply (Value: resp_value) (ReplyError: "go_error option")

text \<open>A decoded value as a reply: a server error is the error of the reply.\<close>

fun reply_of :: "resp_value \<Rightarrow> IORedisReply" where
  "reply_of (VErr l) = Reply VNil (Some (errors_New l))"
| "reply_of v = Reply v None"

datatype IORedisWriteDisposition =
    IORedisWriteUnknown | IORedisNotWritten | IORedisPartiallyWritten | IORedisFullyWritten

record IORedisExchange =
  Replies :: "IORedisReply list"
  MayHaveExecuted :: bool
  WriteDisposition :: IORedisWriteDisposition
  BytesWritten :: nat
  BytesTotal :: nat
  NetworkBytesWritten :: int
  Error :: "go_error option"

definition failed_exchange :: "go_error \<Rightarrow> IORedisExchange" where
  "failed_exchange e = \<lparr>Replies = [], MayHaveExecuted = False, WriteDisposition = IORedisNotWritten,
     BytesWritten = 0, BytesTotal = 0, NetworkBytesWritten = 0, Error = Some e\<rparr>"

record Socket =
  set_deadline :: "go_error option"
  sock_write :: "nat \<Rightarrow> nat \<times> go_error option"
  sock_network :: "nat \<Rightarrow> int"
  sock_ctx :: "nat \<Rightarrow> go_error option"

text \<open>What a failed write reports: the bytes the network has seen make the outcome ambiguous.\<close>

definition write_failed :: "int \<Rightarrow> go_error \<Rightarrow> IORedisExchange \<Rightarrow> IORedisExchange" where
  "write_failed net e x =
     (let x1 = x\<lparr>NetworkBytesWritten := net\<rparr>;
          x2 = (if net > 0 then x1\<lparr>MayHaveExecuted := True, WriteDisposition := IORedisPartiallyWritten\<rparr> else x1)
      in x2\<lparr>Error := Some e\<rparr>)"

text \<open>
  The loop of \<^verbatim>\<open>writeCommands\<close>.  Every round that goes on has written at least one more byte.
\<close>

function write_loop :: "Socket \<Rightarrow> nat \<Rightarrow> nat \<Rightarrow> int \<Rightarrow> IORedisExchange \<Rightarrow> IORedisExchange" where
  "write_loop k len written net x =
     (if len \<le> written
      then x\<lparr>NetworkBytesWritten := net, WriteDisposition := IORedisFullyWritten\<rparr>
      else let (n, err) = sock_write k written;
               net' = sock_network k written;
               x' = (if n > 0 then x\<lparr>BytesWritten := written + n, MayHaveExecuted := True,
                                     WriteDisposition := IORedisPartiallyWritten\<rparr> else x)
           in case err of
                Some e \<Rightarrow> write_failed net' (case sock_ctx k written of Some c \<Rightarrow> c | None \<Rightarrow> e) x'
              | None \<Rightarrow>
                  if n = 0 then write_failed net' io_ErrNoProgress x'
                  else write_loop k len (written + n) net' x')"
  by pat_completeness auto

termination
  by (relation "measure (\<lambda>(k, len, written, net, x). len - written)") auto

declare write_loop.simps [simp del]

definition writeCommands :: "Socket \<Rightarrow> string list list \<Rightarrow> IORedisExchange" where
  "writeCommands k commands =
     (if commands = [] then failed_exchange (errors_New ''ioredis RESP exchange is empty'')
      else case set_deadline k of
        Some e \<Rightarrow> failed_exchange e
      | None \<Rightarrow>
     (case encodeIORedisRESPCommands commands of
        Inl e \<Rightarrow> failed_exchange e
      | Inr wire \<Rightarrow>
          write_loop k (length wire) 0 0
            \<lparr>Replies = [], MayHaveExecuted = False, WriteDisposition = IORedisNotWritten,
             BytesWritten = 0, BytesTotal = length wire, NetworkBytesWritten = 0, Error = None\<rparr>))"

text \<open>The reading loop of \<^verbatim>\<open>Exchange\<close>; \<open>answer\<close> is what \<^verbatim>\<open>readReply\<close> returns for the reply of that index.\<close>

fun read_loop :: "(nat \<Rightarrow> go_error + IORedisReply) \<Rightarrow> nat \<Rightarrow> IORedisExchange \<Rightarrow> IORedisExchange" where
  "read_loop answer 0 x = x"
| "read_loop answer (Suc missing) x =
     (case answer (length (Replies x)) of
        Inl e \<Rightarrow> x\<lparr>Error := Some e\<rparr>
      | Inr r \<Rightarrow> read_loop answer missing (x\<lparr>Replies := Replies x @ [r]\<rparr>))"

definition Exchange :: "Socket \<Rightarrow> (nat \<Rightarrow> go_error + IORedisReply) \<Rightarrow> string list list \<Rightarrow> IORedisExchange" where
  "Exchange k answer commands =
     (let x = writeCommands k commands
      in if Error x \<noteq> None then x else read_loop answer (length commands) x)"

section \<open>Startup\<close>

definition auth_commands :: "IORedisRESPOptions \<Rightarrow> string list list" where
  "auth_commands opts =
     (if Username opts \<noteq> '''' then [[''auth'', Username opts, Password opts]]
      else if Password opts \<noteq> '''' then [[''auth'', Password opts]] else [])"

definition select_commands :: "IORedisRESPOptions \<Rightarrow> string list list" where
  "select_commands opts = (if DB opts \<noteq> 0 then [[''select'', itoa_int (DB opts)]] else [])"

definition startup_commands :: "IORedisRESPOptions \<Rightarrow> string list list" where
  "startup_commands opts = auth_commands opts @ select_commands opts
     @ (if ConnectionName opts \<noteq> '''' then [[''client'', ''setname'', ConnectionName opts]] else [])
     @ (if DisableClientInfo opts then []
        else [[''client'', ''SETINFO'', ''LIB-NAME'', ''ioredis''],
              [''client'', ''SETINFO'', ''LIB-VER'', clientInfoLibraryVersion opts]])"

text \<open>The text of a server error, which is an error made of one string.\<close>

definition ioredisToleratesAuthError :: "go_error \<Rightarrow> bool" where
  "ioredisToleratesAuthError e \<longleftrightarrow>
     Contains (err_format e) ''no password is set''
     \<or> Contains (err_format e) ''without any password configured for the default user''
     \<or> Contains (err_format e) ''wrong number of arguments for 'auth' command''"

text \<open>\<^verbatim>\<open>strings.Split(value, CRLF)\<close> and \<^verbatim>\<open>strings.Cut(line, \":\")\<close>.\<close>

fun split_crlf :: "string \<Rightarrow> string list" where
  "split_crlf [] = [[]]"
| "split_crlf [c] = [[c]]"
| "split_crlf (c # d # s) =
     (if c = CHR 0x0D \<and> d = CHR 0x0A then [] # split_crlf s
      else case split_crlf (d # s) of [] \<Rightarrow> [[c]] | w # ws \<Rightarrow> (c # w) # ws)"

definition cut_colon :: "string \<Rightarrow> (string \<times> string) option" where
  "cut_colon line =
     (case dropWhile (\<lambda>c. c \<noteq> CHR '':'') line of
        [] \<Rightarrow> None
      | _ # v \<Rightarrow> Some (takeWhile (\<lambda>c. c \<noteq> CHR '':'') line, v))"

definition parseIORedisINFO :: "string \<Rightarrow> string gomap" where
  "parseIORedisINFO value =
     fold (\<lambda>line m. case cut_colon line of Some (name, v) \<Rightarrow> if v \<noteq> '''' then go_set name v m else m | None \<Rightarrow> m)
       (split_crlf value) []"

definition info_field :: "string \<Rightarrow> string gomap \<Rightarrow> string" where
  "info_field name m = (case go_get m name of Some v \<Rightarrow> v | None \<Rightarrow> '''')"

text \<open>What one INFO reply means: ready, still loading with the announced time, or a failure.\<close>

datatype readiness = Ready | Loading string | NotReady go_error

definition info_readiness :: "IORedisExchange \<Rightarrow> readiness" where
  "info_readiness x =
     (case Error x of
        Some e \<Rightarrow> NotReady (newIORedisSafeError ''redis: ioredis INFO readiness check failed'' e)
      | None \<Rightarrow>
     (case Replies x of
        [] \<Rightarrow> NotReady (errors_New ''panic: index out of range'')
      | r # _ \<Rightarrow>
     (case ReplyError r of
        Some e \<Rightarrow> if Contains (err_format e) ''NOPERM'' then Ready
                  else NotReady (newIORedisSafeError ''redis: ioredis INFO readiness check failed'' e)
      | None \<Rightarrow>
     (case Value r of
        VStr info \<Rightarrow>
          let fields = parseIORedisINFO info
          in if info_field ''loading'' fields = '''' \<or> info_field ''loading'' fields = ''0'' then Ready
             else Loading (info_field ''loading_eta_seconds'' fields)
      | _ \<Rightarrow> Ready))))"

text \<open>
  The readiness loop, which goes on as long as the server is loading and the wait is not stopped;
  \<open>info n\<close> is the exchange of round \<open>n\<close> and \<open>wait n eta\<close> the result of waiting after it.  The fuel
  bounds the rounds; \<open>None\<close> means it has run out.
\<close>

fun ready_loop :: "nat \<Rightarrow> (nat \<Rightarrow> IORedisExchange) \<Rightarrow> (nat \<Rightarrow> string \<Rightarrow> bool) \<Rightarrow> (nat \<Rightarrow> go_error option) \<Rightarrow> nat
    \<Rightarrow> go_error option option" where
  "ready_loop 0 info wait ctx n = None"
| "ready_loop (Suc fuel) info wait ctx n =
     (case info_readiness (info n) of
        Ready \<Rightarrow> Some None
      | NotReady e \<Rightarrow> Some (Some e)
      | Loading eta \<Rightarrow>
          if wait n eta then ready_loop fuel info wait ctx (Suc n)
          else Some (Some (case ctx n of Some e \<Rightarrow> e | None \<Rightarrow> errors_New ''ioredis RESP ready wait stopped'')))"

definition bootstrap_error :: "IORedisRESPOptions \<Rightarrow> IORedisExchange \<Rightarrow> go_error option" where
  "bootstrap_error opts x =
     (case Error x of
        Some e \<Rightarrow> Some (newIORedisSafeError ''redis: ioredis bootstrap failed'' e)
      | None \<Rightarrow>
          let auth = (if auth_commands opts = [] then None else ReplyError (Replies x ! 0));
              sel = (if select_commands opts = [] then None else ReplyError (Replies x ! length (auth_commands opts)))
          in case auth of
               Some e \<Rightarrow>
                 if ioredisToleratesAuthError e
                 then map_option (newIORedisSafeError ''redis: ioredis SELECT failed'') sel
                 else Some (newIORedisSafeError ''redis: ioredis AUTH failed'' e)
             | None \<Rightarrow> map_option (newIORedisSafeError ''redis: ioredis SELECT failed'') sel)"

definition startup :: "IORedisRESPOptions \<Rightarrow> (string list list \<Rightarrow> IORedisExchange) \<Rightarrow> nat \<Rightarrow> (nat \<Rightarrow> IORedisExchange)
    \<Rightarrow> (nat \<Rightarrow> string \<Rightarrow> bool) \<Rightarrow> (nat \<Rightarrow> go_error option) \<Rightarrow> go_error option option" where
  "startup opts exchange fuel info wait ctx =
     (let boot = (if startup_commands opts = [] then None
                  else bootstrap_error opts (exchange (startup_commands opts)))
      in case boot of
           Some e \<Rightarrow> Some (Some e)
         | None \<Rightarrow> if DisableReadyCheck opts then Some None else ready_loop fuel info wait ctx 0)"

section \<open>Write accounting\<close>

text \<open>A socket that follows the \<^verbatim>\<open>io.Writer\<close> contract: it never accepts more than it was given.\<close>

definition writer_ok :: "Socket \<Rightarrow> nat \<Rightarrow> bool" where
  "writer_ok k len \<longleftrightarrow> (\<forall>w < len. fst (sock_write k w) \<le> len - w)"

definition accounted :: "nat \<Rightarrow> IORedisExchange \<Rightarrow> bool" where
  "accounted len x \<longleftrightarrow> BytesTotal x = len \<and> BytesWritten x \<le> len \<and> Replies x = []
     \<and> (Error x = None \<longleftrightarrow> WriteDisposition x = IORedisFullyWritten)
     \<and> (Error x = None \<longrightarrow> BytesWritten x = len)
     \<and> (WriteDisposition x = IORedisNotWritten \<longleftrightarrow> \<not> MayHaveExecuted x)
     \<and> (MayHaveExecuted x \<longleftrightarrow> BytesWritten x > 0 \<or> (Error x \<noteq> None \<and> NetworkBytesWritten x > 0))"

lemma write_loop_accounted:
  assumes "writer_ok k len" and "written \<le> len" and "0 < len"
    and "BytesTotal x = len" "BytesWritten x = written" "Replies x = []" "Error x = None"
    and "MayHaveExecuted x \<longleftrightarrow> 0 < written"
    and "WriteDisposition x = (if 0 < written then IORedisPartiallyWritten else IORedisNotWritten)"
  shows "accounted len (write_loop k len written net x)"
  using assms
proof (induction k len written net x rule: write_loop.induct)
  case (1 k len written net x)
  show ?case
  proof (cases "len \<le> written")
    case True
    then have "written = len" using 1 by simp
    with 1 show ?thesis by (simp add: write_loop.simps accounted_def)
  next
    case False
    obtain n err where w: "sock_write k written = (n, err)" by fastforce
    have "fst (sock_write k written) \<le> len - written"
      using "1.prems"(1) False unfolding writer_ok_def by simp
    then have n: "n \<le> len - written" using w by simp
    let ?x = "if n > 0 then x\<lparr>BytesWritten := written + n, MayHaveExecuted := True,
        WriteDisposition := IORedisPartiallyWritten\<rparr> else x"
    have fail: "accounted len (write_failed net' e ?x)" for net' e
      using "1.prems" n False by (auto simp: accounted_def write_failed_def Let_def)
    show ?thesis
    proof (cases "err = None \<and> n \<noteq> 0")
      case True
      then have "accounted len (write_loop k len (written + n) (sock_network k written) ?x)"
        using "1.prems" n False w by (intro "1.IH") auto
      then show ?thesis using True False w by (simp add: write_loop.simps [of k len written])
    next
      case stop: False
      then show ?thesis using fail False w
        by (cases err) (auto simp: write_loop.simps [of k len written] Let_def)
    qed
  qed
qed

text \<open>
  C23.  The write report is exact: the disposition is fully written exactly when there was no error,
  and then every byte was written; it is not written exactly when execution is ruled out; and
  execution is not ruled out as soon as a byte of the commands was accepted or, after an error,
  the network has seen any.
\<close>

theorem writeCommands_accounted:
  assumes "\<And>wire. encodeIORedisRESPCommands commands = Inr wire \<Longrightarrow> writer_ok k (length wire)"
  shows "accounted (BytesTotal (writeCommands k commands)) (writeCommands k commands)"
proof (cases "commands = [] \<or> set_deadline k \<noteq> None \<or> isl (encodeIORedisRESPCommands commands)")
  case True
  then have "\<exists>e. writeCommands k commands = failed_exchange e"
    by (cases "commands = []"; cases "encodeIORedisRESPCommands commands"; cases "set_deadline k")
      (auto simp: writeCommands_def)
  then show ?thesis by (auto simp: failed_exchange_def accounted_def)
next
  case False
  then obtain wire where wire: "encodeIORedisRESPCommands commands = Inr wire" "set_deadline k = None" "commands \<noteq> []"
    by (cases "encodeIORedisRESPCommands commands") auto
  obtain cmd cmds where c: "commands = cmd # cmds" using wire(3) by (cases commands) auto
  have "0 < length wire" using wire(1) by (auto simp: c split: if_splits sum.splits)
  then have acc: "accounted (length wire) (writeCommands k commands)"
    using assms [OF wire(1)] wire
    by (auto simp: writeCommands_def intro!: write_loop_accounted)
  then have "BytesTotal (writeCommands k commands) = length wire" unfolding accounted_def by blast
  with acc show ?thesis by simp
qed

definition sample_socket :: Socket where
  "sample_socket = \<lparr>set_deadline = None, sock_write = (\<lambda>w. if w < 6 then (1, None) else (0, Some io_EOF)),
     sock_network = (\<lambda>w. int w), sock_ctx = (\<lambda>w. None)\<rparr>"

theorem writeCommands_accounted_witness:
  "accounted (BytesTotal (writeCommands sample_socket [[''get'', ''k'']])) (writeCommands sample_socket [[''get'', ''k'']])"
  by (rule writeCommands_accounted) (auto simp: writer_ok_def sample_socket_def)

lemma read_loop_replies:
  "\<exists>rs. Replies (read_loop answer n x) = Replies x @ rs \<and> length rs \<le> n
     \<and> (\<forall>i < length rs. answer (length (Replies x) + i) = Inr (rs ! i))
     \<and> (Error (read_loop answer n x) = None \<longrightarrow> Error x = None \<and> length rs = n)
     \<and> (Error x = None \<longrightarrow> length rs = n \<longrightarrow> Error (read_loop answer n x) = None)"
proof (induction answer n x rule: read_loop.induct)
  case (2 answer missing x)
  show ?case
  proof (cases "answer (length (Replies x))")
    case (Inr r)
    from "2.IH" [OF Inr] obtain rs where rs: "Replies (read_loop answer (Suc missing) x) = Replies x @ (r # rs)"
      "length rs \<le> missing" "\<forall>i < length rs. answer (Suc (length (Replies x)) + i) = Inr (rs ! i)"
      "Error (read_loop answer (Suc missing) x) = None \<longrightarrow> Error x = None \<and> length rs = missing"
      "Error x = None \<longrightarrow> length rs = missing \<longrightarrow> Error (read_loop answer (Suc missing) x) = None"
      using Inr by auto
    have "answer (length (Replies x) + i) = Inr ((r # rs) ! i)" if "i < length (r # rs)" for i
      using that rs(3) Inr by (cases i) auto
    with rs show ?thesis by (intro exI [of _ "r # rs"]) auto
  qed simp
qed simp

text \<open>
  An exchange without error has one reply per command, and an exchange with an error has only
  the replies read before it: the replies are always the answers of the connection, in order.
\<close>

theorem Exchange_replies:
  "let x = Exchange k answer commands in
     length (Replies x) \<le> length commands \<and> (\<forall>i < length (Replies x). answer i = Inr (Replies x ! i))
     \<and> (Error x = None \<longrightarrow> length (Replies x) = length commands \<and> commands \<noteq> [])"
proof -
  let ?w = "writeCommands k commands"
  have empty: "Replies ?w = []"
  proof -
    have "Replies (write_loop k n w net x) = Replies x" for n w net x
      by (induction k n w net x rule: write_loop.induct)
        (subst write_loop.simps, auto simp: write_failed_def Let_def split: option.splits prod.splits)
    then show ?thesis
      by (auto simp: writeCommands_def failed_exchange_def split: option.splits sum.splits)
  qed
  have ne: "Error ?w = None \<Longrightarrow> commands \<noteq> []"
    by (auto simp: writeCommands_def failed_exchange_def)
  show ?thesis
  proof (cases "Error ?w = None")
    case True
    with read_loop_replies [of answer "length commands" ?w] empty ne [OF True] show ?thesis
      by (auto simp: Exchange_def Let_def)
  next
    case False
    then show ?thesis using empty by (simp add: Exchange_def Let_def)
  qed
qed

theorem Exchange_replies_witness:
  "length (Replies (Exchange (sample_socket\<lparr>sock_write := (\<lambda>w. (1, None))\<rparr>) (\<lambda>i. Inr (Reply (VStr ''OK'') None)) [[''ping'']])) = 1"
proof -
  let ?x = "Exchange (sample_socket\<lparr>sock_write := (\<lambda>w. (1, None))\<rparr>) (\<lambda>i. Inr (Reply (VStr ''OK'') None)) [[''ping'']]"
  have "Option.is_none (Error ?x)" by code_simp
  with Exchange_replies [of "sample_socket\<lparr>sock_write := (\<lambda>w. (1, None))\<rparr>" "\<lambda>i. Inr (Reply (VStr ''OK'') None)" "[[''ping'']]"]
  show ?thesis by (simp add: Let_def Option.is_none_def)
qed

section \<open>Startup\<close>

lemma ready_loop_Some:
  "ready_loop fuel info wait ctx n = Some None \<Longrightarrow>
     \<exists>m \<ge> n. info_readiness (info m) = Ready \<and> (\<forall>j. n \<le> j \<and> j < m \<longrightarrow> (\<exists>eta. info_readiness (info j) = Loading eta \<and> wait j eta))"
proof (induction fuel info wait ctx n rule: ready_loop.induct)
  case (2 fuel info wait ctx n)
  show ?case
  proof (cases "info_readiness (info n)")
    case Ready
    then show ?thesis by auto
  next
    case (Loading eta)
    with "2.prems" have w: "wait n eta" and rl: "ready_loop fuel info wait ctx (Suc n) = Some None"
      by (auto split: if_splits)
    from "2.IH" [OF Loading w rl] obtain m where m: "m \<ge> Suc n" "info_readiness (info m) = Ready"
      "\<forall>j. Suc n \<le> j \<and> j < m \<longrightarrow> (\<exists>eta. info_readiness (info j) = Loading eta \<and> wait j eta)" by blast
    have "\<exists>eta. info_readiness (info j) = Loading eta \<and> wait j eta" if "n \<le> j" "j < m" for j
      using that m(3) Loading w by (cases "j = n") auto
    with m show ?thesis by (intro exI [of _ m]) auto
  qed (use "2.prems" in auto)
qed simp


definition reply_at :: "IORedisExchange \<Rightarrow> nat \<Rightarrow> go_error option" where
  "reply_at x i = ReplyError (Replies x ! i)"

text \<open>
  Startup reports success only on a usable connection: the bootstrap exchange had no transport
  error, AUTH was accepted or failed only because the server has no password, SELECT succeeded if
  a database was asked for, and unless the check is disabled some INFO reply said the server is
  not loading, with every earlier one saying that it was.
\<close>

theorem startup_ready:
  assumes "startup opts exchange fuel info wait ctx = Some None"
  shows "(startup_commands opts \<noteq> [] \<longrightarrow> Error (exchange (startup_commands opts)) = None)
    \<and> (auth_commands opts \<noteq> [] \<longrightarrow>
         (case reply_at (exchange (startup_commands opts)) 0 of None \<Rightarrow> True | Some e \<Rightarrow> ioredisToleratesAuthError e))
    \<and> (select_commands opts \<noteq> [] \<longrightarrow>
         reply_at (exchange (startup_commands opts)) (length (auth_commands opts)) = None)
    \<and> (\<not> DisableReadyCheck opts \<longrightarrow>
         (\<exists>m. info_readiness (info m) = Ready
            \<and> (\<forall>j < m. \<exists>eta. info_readiness (info j) = Loading eta \<and> wait j eta)))"
proof -
  let ?x = "exchange (startup_commands opts)"
  have boot: "startup_commands opts = [] \<or> bootstrap_error opts ?x = None"
    using assms by (auto simp: startup_def Let_def split: option.splits if_splits)
  have "\<exists>m. info_readiness (info m) = Ready \<and> (\<forall>j < m. \<exists>eta. info_readiness (info j) = Loading eta \<and> wait j eta)"
    if "\<not> DisableReadyCheck opts"
  proof -
    have "ready_loop fuel info wait ctx 0 = Some None"
      using assms that by (auto simp: startup_def Let_def split: option.splits if_splits)
    from ready_loop_Some [OF this] show ?thesis by auto
  qed
  moreover have "Error ?x = None \<and> (auth_commands opts \<noteq> [] \<longrightarrow>
      (case reply_at ?x 0 of None \<Rightarrow> True | Some e \<Rightarrow> ioredisToleratesAuthError e))
      \<and> (select_commands opts \<noteq> [] \<longrightarrow> reply_at ?x (length (auth_commands opts)) = None)"
    if "startup_commands opts \<noteq> []"
    using boot that
    by (auto simp: bootstrap_error_def Let_def reply_at_def split: option.splits if_splits)
  moreover have "startup_commands opts = [] \<Longrightarrow> auth_commands opts = [] \<and> select_commands opts = []"
    by (simp add: startup_commands_def)
  ultimately show ?thesis by blast
qed

definition sample_options_RESP :: IORedisRESPOptions where
  "sample_options_RESP = \<lparr>Addr = ''localhost:6379'', Username = '''', Password = ''p'', DB = 2, ConnectionName = '''',
     ConnectTimeout = 0, SocketTimeout = 0, KeepAlive = 0, DisableClientInfo = True, DisableReadyCheck = False,
     MaxLoadingRetryTime = 0, clientInfoLibraryVersion = ''''\<rparr>"

definition ok_exchange :: "resp_value list \<Rightarrow> IORedisExchange" where
  "ok_exchange vs = \<lparr>Replies = map reply_of vs, MayHaveExecuted = True, WriteDisposition = IORedisFullyWritten,
     BytesWritten = 1, BytesTotal = 1, NetworkBytesWritten = 1, Error = None\<rparr>"

definition sample_info :: "nat \<Rightarrow> IORedisExchange" where
  "sample_info n = ok_exchange [VStr (if n = 0 then ''loading:1'' else ''loading:0'')]"

theorem startup_ready_witness:
  "\<exists>m. info_readiness (sample_info m) = Ready \<and> (\<forall>j < m. \<exists>eta. info_readiness (sample_info j) = Loading eta)"
proof -
  have "startup sample_options_RESP (\<lambda>cmds. ok_exchange [VErr ''ERR no password is set'', VStr ''OK'']) 5 sample_info
      (\<lambda>n eta. True) (\<lambda>n. None) = Some None"
    by code_simp
  from startup_ready [OF this] show ?thesis
    by (auto simp: sample_options_RESP_def)
qed



text \<open>
  Errors handed to callers never carry provider text: the safe error depends on the cause only
  through which of five fixed errors it wraps, and wraps at most that one.
\<close>

theorem safe_error_no_leak:
  "err_args (newIORedisSafeError message cause) \<in> {[], [message]}
   \<and> err_format (newIORedisSafeError message cause) \<in> {message, ''%s: %w''}
   \<and> (err_wrapped (newIORedisSafeError message cause) = [] \<or>
      (\<exists>w \<in> {context_Canceled, context_DeadlineExceeded, io_ErrUnexpectedEOF, io_EOF, IORedisConnectionClosedError}.
         err_wrapped (newIORedisSafeError message cause) = [w] \<and> errors_Is cause w))"
  by (simp add: newIORedisSafeError_def)

end
