(* ===== verification/Redis_Client.thy ===== *)
theory Redis_Client
  imports Redis_Transport "HOL-Library.Word"
begin

text \<open>
  The ioredis compatibility client (\<^verbatim>\<open>redis/ioredis_compat.go\<close>): the connection-wide FIFO, command
  validation, the retry and replay rules, the duplex session and the run loop.

  Requests are mutable objects shared between the queue, the in-flight ledger and the futures: they
  live in a heap and are referred to by address, given out in order of submission.  Settling a
  future appends to a log, so that settling it twice would be visible.  The goroutines of the
  client interleave as the steps of a relation: the calls of users, the run loop, the writer and
  the reader of a duplex session, with the answers of the transport as arguments of the steps.
\<close>

section \<open>Retry delay and command validation\<close>

definition IORedisMaxRetriesPerRequest :: nat where
  "IORedisMaxRetriesPerRequest = 20"

text \<open>In nanoseconds; \<^verbatim>\<open>time.Duration\<close> is a 64-bit integer and the product wraps.\<close>

definition IORedisRetryDelay :: "64 word \<Rightarrow> 64 word" where
  "IORedisRetryDelay n =
     (if sint n \<le> 0 then 0
      else let delay = n * 50 * 1000000
           in if sint delay > 2000000000 then 2000000000 else delay)"

text \<open>
  \<^verbatim>\<open>strings.ToUpper\<close> as far as comparisons with ASCII words go: U+0131 and U+017F are the only runes
  outside ASCII with an ASCII upper case.
\<close>

fun to_upper :: "string \<Rightarrow> string" where
  "to_upper [] = []"
| "to_upper [c] = [ascii_upper c]"
| "to_upper (c # d # s) =
     (if c = CHR 0xC4 \<and> d = CHR 0xB1 then CHR ''I'' # to_upper s
      else if c = CHR 0xC5 \<and> d = CHR 0xBF then CHR ''S'' # to_upper s
      else ascii_upper c # to_upper (d # s))"

text \<open>
  \<open>positive\<close> stands for the test of a timeout argument: \<^verbatim>\<open>strconv.ParseFloat\<close> accepts it and the value
  is positive and finite.
\<close>

definition ioredisBoundedBlockingCommand :: "(string \<Rightarrow> bool) \<Rightarrow> string list \<Rightarrow> bool" where
  "ioredisBoundedBlockingCommand positive command =
     (if length command < 2 then False
      else positive (command ! (if to_upper (hd command) \<in> set [''BLMPOP'', ''BZMPOP''] then 1 else length command - 1)))"

record xread =
  streamsIndex :: nat
  blocking :: bool
  bounded :: bool

text \<open>The option loop of \<^verbatim>\<open>parseIORedisXReadPrefix\<close>; \<open>Inl\<close> is the invalid prefix, with the blocking flag.\<close>

function xread_loop ::
    "(string \<Rightarrow> bool) \<Rightarrow> string \<Rightarrow> string list \<Rightarrow> nat \<Rightarrow> bool \<Rightarrow> bool \<Rightarrow> bool \<Rightarrow> bool + xread" where
  "xread_loop positive verb command index groupSeen blk bnd =
     (if length command \<le> index then Inl blk
      else let word = to_upper (command ! index)
           in if word = ''STREAMS'' then
                (if verb = ''XREADGROUP'' \<and> \<not> groupSeen then Inl blk
                 else Inr \<lparr>streamsIndex = index, blocking = blk, bounded = bnd\<rparr>)
              else if word = ''GROUP'' then
                (if verb \<noteq> ''XREADGROUP'' \<or> length command \<le> index + 2 then Inl blk
                 else xread_loop positive verb command (index + 3) True blk bnd)
              else if word = ''COUNT'' then
                (if length command \<le> index + 1 then Inl blk
                 else xread_loop positive verb command (index + 2) groupSeen blk bnd)
              else if word = ''BLOCK'' then
                (if length command \<le> index + 1 then Inl True
                 else xread_loop positive verb command (index + 2) groupSeen True (bnd \<and> positive (command ! (index + 1))))
              else if word = ''NOACK'' then
                (if verb \<noteq> ''XREADGROUP'' then Inl blk
                 else xread_loop positive verb command (index + 1) groupSeen blk bnd)
              else Inl blk)"
  by pat_completeness auto

termination
  by (relation "measure (\<lambda>(positive, verb, command, index, g, blk, bnd). length command - index)") auto

declare xread_loop.simps [simp del]

definition parseIORedisXReadPrefix :: "(string \<Rightarrow> bool) \<Rightarrow> string list \<Rightarrow> bool + xread" where
  "parseIORedisXReadPrefix positive command =
     xread_loop positive (to_upper (hd command)) command 1 False False True"

definition unsupported_verbs :: "string list" where
  "unsupported_verbs =
     [''SUBSCRIBE'', ''PSUBSCRIBE'', ''SSUBSCRIBE'', ''UNSUBSCRIBE'', ''PUNSUBSCRIBE'', ''SUNSUBSCRIBE'',
      ''MONITOR'', ''WAIT'', ''WAITAOF'', ''MULTI'', ''EXEC'', ''DISCARD'', ''WATCH'', ''UNWATCH'', ''RESET'', ''SYNC'', ''PSYNC'',
      ''SHUTDOWN'', ''READONLY'', ''READWRITE'', ''SELECT'', ''QUIT'']"

definition blocking_verbs :: "string list" where
  "blocking_verbs =
     [''BLPOP'', ''BRPOP'', ''BRPOPLPUSH'', ''BLMOVE'', ''BLMPOP'', ''BZPOPMIN'', ''BZPOPMAX'', ''BZMPOP'']"

definition unsupported_error :: "string list \<Rightarrow> go_error" where
  "unsupported_error command =
     (let verb = to_upper (hd command);
          name = (if length command > 1 \<and> verb \<in> set [''CLIENT'', ''DEBUG''] then verb @ '' '' @ to_upper (command ! 1) else verb)
      in Errorf ''redis: ioredis RESP compatibility does not support %s because it changes connection reply semantics or cannot be replayed safely'' [name])"

text \<open>\<open>Inr b\<close>: the command may be queued, and \<open>b\<close> says whether it needs the connection for itself.\<close>

definition validateIORedisQueuedCommand :: "(string \<Rightarrow> bool) \<Rightarrow> string list \<Rightarrow> go_error + bool" where
  "validateIORedisQueuedCommand positive command =
     (let verb = to_upper (hd command);
          second = (\<lambda>w. length command > 1 \<and> equal_fold_lit (command ! 1) w)
      in if verb \<in> set unsupported_verbs then Inl (unsupported_error command)
         else if verb = ''HELLO'' then
           (if length command \<noteq> 2 \<or> command ! 1 \<noteq> ''2'' then Inl (unsupported_error command) else Inr False)
         else if verb \<in> set blocking_verbs then
           (if ioredisBoundedBlockingCommand positive command then Inr True else Inl (unsupported_error command))
         else if verb = ''CLIENT'' then
           (if second ''reply'' \<or> second ''tracking'' \<or> second ''caching'' \<or> second ''pause''
            then Inl (unsupported_error command) else Inr False)
         else if verb = ''XREAD'' \<or> verb = ''XREADGROUP'' then
           (case parseIORedisXReadPrefix positive command of
              Inl _ \<Rightarrow> Inl (Errorf ''redis: ioredis command %s has an invalid STREAMS option prefix'' [verb])
            | Inr x \<Rightarrow> if blocking x \<and> bounded x then Inr True
                       else if blocking x then Inl (unsupported_error command) else Inr False)
         else if verb = ''DEBUG'' then (if second ''sleep'' then Inl (unsupported_error command) else Inr False)
         else Inr False)"

text \<open>The checks of \<^verbatim>\<open>submit\<close> before a request is made.\<close>

fun validate_commands :: "(string \<Rightarrow> bool) \<Rightarrow> bool \<Rightarrow> string list list \<Rightarrow> go_error + bool" where
  "validate_commands positive ex [] = Inr ex"
| "validate_commands positive ex (command # commands) =
     (if command = [] \<or> hd command = '''' then Inl (errors_New ''ioredis command is empty'')
      else case validateIORedisQueuedCommand positive command of
             Inl e \<Rightarrow> Inl e
           | Inr b \<Rightarrow> validate_commands positive (ex \<or> b) commands)"

definition admit :: "(string \<Rightarrow> bool) \<Rightarrow> string list list \<Rightarrow> bool \<Rightarrow> go_error + bool" where
  "admit positive commands pipe =
     (if commands = [] then Inl (errors_New ''ioredis command is empty'')
      else case validate_commands positive False commands of
             Inl e \<Rightarrow> Inl e
           | Inr ex \<Rightarrow>
               if ex \<and> pipe \<and> length commands \<noteq> 1
               then Inl (errors_New ''redis: ioredis RESP compatibility requires bounded blocking commands to be submitted without other pipeline commands'')
               else Inr ex)"

section \<open>Requests, futures and the client\<close>

type_synonym rid = nat

record request =
  commands :: "string list list"
  pipeline :: bool
  quit :: bool
  exclusive :: bool
  replays :: nat
  ambiguousReplays :: nat
  retryFailures :: nat

text \<open>How a request came to be settled; the other fields are the completion its future holds.\<close>

datatype settlement = Answered | Aborted | Exhausted | Failed | Rejected

record completion =
  settled_by :: settlement
  result_Replies :: "IORedisReply list"
  ReplayCount :: nat
  AmbiguousReplays :: nat
  completion_err :: "go_error option"

record client =
  heap :: "rid \<Rightarrow> request"
  next_rid :: rid
  queue :: "rid list"
  closing :: bool
  disconnecting :: bool
  closed :: bool
  ready :: bool
  retryAttempts :: nat
  quitFuture :: "rid option"
  firstReady :: "go_error option option"
  cancelled :: bool
  settled :: "(rid \<times> completion) list"

definition blank_request :: request where
  "blank_request = \<lparr>commands = [], pipeline = False, quit = False, exclusive = False,
     replays = 0, ambiguousReplays = 0, retryFailures = 0\<rparr>"

definition new_client :: client where
  "new_client = \<lparr>heap = (\<lambda>r. blank_request), next_rid = 0, queue = [], closing = False, disconnecting = False,
     closed = False, ready = False, retryAttempts = 0, quitFuture = None, firstReady = None,
     cancelled = False, settled = []\<rparr>"

definition IORedisMaxRetriesError :: go_error where
  "IORedisMaxRetriesError = errors_New ''Reached the max retries per request limit (which is 20). Refer to \"maxRetriesPerRequest\" option for details.''"

definition IORedisAbortError :: go_error where
  "IORedisAbortError = errors_New ''Command aborted due to connection close''"

definition complete :: "settlement \<Rightarrow> rid \<Rightarrow> IORedisReply list \<Rightarrow> go_error option \<Rightarrow> client \<Rightarrow> client" where
  "complete how r replies err c =
     c\<lparr>settled := settled c @ [(r, \<lparr>settled_by = how, result_Replies = replies, ReplayCount = replays (heap c r),
          AmbiguousReplays = ambiguousReplays (heap c r), completion_err = err\<rparr>)]\<rparr>"

definition pop :: "rid \<Rightarrow> client \<Rightarrow> client" where
  "pop r c = (case queue c of [] \<Rightarrow> c | x # q \<Rightarrow> if x = r then c\<lparr>queue := q\<rparr> else c)"

definition remove :: "rid \<Rightarrow> client \<Rightarrow> client" where
  "remove r c = c\<lparr>queue := remove1 r (queue c)\<rparr>"

definition settleFirstReady :: "go_error option \<Rightarrow> client \<Rightarrow> client" where
  "settleFirstReady e c = (if firstReady c = None then c\<lparr>firstReady := Some e\<rparr> else c)"

definition stopAfterQuitFailure :: "client \<Rightarrow> client" where
  "stopAfterQuitFailure c = c\<lparr>disconnecting := True, cancelled := True\<rparr>"

definition setNotReady :: "client \<Rightarrow> client" where
  "setNotReady c = c\<lparr>ready := False\<rparr>"

definition new_request :: "string list list \<Rightarrow> bool \<Rightarrow> bool \<Rightarrow> bool \<Rightarrow> request" where
  "new_request cmds pipe q ex = \<lparr>commands = cmds, pipeline = pipe, quit = q, exclusive = ex,
     replays = 0, ambiguousReplays = 0, retryFailures = 0\<rparr>"

definition allocate :: "request \<Rightarrow> client \<Rightarrow> rid \<times> client" where
  "allocate q c = (next_rid c, c\<lparr>heap := (heap c)(next_rid c := q), next_rid := Suc (next_rid c)\<rparr>)"

text \<open>
  \<^verbatim>\<open>submit\<close> after the command names were normalised: an invalid batch is answered on the spot and
  never becomes a request of the client.
\<close>

definition submit :: "(string \<Rightarrow> bool) \<Rightarrow> string list list \<Rightarrow> bool \<Rightarrow> client \<Rightarrow> (go_error + rid) \<times> client" where
  "submit positive cmds pipe c =
     (case admit positive cmds pipe of
        Inl e \<Rightarrow> (Inl e, c)
      | Inr ex \<Rightarrow>
          let (r, c1) = allocate (new_request cmds pipe False ex) c
          in if closed c \<or> closing c \<or> disconnecting c
             then (Inr r, complete Rejected r [] (Some IORedisConnectionClosedError) c1)
             else (Inr r, c1\<lparr>queue := queue c1 @ [r]\<rparr>))"

text \<open>\<^verbatim>\<open>Quit\<close> up to the point where it waits; \<open>None\<close> when it waits for an earlier shutdown instead.\<close>

definition Quit :: "client \<Rightarrow> rid option \<times> client" where
  "Quit c =
     (if quitFuture c \<noteq> None then (quitFuture c, c)
      else if closed c \<or> closing c \<or> disconnecting c then (None, c)
      else let (r, c1) = allocate (new_request [[''quit'']] False True True) c;
               c2 = c1\<lparr>closing := True, quitFuture := Some r\<rparr>
           in if queue c = [] \<and> \<not> ready c
              then (Some r, (complete Answered r [Reply (VStr ''OK'') None] None
                               (c2\<lparr>disconnecting := True\<rparr>))\<lparr>cancelled := True\<rparr>)
              else (Some r, c2\<lparr>queue := queue c2 @ [r]\<rparr>))"

definition Disconnect :: "client \<Rightarrow> client" where
  "Disconnect c =
     (if closed c \<or> disconnecting c then c
      else (settleFirstReady (Some IORedisConnectionClosedError) (c\<lparr>disconnecting := True\<rparr>))\<lparr>cancelled := True\<rparr>)"

section \<open>Retries\<close>

fun mark_loop :: "rid list \<Rightarrow> (rid \<Rightarrow> request) \<Rightarrow> rid list \<Rightarrow> (rid \<Rightarrow> request) \<times> rid list \<times> rid list" where
  "mark_loop targets h [] = (h, [], [])"
| "mark_loop targets h (r # q) =
     (if r \<notin> set targets
      then (case mark_loop targets h q of (h', kept, exhausted) \<Rightarrow> (h', r # kept, exhausted))
      else let h1 = h(r := (h r)\<lparr>retryFailures := Suc (retryFailures (h r))\<rparr>)
           in case mark_loop targets h1 q of
                (h', kept, exhausted) \<Rightarrow>
                  if retryFailures (h1 r) > IORedisMaxRetriesPerRequest then (h', kept, r # exhausted)
                  else (h', r # kept, exhausted))"

definition settle_exhausted :: "rid \<Rightarrow> client \<Rightarrow> client" where
  "settle_exhausted r c =
     (if pipeline (heap c r)
      then complete Exhausted r (replicate (length (commands (heap c r))) (Reply VNil (Some IORedisMaxRetriesError))) None c
      else let c1 = complete Exhausted r [] (Some IORedisMaxRetriesError) c
           in if quit (heap c r) then stopAfterQuitFailure c1 else c1)"

definition markRequestFailures :: "rid list \<Rightarrow> client \<Rightarrow> client" where
  "markRequestFailures targets c =
     (if targets = [] then c
      else case mark_loop targets (heap c) (queue c) of
             (h, kept, exhausted) \<Rightarrow> fold settle_exhausted exhausted (c\<lparr>heap := h, queue := kept\<rparr>))"

definition connectionFailed :: "rid list \<Rightarrow> client \<Rightarrow> client" where
  "connectionFailed affected c = markRequestFailures affected (c\<lparr>retryAttempts := Suc (retryAttempts c)\<rparr>)"

definition finishClosed :: "go_error \<Rightarrow> client \<Rightarrow> client" where
  "finishClosed e c =
     (if closed c then c
      else fold (\<lambda>r. complete Failed r [] (Some e)) (queue c)
             (settleFirstReady (Some e) (c\<lparr>closed := True, ready := False, queue := []\<rparr>)))"

end
