(* ===== verification/Redis_Session.thy ===== *)
theory Redis_Session
  imports Redis_Client
begin

text \<open>
  The duplex session and the run loop of the ioredis compatibility client
  (\<^verbatim>\<open>redis/ioredis_compat.go\<close>, \<^verbatim>\<open>run\<close>, \<^verbatim>\<open>runDuplexSession\<close> and what they call), as steps.
\<close>

section \<open>The in-flight ledger\<close>

record session =
  scheduled :: "rid list"
  writing :: "rid option"
  inFlight :: "(rid \<times> IORedisReply list) list"
  reading :: bool

definition new_session :: session where
  "new_session = \<lparr>scheduled = [], writing = None, inFlight = [], reading = False\<rparr>"

definition ioredisExclusiveInFlight :: "client \<Rightarrow> session \<Rightarrow> bool" where
  "ioredisExclusiveInFlight c s \<longleftrightarrow> list_ex (\<lambda>(r, rs). exclusive (heap c r)) (inFlight s)"

definition ioredisOutstandingReplies :: "client \<Rightarrow> session \<Rightarrow> nat" where
  "ioredisOutstandingReplies c s = sum_list (map (\<lambda>(r, rs). length (commands (heap c r)) - length rs) (inFlight s))"

definition firstUnscheduled :: "client \<Rightarrow> session \<Rightarrow> rid option" where
  "firstUnscheduled c s = find (\<lambda>r. r \<notin> set (scheduled s)) (queue c)"

text \<open>The result of QUIT: its reply, then the error of closing the transport.\<close>

definition quit_error :: "IORedisReply \<Rightarrow> go_error option \<Rightarrow> go_error option" where
  "quit_error reply close_err =
     (let e = (case ReplyError reply of
                 Some e \<Rightarrow> Some e
               | None \<Rightarrow> if Value reply \<noteq> VStr ''OK''
                         then Some (errors_New ''redis: ioredis QUIT returned an invalid reply'') else close_err)
      in map_option (newIORedisSafeError ''redis: ioredis QUIT failed'') e)"

definition applyDuplexReply :: "go_error option \<Rightarrow> IORedisReply \<Rightarrow> client \<Rightarrow> session \<Rightarrow> client \<times> session \<times> bool" where
  "applyDuplexReply close_err reply c s =
     (case inFlight s of
        [] \<Rightarrow> (c, s, False)
      | (r, rs) # rest \<Rightarrow>
          if Suc (length rs) \<noteq> length (commands (heap c r))
          then (c, s\<lparr>inFlight := (r, rs @ [reply]) # rest\<rparr>, False)
          else let q = heap c r;
                   err = (if quit q then quit_error reply close_err
                          else if \<not> pipeline q \<and> rs = [] then ReplyError reply else None)
               in (complete Answered r (rs @ [reply]) err (pop r c),
                   s\<lparr>inFlight := rest, scheduled := filter (\<lambda>x. x \<noteq> r) (scheduled s)\<rparr>, quit q))"

section \<open>Failures\<close>

text \<open>The replies of a pipeline that was cut off: what arrived, then an abort error per missing reply.\<close>

definition aborted_replies :: "request \<Rightarrow> IORedisReply list \<Rightarrow> IORedisReply list" where
  "aborted_replies q rs = rs @ replicate (length (commands q) - length rs) (Reply VNil (Some IORedisAbortError))"

fun settle_all :: "go_error \<Rightarrow> rid list \<Rightarrow> client \<Rightarrow> client" where
  "settle_all e [] c = c"
| "settle_all e (r # rs) c = settle_all e rs (complete Failed r [] (Some e) (remove r c))"

definition settleDuplexTerminalFailure :: "(rid \<times> IORedisReply list) list \<Rightarrow> rid option \<Rightarrow> go_error \<Rightarrow> client \<Rightarrow> client" where
  "settleDuplexTerminalFailure flight w e c =
     (let ledger = map fst flight;
          rest = (case w of Some r \<Rightarrow> if r \<in> set ledger then [] else [r] | None \<Rightarrow> []);
          quitFailed = list_ex (\<lambda>r. quit (heap c r)) (ledger @ (case w of Some r \<Rightarrow> [r] | None \<Rightarrow> []));
          c1 = settle_all e (ledger @ rest) c
      in if quitFailed then stopAfterQuitFailure c1 else c1)"

definition bump_replay :: "bool \<Rightarrow> rid \<Rightarrow> client \<Rightarrow> client" where
  "bump_replay ambiguous r c =
     c\<lparr>heap := (heap c)(r := (heap c r)\<lparr>replays := Suc (replays (heap c r)),
          ambiguousReplays := (if ambiguous then Suc (ambiguousReplays (heap c r)) else ambiguousReplays (heap c r))\<rparr>)\<rparr>"

text \<open>The loop of \<^verbatim>\<open>reconcileDuplexFailure\<close>: the client, the requests to retry, and whether a QUIT failed.\<close>

fun reconcile_loop :: "(rid \<times> IORedisReply list) list \<Rightarrow> client \<Rightarrow> client \<times> rid list \<times> bool" where
  "reconcile_loop [] c = (c, [], False)"
| "reconcile_loop ((r, rs) # flight) c =
     (let q = heap c r
      in if quit q then
           (case reconcile_loop flight (complete Failed r []
                   (Some (newIORedisSafeError ''redis: ioredis QUIT failed'' IORedisConnectionClosedError)) (pop r c)) of
              (c', retry, _) \<Rightarrow> (c', retry, True))
         else if pipeline q \<and> rs \<noteq> [] then
           reconcile_loop flight (complete Aborted r (aborted_replies q rs) None (pop r c))
         else (case reconcile_loop flight (bump_replay True r c) of
                 (c', retry, quitFailed) \<Rightarrow> (c', r # retry, quitFailed)))"

definition reconcileDuplexFailure ::
    "(rid \<times> IORedisReply list) list \<Rightarrow> rid option \<Rightarrow> IORedisExchange \<Rightarrow> client \<Rightarrow> client" where
  "reconcileDuplexFailure flight w x c =
     (case reconcile_loop flight c of
        (c1, retry, quitFailed) \<Rightarrow>
          (case (case w of
                   None \<Rightarrow> (c1, retry, quitFailed)
                 | Some r \<Rightarrow>
                     if quit (heap c1 r)
                     then (complete Failed r [] (Some (newIORedisSafeError ''redis: ioredis QUIT failed''
                              (case Error x of Some e \<Rightarrow> e | None \<Rightarrow> errors_New ''nil''))) (pop r c1), retry, True)
                     else (bump_replay (MayHaveExecuted x) r c1, retry @ [r], quitFailed)) of
             (c2, retry2, quitFailed2) \<Rightarrow>
               let c3 = markRequestFailures retry2 c2
               in if quitFailed2 then stopAfterQuitFailure c3 else c3))"

text \<open>
  \<^verbatim>\<open>ioredisTerminalError\<close>: marked by its format and one argument, which no plain error has; found
  anywhere in the tree of wrapped errors.
\<close>

definition ioredisTerminalError :: "bool \<Rightarrow> go_error \<Rightarrow> go_error" where
  "ioredisTerminalError closeTransport cause =
     GoError ''ioredis terminal error'' [if closeTransport then ''close'' else ''keep''] [cause]"

fun asIORedisTerminalError :: "go_error \<Rightarrow> go_error option"
  and as_terminal_list :: "go_error list \<Rightarrow> go_error option" where
  "asIORedisTerminalError (GoError f as ws) =
     (if f = ''ioredis terminal error'' \<and> as \<noteq> [] then Some (GoError f as ws) else as_terminal_list ws)"
| "as_terminal_list [] = None"
| "as_terminal_list (w # ws) =
     (case asIORedisTerminalError w of Some t \<Rightarrow> Some t | None \<Rightarrow> as_terminal_list ws)"

section \<open>Steps of a duplex session\<close>

text \<open>A session goes on, or it ends: whether the client stops, and the error of the session.\<close>

datatype session_result = Continue client session | Ended client bool "go_error option"

definition write_ok :: "rid \<Rightarrow> client \<Rightarrow> session \<Rightarrow> session_result" where
  "write_ok r c s = Continue c (s\<lparr>writing := None, inFlight := inFlight s @ [(r, [])]\<rparr>)"

text \<open>
  A failed write.  If a read is under way its result comes first: \<open>late\<close> is that result, read after
  the transport was closed.
\<close>

definition write_failed_session ::
    "go_error option \<Rightarrow> go_error + IORedisReply \<Rightarrow> rid \<Rightarrow> IORedisExchange \<Rightarrow> go_error \<Rightarrow> client \<Rightarrow> session \<Rightarrow> session_result" where
  "write_failed_session close_err late r x e c s0 =
     (let s = s0\<lparr>writing := None\<rparr>
      in case (if reading s then (case late of Inr reply \<Rightarrow> applyDuplexReply close_err reply c (s\<lparr>reading := False\<rparr>)
                                             | Inl _ \<Rightarrow> (c, s\<lparr>reading := False\<rparr>, False))
               else (c, s, False)) of
           (c1, s1, stop) \<Rightarrow>
             if stop then Ended c1 True None
             else if exclusive (heap c1 r) \<and> MayHaveExecuted x
             then Ended (settleDuplexTerminalFailure (inFlight s1) (Some r)
                    (if quit (heap c1 r) then newIORedisSafeError ''redis: ioredis QUIT failed'' e
                     else Errorw ''redis: bounded blocking command was not replayed after an ambiguous write failure: %w'' [] e)
                    c1) False None
             else Ended (reconcileDuplexFailure (inFlight s1) (Some r) x c1) False (Some e))"

text \<open>
  A failed read.  If a write is under way its result comes first: \<open>late\<close> is that exchange.
\<close>

definition read_failed_end :: "go_error \<Rightarrow> client \<Rightarrow> (rid \<times> IORedisReply list) list \<Rightarrow> session_result" where
  "read_failed_end e c flight =
     (case asIORedisTerminalError e of
        Some t \<Rightarrow> Ended (settleDuplexTerminalFailure flight None t c) False None
      | None \<Rightarrow>
          (case flight of
             (r, rs) # _ \<Rightarrow>
               if exclusive (heap c r)
               then Ended (settleDuplexTerminalFailure flight None
                      (if quit (heap c r) then newIORedisSafeError ''redis: ioredis QUIT failed'' e
                       else Errorw ''redis: bounded blocking command was not replayed after a read failure: %w'' [] e)
                      c) False None
               else Ended (reconcileDuplexFailure flight None (failed_exchange e) c) False (Some e)
           | [] \<Rightarrow> Ended (reconcileDuplexFailure flight None (failed_exchange e) c) False (Some e)))"

definition read_failed_session :: "IORedisExchange \<Rightarrow> go_error \<Rightarrow> client \<Rightarrow> session \<Rightarrow> session_result" where
  "read_failed_session late e c s =
     (case writing s of
        None \<Rightarrow> read_failed_end e c (inFlight s)
      | Some r \<Rightarrow>
          if Error late = None then read_failed_end e c (inFlight s @ [(r, [])])
          else (case asIORedisTerminalError e of
                  Some t \<Rightarrow> Ended (settleDuplexTerminalFailure (inFlight s) (Some r) t c) False None
                | None \<Rightarrow> Ended (reconcileDuplexFailure (inFlight s) (Some r) late c) False (Some e)))"

definition read_reply :: "go_error option \<Rightarrow> IORedisReply \<Rightarrow> client \<Rightarrow> session \<Rightarrow> session_result" where
  "read_reply close_err reply c s0 =
     (let s = s0\<lparr>reading := False\<rparr>
      in if inFlight s = []
         then Ended c False (Some (errors_New ''ioredis RESP returned a reply without an in-flight command''))
         else case applyDuplexReply close_err reply c s of
                (c1, s1, stop) \<Rightarrow> if stop then Ended c1 True None else Continue c1 s1)"

inductive session_step :: "client \<Rightarrow> session \<Rightarrow> session_result \<Rightarrow> bool" where
  start_write: "writing s = None \<Longrightarrow> \<not> ioredisExclusiveInFlight c s \<Longrightarrow> firstUnscheduled c s = Some r
    \<Longrightarrow> \<not> exclusive (heap c r) \<or> inFlight s = []
    \<Longrightarrow> session_step c s (Continue c (s\<lparr>scheduled := r # scheduled s, writing := Some r\<rparr>))"
| end_write: "writing s = Some r \<Longrightarrow> session_step c s (write_ok r c s)"
| fail_write: "writing s = Some r \<Longrightarrow> Error x = Some e
    \<Longrightarrow> session_step c s (write_failed_session close_err late r x e c s)"
| start_read: "\<not> reading s \<Longrightarrow> 0 < ioredisOutstandingReplies c s
    \<Longrightarrow> session_step c s (Continue c (s\<lparr>reading := True\<rparr>))"
| end_read: "reading s \<Longrightarrow> session_step c s (read_reply close_err reply c s)"
| fail_read: "reading s \<Longrightarrow> session_step c s (read_failed_session late e c s)"
| idle_close: "writing s = None \<Longrightarrow> \<not> reading s \<Longrightarrow> inFlight s = []
    \<Longrightarrow> session_step c s (Ended c False (Some (errors_New ''ioredis transport closed'')))"
| ctx_done: "cancelled c \<Longrightarrow> session_step c s (Ended c True (Some context_Canceled))"

section \<open>The run loop\<close>

text \<open>
  Where the run loop is: without a transport (and whether it has to wait before connecting), in a
  duplex session, on a plain transport (between exchanges or in one), or returned.
\<close>

datatype phase = Offline bool | Duplex session | Plain "rid option" | Stopped

definition stop_client :: "client \<Rightarrow> client \<times> phase" where
  "stop_client c = (finishClosed IORedisConnectionClosedError c, Stopped)"

definition connected :: "client \<Rightarrow> client" where
  "connected c = settleFirstReady None (c\<lparr>ready := True, retryAttempts := 0\<rparr>)"

fun after_session :: "session_result \<Rightarrow> client \<times> phase" where
  "after_session (Continue c s) = (c, Duplex s)"
| "after_session (Ended c True e) = stop_client c"
| "after_session (Ended c False None) = (setNotReady c, Offline False)"
| "after_session (Ended c False (Some e)) = (connectionFailed [] (setNotReady c), Offline True)"

text \<open>
  The run loop's treatment of one exchange on a plain transport.  \<^verbatim>\<open>transport.Close\<close> can fail after
  QUIT only; \<open>close_err\<close> is that error.
\<close>

definition plain_failure :: "rid \<Rightarrow> IORedisExchange \<Rightarrow> go_error \<Rightarrow> client \<Rightarrow> client \<times> phase" where
  "plain_failure r x e c =
     (let q = heap c r
      in case asIORedisTerminalError e of
           Some t \<Rightarrow>
             (let c1 = pop r (if err_args t = [''close''] then setNotReady c else c);
                  c2 = (if pipeline q \<and> Replies x \<noteq> []
                        then complete Aborted r (aborted_replies q (Replies x)) None c1
                        else complete Failed r [] (Some e) c1)
              in (c2, if err_args t = [''close''] then Offline False else Plain None))
         | None \<Rightarrow>
             if exclusive q \<and> MayHaveExecuted x
             then (complete Failed r [] (Some (Errorw ''redis: bounded blocking command was not replayed after an ambiguous transport failure: %w'' [] e))
                     (pop r (setNotReady c)), Offline False)
             else let c1 = setNotReady c;
                      c2 = (if pipeline q \<and> Replies x \<noteq> []
                            then complete Aborted r (aborted_replies q (Replies x)) None (pop r c1)
                            else bump_replay (MayHaveExecuted x) r c1)
                  in (connectionFailed [r] c2, Offline True))"

definition plain_exchange :: "go_error option \<Rightarrow> rid \<Rightarrow> IORedisExchange \<Rightarrow> client \<Rightarrow> client \<times> phase" where
  "plain_exchange close_err r x c =
     (let q = heap c r;
          err = (case Error x of
                   Some e \<Rightarrow> Some e
                 | None \<Rightarrow> if length (Replies x) \<noteq> length (commands q)
                           then Some (Errorf ''ioredis transport returned %d replies for %d commands''
                                  [itoa (length (Replies x)), itoa (length (commands q))]) else None)
      in if quit q then
           (let qerr = (case err of
                          Some e \<Rightarrow> Some (newIORedisSafeError ''redis: ioredis QUIT failed'' e)
                        | None \<Rightarrow> quit_error (Replies x ! 0) close_err)
            in stop_client (complete Answered r (Replies x) qerr (pop r c)))
         else case err of
                None \<Rightarrow> (complete Answered r (Replies x)
                           (if \<not> pipeline q \<and> length (Replies x) = 1 then ReplyError (Replies x ! 0) else None) (pop r c),
                         Plain None)
              | Some e \<Rightarrow> plain_failure r x e c)"

inductive step :: "client \<times> phase \<Rightarrow> client \<times> phase \<Rightarrow> bool" where
  user_submit: "step (c, ph) (snd (submit positive cmds pipe c), ph)" if "pipe \<or> length cmds = 1"
| user_quit: "step (c, ph) (snd (Quit c), ph)"
| user_disconnect: "step (c, ph) (Disconnect c, ph)"
| run_disconnect: "disconnecting c \<Longrightarrow> ph = Offline b \<or> ph = Plain None \<Longrightarrow> step (c, ph) (stop_client c)"
| run_wait_stopped: "step (c, Offline True) (stop_client c)"
| run_connect_failed: "step (c, Offline b) (connectionFailed (queue c) (settleFirstReady (Some e) c), Offline True)"
| run_connected_duplex: "step (c, Offline b) (connected c, Duplex new_session)"
| run_connected_plain: "step (c, Offline b) (connected c, Plain None)"
| run_session: "session_step c s r \<Longrightarrow> step (c, Duplex s) (after_session r)"
| plain_idle_closed: "queue c = [] \<Longrightarrow> step (c, Plain None) (connectionFailed [] (setNotReady c), Offline True)"
| plain_ctx_done: "queue c = [] \<Longrightarrow> cancelled c \<Longrightarrow> step (c, Plain None) (stop_client c)"
| plain_start: "queue c = r # q \<Longrightarrow> step (c, Plain None) (c, Plain (Some r))"
| plain_end: "step (c, Plain (Some r)) (plain_exchange close_err r x c)"

inductive reachable :: "client \<times> phase \<Rightarrow> bool" where
  start: "reachable (new_client, Offline False)"
| more: "reachable st \<Longrightarrow> step st st' \<Longrightarrow> reachable st'"

end
