(* ===== verification/Redis_Client_Inv.thy ===== *)
theory Redis_Client_Inv
  imports Redis_Session
begin

text \<open>
  The invariant of the ioredis compatibility client and its preservation by the operations on the
  queue, the heap of requests and the settlement log.
\<close>

section \<open>The invariant\<close>

text \<open>Every request ever made is either waiting or settled, once; the queue is in order of submission.\<close>

abbreviation settled_ids :: "client \<Rightarrow> rid set" where
  "settled_ids c \<equiv> fst ` set (settled c)"

definition ids_ok :: "client \<Rightarrow> bool" where
  "ids_ok c \<longleftrightarrow> sorted_wrt (<) (queue c) \<and> distinct (map fst (settled c))
     \<and> set (queue c) \<inter> settled_ids c = {} \<and> set (queue c) \<union> settled_ids c = {..<next_rid c}"

definition req_ok :: "request \<Rightarrow> bool" where
  "req_ok q \<longleftrightarrow> commands q \<noteq> [] \<and> (\<not> pipeline q \<longrightarrow> length (commands q) = 1) \<and> (quit q \<longrightarrow> exclusive q \<and> \<not> pipeline q)"

text \<open>
  Replays never outnumber the failures charged to a request, with one replay of slack while its
  failure is still to be charged; a request that needs the connection for itself is never replayed
  when it may have run.
\<close>

definition counts_ok :: "nat \<Rightarrow> request \<Rightarrow> bool" where
  "counts_ok d q \<longleftrightarrow> retryFailures q \<le> IORedisMaxRetriesPerRequest \<and> replays q \<le> retryFailures q + d
     \<and> ambiguousReplays q \<le> replays q \<and> (exclusive q \<longrightarrow> ambiguousReplays q = 0)"

definition reqs_ok :: "rid set \<Rightarrow> client \<Rightarrow> bool" where
  "reqs_ok T c \<longleftrightarrow> (\<forall>r < next_rid c. req_ok (heap c r))
     \<and> (\<forall>r \<in> set (queue c). counts_ok (if r \<in> T then 1 else 0) (heap c r))"

definition entry_ok :: "request \<Rightarrow> completion \<Rightarrow> bool" where
  "entry_ok q k \<longleftrightarrow> ReplayCount k \<le> Suc IORedisMaxRetriesPerRequest \<and> AmbiguousReplays k \<le> ReplayCount k
     \<and> (exclusive q \<longrightarrow> AmbiguousReplays k = 0)
     \<and> (completion_err k = None \<longrightarrow> length (commands q) \<le> length (result_Replies k))
     \<and> (completion_err k = None \<and> settled_by k \<noteq> Aborted \<longrightarrow> length (result_Replies k) = length (commands q))"

definition log_ok :: "client \<Rightarrow> bool" where
  "log_ok c \<longleftrightarrow> (\<forall>(r, k) \<in> set (settled c). entry_ok (heap c r) k)"

text \<open>A request is answered only when every earlier one is settled.\<close>

definition in_order :: "(rid \<times> completion) list \<Rightarrow> bool" where
  "in_order log \<longleftrightarrow> (\<forall>xs r k ys. log = xs @ (r, k) # ys \<and> settled_by k \<in> {Answered, Aborted} \<longrightarrow> {..<r} \<subseteq> fst ` set xs)"

definition core :: "rid set \<Rightarrow> client \<Rightarrow> bool" where
  "core T c \<longleftrightarrow> ids_ok c \<and> reqs_ok T c \<and> log_ok c \<and> in_order (settled c)"

lemma coreI: "ids_ok c \<Longrightarrow> reqs_ok T c \<Longrightarrow> log_ok c \<Longrightarrow> in_order (settled c) \<Longrightarrow> core T c"
  by (simp add: core_def)

lemma coreD:
  assumes "core T c"
  shows "ids_ok c" "reqs_ok T c" "log_ok c" "in_order (settled c)"
  using assms by (simp_all add: core_def)

text \<open>What an internal operation leaves alone.\<close>

definition statics :: "client \<Rightarrow> client \<Rightarrow> bool" where
  "statics c c' \<longleftrightarrow> next_rid c' = next_rid c \<and> quitFuture c' = quitFuture c \<and> closing c' = closing c
     \<and> closed c' = closed c \<and> set (queue c') \<subseteq> set (queue c)
     \<and> (disconnecting c \<longrightarrow> disconnecting c')
     \<and> (\<forall>r. commands (heap c' r) = commands (heap c r) \<and> pipeline (heap c' r) = pipeline (heap c r)
          \<and> quit (heap c' r) = quit (heap c r) \<and> exclusive (heap c' r) = exclusive (heap c r))"

lemma statics_refl [simp]: "statics c c"
  by (simp add: statics_def)

lemma statics_trans: "statics a b \<Longrightarrow> statics b c \<Longrightarrow> statics a c"
  unfolding statics_def by (metis subset_trans)

lemma in_order_Nil [simp]: "in_order []"
  by (simp add: in_order_def)

lemma in_order_snoc:
  "in_order (log @ [(r, k)]) \<longleftrightarrow> in_order log \<and> (settled_by k \<in> {Answered, Aborted} \<longrightarrow> {..<r} \<subseteq> fst ` set log)"
proof
  assume a: "in_order (log @ [(r, k)])"
  have "{..<r'} \<subseteq> fst ` set xs" if "log = xs @ (r', k') # ys" "settled_by k' \<in> {Answered, Aborted}" for xs r' k' ys
    using a that unfolding in_order_def by (metis append.assoc append_Cons)
  then have "in_order log" unfolding in_order_def by blast
  moreover have "settled_by k \<in> {Answered, Aborted} \<longrightarrow> {..<r} \<subseteq> fst ` set log"
    using a unfolding in_order_def by (metis append_Nil2)
  ultimately show "in_order log \<and> (settled_by k \<in> {Answered, Aborted} \<longrightarrow> {..<r} \<subseteq> fst ` set log)" by blast
next
  assume a: "in_order log \<and> (settled_by k \<in> {Answered, Aborted} \<longrightarrow> {..<r} \<subseteq> fst ` set log)"
  show "in_order (log @ [(r, k)])"
    unfolding in_order_def
  proof (intro allI impI, elim conjE)
    fix xs r' k' ys
    assume e: "log @ [(r, k)] = xs @ (r', k') # ys" and s: "settled_by k' \<in> {Answered, Aborted}"
    show "{..<r'} \<subseteq> fst ` set xs"
    proof (cases ys rule: rev_cases)
      case Nil
      then show ?thesis using e s a by simp
    next
      case (snoc zs z)
      then have "log = xs @ (r', k') # zs" using e by (metis append.assoc append_Cons butlast_snoc)
      then show ?thesis using a s unfolding in_order_def by blast
    qed
  qed
qed

section \<open>Settling one request\<close>

lemma head_older:
  assumes "ids_ok c" and "queue c = r # q"
  shows "{..<r} \<subseteq> settled_ids c"
proof
  fix x assume x: "x \<in> {..<r}"
  have "r \<in> set (queue c)" using assms(2) by simp
  then have "r < next_rid c" using assms(1) unfolding ids_ok_def by blast
  then have "x \<in> set (queue c) \<union> settled_ids c" using assms(1) x unfolding ids_ok_def by auto
  moreover have "x \<notin> set (queue c)"
    using assms x unfolding ids_ok_def by auto
  ultimately show "x \<in> settled_ids c" by blast
qed

lemma sorted_remove1: "sorted_wrt (<) xs \<Longrightarrow> sorted_wrt (<) (remove1 (x :: nat) xs)"
  by (induction xs) (auto dest: notin_set_remove1 set_remove1_subset [THEN subsetD])

lemma core_settle:
  assumes c: "core T c" and r: "r \<in> set (queue c)"
    and how: "how \<in> {Answered, Aborted} \<Longrightarrow> r = hd (queue c)"
    and len: "err = None \<Longrightarrow> length (commands (heap c r)) \<le> length replies
      \<and> (how \<noteq> Aborted \<longrightarrow> length replies = length (commands (heap c r)))"
  shows "core (T - {r}) (complete how r replies err (remove r c))" (is "core _ ?c")
proof (rule coreI)
  note ids = coreD(1) [OF c] and reqs = coreD(2) [OF c]
  have dist: "distinct (queue c)" using ids by (auto simp: ids_ok_def strict_sorted_iff)
  have q: "set (remove1 r (queue c)) = set (queue c) - {r}" using dist by simp
  have notin: "r \<notin> settled_ids c" using ids r by (auto simp: ids_ok_def)
  show "ids_ok ?c"
    using ids r q notin sorted_remove1 [of "queue c" r]
    unfolding ids_ok_def complete_def remove_def by auto
  show "reqs_ok (T - {r}) ?c"
    using reqs q by (auto simp: reqs_ok_def complete_def remove_def)
  have "counts_ok 1 (heap c r)"
    using reqs r by (auto simp: reqs_ok_def counts_ok_def split: if_splits)
  then show "log_ok ?c"
    using coreD(3) [OF c] len by (auto simp: log_ok_def complete_def remove_def entry_ok_def counts_ok_def)
  have "how \<in> {Answered, Aborted} \<longrightarrow> {..<r} \<subseteq> settled_ids c"
    using head_older [OF ids] how r by (cases "queue c") auto
  then show "in_order (settled ?c)"
    using coreD(4) [OF c] by (simp add: complete_def remove_def in_order_snoc)
qed

lemma statics_settle: "statics c (complete how r replies err (remove r c))"
  by (auto simp: statics_def complete_def remove_def dest: notin_set_remove1 set_remove1_subset [THEN subsetD])

lemma pop_head: "queue c = r # q \<Longrightarrow> pop r c = remove r c"
  by (simp add: pop_def remove_def)

lemma core_flags:
  "core T (c\<lparr>closing := a\<rparr>) = core T c" "core T (c\<lparr>disconnecting := a\<rparr>) = core T c"
  "core T (c\<lparr>closed := a\<rparr>) = core T c" "core T (c\<lparr>ready := a\<rparr>) = core T c"
  "core T (c\<lparr>retryAttempts := n\<rparr>) = core T c" "core T (c\<lparr>quitFuture := f\<rparr>) = core T c"
  "core T (c\<lparr>firstReady := g\<rparr>) = core T c" "core T (c\<lparr>cancelled := a\<rparr>) = core T c"
  by (simp_all add: core_def ids_ok_def reqs_ok_def log_ok_def)

lemma core_small [simp]:
  "core T (stopAfterQuitFailure c) = core T c" "core T (setNotReady c) = core T c"
  "core T (settleFirstReady e c) = core T c" "core T (connected c) = core T c"
  by (simp_all add: stopAfterQuitFailure_def setNotReady_def settleFirstReady_def connected_def core_flags)

lemma statics_small:
  "statics c (stopAfterQuitFailure c)" "statics c (setNotReady c)" "statics c (settleFirstReady e c)" "statics c (connected c)"
  "statics c (c\<lparr>retryAttempts := n\<rparr>)"
  by (simp_all add: statics_def stopAfterQuitFailure_def setNotReady_def settleFirstReady_def connected_def)

section \<open>Replays and failures\<close>

lemma core_bump:
  assumes c: "core T c" and r: "r \<in> set (queue c)" "r \<notin> T" and a: "exclusive (heap c r) \<Longrightarrow> \<not> a"
  shows "core (insert r T) (bump_replay a r c)"
proof (rule coreI)
  note reqs = coreD(2) [OF c]
  have rn: "r \<notin> settled_ids c" using coreD(1) [OF c] r by (auto simp: ids_ok_def)
  show "ids_ok (bump_replay a r c)" using coreD(1) [OF c] by (simp add: ids_ok_def bump_replay_def)
  have "counts_ok 0 (heap c r)" using reqs r by (auto simp: reqs_ok_def)
  then show "reqs_ok (insert r T) (bump_replay a r c)"
    using reqs r a by (auto simp: reqs_ok_def bump_replay_def counts_ok_def req_ok_def)
  have "entry_ok (heap (bump_replay a r c) x) k = entry_ok (heap c x) k" for x k
    by (simp add: bump_replay_def entry_ok_def)
  moreover have "settled (bump_replay a r c) = settled c" by (simp add: bump_replay_def)
  ultimately show "log_ok (bump_replay a r c)" using coreD(3) [OF c] by (simp add: log_ok_def)
  show "in_order (settled (bump_replay a r c))" using coreD(4) [OF c] by (simp add: bump_replay_def)
qed

lemma statics_bump: "statics c (bump_replay a r c)"
  by (simp add: statics_def bump_replay_def)

definition charged :: "rid list \<Rightarrow> rid list \<Rightarrow> (rid \<Rightarrow> request) \<Rightarrow> rid \<Rightarrow> request" where
  "charged targets q h r =
     (if r \<in> set q \<and> r \<in> set targets then (h r)\<lparr>retryFailures := Suc (retryFailures (h r))\<rparr> else h r)"

definition spent :: "rid list \<Rightarrow> (rid \<Rightarrow> request) \<Rightarrow> rid \<Rightarrow> bool" where
  "spent targets h r \<longleftrightarrow> r \<in> set targets \<and> retryFailures (h r) \<ge> IORedisMaxRetriesPerRequest"

lemma mark_loop_spec:
  "distinct q \<Longrightarrow> mark_loop targets h q =
     (charged targets q h, filter (\<lambda>r. \<not> spent targets h r) q, filter (spent targets h) q)"
proof (induction q arbitrary: h)
  case Nil
  then show ?case by (simp add: charged_def fun_eq_iff)
next
  case (Cons r q)
  show ?case
  proof (cases "r \<in> set targets")
    case False
    then show ?thesis using Cons by (auto simp: charged_def spent_def fun_eq_iff)
  next
    case True
    let ?h = "h(r := (h r)\<lparr>retryFailures := Suc (retryFailures (h r))\<rparr>)"
    have "charged targets q ?h = charged targets (r # q) h"
      using Cons.prems True by (auto simp: charged_def fun_eq_iff)
    moreover have "filter (spent targets ?h) q = filter (spent targets h) q"
      "filter (\<lambda>x. \<not> spent targets ?h x) q = filter (\<lambda>x. \<not> spent targets h x) q"
      using Cons.prems by (auto simp: spent_def intro!: filter_cong split: if_splits)
    ultimately have IH: "mark_loop targets ?h q =
        (charged targets (r # q) h, filter (\<lambda>x. \<not> spent targets h x) q, filter (spent targets h) q)"
      using Cons.IH [of ?h] Cons.prems by (simp del: fun_upd_apply)
    have "spent targets h r \<longleftrightarrow> IORedisMaxRetriesPerRequest < Suc (retryFailures (h r))"
      using True by (auto simp: spent_def)
    then show ?thesis using True IH by (simp add: Let_def fun_upd_same del: fun_upd_apply)
  qed
qed

text \<open>Settling exhausted requests, one after another.\<close>

definition exhausted_entry :: "(rid \<Rightarrow> request) \<Rightarrow> rid \<Rightarrow> rid \<times> completion" where
  "exhausted_entry h r = (r,
     \<lparr>settled_by = Exhausted,
      result_Replies = (if pipeline (h r) then replicate (length (commands (h r))) (Reply VNil (Some IORedisMaxRetriesError)) else []),
      ReplayCount = replays (h r), AmbiguousReplays = ambiguousReplays (h r),
      completion_err = (if pipeline (h r) then None else Some IORedisMaxRetriesError)\<rparr>)"

lemma fst_exhausted [simp]: "fst (exhausted_entry h r) = r"
  by (simp add: exhausted_entry_def)

lemma fold_settle_exhausted:
  "fold settle_exhausted ex c =
     c\<lparr>settled := settled c @ map (exhausted_entry (heap c)) ex,
       disconnecting := disconnecting c \<or> list_ex (\<lambda>r. \<not> pipeline (heap c r) \<and> quit (heap c r)) ex,
       cancelled := cancelled c \<or> list_ex (\<lambda>r. \<not> pipeline (heap c r) \<and> quit (heap c r)) ex\<rparr>"
proof (induction ex arbitrary: c)
  case (Cons r ex)
  have heap: "heap (settle_exhausted r c) = heap c"
    by (simp add: settle_exhausted_def complete_def stopAfterQuitFailure_def Let_def)
  show ?case
    unfolding fold_simps(2) Cons.IH heap
    by (simp add: settle_exhausted_def complete_def stopAfterQuitFailure_def exhausted_entry_def Let_def)
qed simp

lemma markRequestFailures_eq:
  assumes "distinct (queue c)" and "targets \<noteq> []"
  shows "markRequestFailures targets c =
    (let h = charged targets (queue c) (heap c); ex = filter (spent targets (heap c)) (queue c);
         q = list_ex (\<lambda>r. \<not> pipeline (heap c r) \<and> quit (heap c r)) ex
     in c\<lparr>heap := h, queue := filter (\<lambda>r. \<not> spent targets (heap c) r) (queue c),
          settled := settled c @ map (exhausted_entry h) ex,
          disconnecting := disconnecting c \<or> q, cancelled := cancelled c \<or> q\<rparr>)"
proof -
  have "pipeline (charged targets (queue c) (heap c) r) = pipeline (heap c r)"
    "quit (charged targets (queue c) (heap c) r) = quit (heap c r)" for r
    by (simp_all add: charged_def)
  then show ?thesis
    using assms by (simp add: markRequestFailures_def mark_loop_spec fold_settle_exhausted Let_def)
qed

lemma in_order_append:
  "in_order log \<Longrightarrow> list_all (\<lambda>(r, k). settled_by k \<notin> {Answered, Aborted}) ext \<Longrightarrow> in_order (log @ ext)"
proof (induction ext rule: rev_induct)
  case (snoc e ext)
  obtain r k where "e = (r, k)" by (cases e)
  with snoc show ?case by (simp add: in_order_snoc flip: append_assoc)
qed simp

lemma core_mark:
  assumes c: "core T c" and T: "T \<subseteq> set targets"
  shows "core {} (markRequestFailures targets c)"
proof (cases "targets = []")
  case True
  then show ?thesis using c T by (simp add: markRequestFailures_def)
next
  case False
  note ids = coreD(1) [OF c] and reqs = coreD(2) [OF c]
  have dist: "distinct (queue c)" using ids by (auto simp: ids_ok_def strict_sorted_iff)
  let ?h = "charged targets (queue c) (heap c)" and ?ex = "filter (spent targets (heap c)) (queue c)"
  let ?c = "markRequestFailures targets c"
  note eq = markRequestFailures_eq [OF dist False, unfolded Let_def]
  have ids_ex: "map fst (map (exhausted_entry h) xs) = xs" for h xs by (simp add: comp_def)
  have st: "settled_ids ?c = settled_ids c \<union> set ?ex"
    by (simp add: eq image_Un image_image)
  show ?thesis
  proof (rule coreI)
    have "distinct (map fst (settled ?c))"
      using ids dist by (auto simp: eq ids_ex ids_ok_def simp del: map_map)
    moreover have "sorted_wrt (<) (queue ?c)" using ids by (simp add: eq ids_ok_def sorted_wrt_filter)
    ultimately show "ids_ok ?c" using ids st by (auto simp: ids_ok_def eq)
    have "counts_ok 0 (?h r)" if "r \<in> set (queue c)" "\<not> spent targets (heap c) r" for r
      using reqs that T by (auto simp: reqs_ok_def counts_ok_def charged_def spent_def split: if_splits)
    moreover have "req_ok (?h r) = req_ok (heap c r)" for r by (simp add: charged_def req_ok_def)
    ultimately show "reqs_ok {} ?c" using reqs by (simp add: reqs_ok_def eq)
    have "entry_ok (?h r) (snd (exhausted_entry ?h r))" if "r \<in> set (queue c)" for r
      using reqs that by (auto simp: reqs_ok_def counts_ok_def charged_def exhausted_entry_def entry_ok_def split: if_splits)
    moreover have "entry_ok (?h r) k = entry_ok (heap c r) k" for r k by (simp add: charged_def entry_ok_def)
    ultimately show "log_ok ?c"
      using coreD(3) [OF c] by (auto simp: log_ok_def eq exhausted_entry_def)
    show "in_order (settled ?c)"
      using coreD(4) [OF c] by (auto simp: eq list_all_iff exhausted_entry_def intro: in_order_append)
  qed
qed

lemma statics_mark:
  assumes "distinct (queue c)"
  shows "statics c (markRequestFailures targets c)"
proof (cases "targets = []")
  case False
  show ?thesis unfolding markRequestFailures_eq [OF assms False] Let_def
    by (auto simp: statics_def charged_def)
qed (simp add: markRequestFailures_def)

section \<open>Operations that settle a QUIT stop the client\<close>

definition safe :: "client \<Rightarrow> client \<Rightarrow> bool" where
  "safe c c' \<longleftrightarrow> statics c c' \<and> (\<forall>r \<in> set (queue c) - set (queue c'). quit (heap c r) \<longrightarrow> disconnecting c')"

lemma safe_statics: "safe c c' \<Longrightarrow> statics c c'"
  by (simp add: safe_def)

lemma staticsD:
  assumes "statics c c'"
  shows "next_rid c' = next_rid c" "quitFuture c' = quitFuture c" "closing c' = closing c" "closed c' = closed c"
    "set (queue c') \<subseteq> set (queue c)" "disconnecting c \<Longrightarrow> disconnecting c'"
    "commands (heap c' r) = commands (heap c r)" "pipeline (heap c' r) = pipeline (heap c r)"
    "quit (heap c' r) = quit (heap c r)" "exclusive (heap c' r) = exclusive (heap c r)"
  using assms by (simp_all add: statics_def)

lemma safe_same_queue: "statics c c' \<Longrightarrow> queue c' = queue c \<Longrightarrow> safe c c'"
  by (simp add: safe_def)

lemma safe_trans: "safe a b \<Longrightarrow> safe b c \<Longrightarrow> safe a c"
  unfolding safe_def by (metis Diff_iff statics_trans staticsD(6,9))

lemma small_queue [simp]:
  "queue (stopAfterQuitFailure c) = queue c" "queue (setNotReady c) = queue c"
  "queue (settleFirstReady e c) = queue c" "queue (connected c) = queue c" "queue (bump_replay a r c) = queue c"
  by (simp_all add: stopAfterQuitFailure_def setNotReady_def settleFirstReady_def connected_def bump_replay_def)

lemma safe_small:
  "safe c (stopAfterQuitFailure c)" "safe c (setNotReady c)" "safe c (settleFirstReady e c)" "safe c (connected c)"
  "safe c (c\<lparr>retryAttempts := n\<rparr>)" "safe c (bump_replay a r c)"
  by (simp_all add: safe_same_queue statics_small statics_bump)

lemma safe_stop: "statics c c' \<Longrightarrow> safe c (stopAfterQuitFailure c')"
  using statics_trans [OF _ statics_small(1)] by (auto simp: safe_def stopAfterQuitFailure_def)

lemma safe_settle:
  assumes "core T c" "\<not> quit (heap c r)"
  shows "safe c (complete how r replies err (remove r c))"
proof -
  have "distinct (queue c)" using coreD(1) [OF assms(1)] by (auto simp: ids_ok_def strict_sorted_iff)
  then show ?thesis
    using assms(2) statics_settle by (auto simp: safe_def complete_def remove_def)
qed

lemma core_distinct: "core T c \<Longrightarrow> distinct (queue c)"
  by (drule coreD(1)) (auto simp: ids_ok_def strict_sorted_iff)

lemma core_req: "core T c \<Longrightarrow> r \<in> set (queue c) \<Longrightarrow> req_ok (heap c r)"
  using coreD [of T c] by (auto simp: reqs_ok_def ids_ok_def)

lemma safe_mark:
  assumes c: "core T c"
  shows "safe c (markRequestFailures targets c)"
proof (cases "targets = []")
  case False
  have "\<not> pipeline (heap c r)" if "r \<in> set (queue c)" "quit (heap c r)" for r
    using core_req [OF c that(1)] that(2) by (simp add: req_ok_def)
  then show ?thesis
    using statics_mark [OF core_distinct [OF c], of targets]
    by (auto simp: safe_def markRequestFailures_eq [OF core_distinct [OF c] False] Let_def list_ex_iff)
qed (simp add: markRequestFailures_def safe_def)

lemma core_connectionFailed:
  assumes "core T c" "T \<subseteq> set affected"
  shows "core {} (connectionFailed affected c)" and "safe c (connectionFailed affected c)"
  using assms core_mark [of T "c\<lparr>retryAttempts := Suc (retryAttempts c)\<rparr>" affected]
    safe_trans [OF safe_small(5) safe_mark]
  by (simp_all add: connectionFailed_def core_flags)

section \<open>Failing a list of requests\<close>

lemma settle_all_core:
  assumes "core T c" "distinct rs" "set rs \<subseteq> set (queue c)"
  shows "core (T - set rs) (settle_all e rs c) \<and> statics c (settle_all e rs c)
    \<and> set (queue (settle_all e rs c)) = set (queue c) - set rs"
  using assms
proof (induction rs arbitrary: c T)
  case (Cons r rs)
  let ?c = "complete Failed r [] (Some e) (remove r c)"
  have q: "set (queue ?c) = set (queue c) - {r}"
    using core_distinct [OF Cons.prems(1)] by (simp add: complete_def remove_def)
  have 1: "core (T - {r}) ?c" using Cons.prems by (intro core_settle) auto
  have "set rs \<subseteq> set (queue ?c)" unfolding q using Cons.prems by auto
  from Cons.IH [OF 1 _ this] Cons.prems(2)
  have IH: "core (T - {r} - set rs) (settle_all e rs ?c)" "statics ?c (settle_all e rs ?c)"
    "set (queue (settle_all e rs ?c)) = set (queue ?c) - set rs"
    by simp_all
  have "T - {r} - set rs = T - set (r # rs)" "set (queue c) - {r} - set rs = set (queue c) - set (r # rs)" by auto
  then show ?case
    using IH statics_trans [OF statics_settle IH(2)] by (simp only: q settle_all.simps)
qed simp

lemma core_Diff_empty [simp]: "core ({} - X) c = core {} c"
  by simp

lemma terminal_failure:
  assumes c: "core {} c" and L: "queue c = map fst flight @ (case w of Some r \<Rightarrow> [r] | None \<Rightarrow> []) @ t"
  shows "core {} (settleDuplexTerminalFailure flight w e c)" "safe c (settleDuplexTerminalFailure flight w e c)"
proof -
  let ?w = "case w of Some r \<Rightarrow> [r] | None \<Rightarrow> []"
  have d: "distinct (map fst flight @ ?w @ t)" using core_distinct [OF c] L by simp
  have rest: "(case w of Some r \<Rightarrow> if r \<in> set (map fst flight) then [] else [r] | None \<Rightarrow> []) = ?w"
    using d by (auto split: option.splits)
  have "distinct (map fst flight @ ?w)" "set (map fst flight @ ?w) \<subseteq> set (queue c)" using d L by auto
  note s = settle_all_core [OF c this, of e]
  have "safe c (settle_all e (map fst flight @ ?w) c)" if "\<not> list_ex (\<lambda>r. quit (heap c r)) (map fst flight @ ?w)"
    using s that unfolding safe_def list_ex_iff by blast
  then show "core {} (settleDuplexTerminalFailure flight w e c)" "safe c (settleDuplexTerminalFailure flight w e c)"
    using s safe_stop unfolding settleDuplexTerminalFailure_def Let_def rest by auto
qed

end
