(* ===== verification/Redis_Session_Inv.thy ===== *)
theory Redis_Session_Inv
  imports Redis_Client_Inv
begin

text \<open>
  The invariant of a duplex session, of the run loop and of QUIT, and that every step of the client
  keeps them.
\<close>

section \<open>Reconciling the ledger after a lost connection\<close>

lemma fold_bump:
  assumes "core T c" "distinct rs" "set rs \<subseteq> set (queue c)" "set rs \<inter> T = {}" "\<forall>r \<in> set rs. \<not> exclusive (heap c r)"
  shows "core (T \<union> set rs) (fold (bump_replay True) rs c) \<and> safe c (fold (bump_replay True) rs c)
    \<and> queue (fold (bump_replay True) rs c) = queue c"
  using assms
proof (induction rs arbitrary: c T)
  case (Cons r rs)
  let ?c = "bump_replay True r c"
  have 1: "core (insert r T) ?c" using Cons.prems by (intro core_bump) auto
  have ex: "\<forall>r \<in> set rs. \<not> exclusive (heap ?c r)"
    using Cons.prems(5) staticsD(10) [OF statics_bump] by simp
  have "core (insert r T \<union> set rs) (fold (bump_replay True) rs ?c) \<and> safe ?c (fold (bump_replay True) rs ?c)
    \<and> queue (fold (bump_replay True) rs ?c) = queue ?c"
    using Cons.prems by (intro Cons.IH [OF 1 _ _ _ ex]) auto
  then show ?case using safe_trans [OF safe_small(6) [of c True r]] by simp
qed (simp add: safe_def)

lemma reconcile_tail:
  assumes "\<forall>(r, rs) \<in> set flight. rs = [] \<and> \<not> quit (heap c r)"
  shows "reconcile_loop flight c = (fold (bump_replay True) (map fst flight) c, map fst flight, False)"
  using assms
proof (induction flight arbitrary: c)
  case (Cons x flight)
  obtain r where x: "x = (r, [])" "\<not> quit (heap c r)" using Cons.prems by (cases x) auto
  have "\<forall>(r', rs) \<in> set flight. rs = [] \<and> \<not> quit (heap (bump_replay True r c) r')"
    using Cons.prems staticsD(9) [OF statics_bump] by auto
  from Cons.IH [OF this] show ?case using x by simp
qed simp

text \<open>What reconciliation needs of the ledger: only its first request may have replies, and no request in it is exclusive.\<close>

definition flight_ok :: "client \<Rightarrow> (rid \<times> IORedisReply list) list \<Rightarrow> bool" where
  "flight_ok c flight \<longleftrightarrow> (\<forall>(r, rs) \<in> set flight. length rs < length (commands (heap c r)))
     \<and> (\<forall>(r, rs) \<in> set (tl flight). rs = [])"

lemma reconcile_loop_ok:
  assumes c: "core {} c" and q: "queue c = map fst flight @ t" and f: "flight_ok c flight"
    and nx: "\<forall>r \<in> fst ` set flight. \<not> exclusive (heap c r)"
  obtains c' retry where "reconcile_loop flight c = (c', retry, False)" "core (set retry) c'" "safe c c'"
    "set retry \<subseteq> fst ` set flight" "set t \<subseteq> set (queue c')" "flight = [] \<Longrightarrow> c' = c \<and> retry = []"
proof (cases flight)
  case Nil
  then show ?thesis using that [of c "[]"] c q by (simp add: safe_def)
next
  case (Cons x rest)
  obtain r rs where x: "x = (r, rs)" by (cases x)
  have dist: "distinct (r # map fst rest @ t)" using core_distinct [OF c] q Cons x by simp
  have nq: "\<not> quit (heap c y)" if "y \<in> fst ` set flight" for y
    using core_req [OF c, of y] nx q that by (auto simp: req_ok_def)
  have tail: "rs' = [] \<and> \<not> quit (heap c y)" if "(y, rs') \<in> set rest" for y rs'
  proof -
    have "y \<in> fst ` set flight" using that Cons by (auto intro: rev_image_eqI)
    moreover have "rs' = []" using that f Cons by (auto simp: flight_ok_def)
    ultimately show ?thesis using nq by blast
  qed
  show ?thesis
  proof (cases "pipeline (heap c r) \<and> rs \<noteq> []")
    case True
    let ?c = "complete Aborted r (aborted_replies (heap c r) rs) None (remove r c)"
    have len: "length (commands (heap c r)) \<le> length (aborted_replies (heap c r) rs)"
      by (simp add: aborted_replies_def)
    have hq: "queue c = r # map fst rest @ t" using q Cons x by simp
    have "core ({} - {r}) ?c" by (rule core_settle [OF c]) (use hq len in simp_all)
    then have core: "core {} ?c" by simp
    have st: "safe c ?c" by (rule safe_settle [OF c]) (use nq Cons x in simp)
    have qc: "queue ?c = map fst rest @ t" using q Cons x by (simp add: complete_def remove_def)
    have "reconcile_loop flight c = reconcile_loop rest ?c"
      using True nq Cons x pop_head [of c r] q by simp
    also have "\<dots> = (fold (bump_replay True) (map fst rest) ?c, map fst rest, False)"
      using tail staticsD(9) [OF safe_statics [OF st]] by (intro reconcile_tail) auto
    finally have eq: "reconcile_loop flight c = (fold (bump_replay True) (map fst rest) ?c, map fst rest, False)" .
    have "core ({} \<union> set (map fst rest)) (fold (bump_replay True) (map fst rest) ?c)
        \<and> safe ?c (fold (bump_replay True) (map fst rest) ?c) \<and> queue (fold (bump_replay True) (map fst rest) ?c) = queue ?c"
      using core dist nx qc staticsD(10) [OF safe_statics [OF st]] Cons by (intro fold_bump) auto
    then show ?thesis using that [OF eq] safe_trans [OF st] qc Cons by auto
  next
    case False
    have "reconcile_loop rest (bump_replay True r c)
        = (fold (bump_replay True) (map fst rest) (bump_replay True r c), map fst rest, False)"
      using tail staticsD(9) [OF statics_bump] by (intro reconcile_tail) auto
    then have eq: "reconcile_loop flight c = (fold (bump_replay True) (map fst rest) (bump_replay True r c), r # map fst rest, False)"
      using False nq Cons x by auto
    have "core ({} \<union> set (map fst flight)) (fold (bump_replay True) (map fst flight) c)
        \<and> safe c (fold (bump_replay True) (map fst flight) c) \<and> queue (fold (bump_replay True) (map fst flight) c) = queue c"
      using c core_distinct [OF c] nx q by (intro fold_bump) auto
    then show ?thesis using that [OF eq] q Cons x by auto
  qed
qed

lemma reconcile_ok:
  assumes c: "core {} c" and q: "queue c = map fst flight @ (case w of Some r \<Rightarrow> [r] | None \<Rightarrow> []) @ t"
    and f: "flight_ok c flight" and nx: "\<forall>r \<in> fst ` set flight. \<not> exclusive (heap c r)"
    and wx: "\<And>r. w = Some r \<Longrightarrow> exclusive (heap c r) \<Longrightarrow> flight = [] \<and> \<not> MayHaveExecuted x"
  shows "core {} (reconcileDuplexFailure flight w x c)" "safe c (reconcileDuplexFailure flight w x c)"
proof -
  let ?t = "(case w of Some r \<Rightarrow> [r] | None \<Rightarrow> []) @ t"
  obtain c' retry where l: "reconcile_loop flight c = (c', retry, False)" "core (set retry) c'" "safe c c'"
    "set retry \<subseteq> fst ` set flight" "set ?t \<subseteq> set (queue c')" "flight = [] \<Longrightarrow> c' = c \<and> retry = []"
    using reconcile_loop_ok [OF c _ f nx, of ?t] q by blast
  have "core {} (reconcileDuplexFailure flight w x c) \<and> safe c (reconcileDuplexFailure flight w x c)"
  proof (cases w)
    case None
    then show ?thesis
      using core_mark [OF l(2) subset_refl] safe_trans [OF l(3) safe_mark [OF l(2)]]
      by (simp add: reconcileDuplexFailure_def l(1))
  next
    case (Some r)
    have rq: "r \<in> set (queue c')" "r \<notin> set retry"
      using l(4,5) Some core_distinct [OF c] q by auto
    show ?thesis
    proof (cases "quit (heap c' r)")
      case True
      have "quit (heap c r)" using True staticsD(9) [OF safe_statics [OF l(3)]] by simp
      then have "exclusive (heap c r)" using core_req [OF c, of r] q Some by (simp add: req_ok_def)
      then have fl: "flight = []" "c' = c" "retry = []" using wx Some l(6) by auto
      let ?e = "Some (newIORedisSafeError ''redis: ioredis QUIT failed'' (case Error x of Some e \<Rightarrow> e | None \<Rightarrow> errors_New ''nil''))"
      have "core ({} - {r}) (complete Failed r [] ?e (remove r c))"
        by (rule core_settle [OF c]) (use q Some in simp_all)
      moreover have "pop r c = remove r c" using q Some fl pop_head by simp
      ultimately show ?thesis
        using True Some fl l(1) safe_stop [OF statics_settle]
        by (simp add: reconcileDuplexFailure_def markRequestFailures_def)
    next
      case False
      have "exclusive (heap c' r) \<Longrightarrow> \<not> MayHaveExecuted x"
        using wx [OF Some] staticsD(10) [OF safe_statics [OF l(3)]] by simp
      then have b: "core (insert r (set retry)) (bump_replay (MayHaveExecuted x) r c')"
        using core_bump [OF l(2) rq] by simp
      have "core {} (markRequestFailures (retry @ [r]) (bump_replay (MayHaveExecuted x) r c'))"
        by (rule core_mark [OF b]) simp
      then show ?thesis
        using False Some safe_trans [OF l(3) safe_trans [OF safe_small(6) safe_mark [OF b]]]
        by (simp add: reconcileDuplexFailure_def l(1))
    qed
  qed
  then show "core {} (reconcileDuplexFailure flight w x c)" "safe c (reconcileDuplexFailure flight w x c)"
    by simp_all
qed

section \<open>The invariant of a session\<close>

text \<open>The requests the connection owns, in the order they were put on it.\<close>

definition owned :: "session \<Rightarrow> rid list" where
  "owned s = map fst (inFlight s) @ (case writing s of Some r \<Rightarrow> [r] | None \<Rightarrow> [])"

definition sess_ok :: "client \<Rightarrow> session \<Rightarrow> bool" where
  "sess_ok c s \<longleftrightarrow> (\<exists>t. queue c = owned s @ t) \<and> set (scheduled s) = set (owned s) \<and> flight_ok c (inFlight s)
     \<and> (\<forall>r \<in> set (owned s). exclusive (heap c r) \<longrightarrow> owned s = [r]) \<and> (reading s \<longrightarrow> inFlight s \<noteq> [])"

lemma sess_okD:
  assumes "sess_ok c s"
  obtains t where "queue c = owned s @ t" "set (scheduled s) = set (owned s)" "flight_ok c (inFlight s)"
    "\<And>r. r \<in> set (owned s) \<Longrightarrow> exclusive (heap c r) \<Longrightarrow> owned s = [r]" "reading s \<Longrightarrow> inFlight s \<noteq> []"
  using assms unfolding sess_ok_def by blast

lemma sess_ok_new: "sess_ok c new_session"
  by (simp add: sess_ok_def new_session_def owned_def flight_ok_def)

lemma find_append_notin: "\<forall>x \<in> set xs. \<not> P x \<Longrightarrow> find P (xs @ ys) = find P ys"
  by (induction xs) auto

lemma firstUnscheduled_next:
  assumes "queue c = owned s @ t" "set (scheduled s) = set (owned s)" "distinct (queue c)"
    "firstUnscheduled c s = Some r"
  obtains t' where "t = r # t'"
proof -
  let ?P = "\<lambda>x. x \<notin> set (owned s)"
  have "find ?P t = Some r"
    using assms by (simp add: firstUnscheduled_def find_append_notin)
  moreover have "\<forall>x \<in> set t. ?P x" using assms(1,3) by auto
  ultimately show ?thesis using that by (cases t) auto
qed

lemma start_write_ok:
  assumes c: "core {} c" and s: "sess_ok c s" and w: "writing s = None" "\<not> ioredisExclusiveInFlight c s"
    "firstUnscheduled c s = Some r" "\<not> exclusive (heap c r) \<or> inFlight s = []"
  shows "sess_ok c (s\<lparr>scheduled := r # scheduled s, writing := Some r\<rparr>)" (is "sess_ok c ?s")
proof -
  obtain t where t: "queue c = owned s @ t" "set (scheduled s) = set (owned s)" "flight_ok c (inFlight s)"
    "reading s \<Longrightarrow> inFlight s \<noteq> []"
    using sess_okD [OF s] by metis
  obtain t' where t': "t = r # t'" using firstUnscheduled_next [OF t(1,2) core_distinct [OF c] w(3)] .
  have o: "owned ?s = owned s @ [r]" "owned s = map fst (inFlight s)" by (simp_all add: owned_def w(1))
  have nx: "\<not> exclusive (heap c x)" if "x \<in> set (owned s)" for x
    using that w(2) unfolding o(2) by (auto simp: ioredisExclusiveInFlight_def list_ex_iff)
  have "exclusive (heap c x) \<longrightarrow> owned s @ [r] = [x]" if "x \<in> set (owned s @ [r])" for x
  proof (cases "x = r")
    case True
    then show ?thesis using w(4) o(2) by auto
  next
    case False
    then show ?thesis using that nx by simp
  qed
  moreover have "queue c = (owned s @ [r]) @ t'" using t(1) t' by simp
  moreover have "set (scheduled ?s) = set (owned s @ [r])" using t(2) by simp
  ultimately show ?thesis using t(3,4) unfolding sess_ok_def o(1) by auto
qed

lemma end_write_ok:
  assumes c: "core {} c" and s: "sess_ok c s" and w: "writing s = Some r"
  shows "sess_ok c (s\<lparr>writing := None, inFlight := inFlight s @ [(r, [])]\<rparr>)" (is "sess_ok c ?s")
proof -
  have o: "owned ?s = owned s" by (simp add: owned_def w)
  have "r \<in> set (queue c)" using s w by (auto simp: sess_ok_def owned_def)
  then have "commands (heap c r) \<noteq> []" using core_req [OF c] by (simp add: req_ok_def)
  then have "flight_ok c (inFlight ?s)" using s by (cases "inFlight s") (auto simp: sess_ok_def flight_ok_def)
  then show ?thesis using s o by (simp add: sess_ok_def)
qed

text \<open>A reply goes to the oldest request in flight, which is the oldest request waiting.\<close>

lemma apply_reply_ok:
  assumes c: "core {} c" and s: "sess_ok c s" and ap: "applyDuplexReply close_err reply c s = (c', s', stop)"
    and rd: "\<not> reading s"
  shows "core {} c'" "statics c c'" "\<not> stop \<Longrightarrow> safe c c'" "sess_ok c' s'" "writing s' = writing s"
proof -
  have "core {} c' \<and> statics c c' \<and> (\<not> stop \<longrightarrow> safe c c') \<and> sess_ok c' s' \<and> writing s' = writing s"
  proof (cases "inFlight s")
    case Nil
    then show ?thesis using ap c s by (simp add: applyDuplexReply_def safe_def)
  next
    case (Cons x rest)
    obtain r rs where x: "x = (r, rs)" by (cases x)
    obtain t where t: "queue c = owned s @ t" "set (scheduled s) = set (owned s)" "flight_ok c (inFlight s)"
      "\<And>r. r \<in> set (owned s) \<Longrightarrow> exclusive (heap c r) \<Longrightarrow> owned s = [r]"
      using sess_okD [OF s] by metis
    have lt: "length rs < length (commands (heap c r))" using t(3) Cons x by (simp add: flight_ok_def)
    show ?thesis
    proof (cases "Suc (length rs) = length (commands (heap c r))")
      case False
      then have e: "c' = c" "s' = s\<lparr>inFlight := (r, rs @ [reply]) # rest\<rparr>"
        using ap Cons x by (simp_all add: applyDuplexReply_def)
      have o: "owned s' = owned s" using e Cons x by (simp add: owned_def)
      have "flight_ok c (inFlight s')" using t(3) lt False e Cons x by (auto simp: flight_ok_def)
      then show ?thesis using c s o e rd by (simp add: sess_ok_def safe_def)
    next
      case True
      let ?err = "if quit (heap c r) then quit_error reply close_err
        else if \<not> pipeline (heap c r) \<and> rs = [] then ReplyError reply else None"
      let ?c = "complete Answered r (rs @ [reply]) ?err (remove r c)"
      have hq: "queue c = r # owned (s\<lparr>inFlight := rest\<rparr>) @ t" using t(1) Cons x by (simp add: owned_def)
      have e: "c' = ?c" "s' = s\<lparr>inFlight := rest, scheduled := filter (\<lambda>y. y \<noteq> r) (scheduled s)\<rparr>" "stop = quit (heap c r)"
        using ap Cons x True pop_head [OF hq] unfolding applyDuplexReply_def Let_def by auto
      have "core ({} - {r}) ?c" by (rule core_settle [OF c]) (use hq True in simp_all)
      then have core: "core {} c'" using e by simp
      have st: "statics c c'" using statics_settle e by simp
      have o: "owned s = r # owned s'" using e Cons x by (simp add: owned_def)
      have "queue c' = owned s' @ t" using t(1) o e by (simp add: complete_def remove_def)
      moreover have "set (scheduled s') = set (owned s')"
      proof -
        have "set (scheduled s') = set (owned s) - {r}" using e(2) t(2) by auto
        moreover have "r \<notin> set (owned s')" using t(1) o core_distinct [OF c] by simp
        ultimately show ?thesis using o by simp
      qed
      moreover have "flight_ok c' (inFlight s')"
        using t(3) e Cons staticsD(7) [OF st] by (cases rest) (auto simp: flight_ok_def)
      moreover have "exclusive (heap c' y) \<longrightarrow> owned s' = [y]" if "y \<in> set (owned s')" for y
        using t(4) [of y] that o staticsD(10) [OF st] by auto
      ultimately have "sess_ok c' s'" using rd e by (simp add: sess_ok_def)
      moreover have "\<not> stop \<longrightarrow> safe c c'" using safe_settle [OF c] e by simp
      ultimately show ?thesis using core st e by simp
    qed
  qed
  then show "core {} c'" "statics c c'" "\<not> stop \<Longrightarrow> safe c c'" "sess_ok c' s'" "writing s' = writing s" by simp_all
qed

end
