(* ===== verification/Redis_Run_Inv.thy ===== *)
theory Redis_Run_Inv
  imports Redis_Session_Inv
begin

text \<open>
  Every step of a duplex session and of the run loop, and every call of a user, keeps the invariant
  of the client.
\<close>

section \<open>Steps of a session\<close>

primrec res_ok :: "client \<Rightarrow> session_result \<Rightarrow> bool" where
  "res_ok c (Continue c' s') \<longleftrightarrow> core {} c' \<and> safe c c' \<and> sess_ok c' s'"
| "res_ok c (Ended c' stop e) \<longleftrightarrow> core {} c' \<and> statics c c' \<and> (\<not> stop \<longrightarrow> safe c c')"

lemma res_ok_failure:
  "core {} c' \<Longrightarrow> safe c0 c \<Longrightarrow> safe c c' \<Longrightarrow> res_ok c0 (Ended c' False e)"
  using safe_trans safe_statics by fastforce

lemma owned_writing:
  assumes "sess_ok c s" "writing s = Some r"
  obtains t where "queue c = map fst (inFlight s) @ [r] @ t" "flight_ok c (inFlight s)"
    "\<forall>x \<in> fst ` set (inFlight s). \<not> exclusive (heap c x)" "exclusive (heap c r) \<longrightarrow> inFlight s = []"
proof -
  obtain t where t: "queue c = owned s @ t" "flight_ok c (inFlight s)"
    "\<And>x. x \<in> set (owned s) \<Longrightarrow> exclusive (heap c x) \<Longrightarrow> owned s = [x]"
    using sess_okD [OF assms(1)] by metis
  have o: "owned s = map fst (inFlight s) @ [r]" using assms(2) by (simp add: owned_def)
  show ?thesis
  proof (rule that)
    show "queue c = map fst (inFlight s) @ [r] @ t" using t(1) o by simp
    show "\<forall>x \<in> fst ` set (inFlight s). \<not> exclusive (heap c x)"
    proof (intro ballI notI)
      fix x assume x: "x \<in> fst ` set (inFlight s)" "exclusive (heap c x)"
      have "owned s = [x]" by (rule t(3) [OF _ x(2)]) (simp add: o x(1))
      then show False using o x(1) by (cases "inFlight s") auto
    qed
    show "exclusive (heap c r) \<longrightarrow> inFlight s = []" using t(3) [of r] o by simp
  qed (rule t(2))
qed

lemma applyDuplexReply_writing:
  "applyDuplexReply ce reply c (s\<lparr>writing := w\<rparr>) =
     (case applyDuplexReply ce reply c s of (c', s', stop) \<Rightarrow> (c', s'\<lparr>writing := w\<rparr>, stop))"
  by (auto simp: applyDuplexReply_def Let_def split: list.splits)

text \<open>A reply read while a write fails is delivered before the failure is dealt with.\<close>

lemma late_reply:
  assumes c: "core {} c" and s: "sess_ok c s" and w: "writing s = Some r"
  obtains c1 s1 stop where
    "(if reading (s\<lparr>writing := None\<rparr>)
      then (case late of Inr reply \<Rightarrow> applyDuplexReply ce reply c (s\<lparr>writing := None, reading := False\<rparr>)
                       | Inl _ \<Rightarrow> (c, s\<lparr>writing := None, reading := False\<rparr>, False))
      else (c, s\<lparr>writing := None\<rparr>, False)) = (c1, s1, stop)"
    "core {} c1" "statics c c1" "\<not> stop \<longrightarrow> safe c c1" "sess_ok c1 (s1\<lparr>writing := Some r\<rparr>)"
proof -
  have nr: "sess_ok c (s\<lparr>reading := False\<rparr>)" using s by (simp add: sess_ok_def owned_def)
  have keep: "s\<lparr>writing := None, reading := False, writing := Some r\<rparr> = s\<lparr>reading := False\<rparr>"
    "s\<lparr>writing := None, writing := Some r\<rparr> = s" using w by simp_all
  consider (late) reply where "reading s" "late = Inr reply" | (none) e where "reading s" "late = Inl e" | (idle) "\<not> reading s"
    by (cases late) auto
  then show ?thesis
  proof cases
    case late
    obtain c' s' stop where ap: "applyDuplexReply ce reply c (s\<lparr>reading := False\<rparr>) = (c', s', stop)"
      by (cases "applyDuplexReply ce reply c (s\<lparr>reading := False\<rparr>)")
    note ok = apply_reply_ok [OF c nr ap]
    have "s'\<lparr>writing := None, writing := Some r\<rparr> = s'" using ok(5) w by simp
    moreover have sw: "s\<lparr>writing := None, reading := False\<rparr> = s\<lparr>reading := False, writing := None\<rparr>" by simp
    have "applyDuplexReply ce reply c (s\<lparr>writing := None, reading := False\<rparr>) = (c', s'\<lparr>writing := None\<rparr>, stop)"
      unfolding sw applyDuplexReply_writing ap by simp
    ultimately show ?thesis using that [of c' "s'\<lparr>writing := None\<rparr>" stop] ok late by simp
  next
    case none
    then show ?thesis
      using that [of c "s\<lparr>writing := None, reading := False\<rparr>" False] c nr keep
      by (simp add: safe_def)
  next
    case idle
    then show ?thesis using that [of c "s\<lparr>writing := None\<rparr>" False] c s keep by (simp add: safe_def)
  qed
qed

lemma write_failed_ok:
  assumes c: "core {} c" and s: "sess_ok c s" and w: "writing s = Some r"
  shows "res_ok c (write_failed_session ce late r x e c s)"
proof -
  obtain c1 s1 stop where l: "(if reading (s\<lparr>writing := None\<rparr>)
      then (case late of Inr reply \<Rightarrow> applyDuplexReply ce reply c (s\<lparr>writing := None, reading := False\<rparr>)
                       | Inl _ \<Rightarrow> (c, s\<lparr>writing := None, reading := False\<rparr>, False))
      else (c, s\<lparr>writing := None\<rparr>, False)) = (c1, s1, stop)"
    "core {} c1" "statics c c1" "\<not> stop \<longrightarrow> safe c c1" "sess_ok c1 (s1\<lparr>writing := Some r\<rparr>)"
    by (rule late_reply [OF c s w, where late = late and ce = ce])
  have w1: "writing (s1\<lparr>writing := Some r\<rparr>) = Some r" and f1: "inFlight (s1\<lparr>writing := Some r\<rparr>) = inFlight s1"
    by simp_all
  obtain t where t: "queue c1 = map fst (inFlight s1) @ [r] @ t" "flight_ok c1 (inFlight s1)"
    "\<forall>x \<in> fst ` set (inFlight s1). \<not> exclusive (heap c1 x)" "exclusive (heap c1 r) \<longrightarrow> inFlight s1 = []"
    by (rule owned_writing [OF l(5) w1, unfolded f1])
  show ?thesis
  proof (cases stop)
    case True
    then show ?thesis using l by (simp add: write_failed_session_def Let_def)
  next
    case False
    have sf: "safe c c1" using l(4) False by simp
    show ?thesis
    proof (cases "exclusive (heap c1 r) \<and> MayHaveExecuted x")
      case True
      note ok = terminal_failure [OF l(2), of "inFlight s1" "Some r" t]
      show ?thesis
        using False True l(1) t(1) by (simp add: write_failed_session_def Let_def res_ok_failure [OF ok(1) sf ok(2)] del: res_ok.simps)
    next
      case nt: False
      have wx: "\<And>r'. Some r = Some r' \<Longrightarrow> exclusive (heap c1 r') \<Longrightarrow> inFlight s1 = [] \<and> \<not> MayHaveExecuted x"
        using nt t(4) by auto
      have q: "queue c1 = map fst (inFlight s1) @ (case Some r of Some r \<Rightarrow> [r] | None \<Rightarrow> []) @ t" using t(1) by simp
      note ok = reconcile_ok [OF l(2) q t(2,3) wx]
      show ?thesis
        using False nt l(1) res_ok_failure [OF ok(1) sf ok(2)]
        by (auto simp: write_failed_session_def Let_def simp del: res_ok.simps)
    qed
  qed
qed

lemma read_failed_end_ok:
  assumes c: "core {} c" and q: "queue c = map fst flight @ t" and f: "flight_ok c flight"
    and alone: "\<And>r. r \<in> fst ` set flight \<Longrightarrow> exclusive (heap c r) \<Longrightarrow> map fst flight = [r]"
  shows "res_ok c (read_failed_end e c flight)"
proof -
  have q': "queue c = map fst flight @ (case None of Some r \<Rightarrow> [r] | None \<Rightarrow> []) @ t" using q by simp
  note term_ok = terminal_failure [OF c q']
  have fail: "res_ok c (Ended c' False x)" if "core {} c'" "safe c c'" for c' x
    using that safe_statics by simp
  have rec: "res_ok c (Ended (reconcileDuplexFailure flight None (failed_exchange e) c) False (Some e))"
    if "\<forall>r \<in> fst ` set flight. \<not> exclusive (heap c r)"
    by (rule fail; rule reconcile_ok [OF c q' f that]) simp_all
  show ?thesis
  proof (cases "asIORedisTerminalError e")
    case (Some t)
    then show ?thesis using fail term_ok by (simp add: read_failed_end_def del: res_ok.simps)
  next
    case None
    show ?thesis
    proof (cases flight)
      case Nil
      then show ?thesis using None rec by (simp add: read_failed_end_def del: res_ok.simps)
    next
      case (Cons x rest)
      obtain r rs where x: "x = (r, rs)" by (cases x)
      show ?thesis
      proof (cases "exclusive (heap c r)")
        case True
        then show ?thesis
          using None Cons x fail term_ok by (simp add: read_failed_end_def del: res_ok.simps)
      next
        case False
        have "\<not> exclusive (heap c y)" if "y \<in> fst ` set flight" for y
          using alone [OF that] False Cons x by auto
        then have "res_ok c (Ended (reconcileDuplexFailure flight None (failed_exchange e) c) False (Some e))"
          using rec by blast
        then show ?thesis using None Cons x False by (simp add: read_failed_end_def del: res_ok.simps)
      qed
    qed
  qed
qed

lemma read_failed_ok:
  assumes c: "core {} c" and s: "sess_ok c s" and rd: "reading s"
  shows "res_ok c (read_failed_session late e c s)"
proof (cases "writing s")
  case None
  then have o: "owned s = map fst (inFlight s)" by (simp add: owned_def)
  obtain t where "queue c = map fst (inFlight s) @ t" "flight_ok c (inFlight s)"
    "\<And>r. r \<in> fst ` set (inFlight s) \<Longrightarrow> exclusive (heap c r) \<Longrightarrow> map fst (inFlight s) = [r]"
    using sess_okD [OF s] unfolding o set_map by metis
  then show ?thesis using None read_failed_end_ok [OF c] by (simp add: read_failed_session_def)
next
  case (Some r)
  obtain t where t: "queue c = map fst (inFlight s) @ [r] @ t" "flight_ok c (inFlight s)"
    "\<forall>x \<in> fst ` set (inFlight s). \<not> exclusive (heap c x)" "exclusive (heap c r) \<longrightarrow> inFlight s = []"
    by (rule owned_writing [OF s Some])
  have ne: "inFlight s \<noteq> []" using s rd by (simp add: sess_ok_def)
  have rx: "\<not> exclusive (heap c r)" using t(4) ne by blast
  show ?thesis
  proof (cases "Error late")
    case late: None
    have "sess_ok c (s\<lparr>writing := None, inFlight := inFlight s @ [(r, [])]\<rparr>)" by (rule end_write_ok [OF c s Some])
    then have "flight_ok c (inFlight s @ [(r, [])])" by (simp add: sess_ok_def)
    then have "res_ok c (read_failed_end e c (inFlight s @ [(r, [])]))"
      using t rx by (intro read_failed_end_ok [OF c, of _ t]) auto
    then show ?thesis using Some late by (simp add: read_failed_session_def)
  next
    case late: (Some y)
    have q: "queue c = map fst (inFlight s) @ (case Some r of Some r \<Rightarrow> [r] | None \<Rightarrow> []) @ t" using t(1) by simp
    have fail: "res_ok c (Ended c' False x)" if "core {} c'" "safe c c'" for c' x
      using that safe_statics by simp
    have "res_ok c (Ended (reconcileDuplexFailure (inFlight s) (Some r) late c) False (Some e))"
      by (rule fail; rule reconcile_ok [OF c q t(2,3)]) (use rx in simp_all)
    moreover have "res_ok c (Ended (settleDuplexTerminalFailure (inFlight s) (Some r) z c) False None)" for z
      by (rule fail; rule terminal_failure [OF c q])
    ultimately show ?thesis using Some late
      by (simp add: read_failed_session_def split: option.split del: res_ok.simps)
  qed
qed

lemma read_reply_ok:
  assumes c: "core {} c" and s: "sess_ok c s" and rd: "reading s"
  shows "res_ok c (read_reply ce reply c s)"
proof -
  have ne: "inFlight s \<noteq> []" using s rd by (simp add: sess_ok_def)
  have nr: "sess_ok c (s\<lparr>reading := False\<rparr>)" using s by (simp add: sess_ok_def owned_def)
  obtain c' s' stop where ap: "applyDuplexReply ce reply c (s\<lparr>reading := False\<rparr>) = (c', s', stop)"
    by (cases "applyDuplexReply ce reply c (s\<lparr>reading := False\<rparr>)")
  show ?thesis using apply_reply_ok [OF c nr ap] ne ap by (simp add: read_reply_def Let_def)
qed

lemma session_step_ok:
  assumes "session_step c s r" "core {} c" "sess_ok c s"
  shows "res_ok c r"
  using assms
proof (cases rule: session_step.cases)
  case (start_write r')
  then show ?thesis using assms start_write_ok by (simp add: safe_def)
next
  case (end_write r')
  then show ?thesis using assms end_write_ok by (simp add: write_ok_def safe_def)
next
  case (fail_write r' x e ce late)
  then show ?thesis using assms write_failed_ok by blast
next
  case start_read
  moreover have "inFlight s \<noteq> []" using start_read by (auto simp: ioredisOutstandingReplies_def)
  ultimately show ?thesis using assms by (simp add: sess_ok_def owned_def safe_def)
next
  case (end_read ce reply)
  then show ?thesis using assms read_reply_ok by blast
next
  case (fail_read late e)
  then show ?thesis using assms read_failed_ok by blast
qed (use assms in \<open>simp_all add: safe_def\<close>)

section \<open>The invariant of the client\<close>

text \<open>At most one QUIT is ever made; nothing is queued behind it, and once it is settled the client is stopping.\<close>

definition quit_ok :: "client \<Rightarrow> bool" where
  "quit_ok c \<longleftrightarrow> (\<forall>r < next_rid c. quit (heap c r) \<longrightarrow> quitFuture c = Some r)
     \<and> (\<forall>q. quitFuture c = Some q \<longrightarrow> closing c \<and> q < next_rid c \<and> quit (heap c q) \<and> (\<forall>r \<in> set (queue c). r \<le> q))"

definition quit_stop :: "client \<Rightarrow> bool" where
  "quit_stop c \<longleftrightarrow> (\<forall>r < next_rid c. quit (heap c r) \<and> r \<notin> set (queue c) \<longrightarrow> disconnecting c \<or> closed c)"

fun phase_ok :: "client \<Rightarrow> phase \<Rightarrow> bool" where
  "phase_ok c (Duplex s) \<longleftrightarrow> sess_ok c s"
| "phase_ok c (Plain (Some r)) \<longleftrightarrow> (\<exists>q. queue c = r # q)"
| "phase_ok c Stopped \<longleftrightarrow> queue c = []"
| "phase_ok c _ \<longleftrightarrow> True"

definition client_inv :: "client \<times> phase \<Rightarrow> bool" where
  "client_inv = (\<lambda>(c, ph). core {} c \<and> quit_ok c \<and> quit_stop c \<and> phase_ok c ph \<and> (closed c \<longleftrightarrow> ph = Stopped))"

lemma quit_ok_statics: "statics c c' \<Longrightarrow> quit_ok c \<Longrightarrow> quit_ok c'"
  using staticsD(1-3,5,9) [of c c'] unfolding quit_ok_def by (metis subsetD)

lemma quit_stop_safe: "safe c c' \<Longrightarrow> quit_stop c \<Longrightarrow> quit_stop c'"
  using staticsD(1,4,6,9) [of c c'] unfolding quit_stop_def safe_def by (metis DiffI)

lemma inv_safe:
  assumes "client_inv (c, ph)" "ph \<noteq> Stopped" "core {} c'" "safe c c'" "phase_ok c' ph'" "ph' \<noteq> Stopped"
  shows "client_inv (c', ph')"
  using assms quit_ok_statics quit_stop_safe staticsD(4) [OF safe_statics [OF assms(4)]]
  by (auto simp: client_inv_def safe_def)

subsection \<open>Stopping\<close>

lemma fold_fail_settle_all:
  "fold (\<lambda>r. complete Failed r [] (Some e)) rs (c\<lparr>queue := []\<rparr>) = settle_all e rs (c\<lparr>queue := rs\<rparr>)"
proof (induction rs arbitrary: c)
  case (Cons r rs)
  let ?c = "c\<lparr>settled := settled (complete Failed r [] (Some e) c)\<rparr>"
  have "complete Failed r [] (Some e) (c\<lparr>queue := []\<rparr>) = ?c\<lparr>queue := []\<rparr>" by (simp add: complete_def)
  moreover have "complete Failed r [] (Some e) (remove r (c\<lparr>queue := r # rs\<rparr>)) = ?c\<lparr>queue := rs\<rparr>"
    by (simp add: complete_def remove_def)
  ultimately show ?case using Cons.IH [of ?c] by simp
qed simp

lemma finishClosed_eq:
  assumes "\<not> closed c"
  shows "finishClosed e c = settle_all e (queue c) (settleFirstReady (Some e) (c\<lparr>closed := True, ready := False\<rparr>))"
    (is "_ = settle_all e _ ?c")
proof -
  have 1: "settleFirstReady (Some e) (c\<lparr>closed := True, ready := False, queue := []\<rparr>) = ?c\<lparr>queue := []\<rparr>"
    and 2: "?c\<lparr>queue := queue c\<rparr> = ?c"
    by (simp_all add: settleFirstReady_def)
  have "fold (\<lambda>r. complete Failed r [] (Some e)) (queue c) (?c\<lparr>queue := []\<rparr>) = settle_all e (queue c) ?c"
    unfolding fold_fail_settle_all 2 ..
  then show ?thesis using assms 1 by (simp only: finishClosed_def if_False)
qed

lemma inv_stop_client:
  assumes c: "core {} c" and q: "quit_ok c" and nc: "\<not> closed c"
  shows "client_inv (stop_client c)"
proof -
  let ?e = IORedisConnectionClosedError
  let ?c = "settleFirstReady (Some ?e) (c\<lparr>closed := True, ready := False\<rparr>)"
  let ?d = "settle_all ?e (queue c) ?c"
  have c1: "core {} ?c" using c by (simp add: core_flags)
  have "quit_ok ?c = quit_ok c" by (simp add: quit_ok_def settleFirstReady_def)
  moreover have s: "core ({} - set (queue c)) ?d \<and> statics ?c ?d \<and> set (queue ?d) = set (queue ?c) - set (queue c)"
    by (rule settle_all_core [OF c1]) (use core_distinct [OF c] in simp_all)
  ultimately have "quit_ok ?d" using q quit_ok_statics by blast
  moreover have "closed ?c" by (simp add: settleFirstReady_def)
  then have "closed ?d" using staticsD(4) [of ?c ?d] s by blast
  moreover have "stop_client c = (?d, Stopped)" by (simp only: stop_client_def finishClosed_eq [OF nc])
  moreover have "set (queue ?d) = {}" using s by simp
  ultimately show ?thesis using s by (simp add: client_inv_def quit_stop_def)
qed

subsection \<open>Calls of a user\<close>

lemma sess_ok_extend:
  assumes "sess_ok c s" "queue c' = queue c @ t" "\<And>r. r \<in> set (queue c) \<Longrightarrow> heap c' r = heap c r"
  shows "sess_ok c' s"
proof -
  obtain t0 where t0: "queue c = owned s @ t0" using assms(1) by (auto simp: sess_ok_def)
  then have h: "heap c' r = heap c r" if "r \<in> set (owned s)" for r using assms(3) that by simp
  have "flight_ok c' (inFlight s) = flight_ok c (inFlight s)"
  proof -
    have "heap c' (fst x) = heap c (fst x)" if "x \<in> set (inFlight s)" for x
      by (rule h) (use that in \<open>simp add: owned_def\<close>)
    then show ?thesis unfolding flight_ok_def by (intro arg_cong2 [where f = "(\<and>)"] ball_cong refl) auto
  qed
  then have "flight_ok c' (inFlight s)" using assms(1) by (simp add: sess_ok_def)
  moreover have "queue c' = owned s @ t0 @ t" using assms(2) t0 by simp
  moreover have "\<forall>r \<in> set (owned s). exclusive (heap c' r) \<longrightarrow> owned s = [r]"
    using assms(1) h by (simp add: sess_ok_def)
  ultimately show ?thesis using assms(1) unfolding sess_ok_def by blast
qed

lemma phase_ok_extend:
  assumes "phase_ok c ph" "queue c' = queue c @ t" "\<And>r. r \<in> set (queue c) \<Longrightarrow> heap c' r = heap c r" "ph = Stopped \<Longrightarrow> t = []"
  shows "phase_ok c' ph"
  using assms sess_ok_extend by (cases "(c, ph)" rule: phase_ok.cases) auto

text \<open>A new request joins the end of the queue, or is settled at once.\<close>

lemma core_enqueue:
  assumes c: "core {} c" and q: "req_ok q" "replays q = 0" "ambiguousReplays q = 0" "retryFailures q = 0"
  shows "core {} ((snd (allocate q c))\<lparr>queue := queue c @ [next_rid c]\<rparr>)" (is "core {} ?c")
proof (rule coreI)
  note ids = coreD(1) [OF c] and reqs = coreD(2) [OF c]
  have old: "r < next_rid c" if "r \<in> set (queue c) \<union> settled_ids c" for r
    using ids that by (auto simp: ids_ok_def)
  show "ids_ok ?c"
    using ids old by (auto simp: ids_ok_def allocate_def sorted_wrt_append lessThan_Suc)
  show "reqs_ok {} ?c" using reqs q old by (auto simp: reqs_ok_def allocate_def counts_ok_def less_Suc_eq)
  have "entry_ok (heap ?c r) k = entry_ok (heap c r) k" if "(r, k) \<in> set (settled c)" for r k
    using old [of r] that by (force simp: allocate_def)
  then show "log_ok ?c" using coreD(3) [OF c] by (auto simp: log_ok_def allocate_def)
  show "in_order (settled ?c)" using coreD(4) [OF c] by (simp add: allocate_def)
qed

lemma settle_new:
  "complete how (next_rid c) rs e (snd (allocate q c)) =
     complete how (next_rid c) rs e (remove (next_rid c) ((snd (allocate q c))\<lparr>queue := queue c @ [next_rid c]\<rparr>))"
  if "next_rid c \<notin> set (queue c)"
  using that by (simp add: complete_def remove_def allocate_def remove1_append)

lemma core_fresh: "core T c \<Longrightarrow> next_rid c \<notin> set (queue c)"
  using coreD(1) [of T c] by (auto simp: ids_ok_def)

lemma core_settle_new:
  assumes c: "core {} c" and q: "req_ok q" "replays q = 0" "ambiguousReplays q = 0" "retryFailures q = 0"
    and how: "how \<in> {Answered, Aborted} \<Longrightarrow> queue c = []"
    and len: "e = None \<Longrightarrow> length (commands q) = length rs"
  shows "core {} (complete how (next_rid c) rs e (snd (allocate q c)))"
proof -
  let ?c = "(snd (allocate q c))\<lparr>queue := queue c @ [next_rid c]\<rparr>"
  have "core ({} - {next_rid c}) (complete how (next_rid c) rs e (remove (next_rid c) ?c))"
    by (rule core_settle [OF core_enqueue [OF c q]]) (use how len in \<open>auto simp: allocate_def\<close>)
  then show ?thesis using settle_new [OF core_fresh [OF c]] by simp
qed

lemma core_old: "core T c \<Longrightarrow> r \<in> set (queue c) \<Longrightarrow> r < next_rid c"
  using coreD(1) [of T c] by (auto simp: ids_ok_def)

text \<open>A request that is no QUIT, queued or settled, leaves the rest of the invariant alone.\<close>

lemma inv_new_request:
  assumes i: "client_inv (c, ph)" and c': "core {} c'" and q: "\<not> quit q"
    and nxt: "next_rid c' = Suc (next_rid c)" and heap: "heap c' = (heap c)(next_rid c := q)"
    and same: "quitFuture c' = quitFuture c" "closing c' = closing c" "disconnecting c' = disconnecting c" "closed c' = closed c"
    and que: "queue c' = queue c @ t" "t \<noteq> [] \<Longrightarrow> \<not> closed c \<and> \<not> closing c"
  shows "client_inv (c', ph)"
proof -
  note i = i [unfolded client_inv_def prod.case]
  have c: "core {} c" and qo: "quit_ok c" and qs: "quit_stop c" and ph: "phase_ok c ph" and cl: "closed c \<longleftrightarrow> ph = Stopped"
    using i by blast+
  have old: "heap c' r = heap c r" if "r \<in> set (queue c)" for r
    using core_old [OF c that] heap by simp
  have "quit_ok c'"
    unfolding quit_ok_def
  proof (intro conjI allI impI)
    fix r assume r: "r < next_rid c'" "quit (heap c' r)"
    then have "r < next_rid c" "quit (heap c r)" using q heap nxt by (auto split: if_splits)
    then show "quitFuture c' = Some r" using qo unfolding quit_ok_def same(1) by blast
  next
    fix r assume "quitFuture c' = Some r"
    then have r: "closing c" "r < next_rid c" "quit (heap c r)" "\<forall>x \<in> set (queue c). x \<le> r"
      using qo same(1) by (simp_all add: quit_ok_def)
    then show "closing c'" "r < next_rid c'" "quit (heap c' r)" using same(2) nxt heap by simp_all
    have "t = []" using que(2) r(1) by blast
    then show "\<forall>x \<in> set (queue c'). x \<le> r" using r(4) que(1) by simp
  qed
  moreover have "quit_stop c'"
    unfolding quit_stop_def
  proof (intro allI impI)
    fix r assume r: "r < next_rid c'" "quit (heap c' r) \<and> r \<notin> set (queue c')"
    then have "r < next_rid c" "quit (heap c r)" "r \<notin> set (queue c)" using q heap nxt que(1) by (auto split: if_splits)
    then show "disconnecting c' \<or> closed c'" using qs same(3,4) by (simp add: quit_stop_def)
  qed
  moreover have "phase_ok c' ph"
    by (rule phase_ok_extend [OF ph que(1) old]) (use que(2) cl in auto)
  ultimately show ?thesis using c' same(4) cl by (simp add: client_inv_def)
qed

lemma admit_nonempty: "admit positive cmds pipe = Inr ex \<Longrightarrow> cmds \<noteq> []"
  by (auto simp: admit_def)

lemma inv_submit:
  assumes i: "client_inv (c, ph)" and n: "pipe \<or> length cmds = 1"
  shows "client_inv (snd (submit positive cmds pipe c), ph)"
proof (cases "admit positive cmds pipe")
  case (Inl e)
  then show ?thesis using i by (simp add: submit_def)
next
  case (Inr ex)
  let ?q = "new_request cmds pipe False ex"
  have c: "core {} c" using i by (simp add: client_inv_def)
  have q: "req_ok ?q" "replays ?q = 0" "ambiguousReplays ?q = 0" "retryFailures ?q = 0" "\<not> quit ?q"
    using admit_nonempty [OF Inr] n by (auto simp: new_request_def req_ok_def)
  note a = allocate_def
  show ?thesis
  proof (cases "closed c \<or> closing c \<or> disconnecting c")
    case True
    have "core {} (complete Rejected (next_rid c) [] (Some IORedisConnectionClosedError) (snd (allocate ?q c)))" (is "core {} ?c")
      by (rule core_settle_new [OF c q(1-4)]) simp_all
    then have "client_inv (?c, ph)"
      by (rule inv_new_request [OF i _ q(5), where t = "[]"]) (simp_all add: a complete_def)
    then show ?thesis using Inr True by (simp add: submit_def a)
  next
    case False
    have "client_inv ((snd (allocate ?q c))\<lparr>queue := queue c @ [next_rid c]\<rparr>, ph)"
      by (rule inv_new_request [OF i core_enqueue [OF c q(1-4)] q(5)]) (use False in \<open>simp_all add: a\<close>)
    then show ?thesis using Inr False by (simp add: submit_def a)
  qed
qed

lemma inv_Quit:
  assumes i: "client_inv (c, ph)"
  shows "client_inv (snd (Quit c), ph)"
proof (cases "quitFuture c = None \<and> \<not> (closed c \<or> closing c \<or> disconnecting c)")
  case False
  then show ?thesis using i by (auto simp: Quit_def)
next
  case True
  let ?q = "new_request [[''quit'']] False True True" and ?r = "next_rid c"
  let ?a = "snd (allocate ?q c)"
  have c: "core {} c" and qo: "quit_ok c" and ph: "phase_ok c ph" and cl: "closed c \<longleftrightarrow> ph = Stopped"
    using i by (simp_all add: client_inv_def)
  have q: "req_ok ?q" "replays ?q = 0" "ambiguousReplays ?q = 0" "retryFailures ?q = 0" "quit ?q"
    by (simp_all add: new_request_def req_ok_def)
  have old: "heap ?a r = heap c r" if "r < ?r" for r using that by (simp add: allocate_def)
  have noq: "\<not> quit (heap c r)" if "r < ?r" for r using qo that True by (simp add: quit_ok_def)
  note a = allocate_def
  have fin: "client_inv (c', ph)" if "core {} c'" "next_rid c' = Suc ?r" "heap c' = heap ?a" "quitFuture c' = Some ?r" "closing c'"
    "\<not> closed c'" "queue c' = queue c @ t" "t = [?r] \<or> t = [] \<and> disconnecting c'" for c' t
  proof -
    have "quit_ok c'" unfolding quit_ok_def
      using that q(5) noq old core_old [OF c] by (auto simp: a less_Suc_eq intro: less_imp_le)
    moreover have "quit_stop c'" using that noq old by (auto simp: quit_stop_def a less_Suc_eq)
    moreover have "phase_ok c' ph"
      by (rule phase_ok_extend [OF ph that(7)]) (use that(3) old core_old [OF c] cl True in auto)
    ultimately show ?thesis using that(1,6) cl True by (simp add: client_inv_def)
  qed
  show ?thesis
  proof (cases "queue c = [] \<and> \<not> ready c")
    case e: True
    let ?c = "complete Answered ?r [Reply (VStr ''OK'') None] None ?a"
    have "core {} ?c" by (rule core_settle_new [OF c q(1-4)]) (simp_all add: e new_request_def)
    then have "core {} (?c\<lparr>closing := True, quitFuture := Some ?r, disconnecting := True, cancelled := True\<rparr>)"
      by (simp add: core_flags)
    then have "client_inv (?c\<lparr>closing := True, quitFuture := Some ?r, disconnecting := True, cancelled := True\<rparr>, ph)"
      by (rule fin [where t = "[]"]) (use True in \<open>simp_all add: complete_def a\<close>)
    moreover have "snd (Quit c) = ?c\<lparr>closing := True, quitFuture := Some ?r, disconnecting := True, cancelled := True\<rparr>"
      using True e by (simp add: Quit_def a complete_def Let_def)
    ultimately show ?thesis by simp
  next
    case e: False
    let ?c = "?a\<lparr>queue := queue c @ [?r]\<rparr>"
    have "core {} (?c\<lparr>closing := True, quitFuture := Some ?r\<rparr>)"
      using core_enqueue [OF c q(1-4)] by (simp add: core_flags)
    then have "client_inv (?c\<lparr>closing := True, quitFuture := Some ?r\<rparr>, ph)"
      by (rule fin [where t = "[?r]"]) (use True in \<open>simp_all add: a\<close>)
    moreover have "snd (Quit c) = ?c\<lparr>closing := True, quitFuture := Some ?r\<rparr>"
      using True e by (auto simp: Quit_def a Let_def)
    ultimately show ?thesis by simp
  qed
qed

lemma inv_Disconnect:
  assumes "client_inv (c, ph)"
  shows "client_inv (Disconnect c, ph)"
proof (cases "closed c \<or> disconnecting c")
  case False
  have "statics c (Disconnect c)" "queue (Disconnect c) = queue c" "heap (Disconnect c) = heap c"
    using False by (simp_all add: Disconnect_def statics_def settleFirstReady_def)
  moreover have "core {} (Disconnect c)" using assms False by (simp add: Disconnect_def core_flags client_inv_def)
  moreover have "phase_ok c ph" using assms by (simp add: client_inv_def)
  then have "phase_ok (Disconnect c) ph"
    by (rule phase_ok_extend [where t = "[]"]) (simp_all add: calculation)
  moreover have "ph \<noteq> Stopped" using assms False by (simp add: client_inv_def)
  ultimately show ?thesis using inv_safe [OF assms] safe_same_queue by blast
qed (use assms in \<open>simp add: Disconnect_def\<close>)

section \<open>The run loop\<close>

lemma after_session_inv:
  assumes i: "client_inv (c, Duplex s)" and r: "res_ok c r"
  shows "client_inv (after_session r)"
proof (cases r)
  case (Continue c' s')
  then show ?thesis using r inv_safe [OF i] by simp
next
  case (Ended c' stop e)
  have c': "core {} c'" "statics c c'" "\<not> stop \<longrightarrow> safe c c'" using r Ended by simp_all
  show ?thesis
  proof (cases stop)
    case True
    have "quit_ok c'" using quit_ok_statics [OF c'(2)] i by (simp add: client_inv_def)
    moreover have "\<not> closed c'" using staticsD(4) [OF c'(2)] i by (simp add: client_inv_def)
    ultimately show ?thesis using inv_stop_client [OF c'(1)] Ended True by simp
  next
    case False
    then have s: "safe c (setNotReady c')" using c'(3) safe_trans [OF _ safe_small(2)] by blast
    have n: "core {} (setNotReady c')" using c'(1) by simp
    show ?thesis
      using False Ended inv_safe [OF i _ n s] inv_safe [OF i _ core_connectionFailed(1) [OF n, of "[]"]
          safe_trans [OF s core_connectionFailed(2) [OF n, of "[]"]]]
      by (cases e) simp_all
  qed
qed

text \<open>Settling the request of a plain exchange.\<close>

lemma plain_settle:
  assumes c: "core {} c" and q: "queue c = r # q"
    and len: "err = None \<longrightarrow> length (commands (heap c r)) \<le> length replies
      \<and> (how \<noteq> Aborted \<longrightarrow> length replies = length (commands (heap c r)))"
  shows "core {} (complete how r replies err (pop r c))" "statics c (complete how r replies err (pop r c))"
    "\<not> quit (heap c r) \<Longrightarrow> safe c (complete how r replies err (pop r c))"
    "queue (complete how r replies err (pop r c)) = q"
proof -
  have "core ({} - {r}) (complete how r replies err (remove r c))"
    by (rule core_settle [OF c]) (use q len in simp_all)
  then show "core {} (complete how r replies err (pop r c))" "statics c (complete how r replies err (pop r c))"
    "\<not> quit (heap c r) \<Longrightarrow> safe c (complete how r replies err (pop r c))"
    using safe_settle [OF c] statics_settle by (simp_all add: pop_head [OF q])
  show "queue (complete how r replies err (pop r c)) = q" using q by (simp add: pop_def complete_def)
qed

lemma setNotReady_same [simp]:
  "heap (setNotReady c) = heap c" "setNotReady (pop r c) = pop r (setNotReady c)"
  by (simp_all add: setNotReady_def pop_def split: list.split)

lemma aborted_length: "length (commands q) \<le> length (aborted_replies q rs)"
  by (simp add: aborted_replies_def)

lemma plain_failure_inv:
  assumes i: "client_inv (c, Plain (Some r))" and nq: "\<not> quit (heap c r)"
  shows "client_inv (plain_failure r x e c)"
proof -
  have c: "core {} c" using i by (simp add: client_inv_def)
  obtain q where q: "queue c = r # q" using i by (auto simp: client_inv_def)
  have n: "core {} (setNotReady c)" "queue (setNotReady c) = r # q" using c q by simp_all
  have fin: "client_inv (complete how r replies err (pop r c0), ph)"
    if "c0 = c \<or> c0 = setNotReady c" "err = None \<longrightarrow> how = Aborted \<and> length (commands (heap c r)) \<le> length replies"
      "ph = Offline False \<or> ph = Plain None" for c0 how replies err ph
  proof -
    have c0: "core {} c0" "queue c0 = r # q" "heap c0 = heap c" "safe c c0"
      using that(1) c q safe_small(2) by (auto simp: safe_def)
    have l: "err = None \<longrightarrow> length (commands (heap c0 r)) \<le> length replies
      \<and> (how \<noteq> Aborted \<longrightarrow> length replies = length (commands (heap c0 r)))"
      using that(2) c0(3) by simp
    note p = plain_settle [OF c0(1,2) l]
    have "safe c (complete how r replies err (pop r c0))" using safe_trans [OF c0(4) p(3)] nq c0(3) by simp
    then show ?thesis using inv_safe [OF i _ p(1)] that(3) by auto
  qed
  have failed: "client_inv (connectionFailed [r] c', Offline True)" if "core T c'" "T \<subseteq> {r}" "safe c c'" for c' T
  proof -
    have "T \<subseteq> set [r]" using that(2) by simp
    note f = core_connectionFailed [OF that(1) this]
    show ?thesis using inv_safe [OF i _ f(1) safe_trans [OF that(3) f(2)]] by simp
  qed
  show ?thesis
  proof (cases "asIORedisTerminalError e")
    case (Some t)
    then show ?thesis using aborted_length by (auto simp: plain_failure_def Let_def intro!: fin)
  next
    case None
    show ?thesis
    proof (cases "exclusive (heap c r) \<and> MayHaveExecuted x")
      case True
      then show ?thesis using None by (auto simp: plain_failure_def Let_def intro!: fin)
    next
      case na: False
      show ?thesis
      proof (cases "pipeline (heap c r) \<and> Replies x \<noteq> []")
        case True
        let ?a = "aborted_replies (heap c r) (Replies x)"
        have l: "None = None \<longrightarrow> length (commands (heap (setNotReady c) r)) \<le> length ?a
          \<and> (Aborted \<noteq> Aborted \<longrightarrow> length ?a = length (commands (heap (setNotReady c) r)))"
          using aborted_length by simp
        note p = plain_settle [OF n l]
        have "client_inv (connectionFailed [r] (complete Aborted r ?a None (pop r (setNotReady c))), Offline True)"
          by (rule failed [OF p(1)]) (use safe_trans [OF safe_small(2) p(3)] nq in simp_all)
        then show ?thesis using None na True by (auto simp: plain_failure_def Let_def)
      next
        case False
        have "core {r} (bump_replay (MayHaveExecuted x) r (setNotReady c))"
          by (rule core_bump [OF n(1)]) (use n(2) na in auto)
        then have "client_inv (connectionFailed [r] (bump_replay (MayHaveExecuted x) r (setNotReady c)), Offline True)"
          by (rule failed) (use safe_trans [OF safe_small(2) safe_small(6)] in simp_all)
        then show ?thesis using None na False by (auto simp: plain_failure_def Let_def)
      qed
    qed
  qed
qed

lemma plain_exchange_inv:
  assumes i: "client_inv (c, Plain (Some r))"
  shows "client_inv (plain_exchange ce r x c)"
proof -
  have c: "core {} c" and qo: "quit_ok c" and nc: "\<not> closed c" using i by (simp_all add: client_inv_def)
  obtain q where q: "queue c = r # q" using i by (auto simp: client_inv_def)
  let ?err = "case Error x of Some e \<Rightarrow> Some e
    | None \<Rightarrow> if length (Replies x) \<noteq> length (commands (heap c r))
              then Some (Errorf ''ioredis transport returned %d replies for %d commands''
                [itoa (length (Replies x)), itoa (length (commands (heap c r)))]) else None"
  have len: "?err = None \<Longrightarrow> length (Replies x) = length (commands (heap c r))"
    by (auto split: option.splits if_splits)
  show ?thesis
  proof (cases "quit (heap c r)")
    case True
    let ?qe = "case ?err of Some e \<Rightarrow> Some (newIORedisSafeError ''redis: ioredis QUIT failed'' e)
      | None \<Rightarrow> quit_error (Replies x ! 0) ce"
    let ?c = "complete Answered r (Replies x) ?qe (pop r c)"
    have "?qe = None \<longrightarrow> length (commands (heap c r)) \<le> length (Replies x)
        \<and> (Answered \<noteq> Aborted \<longrightarrow> length (Replies x) = length (commands (heap c r)))"
      using len by (cases ?err) auto
    note p = plain_settle [OF c q this]
    have "client_inv (stop_client ?c)"
      by (rule inv_stop_client [OF p(1) quit_ok_statics [OF p(2) qo]]) (use nc q in \<open>simp_all add: complete_def pop_def\<close>)
    then show ?thesis using True by (simp only: plain_exchange_def Let_def if_True)
  next
    case nq: False
    show ?thesis
    proof (cases ?err)
      case None
      let ?e = "if \<not> pipeline (heap c r) \<and> length (Replies x) = 1 then ReplyError (Replies x ! 0) else None"
      have "?e = None \<longrightarrow> length (commands (heap c r)) \<le> length (Replies x)
          \<and> (Answered \<noteq> Aborted \<longrightarrow> length (Replies x) = length (commands (heap c r)))"
        using len [OF None] by simp
      note p = plain_settle [OF c q this]
      have "client_inv (complete Answered r (Replies x) ?e (pop r c), Plain None)"
        using inv_safe [OF i _ p(1) p(3) [OF nq]] by simp
      moreover have "plain_exchange ce r x c = (complete Answered r (Replies x) ?e (pop r c), Plain None)"
        unfolding plain_exchange_def Let_def None using nq by simp
      ultimately show ?thesis by simp
    next
      case (Some e)
      have "plain_exchange ce r x c = plain_failure r x e c"
        unfolding plain_exchange_def Let_def Some using nq by simp
      then show ?thesis using plain_failure_inv [OF i nq] by simp
    qed
  qed
qed

lemma step_inv:
  assumes "step (c, ph) st" and i: "client_inv (c, ph)"
  shows "client_inv st"
proof -
  have c: "core {} c" and qo: "quit_ok c" and cl: "closed c \<longleftrightarrow> ph = Stopped" using i by (simp_all add: client_inv_def)
  have retry: "client_inv (connectionFailed targets c', Offline True)"
    if "ph \<noteq> Stopped" "core {} c'" "safe c c'" for targets c'
    using inv_safe [OF i that(1) core_connectionFailed(1) [OF that(2), of targets]
        safe_trans [OF that(3) core_connectionFailed(2) [OF that(2), of targets]]] by simp
  have conn: "client_inv (connected c, ph')" if "ph \<noteq> Stopped" "phase_ok (connected c) ph'" "ph' \<noteq> Stopped" for ph'
    using inv_safe [OF i that(1) _ safe_small(4) that(2,3)] c by simp
  note stop = inv_stop_client [OF c qo]
  from assms(1) show ?thesis
  proof cases
    case (user_submit pipe cmds positive)
    then show ?thesis using inv_submit [OF i] by simp
  next
    case (run_session s r)
    then show ?thesis using after_session_inv [of c s r] session_step_ok [of c s r] i by (simp add: client_inv_def)
  next
    case (plain_start r q)
    then show ?thesis using i by (simp add: client_inv_def)
  next
    case (plain_end r ce x)
    then show ?thesis using plain_exchange_inv [of c r] i by simp
  next
    case (run_connect_failed b e)
    then show ?thesis using retry [of "settleFirstReady (Some e) c"] c safe_small(3) by simp
  next
    case (run_connected_duplex b)
    then show ?thesis using conn sess_ok_new by simp
  next
    case (plain_idle_closed)
    then show ?thesis using retry [of "setNotReady c"] c safe_small(2) by simp
  qed (use inv_Quit [OF i] inv_Disconnect [OF i] stop cl conn in auto)
qed

lemma new_client_inv: "client_inv (new_client, Offline False)"
  by (simp add: client_inv_def core_def ids_ok_def reqs_ok_def log_ok_def quit_ok_def quit_stop_def new_client_def)

theorem reachable_inv: "reachable st \<Longrightarrow> client_inv st"
proof (induction rule: reachable.induct)
  case start
  show ?case by (rule new_client_inv)
next
  case (more st st')
  then show ?case using step_inv [of "fst st" "snd st" st'] by simp
qed

end
