(* ===== verification/Redis_Client_Properties.thy ===== *)
theory Redis_Client_Properties
  imports Redis_Run_Inv
begin

unbundle bit_operations_syntax

text \<open>
  What the ioredis compatibility client promises: the properties of every state the client can
  reach, whatever its users, its goroutines and the transport do, and of command validation and the
  retry delay.
\<close>

section \<open>Sample runs\<close>

text \<open>A GET is sent and answered on a duplex transport, then a second one is in flight when QUIT is called.\<close>

definition get_cmd :: "string list list" where
  "get_cmd = [[''get'', ''k'']]"

definition sample_sent :: client where
  "sample_sent = connected (snd (submit (\<lambda>_. True) get_cmd False new_client))"

definition sample_flight :: session where
  "sample_flight = \<lparr>scheduled = [0], writing = None, inFlight = [(0, [])], reading = True\<rparr>"

definition get_reply :: IORedisReply where
  "get_reply = Reply (VStr ''v'') None"

definition sample_answered :: client where
  "sample_answered = complete Answered 0 [get_reply] None (pop 0 sample_sent)"

definition sample_quit :: client where
  "sample_quit = snd (Quit (snd (submit (\<lambda>_. True) get_cmd False sample_answered)))"

lemma admit_get [simp]: "admit positive get_cmd False = Inr False"
  by code_simp

lemmas sample_simps = sample_sent_def sample_flight_def get_reply_def sample_answered_def sample_quit_def
  submit_def allocate_def new_request_def new_client_def connected_def settleFirstReady_def complete_def pop_def Quit_def Let_def

lemma sample_sent_queue [simp]:
  "queue sample_sent = [0]" "heap sample_sent 0 = new_request get_cmd False False False"
  by (simp_all add: sample_simps)

lemma sample_sent_reachable: "reachable (sample_sent, Duplex sample_flight)"
proof -
  let ?w = "new_session\<lparr>scheduled := [0], writing := Some 0\<rparr>"
  have "reachable (snd (submit (\<lambda>_. True) get_cmd False new_client), Offline False)"
    by (rule reachable.more [OF reachable.start]) (rule step.user_submit, simp add: get_cmd_def)
  then have "reachable (sample_sent, Duplex new_session)"
    unfolding sample_sent_def by (rule reachable.more) (rule step.run_connected_duplex)
  moreover have "session_step sample_sent new_session (Continue sample_sent (new_session\<lparr>scheduled := 0 # scheduled new_session, writing := Some 0\<rparr>))"
    by (rule session_step.start_write) (simp_all add: new_session_def ioredisExclusiveInFlight_def firstUnscheduled_def)
  then have "step (sample_sent, Duplex new_session) (sample_sent, Duplex ?w)"
    using step.run_session by (fastforce simp: new_session_def)
  ultimately have "reachable (sample_sent, Duplex ?w)" by (rule reachable.more)
  moreover have "session_step sample_sent ?w (write_ok 0 sample_sent ?w)"
    by (rule session_step.end_write) simp
  then have "step (sample_sent, Duplex ?w) (sample_sent, Duplex (sample_flight\<lparr>reading := False\<rparr>))"
    using step.run_session by (fastforce simp: write_ok_def new_session_def sample_flight_def)
  ultimately have "reachable (sample_sent, Duplex (sample_flight\<lparr>reading := False\<rparr>))" by (rule reachable.more)
  moreover have "session_step sample_sent (sample_flight\<lparr>reading := False\<rparr>)
      (Continue sample_sent (sample_flight\<lparr>reading := False, reading := True\<rparr>))"
    by (rule session_step.start_read) (simp_all add: sample_flight_def ioredisOutstandingReplies_def new_request_def get_cmd_def)
  then have "step (sample_sent, Duplex (sample_flight\<lparr>reading := False\<rparr>)) (sample_sent, Duplex sample_flight)"
    using step.run_session by (fastforce simp: sample_flight_def)
  ultimately show ?thesis by (rule reachable.more)
qed

lemma sample_answered_reachable: "reachable (sample_answered, Duplex new_session)"
proof -
  have "session_step sample_sent sample_flight (read_reply None get_reply sample_sent sample_flight)"
    by (rule session_step.end_read) (simp add: sample_flight_def)
  moreover have "read_reply None get_reply sample_sent sample_flight = Continue sample_answered new_session"
    by (simp add: read_reply_def applyDuplexReply_def sample_flight_def new_session_def sample_answered_def
        new_request_def get_cmd_def get_reply_def Let_def)
  ultimately have "step (sample_sent, Duplex sample_flight) (sample_answered, Duplex new_session)"
    using step.run_session by fastforce
  with sample_sent_reachable show ?thesis by (rule reachable.more)
qed

lemma sample_quit_reachable: "reachable (sample_quit, Duplex new_session)"
proof -
  have "reachable (snd (submit (\<lambda>_. True) get_cmd False sample_answered), Duplex new_session)"
    by (rule reachable.more [OF sample_answered_reachable]) (rule step.user_submit, simp add: get_cmd_def)
  then show ?thesis unfolding sample_quit_def by (rule reachable.more) (rule step.user_quit)
qed

lemma sample_stop_reachable: "reachable (stop_client (Disconnect sample_quit))"
proof -
  have 1: "reachable (Disconnect sample_quit, Duplex new_session)"
    by (rule reachable.more [OF sample_quit_reachable]) (rule step.user_disconnect)
  have "cancelled (Disconnect sample_quit)" by (simp add: Disconnect_def sample_simps)
  then have "session_step (Disconnect sample_quit) new_session (Ended (Disconnect sample_quit) True (Some context_Canceled))"
    by (rule session_step.ctx_done)
  then have "step (Disconnect sample_quit, Duplex new_session) (stop_client (Disconnect sample_quit))"
    using step.run_session by fastforce
  with 1 show ?thesis by (rule reachable.more)
qed

section \<open>Properties\<close>

text \<open>
  C2.  In every state the client can reach, each request ever made is either waiting in the queue or
  settled, never both, and no request is settled twice; when the run loop has returned, every
  request is settled, so that no caller waits for ever on a stopped client.
\<close>

theorem client_settles_once:
  assumes "reachable (c, ph)"
  shows "distinct (map fst (settled c)) \<and> distinct (queue c) \<and> set (queue c) \<inter> fst ` set (settled c) = {}
    \<and> set (queue c) \<union> fst ` set (settled c) = {..<next_rid c}
    \<and> (ph = Stopped \<longrightarrow> fst ` set (settled c) = {..<next_rid c})"
proof -
  have i: "client_inv (c, ph)" by (rule reachable_inv [OF assms])
  then have ids: "ids_ok c" and d: "distinct (queue c)" and s: "ph = Stopped \<longrightarrow> queue c = []"
    using core_distinct by (auto simp: client_inv_def core_def)
  then show ?thesis by (auto simp: ids_ok_def)
qed

theorem client_settles_once_witness:
  "fst ` set (settled (fst (stop_client (Disconnect sample_quit)))) = {..<3}"
proof -
  have "reachable (fst (stop_client (Disconnect sample_quit)), Stopped)"
    using sample_stop_reachable by (simp add: stop_client_def)
  note once = client_settles_once [OF this]
  have "next_rid (fst (stop_client (Disconnect sample_quit))) = 3"
    by (simp add: stop_client_def Disconnect_def finishClosed_def sample_simps)
  then show ?thesis
    using once by simp
qed

text \<open>
  C8.  Requests are answered in the order they were submitted: when a request is answered, or a
  pipeline is cut off after part of its replies, every earlier request is settled already.
\<close>

theorem client_answers_in_order:
  assumes "reachable (c, ph)" and "settled c = xs @ (r, k) # ys" and "settled_by k \<in> {Answered, Aborted}" and "r' < r"
  shows "r' \<in> fst ` set xs"
proof -
  have "in_order (settled c)" using reachable_inv [OF assms(1)] by (simp add: client_inv_def core_def)
  then have "{..<r} \<subseteq> fst ` set xs" using assms(2,3) unfolding in_order_def by blast
  then show ?thesis using assms(4) by blast
qed

text \<open>Two requests answered one after the other on a plain transport.\<close>

definition sample_exchange :: IORedisExchange where
  "sample_exchange = (failed_exchange io_EOF)\<lparr>Replies := [get_reply], Error := None\<rparr>"

definition sample_two :: client where
  "sample_two = connected (snd (submit (\<lambda>_. True) get_cmd False (snd (submit (\<lambda>_. True) get_cmd False new_client))))"

definition sample_done :: client where
  "sample_done = fst (plain_exchange None 1 sample_exchange (fst (plain_exchange None 0 sample_exchange sample_two)))"

lemma plain_answer:
  assumes "reachable (c, Plain None)" "queue c = r # q" "snd (plain_exchange None r x c) = Plain None"
  shows "reachable (fst (plain_exchange None r x c), Plain None)"
proof -
  have "reachable (c, Plain (Some r))" by (rule reachable.more [OF assms(1)]) (rule step.plain_start [OF assms(2)])
  then have "reachable (plain_exchange None r x c)" by (rule reachable.more) (rule step.plain_end)
  then show ?thesis using assms(3) by (metis prod.collapse)
qed

lemma sample_two_reachable: "reachable (sample_two, Plain None)"
proof -
  have "reachable (snd (submit (\<lambda>_. True) get_cmd False new_client), Offline False)"
    by (rule reachable.more [OF reachable.start]) (rule step.user_submit, simp add: get_cmd_def)
  then have "reachable (snd (submit (\<lambda>_. True) get_cmd False (snd (submit (\<lambda>_. True) get_cmd False new_client))), Offline False)"
    by (rule reachable.more) (rule step.user_submit, simp add: get_cmd_def)
  then show ?thesis unfolding sample_two_def by (rule reachable.more) (rule step.run_connected_plain)
qed

lemma sample_exchange_answers:
  assumes "\<not> quit (heap c r)" "length (commands (heap c r)) = 1"
  shows "plain_exchange None r sample_exchange c = (complete Answered r [get_reply] None (pop r c), Plain None)"
  using assms by (simp add: plain_exchange_def sample_exchange_def get_reply_def Let_def)

lemma sample_two_facts:
  "queue sample_two = [0, Suc 0]" "\<not> quit (heap sample_two 0)" "\<not> quit (heap sample_two (Suc 0))" "settled sample_two = []"
  "length (commands (heap sample_two 0)) = 1" "length (commands (heap sample_two (Suc 0))) = 1"
  by (simp_all add: sample_two_def sample_simps) (simp_all add: get_cmd_def)

lemma pop_complete_fields [simp]:
  "heap (pop r c) = heap c" "heap (complete how r rs e c) = heap c" "settled (pop r c) = settled c"
  "queue (complete how r rs e c) = queue c" "queue (pop r c) = (if queue c \<noteq> [] \<and> hd (queue c) = r then tl (queue c) else queue c)"
  by (auto simp: pop_def complete_def split: list.split)

lemma sample_done_eq:
  "sample_done = complete Answered 1 [get_reply] None (pop 1 (complete Answered 0 [get_reply] None (pop 0 sample_two)))"
  by (simp add: sample_done_def sample_exchange_answers sample_two_facts)

lemma sample_done_reachable: "reachable (sample_done, Plain None)"
proof -
  have 1: "reachable (fst (plain_exchange None 0 sample_exchange sample_two), Plain None)" (is "reachable (?c, _)")
    by (rule plain_answer [OF sample_two_reachable sample_two_facts(1)])
      (simp add: sample_exchange_answers sample_two_facts)
  have c: "?c = complete Answered 0 [get_reply] None (pop 0 sample_two)"
    by (simp add: sample_exchange_answers sample_two_facts)
  have "queue ?c = [1]" unfolding c by (simp add: sample_two_facts)
  moreover have "snd (plain_exchange None 1 sample_exchange ?c) = Plain None"
    unfolding c by (simp add: sample_exchange_answers sample_two_facts)
  ultimately show ?thesis unfolding sample_done_def by (rule plain_answer [OF 1])
qed

theorem client_answers_in_order_witness:
  "map fst (settled sample_done) = [0, 1] \<and> 0 \<in> fst ` set [hd (settled sample_done)]"
proof -
  have e: "settled sample_done = [hd (settled sample_done)] @ (1, snd (settled sample_done ! 1)) # []"
    "settled_by (snd (settled sample_done ! 1)) \<in> {Answered, Aborted}" "map fst (settled sample_done) = [0, 1]"
    unfolding sample_done_eq by (simp_all add: complete_def sample_two_facts)
  show ?thesis using client_answers_in_order [OF sample_done_reachable e(1,2), of 0] e(3) by simp
qed

text \<open>
  C14.  A settled request was replayed at most twenty-one times (the initial attempt and one per
  failure of the twenty the retry limit allows, the last of which was never charged), its ambiguous
  replays are among its replays, and a request that needs the connection for itself was never
  replayed after it might have run.  A request settled without an error has a reply for each of its
  commands, exactly one unless it is a pipeline that was cut off.  A waiting request is within the
  retry limit.
\<close>

theorem client_replays_bounded:
  assumes "reachable (c, ph)"
  shows "(\<forall>(r, k) \<in> set (settled c). ReplayCount k \<le> 21 \<and> AmbiguousReplays k \<le> ReplayCount k
        \<and> (exclusive (heap c r) \<longrightarrow> AmbiguousReplays k = 0)
        \<and> (completion_err k = None \<longrightarrow> length (commands (heap c r)) \<le> length (result_Replies k)
              \<and> (settled_by k \<noteq> Aborted \<longrightarrow> length (result_Replies k) = length (commands (heap c r)))))
    \<and> (\<forall>r \<in> set (queue c). retryFailures (heap c r) \<le> 20 \<and> replays (heap c r) \<le> retryFailures (heap c r)
        \<and> (exclusive (heap c r) \<longrightarrow> ambiguousReplays (heap c r) = 0))"
proof -
  have c: "core {} c" using reachable_inv [OF assms] by (simp add: client_inv_def)
  have "\<forall>r \<in> set (queue c). counts_ok 0 (heap c r)" "\<forall>(r, k) \<in> set (settled c). entry_ok (heap c r) k"
    using coreD(2,3) [OF c] by (auto simp: reqs_ok_def log_ok_def)
  then show ?thesis
    unfolding counts_ok_def entry_ok_def IORedisMaxRetriesPerRequest_def by fastforce
qed

theorem client_replays_bounded_witness:
  "let (r, k) = settled sample_done ! 1
   in r = 1 \<and> ReplayCount k \<le> 21 \<and> AmbiguousReplays k \<le> ReplayCount k \<and> length (result_Replies k) = 1"
proof -
  obtain k where e: "settled sample_done ! 1 = (1, k)" "(1, k) \<in> set (settled sample_done)" "completion_err k = None"
    "settled_by k = Answered" "length (commands (heap sample_done 1)) = 1"
    unfolding sample_done_eq by (simp add: complete_def sample_two_facts)
  show ?thesis
    using client_replays_bounded [OF sample_done_reachable, THEN conjunct1, THEN bspec, OF e(2)] e by simp
qed

text \<open>
  C29.  The client makes at most one QUIT.  Once it is made no request is admitted behind it, it is
  the last in the queue, and once it is settled, by its reply, an error or the retry limit, the
  client is disconnecting or closed.
\<close>

theorem client_quit_is_last:
  assumes "reachable (c, ph)" and "r < next_rid c" and "quit (heap c r)"
  shows "quitFuture c = Some r \<and> closing c \<and> (\<forall>x \<in> set (queue c). x \<le> r)
    \<and> (r \<in> fst ` set (settled c) \<longrightarrow> disconnecting c \<or> closed c)
    \<and> queue (snd (submit positive cmds pipe c)) = queue c"
proof -
  have i: "client_inv (c, ph)" by (rule reachable_inv [OF assms(1)])
  then have q: "quitFuture c = Some r" "closing c" "\<forall>x \<in> set (queue c). x \<le> r"
    using assms(2,3) unfolding client_inv_def quit_ok_def by blast+
  have "r \<notin> set (queue c)" if "r \<in> fst ` set (settled c)"
    using i that unfolding client_inv_def core_def ids_ok_def by blast
  then have "r \<in> fst ` set (settled c) \<longrightarrow> disconnecting c \<or> closed c"
    using i assms(2,3) unfolding client_inv_def quit_stop_def by blast
  moreover have "queue (snd (submit positive cmds pipe c)) = queue c"
    using q(2) by (simp add: submit_def allocate_def complete_def Let_def split: sum.split)
  ultimately show ?thesis using q by blast
qed

theorem client_quit_is_last_witness:
  "quitFuture sample_quit = Some 2 \<and> queue (snd (submit (\<lambda>_. True) get_cmd False sample_quit)) = queue sample_quit
     \<and> queue sample_quit = [1, 2]"
proof -
  have "2 < next_rid sample_quit" "quit (heap sample_quit 2)" "queue sample_quit = [1, 2]"
    by (simp_all add: sample_simps)
  then show ?thesis using client_quit_is_last [OF sample_quit_reachable, of 2] by blast
qed

text \<open>
  C32.  The retry delay is never more than two seconds, whatever the attempt count, and for every
  count whose delay fits 64 bits it is exactly \<open>min (50 ms * n) (2 s)\<close>, and zero when the count is
  not positive.
\<close>

theorem IORedisRetryDelay_bounds:
  "sint (IORedisRetryDelay n) \<le> 2000000000
     \<and> (sint n * 50000000 < 2 ^ 63 \<longrightarrow> sint (IORedisRetryDelay n) = max 0 (min (sint n * 50000000) 2000000000))"
proof -
  have p: "n * 50 * 1000000 = n * 50000000" by (simp add: mult.assoc)
  have "sint (n * 50000000) = sint n * 50000000" if "0 < sint n" "sint n * 50000000 < 2 ^ 63"
  proof -
    have "sint (50000000 :: 64 word) = 50000000" by simp
    then have "sint (n * 50000000) = signed_take_bit 63 (sint n * 50000000)"
      by (simp add: sint_word_ariths)
    also have "\<dots> = sint n * 50000000" using that by (intro signed_take_bit_int_eq_self) auto
    finally show ?thesis .
  qed
  then show ?thesis by (auto simp: IORedisRetryDelay_def Let_def p)
qed

theorem IORedisRetryDelay_bounds_witness:
  "sint (IORedisRetryDelay 3) = 150000000 \<and> sint (IORedisRetryDelay 41) = 2000000000"
  using IORedisRetryDelay_bounds [of 3] IORedisRetryDelay_bounds [of 41] by simp

lemma take_agree:
  assumes "take (Suc i) ys = take (Suc i) xs" "i < length xs" "j \<le> i"
  shows "ys ! j = xs ! j" "j < length ys"
proof -
  have "length (take (Suc i) ys) = Suc i" using assms by simp
  then show "j < length ys" using assms(3) by simp
  show "ys ! j = xs ! j" using assms by (metis le_imp_less_Suc nth_take)
qed

text \<open>
  One turn of the option loop: it stops at STREAMS, or moves past an option whose arguments are all
  present, without having looked further.
\<close>

lemma xread_turn:
  assumes "xread_loop positive verb command index g blk bnd = Inr x"
  obtains (streams) "index < length command" "to_upper (command ! index) = ''STREAMS''"
      "\<not> (verb = ''XREADGROUP'' \<and> \<not> g)" "x = \<lparr>streamsIndex = index, blocking = blk, bounded = bnd\<rparr>"
  | (option) n g' blk' bnd' where "index < length command" "0 < n" "blk \<longrightarrow> blk'"
      "xread_loop positive verb command (index + n) g' blk' bnd' = Inr x"
      "\<And>ys. (\<forall>j < n. index + j < length ys \<and> ys ! (index + j) = command ! (index + j))
        \<Longrightarrow> xread_loop positive verb ys index g blk bnd = xread_loop positive verb ys (index + n) g' blk' bnd'"
proof -
  let ?w = "to_upper (command ! index)" and ?call = "xread_loop positive verb"
  note loop = xread_loop.simps [of positive verb command index g blk bnd]
  have lt: "index < length command" using assms by (simp add: loop split: if_splits)
  have opt: thesis if "?call command (index + n) g' blk' bnd' = Inr x" "0 < n" "blk \<longrightarrow> blk'"
    "\<And>ys. (\<forall>j < n. index + j < length ys \<and> ys ! (index + j) = command ! (index + j))
       \<Longrightarrow> ?call ys index g blk bnd = ?call ys (index + n) g' blk' bnd'" for n g' blk' bnd'
    using option [of n blk' g' bnd'] that lt by simp
  consider "?w = ''STREAMS''" "\<not> (verb = ''XREADGROUP'' \<and> \<not> g)"
    | "?w = ''GROUP''" "verb = ''XREADGROUP''" "index + 2 < length command" | "?w = ''COUNT''" "index + 1 < length command"
    | "?w = ''BLOCK''" "index + 1 < length command" | "?w = ''NOACK''" "verb = ''XREADGROUP''"
    using assms lt by (auto simp: loop Let_def split: if_splits)
  then show thesis
  proof cases
    case 1
    then show thesis using assms lt streams by (auto simp: loop Let_def split: if_splits)
  next
    case 2
    show thesis
    proof (rule opt [of 3 True blk bnd])
      show "?call ys index g blk bnd = ?call ys (index + 3) True blk bnd"
        if "\<forall>j < 3. index + j < length ys \<and> ys ! (index + j) = command ! (index + j)" for ys
        using 2 that [rule_format, of 0] that [rule_format, of 2] by (simp add: xread_loop.simps [of _ _ _ index] Let_def)
    qed (use 2 assms lt in \<open>simp_all add: xread_loop.simps [of _ _ _ index] Let_def\<close>)
  next
    case 3
    show thesis
    proof (rule opt [of 2 g blk bnd])
      show "?call ys index g blk bnd = ?call ys (index + 2) g blk bnd"
        if "\<forall>j < 2. index + j < length ys \<and> ys ! (index + j) = command ! (index + j)" for ys
        using 3 that [rule_format, of 0] that [rule_format, of 1] by (simp add: xread_loop.simps [of _ _ _ index] Let_def)
    qed (use 3 assms lt in \<open>simp_all add: xread_loop.simps [of _ _ _ index] Let_def\<close>)
  next
    case 4
    show thesis
    proof (rule opt [of 2 g True "bnd \<and> positive (command ! (index + 1))"])
      show "?call ys index g blk bnd = ?call ys (index + 2) g True (bnd \<and> positive (command ! (index + 1)))"
        if "\<forall>j < 2. index + j < length ys \<and> ys ! (index + j) = command ! (index + j)" for ys
        using 4 that [rule_format, of 0] that [rule_format, of 1] by (simp add: xread_loop.simps [of _ _ _ index] Let_def)
    qed (use 4 assms lt in \<open>simp_all add: xread_loop.simps [of _ _ _ index] Let_def\<close>)
  next
    case 5
    show thesis
    proof (rule opt [of 1 g blk bnd])
      show "?call ys index g blk bnd = ?call ys (index + 1) g blk bnd"
        if "\<forall>j < 1. index + j < length ys \<and> ys ! (index + j) = command ! (index + j)" for ys
        using 5 that [rule_format, of 0] by (simp add: xread_loop.simps [of _ _ _ index] Let_def)
    qed (use 5 assms lt in \<open>simp_all add: xread_loop.simps [of _ _ _ index] Let_def\<close>)
  qed
qed

lemma xread_loop_prefix:
  assumes "xread_loop positive verb command index g blk bnd = Inr x"
  shows "index \<le> streamsIndex x \<and> streamsIndex x < length command \<and> to_upper (command ! streamsIndex x) = ''STREAMS''
    \<and> (blk \<longrightarrow> blocking x)
    \<and> (\<forall>ys. take (Suc (streamsIndex x)) ys = take (Suc (streamsIndex x)) command
          \<longrightarrow> xread_loop positive verb ys index g blk bnd = Inr x)"
  using assms
proof (induction "length command - index" arbitrary: index g blk bnd rule: less_induct)
  case less
  show ?case
  proof (cases rule: xread_turn [OF less.prems])
    case 1
    have "xread_loop positive verb ys index g blk bnd = Inr x" if "take (Suc index) ys = take (Suc index) command" for ys
      using 1 take_agree [OF that 1(1) order_refl] by (simp add: xread_loop.simps [of _ _ ys] Let_def)
    then show ?thesis using 1 by simp
  next
    case (2 n g' blk' bnd')
    have IH: "index + n \<le> streamsIndex x" "streamsIndex x < length command" "to_upper (command ! streamsIndex x) = ''STREAMS''"
      "blk' \<longrightarrow> blocking x"
      "\<forall>ys. take (Suc (streamsIndex x)) ys = take (Suc (streamsIndex x)) command
          \<longrightarrow> xread_loop positive verb ys (index + n) g' blk' bnd' = Inr x"
      using less.hyps [OF _ 2(4)] 2(1,2) by simp_all
    have "xread_loop positive verb ys index g blk bnd = Inr x"
      if t: "take (Suc (streamsIndex x)) ys = take (Suc (streamsIndex x)) command" for ys
    proof -
      have "\<forall>j < n. index + j < length ys \<and> ys ! (index + j) = command ! (index + j)"
        using take_agree [OF t IH(2)] IH(1) by simp
      then show ?thesis using 2(5) IH(5) t by simp
    qed
    then show ?thesis using IH 2(3) by simp
  qed
qed

text \<open>
  Keys and identifiers after STREAMS are never inspected: the parse of an XREAD or XREADGROUP
  command stops at an argument that is the word STREAMS, and every command that agrees with it up to
  there is parsed to the same result, whatever follows.
\<close>

theorem parseIORedisXReadPrefix_stops:
  assumes "parseIORedisXReadPrefix positive command = Inr x"
  shows "0 < streamsIndex x \<and> streamsIndex x < length command \<and> to_upper (command ! streamsIndex x) = ''STREAMS''
    \<and> (\<forall>rest. parseIORedisXReadPrefix positive (take (Suc (streamsIndex x)) command @ rest) = Inr x)"
proof -
  note p = xread_loop_prefix [OF assms [unfolded parseIORedisXReadPrefix_def]]
  have "parseIORedisXReadPrefix positive (take (Suc (streamsIndex x)) command @ rest) = Inr x" for rest
  proof -
    let ?ys = "take (Suc (streamsIndex x)) command @ rest"
    have "hd ?ys = hd command" using p by (cases command) auto
    moreover have "take (Suc (streamsIndex x)) ?ys = take (Suc (streamsIndex x)) command" using p by (simp add: min_def)
    ultimately show ?thesis using p by (simp add: parseIORedisXReadPrefix_def)
  qed
  then show ?thesis using p by simp
qed

theorem parseIORedisXReadPrefix_stops_witness:
  "parseIORedisXReadPrefix (\<lambda>_. True) ([''xread'', ''count'', ''2'', ''streams''] @ [''block'', ''0'']) =
     Inr \<lparr>streamsIndex = 3, blocking = False, bounded = True\<rparr>"
proof -
  have "parseIORedisXReadPrefix (\<lambda>_. True) [''xread'', ''count'', ''2'', ''streams'', ''k'', ''0''] =
      Inr \<lparr>streamsIndex = 3, blocking = False, bounded = True\<rparr>"
    by code_simp
  from parseIORedisXReadPrefix_stops [OF this] show ?thesis by (simp add: eval_nat_numeral)
qed

text \<open>What an admitted batch looks like.\<close>

lemma validate_commands_spec:
  "validate_commands positive ex cmds = Inr b \<longleftrightarrow>
     (\<forall>cmd \<in> set cmds. cmd \<noteq> [] \<and> hd cmd \<noteq> '''' \<and> (\<exists>x. validateIORedisQueuedCommand positive cmd = Inr x))
     \<and> (b \<longleftrightarrow> ex \<or> (\<exists>cmd \<in> set cmds. validateIORedisQueuedCommand positive cmd = Inr True))"
proof (induction cmds arbitrary: ex)
  case (Cons cmd cmds)
  show ?case
  proof (cases "validateIORedisQueuedCommand positive cmd")
    case (Inr x)
    then show ?thesis using Cons.IH [of "ex \<or> x"] by (cases x) auto
  qed auto
qed auto

text \<open>
  A batch is admitted exactly when it is not empty, every command of it is named and accepted,
  and a command that needs the connection for itself is not pipelined with others; it is then marked
  exclusive exactly when it holds such a command.
\<close>

theorem admit_iff:
  "admit positive cmds pipe = Inr ex \<longleftrightarrow>
     cmds \<noteq> [] \<and> (\<forall>cmd \<in> set cmds. cmd \<noteq> [] \<and> hd cmd \<noteq> '''' \<and> (\<exists>x. validateIORedisQueuedCommand positive cmd = Inr x))
     \<and> (ex \<longleftrightarrow> (\<exists>cmd \<in> set cmds. validateIORedisQueuedCommand positive cmd = Inr True))
     \<and> \<not> (ex \<and> pipe \<and> length cmds \<noteq> 1)"
proof (cases "validate_commands positive False cmds")
  case (Inl e)
  then have "validate_commands positive False cmds \<noteq> Inr ex" for ex by simp
  then show ?thesis using Inl unfolding validate_commands_spec by (auto simp: admit_def)
next
  case (Inr b)
  then show ?thesis using Inr unfolding validate_commands_spec by (auto simp: admit_def Inr split: if_splits)
qed

theorem admit_iff_witness:
  "admit (\<lambda>_. True) [[''blpop'', ''q'', ''1'']] True = Inr True"
proof -
  have "validateIORedisQueuedCommand (\<lambda>_. True) [''blpop'', ''q'', ''1''] = Inr True" by code_simp
  then show ?thesis using admit_iff [of "\<lambda>_. True" "[[''blpop'', ''q'', ''1'']]" True True] by auto
qed

end
