(* ===== verification/Redis_Slots.thy ===== *)
theory Redis_Slots
  imports Redis_Session
begin

unbundle bit_operations_syntax

text \<open>
  Hash slots and CLUSTER SLOTS (\<^verbatim>\<open>redis/ioredis_topology.go\<close>): the slot of a key, the parsing of slot
  ranges, of Sentinel's answer and of redirections, and the host and port helpers they use.
\<close>

section \<open>Hash slots\<close>

text \<open>One round of the inner loop, and the eight rounds for a byte.\<close>

definition crc_bit :: "16 word \<Rightarrow> 16 word" where
  "crc_bit crc = (if crc AND 0x8000 \<noteq> 0 then push_bit 1 crc XOR 0x1021 else push_bit 1 crc)"

definition crc_byte :: "16 word \<Rightarrow> char \<Rightarrow> 16 word" where
  "crc_byte crc b = (crc_bit ^^ 8) (crc XOR push_bit 8 (of_char b))"

definition crc16 :: "string \<Rightarrow> 16 word" where
  "crc16 s = foldl crc_byte 0 s"

text \<open>The hash tag: what stands between the first opening brace and the first closing one after it, unless empty.\<close>

definition cut_at :: "char \<Rightarrow> string \<Rightarrow> (string \<times> string) option" where
  "cut_at c s = (if c \<in> set s then Some (takeWhile (\<lambda>x. x \<noteq> c) s, tl (dropWhile (\<lambda>x. x \<noteq> c) s)) else None)"

definition hash_tag :: "string \<Rightarrow> string" where
  "hash_tag key =
     (case cut_at CHR ''{'' key of
        None \<Rightarrow> key
      | Some (_, after) \<Rightarrow>
          (case cut_at CHR ''}'' after of
             None \<Rightarrow> key
           | Some (tag, _) \<Rightarrow> if tag = [] then key else tag))"

definition ioredisClusterSlot :: "string \<Rightarrow> nat" where
  "ioredisClusterSlot key = unat (crc16 (hash_tag key) mod 16384)"

section \<open>Hosts and ports\<close>

definition JoinHostPort :: "string \<Rightarrow> string \<Rightarrow> string" where
  "JoinHostPort host port =
     (if CHR '':'' \<in> set host then ''['' @ host @ '']:'' @ port else host @ '':'' @ port)"

text \<open>\<^verbatim>\<open>net.SplitHostPort\<close>, of which only the host is used.\<close>

definition addr_error :: "string \<Rightarrow> string \<Rightarrow> go_error" where
  "addr_error what hostport = Errorf ''address %s: %s'' [hostport, what]"

definition missing_port :: string where "missing_port = ''missing port in address''"
definition too_many_colons :: string where "too_many_colons = ''too many colons in address''"

definition last_index :: "char \<Rightarrow> string \<Rightarrow> nat option" where
  "last_index c s = (if c \<in> set s then Some (length s - Suc (length (takeWhile (\<lambda>x. x \<noteq> c) (rev s)))) else None)"

definition split_rest :: "string \<Rightarrow> string \<Rightarrow> nat \<Rightarrow> nat \<Rightarrow> go_error + string" where
  "split_rest hostport host j k =
     (if CHR ''['' \<in> set (drop j hostport) then Inl (addr_error ''unexpected '[' in address'' hostport)
      else if CHR '']'' \<in> set (drop k hostport) then Inl (addr_error ''unexpected ']' in address'' hostport)
      else Inr host)"

definition SplitHost :: "string \<Rightarrow> go_error + string" where
  "SplitHost hostport =
     (case last_index CHR '':'' hostport of
        None \<Rightarrow> Inl (addr_error missing_port hostport)
      | Some i \<Rightarrow>
          if hd hostport = CHR ''['' then
            (if CHR '']'' \<notin> set hostport then Inl (addr_error ''missing ']' in address'' hostport)
             else let stop = length (takeWhile (\<lambda>x. x \<noteq> CHR '']'') hostport)
                  in if Suc stop = length hostport then Inl (addr_error missing_port hostport)
                     else if Suc stop = i then split_rest hostport (take (stop - 1) (drop 1 hostport)) 1 (Suc stop)
                     else if hostport ! Suc stop = CHR '':'' then Inl (addr_error too_many_colons hostport)
                     else Inl (addr_error missing_port hostport))
          else if CHR '':'' \<in> set (take i hostport) then Inl (addr_error too_many_colons hostport)
          else split_rest hostport (take i hostport) 0 0)"

section \<open>Replies\<close>

definition ioredisReplyInt :: "resp_value \<Rightarrow> int option" where
  "ioredisReplyInt v =
     (case v of
        VInt i \<Rightarrow> Some i
      | VStr s \<Rightarrow> (case ParseInt s of Inl _ \<Rightarrow> None | Inr i \<Rightarrow> Some i)
      | _ \<Rightarrow> None)"

definition reply_port :: "resp_value \<Rightarrow> int option" where
  "reply_port v = (case ioredisReplyInt v of Some p \<Rightarrow> if p \<le> 0 \<or> p > 65535 then None else Some p | None \<Rightarrow> None)"

definition ioredisSentinelMasterAddress :: "resp_value \<Rightarrow> go_error + string" where
  "ioredisSentinelMasterAddress v =
     (case v of
        VArr [h, p] \<Rightarrow>
          (case h of
             VStr host \<Rightarrow>
               if TrimSpace host = '''' then Inl (errors_New ''redis: invalid Sentinel master host'')
               else (case reply_port p of
                       None \<Rightarrow> Inl (errors_New ''redis: invalid Sentinel master port'')
                     | Some port \<Rightarrow> Inr (JoinHostPort host (itoa_int port)))
           | _ \<Rightarrow> Inl (errors_New ''redis: invalid Sentinel master host''))
      | _ \<Rightarrow> Inl (errors_New ''redis: invalid Sentinel master reply''))"

record slot_range =
  sr_first :: nat
  sr_last :: nat
  sr_address :: string

definition invalid_row :: go_error where
  "invalid_row = errors_New ''redis: invalid CLUSTER SLOTS row''"

text \<open>A missing or blank host stands for the host the reply came from.\<close>

definition node_host :: "string \<Rightarrow> resp_value \<Rightarrow> go_error + string" where
  "node_host seed v =
     (case v of
        VStr host \<Rightarrow> if TrimSpace host \<noteq> '''' then Inr host else
          (case SplitHost seed of
             Inl e \<Rightarrow> Inl (newIORedisSafeError ''redis: invalid Cluster seed address'' e)
           | Inr h \<Rightarrow> if TrimSpace h = '''' then Inl (errors_New ''redis: invalid Cluster seed address'') else Inr h)
      | _ \<Rightarrow>
          (case SplitHost seed of
             Inl e \<Rightarrow> Inl (newIORedisSafeError ''redis: invalid Cluster seed address'' e)
           | Inr h \<Rightarrow> if TrimSpace h = '''' then Inl (errors_New ''redis: invalid Cluster seed address'') else Inr h))"

definition parse_row :: "string \<Rightarrow> resp_value \<Rightarrow> go_error + slot_range" where
  "parse_row seed v =
     (case v of
        VArr (a # b # n # _) \<Rightarrow>
          (case (ioredisReplyInt a, ioredisReplyInt b, n) of
             (Some lo, Some hi, VArr (h # p # _)) \<Rightarrow>
               if lo < 0 \<or> hi < lo \<or> hi \<ge> 16384 then Inl invalid_row
               else (case node_host seed h of
                       Inl e \<Rightarrow> Inl e
                     | Inr host \<Rightarrow>
                         (case reply_port p of
                            None \<Rightarrow> Inl (errors_New ''redis: invalid CLUSTER SLOTS node'')
                          | Some port \<Rightarrow>
                              Inr \<lparr>sr_first = nat lo, sr_last = nat hi,
                                   sr_address = JoinHostPort host (itoa_int port)\<rparr>))
           | _ \<Rightarrow> Inl invalid_row)
      | _ \<Rightarrow> Inl invalid_row)"

fun parse_rows :: "string \<Rightarrow> resp_value list \<Rightarrow> go_error + slot_range list" where
  "parse_rows seed [] = Inr []"
| "parse_rows seed (v # vs) =
     (case parse_row seed v of
        Inl e \<Rightarrow> Inl e
      | Inr r \<Rightarrow> (case parse_rows seed vs of Inl e \<Rightarrow> Inl e | Inr rs \<Rightarrow> Inr (r # rs)))"

definition parseIORedisClusterSlots :: "resp_value \<Rightarrow> string \<Rightarrow> go_error + slot_range list" where
  "parseIORedisClusterSlots v seed =
     (case v of
        VArr (r # rs) \<Rightarrow> parse_rows seed (r # rs)
      | _ \<Rightarrow> Inl (errors_New ''redis: invalid CLUSTER SLOTS reply''))"

section \<open>Redirections\<close>

text \<open>\<^verbatim>\<open>strings.Fields\<close>.  Every round takes at least one byte, so the length is fuel enough.\<close>

fun fields_loop :: "nat \<Rightarrow> string \<Rightarrow> string \<Rightarrow> string list" where
  "fields_loop 0 word s = (if word = [] then [] else [word])"
| "fields_loop (Suc fuel) word s =
     (if s = [] then (if word = [] then [] else [word])
      else case find (\<lambda>p. prefix p s) space_seqs of
             Some p \<Rightarrow> (if word = [] then [] else [word]) @ fields_loop fuel [] (drop (length p) s)
           | None \<Rightarrow> fields_loop fuel (word @ [hd s]) (tl s))"

definition Fields :: "string \<Rightarrow> string list" where
  "Fields s = fields_loop (length s) [] s"

datatype redirect_kind = MOVED | ASK

record redirect =
  rd_kind :: redirect_kind
  rd_slot :: nat
  rd_address :: string

text \<open>The text of a server error is its format.\<close>

definition parseIORedisClusterRedirect :: "go_error option \<Rightarrow> redirect option" where
  "parseIORedisClusterRedirect err =
     (case err of
        None \<Rightarrow> None
      | Some e \<Rightarrow>
          (case Fields (err_format e) of
             [k, s, a] \<Rightarrow>
               (let kind = (if to_upper k = ''MOVED'' then Some MOVED else if to_upper k = ''ASK'' then Some ASK else None)
                in case (kind, ParseInt s) of
                     (Some kd, Inr slot) \<Rightarrow>
                       if slot < 0 \<or> slot \<ge> 16384 \<or> TrimSpace a = '''' then None
                       else Some \<lparr>rd_kind = kd, rd_slot = nat slot, rd_address = a\<rparr>
                   | _ \<Rightarrow> None)
           | _ \<Rightarrow> None))"

end
