(* ===== verification/Redis_Cluster.thy ===== *)
theory Redis_Cluster
  imports Redis_Slots
begin

text \<open>
  The cluster transport and the Sentinel and Cluster factories (\<^verbatim>\<open>redis/ioredis_topology.go\<close>).

  Node connections are numbered in the order they were made.  What connecting, an exchange, closing
  a node and the context answer is the parameter \<open>cluster_env\<close>, any function of the events so far; the
  entry \<open>ce_closing\<close> says whether \<^verbatim>\<open>Close\<close> was called by another goroutine while a node was being
  connected; a cancelled QUIT closes the nodes early, which the answers of their exchanges cover.  An exchange on behalf of the caller and one for CLUSTER SLOTS are different events.
\<close>

section \<open>Options\<close>

record ioredisSentinelOptions =
  so_MasterName :: string
  so_Username :: string
  so_Password :: string
  so_SentinelUsername :: string
  so_SentinelPassword :: string
  so_DB :: int
  so_ConnectionName :: string
  so_ConnectTimeout :: int
  so_SocketTimeout :: int
  so_KeepAlive :: int
  so_DisableClientInfo :: bool
  so_clientInfoLibraryVersion :: string

text \<open>The connection to a Sentinel and the one to the master it names differ in credentials and database.\<close>

definition sentinel_conn :: "ioredisSentinelOptions \<Rightarrow> string \<Rightarrow> IORedisRESPOptions" where
  "sentinel_conn o' address = \<lparr>Addr = address, Username = so_SentinelUsername o', Password = so_SentinelPassword o', DB = 0,
     ConnectionName = so_ConnectionName o', ConnectTimeout = so_ConnectTimeout o', SocketTimeout = so_SocketTimeout o',
     KeepAlive = so_KeepAlive o', DisableClientInfo = so_DisableClientInfo o', DisableReadyCheck = False,
     MaxLoadingRetryTime = 0, clientInfoLibraryVersion = so_clientInfoLibraryVersion o'\<rparr>"

definition master_conn :: "ioredisSentinelOptions \<Rightarrow> string \<Rightarrow> IORedisRESPOptions" where
  "master_conn o' address = (sentinel_conn o' address)\<lparr>Username := so_Username o', Password := so_Password o', DB := so_DB o'\<rparr>"

record ioredisClusterOptions =
  co_Username :: string
  co_Password :: string
  co_DB :: int
  co_ConnectionName :: string
  co_ConnectTimeout :: int
  co_SocketTimeout :: int
  co_KeepAlive :: int
  co_DisableClientInfo :: bool
  co_clientInfoLibraryVersion :: string

definition node_conn :: "ioredisClusterOptions \<Rightarrow> string \<Rightarrow> IORedisRESPOptions" where
  "node_conn o' address = \<lparr>Addr = address, Username = co_Username o', Password = co_Password o', DB = co_DB o',
     ConnectionName = co_ConnectionName o', ConnectTimeout = co_ConnectTimeout o', SocketTimeout = co_SocketTimeout o',
     KeepAlive = co_KeepAlive o', DisableClientInfo = co_DisableClientInfo o', DisableReadyCheck = False,
     MaxLoadingRetryTime = 0, clientInfoLibraryVersion = co_clientInfoLibraryVersion o'\<rparr>"

section \<open>State and environment\<close>

datatype cluster_event =
    NodeConnect IORedisRESPOptions "go_error option"
  | NodeExchange nat "string list list" IORedisExchange
  | NodeSlots nat IORedisExchange
  | NodeClose nat "go_error option"
  | CtxCheck "go_error option"

type_synonym cluster_events = "cluster_event list"

record cluster_env =
  ce_connect :: "IORedisRESPOptions \<Rightarrow> cluster_events \<Rightarrow> go_error option"
  ce_exchange :: "nat \<Rightarrow> string list list \<Rightarrow> cluster_events \<Rightarrow> IORedisExchange"
  ce_close :: "nat \<Rightarrow> cluster_events \<Rightarrow> go_error option"
  ce_ctx :: "cluster_events \<Rightarrow> go_error option"
  ce_closing :: "cluster_events \<Rightarrow> bool"

record cluster =
  c_options :: ioredisClusterOptions
  c_nodes :: "nat gomap"
  c_slots :: "nat \<Rightarrow> string"
  c_first :: string
  c_stopped :: bool
  c_closed :: bool
  c_closeErr :: "go_error option option"
  c_next :: nat
  c_events :: cluster_events

definition log_event :: "cluster_event \<Rightarrow> cluster \<Rightarrow> cluster" where
  "log_event e t = t\<lparr>c_events := c_events t @ [e]\<rparr>"

text \<open>\<^verbatim>\<open>connectIORedisRESP\<close>: the checks of the options, then the connection.\<close>

definition connectIORedisRESP :: "cluster_env \<Rightarrow> IORedisRESPOptions \<Rightarrow> cluster \<Rightarrow> (go_error + nat) \<times> cluster" where
  "connectIORedisRESP env opts t =
     (case NewIORedisRESPTransportFactory opts of
        Inl e \<Rightarrow> (Inl e, t)
      | Inr opts' \<Rightarrow>
          (let r = ce_connect env opts' (c_events t); t1 = log_event (NodeConnect opts' r) t
           in case r of
                Some e \<Rightarrow> (Inl e, t1)
              | None \<Rightarrow> (Inr (c_next t), t1\<lparr>c_next := Suc (c_next t)\<rparr>)))"

definition node_exchange :: "cluster_env \<Rightarrow> nat \<Rightarrow> string list list \<Rightarrow> cluster \<Rightarrow> IORedisExchange \<times> cluster" where
  "node_exchange env n cmds t =
     (let x = ce_exchange env n cmds (c_events t) in (x, log_event (NodeExchange n cmds x) t))"

definition slots_exchange :: "cluster_env \<Rightarrow> nat \<Rightarrow> cluster \<Rightarrow> IORedisExchange \<times> cluster" where
  "slots_exchange env n t =
     (let x = ce_exchange env n [[''cluster'', ''slots'']] (c_events t) in (x, log_event (NodeSlots n x) t))"

definition close_node :: "cluster_env \<Rightarrow> nat \<Rightarrow> cluster \<Rightarrow> go_error option \<times> cluster" where
  "close_node env n t = (let e = ce_close env n (c_events t) in (e, log_event (NodeClose n e) t))"

fun close_nodes :: "cluster_env \<Rightarrow> nat list \<Rightarrow> nat \<Rightarrow> cluster \<Rightarrow> nat \<times> cluster" where
  "close_nodes env [] failures t = (failures, t)"
| "close_nodes env (n # ns) failures t =
     (case close_node env n t of
        (e, t1) \<Rightarrow> close_nodes env ns (if e \<noteq> None then Suc failures else failures) t1)"

definition cluster_Close :: "cluster_env \<Rightarrow> cluster \<Rightarrow> go_error option \<times> cluster" where
  "cluster_Close env t =
     (case c_closeErr t of
        Some e \<Rightarrow> (e, t)
      | None \<Rightarrow>
          (case close_nodes env (map snd (c_nodes t)) 0 (t\<lparr>c_closed := True, c_stopped := True\<rparr>) of
             (failures, t1) \<Rightarrow>
               let e = (if failures > 0
                        then Some (Errorf ''redis: %d Cluster node connections failed to close'' [itoa failures]) else None)
               in (e, t1\<lparr>c_closeErr := Some e\<rparr>)))"

text \<open>A node connection that closes by itself closes the whole transport, unless it is stopping.\<close>

definition watch_fired :: "cluster \<Rightarrow> cluster" where
  "watch_fired t = (if c_stopped t then t else t\<lparr>c_closed := True\<rparr>)"

section \<open>Nodes\<close>

definition connectNode :: "cluster_env \<Rightarrow> string \<Rightarrow> cluster \<Rightarrow> (go_error + nat) \<times> cluster" where
  "connectNode env address t = connectIORedisRESP env (node_conn (c_options t) address) t"

definition nodeForAddress :: "cluster_env \<Rightarrow> string \<Rightarrow> cluster \<Rightarrow> (go_error + nat) \<times> cluster" where
  "nodeForAddress env address t =
     (if c_stopped t then (Inl IORedisConnectionClosedError, t)
      else case go_get (c_nodes t) address of
        Some n \<Rightarrow> (Inr n, t)
      | None \<Rightarrow>
     (case connectNode env address t of
        (Inl e, t1) \<Rightarrow> (Inl (newIORedisSafeError ''redis: Cluster node connection failed'' e), t1)
      | (Inr n, t1) \<Rightarrow>
          let t2 = (if ce_closing env (c_events t1) then snd (cluster_Close env t1) else t1)
          in if c_stopped t2 then (Inl IORedisConnectionClosedError, snd (close_node env n t2))
             else case go_get (c_nodes t2) address of
                    Some existing \<Rightarrow> (Inr existing, snd (close_node env n t2))
                  | None \<Rightarrow> (Inr n, t2\<lparr>c_nodes := go_set address n (c_nodes t2)\<rparr>)))"

section \<open>Routing\<close>

definition routeFirstNode :: "cluster \<Rightarrow> go_error + string" where
  "routeFirstNode t =
     (if c_first t = '''' then Inl (errors_New ''redis: ioredis Cluster has no available node'') else Inr (c_first t))"

definition routeSlot :: "cluster \<Rightarrow> nat \<Rightarrow> go_error + string" where
  "routeSlot t slot =
     (if c_slots t slot = '''' then Inl (Errorf ''redis: Cluster slot %d is not mapped'' [itoa slot]) else Inr (c_slots t slot))"

definition routeKey :: "cluster \<Rightarrow> string \<Rightarrow> go_error + string" where
  "routeKey t key = routeSlot t (ioredisClusterSlot key)"

text \<open>The first of several keys whose slot differs from a given one.\<close>

definition other_slot :: "nat \<Rightarrow> string list \<Rightarrow> nat option" where
  "other_slot slot keys = map_option ioredisClusterSlot (find (\<lambda>k. ioredisClusterSlot k \<noteq> slot) keys)"

definition routeKeys :: "cluster \<Rightarrow> string list \<Rightarrow> go_error + string" where
  "routeKeys t keys =
     (case keys of
        [] \<Rightarrow> Inl (errors_New ''redis: ioredis Cluster command has no routable key'')
      | k # ks \<Rightarrow>
          (case other_slot (ioredisClusterSlot k) ks of
             Some s \<Rightarrow> Inl (Errorf ''redis: ioredis Cluster command keys span hash slots %d and %d'' [itoa (ioredisClusterSlot k), itoa s])
           | None \<Rightarrow> routeSlot t (ioredisClusterSlot k)))"

definition routeKeyAt :: "cluster \<Rightarrow> string list \<Rightarrow> nat \<Rightarrow> go_error + string" where
  "routeKeyAt t command index =
     (if length command \<le> index
      then Inl (Errorf ''redis: ioredis Cluster command %s is missing its key'' [to_upper (hd command)])
      else routeKey t (command ! index))"

definition ioredisClusterKeyedSubcommand :: "string \<Rightarrow> string \<Rightarrow> bool" where
  "ioredisClusterKeyedSubcommand verb sub \<longleftrightarrow>
     verb = ''OBJECT'' \<and> sub \<in> set [''ENCODING'', ''FREQ'', ''IDLETIME'', ''REFCOUNT'']
   \<or> verb = ''XGROUP'' \<and> sub \<in> set [''CREATE'', ''CREATECONSUMER'', ''DELCONSUMER'', ''DESTROY'', ''SETID'']
   \<or> verb = ''XINFO'' \<and> sub \<in> set [''CONSUMERS'', ''GROUPS'', ''STREAM'']"

definition routeSubcommandKey :: "cluster \<Rightarrow> string list \<Rightarrow> go_error + string" where
  "routeSubcommandKey t command =
     (let verb = to_upper (hd command)
      in if length command < 2 then Inl (Errorf ''redis: ioredis Cluster command %s is missing its subcommand'' [verb])
         else let sub = to_upper (command ! 1)
              in if sub = ''HELP'' then routeFirstNode t
                 else if \<not> ioredisClusterKeyedSubcommand verb sub
                 then Inl (Errorf ''redis: ioredis Cluster command %s has no supported subcommand routing rule'' [verb])
                 else routeKeyAt t command 2)"

definition ioredisClusterNodeCommand :: "string \<Rightarrow> bool" where
  "ioredisClusterNodeCommand verb \<longleftrightarrow>
     verb \<in> set [''PING'', ''ECHO'', ''INFO'', ''TIME'', ''LASTSAVE'', ''ROLE'', ''COMMAND'', ''CLIENT'', ''CLUSTER'', ''DBSIZE'']"

definition key_count :: "string \<Rightarrow> int option" where
  "key_count s = (case ParseInt s of Inl _ \<Rightarrow> None | Inr n \<Rightarrow> Some n)"

definition routeEval :: "cluster \<Rightarrow> string list \<Rightarrow> nat \<Rightarrow> go_error + string" where
  "routeEval t command keyCountIndex =
     (let verb = to_upper (hd command); firstKeyIndex = keyCountIndex + 1
      in if length command \<le> keyCountIndex
         then Inl (Errorf ''redis: ioredis Cluster command %s is missing its key count'' [verb])
         else case key_count (command ! keyCountIndex) of
                None \<Rightarrow> Inl (Errorf ''redis: ioredis Cluster command %s has an invalid key count'' [verb])
              | Some n \<Rightarrow>
                  if n < 0 then Inl (Errorf ''redis: ioredis Cluster command %s has an invalid key count'' [verb])
                  else if n > int (length command) - int firstKeyIndex
                  then Inl (Errorf ''redis: ioredis Cluster command %s declares %d keys but provides %d arguments''
                         [verb, itoa_int n, itoa_int (int (length command) - int firstKeyIndex)])
                  else if n = 0 then routeFirstNode t
                  else let slot = ioredisClusterSlot (command ! firstKeyIndex);
                           others = take (nat n - 1) (drop (firstKeyIndex + 1) command)
                       in case other_slot slot others of
                            Some s \<Rightarrow> Inl (Errorf ''redis: ioredis Cluster command %s keys span hash slots %d and %d'' [verb, itoa slot, itoa s])
                          | None \<Rightarrow> routeSlot t slot)"

definition routeXRead :: "(string \<Rightarrow> bool) \<Rightarrow> cluster \<Rightarrow> string list \<Rightarrow> go_error + string" where
  "routeXRead positive t command =
     (let verb = to_upper (hd command)
      in case parseIORedisXReadPrefix positive command of
           Inl _ \<Rightarrow> Inl (Errorf ''redis: ioredis command %s has an invalid STREAMS option prefix'' [verb])
         | Inr x \<Rightarrow>
             (let remaining = length command - streamsIndex x - 1; keyCount = remaining div 2
              in if remaining mod 2 \<noteq> 0 then Inl (Errorf ''redis: ioredis Cluster command %s has mismatched stream keys and IDs'' [verb])
                 else if keyCount = 0 then Inl (Errorf ''redis: ioredis Cluster command %s has no stream key'' [verb])
                 else routeKeys t (take keyCount (drop (streamsIndex x + 1) command))))"

definition routeCountedKeys :: "cluster \<Rightarrow> string list \<Rightarrow> nat \<Rightarrow> nat \<Rightarrow> go_error + string" where
  "routeCountedKeys t command keyCountIndex firstKeyIndex =
     (let verb = to_upper (hd command); invalid = Inl (Errorf ''redis: ioredis Cluster command %s has an invalid key count'' [verb])
      in if length command \<le> keyCountIndex
         then Inl (Errorf ''redis: ioredis Cluster command %s is missing its key count'' [verb])
         else case key_count (command ! keyCountIndex) of
                None \<Rightarrow> invalid
              | Some n \<Rightarrow>
                  if n \<le> 0 \<or> firstKeyIndex > length command \<or> n > int (length command) - int firstKeyIndex then invalid
                  else routeKeys t (take (nat n) (drop firstKeyIndex command)))"

definition routeMemory :: "cluster \<Rightarrow> string list \<Rightarrow> go_error + string" where
  "routeMemory t command =
     (if length command < 2 then Inl (errors_New ''redis: ioredis Cluster command MEMORY is missing its subcommand'')
      else let sub = to_upper (command ! 1)
           in if sub = ''USAGE'' then routeKeyAt t command 2
              else if sub \<in> set [''DOCTOR'', ''HELP'', ''MALLOC-STATS'', ''PURGE'', ''STATS''] then routeFirstNode t
              else Inl (errors_New ''redis: ioredis Cluster command MEMORY has no supported subcommand routing rule''))"

definition route :: "(string \<Rightarrow> bool) \<Rightarrow> cluster \<Rightarrow> string list \<Rightarrow> go_error + string" where
  "route positive t command =
     (if command = [] then Inl (errors_New ''redis: Cluster command is empty'')
      else let verb = to_upper (hd command)
      in if verb \<in> set [''SCAN'', ''KEYS'', ''FLUSHDB'', ''FLUSHALL'', ''RANDOMKEY'']
         then Inl (Errorf ''redis: ioredis Cluster command %s is cluster-wide and unsupported; execute it explicitly on each intended node'' [verb])
         else if ioredisClusterNodeCommand verb \<or> verb = ''SCRIPT'' then routeFirstNode t
         else if verb \<in> set [''EVAL'', ''EVALSHA'', ''FCALL'', ''FCALL_RO''] then routeEval t command 2
         else if verb \<in> set [''XREAD'', ''XREADGROUP''] then routeXRead positive t command
         else if verb \<in> set [''OBJECT'', ''XGROUP'', ''XINFO''] then routeSubcommandKey t command
         else if verb = ''MEMORY'' then routeMemory t command
         else if verb \<in> set [''BLPOP'', ''BRPOP'', ''BZPOPMIN'', ''BZPOPMAX''] then
           (if length command < 3 then Inl (Errorf ''redis: ioredis Cluster command %s is missing keys or timeout'' [verb])
            else routeKeys t (butlast (tl command)))
         else if verb \<in> set [''BRPOPLPUSH'', ''BLMOVE''] then
           (if length command < 2 then Inl (Errorf ''redis: ioredis Cluster command %s is missing its source key'' [verb])
            else routeKey t (command ! 1))
         else if verb \<in> set [''BLMPOP'', ''BZMPOP''] then routeCountedKeys t command 2 3
         else if length command < 2 then Inl (Errorf ''redis: ioredis Cluster command %s has no routable key'' [verb])
         else routeKey t (command ! 1))"

section \<open>Outcomes\<close>

definition outcome :: "IORedisReply list \<Rightarrow> bool \<Rightarrow> IORedisWriteDisposition \<Rightarrow> go_error option \<Rightarrow> IORedisExchange" where
  "outcome replies may disp err = \<lparr>Replies = replies, MayHaveExecuted = may, WriteDisposition = disp,
     BytesWritten = 0, BytesTotal = 0, NetworkBytesWritten = 0, Error = err\<rparr>"

definition not_sent :: "go_error \<Rightarrow> IORedisExchange" where
  "not_sent e = outcome [] False IORedisNotWritten (Some e)"

definition IORedisRedirectError :: "bool \<Rightarrow> go_error \<Rightarrow> go_error" where
  "IORedisRedirectError may cause = GoError ''redirect'' [if may then ''may have executed'' else ''not executed''] [cause]"

definition newIORedisTerminalError :: "go_error \<Rightarrow> go_error" where
  "newIORedisTerminalError e = ioredisTerminalError False e"

definition newIORedisRedirectOutcomeError :: "go_error \<Rightarrow> bool \<Rightarrow> go_error" where
  "newIORedisRedirectOutcomeError e may = ioredisTerminalError may (IORedisRedirectError may e)"

definition newIORedisAuthoritativeRedirectError :: "go_error \<Rightarrow> bool \<Rightarrow> go_error" where
  "newIORedisAuthoritativeRedirectError e may = ioredisTerminalError False (IORedisRedirectError may e)"

definition ioredisRedirectFailure :: "go_error \<Rightarrow> bool \<Rightarrow> IORedisExchange" where
  "ioredisRedirectFailure e may =
     outcome [] may IORedisFullyWritten
       (Some (newIORedisRedirectOutcomeError
          (newIORedisSafeError ''redis: ioredis Cluster redirect could not be completed safely'' e) may))"

section \<open>Slot tables\<close>

definition set_range :: "slot_range \<Rightarrow> (nat \<Rightarrow> string) \<Rightarrow> nat \<Rightarrow> string" where
  "set_range r slots = (\<lambda>s. if sr_first r \<le> s \<and> s \<le> sr_last r then sr_address r else slots s)"

definition slot_table :: "slot_range list \<Rightarrow> nat \<Rightarrow> string" where
  "slot_table ranges = fold set_range ranges (\<lambda>_. '''')"

definition first_address :: "slot_range list \<Rightarrow> string" where
  "first_address ranges = (case filter (\<lambda>r. sr_address r \<noteq> '''') ranges of [] \<Rightarrow> '''' | r # _ \<Rightarrow> sr_address r)"

definition refreshSlots :: "cluster_env \<Rightarrow> string \<Rightarrow> cluster \<Rightarrow> go_error option \<times> cluster" where
  "refreshSlots env address t =
     (case nodeForAddress env address t of
        (Inl e, t1) \<Rightarrow> (Some e, t1)
      | (Inr n, t1) \<Rightarrow>
     (case slots_exchange env n t1 of
        (x, t2) \<Rightarrow>
     (case Error x of
        Some e \<Rightarrow> (Some (newIORedisSafeError ''redis: CLUSTER SLOTS refresh failed'' e), t2)
      | None \<Rightarrow>
     (case Replies x of
        [r] \<Rightarrow>
          (case ReplyError r of
             Some e \<Rightarrow> (Some (newIORedisSafeError ''redis: CLUSTER SLOTS refresh was rejected'' e), t2)
           | None \<Rightarrow>
               (case parseIORedisClusterSlots (Value r) address of
                  Inl e \<Rightarrow> (Some e, t2)
                | Inr ranges \<Rightarrow> (None, t2\<lparr>c_slots := slot_table ranges, c_first := first_address ranges\<rparr>)))
      | rs \<Rightarrow> (Some (Errorf ''redis: CLUSTER SLOTS returned %d replies'' [itoa (length rs)]), t2)))))"

section \<open>Redirected commands\<close>

definition ioredisClusterMaxRedirects :: nat where
  "ioredisClusterMaxRedirects = 16"

text \<open>One attempt: it is over, or the command was redirected again.\<close>

definition ask_attempt :: "cluster_env \<Rightarrow> string list \<Rightarrow> redirect \<Rightarrow> cluster \<Rightarrow> (IORedisExchange + redirect) \<times> cluster" where
  "ask_attempt env command rd t =
     (case nodeForAddress env (rd_address rd) t of
        (Inl e, t1) \<Rightarrow> (Inl (ioredisRedirectFailure e False), t1)
      | (Inr n, t1) \<Rightarrow>
     (case node_exchange env n [[''asking''], command] t1 of
        (x, t2) \<Rightarrow>
     (case Error x of
        Some e \<Rightarrow> (Inl (ioredisRedirectFailure e (MayHaveExecuted x)), t2)
      | None \<Rightarrow>
     (case Replies x of
        [a, r] \<Rightarrow>
          if ReplyError a \<noteq> None
          then (Inl (ioredisRedirectFailure (errors_New ''redis: ASKING failed before the redirected command completed'') True), t2)
          else (case parseIORedisClusterRedirect (ReplyError r) of
                  Some next_rd \<Rightarrow> (Inr next_rd, t2)
                | None \<Rightarrow> (Inl (outcome [r] True IORedisFullyWritten None), t2))
      | _ \<Rightarrow> (Inl (ioredisRedirectFailure (errors_New ''redis: ASKING failed before the redirected command completed'') True), t2)))))"

definition moved_attempt ::
    "(string \<Rightarrow> bool) \<Rightarrow> cluster_env \<Rightarrow> string list \<Rightarrow> redirect \<Rightarrow> cluster \<Rightarrow> (IORedisExchange + redirect) \<times> cluster" where
  "moved_attempt positive env command rd t =
     (case refreshSlots env (rd_address rd) t of
        (Some e, t1) \<Rightarrow> (Inl (ioredisRedirectFailure e False), t1)
      | (None, t1) \<Rightarrow>
     (case route positive t1 command of
        Inl e \<Rightarrow> (Inl (ioredisRedirectFailure e False), t1)
      | Inr address \<Rightarrow>
     (case nodeForAddress env address t1 of
        (Inl e, t2) \<Rightarrow> (Inl (ioredisRedirectFailure e False), t2)
      | (Inr n, t2) \<Rightarrow>
     (case node_exchange env n [command] t2 of
        (x, t3) \<Rightarrow>
     (case Error x of
        Some e \<Rightarrow> (Inl (ioredisRedirectFailure e (MayHaveExecuted x)), t3)
      | None \<Rightarrow>
     (case Replies x of
        [r] \<Rightarrow>
          (case parseIORedisClusterRedirect (ReplyError r) of
             Some next_rd \<Rightarrow> (Inr next_rd, t3)
           | None \<Rightarrow> (Inl (outcome [r] True IORedisFullyWritten None), t3))
      | rs \<Rightarrow> (Inl (ioredisRedirectFailure (Errorf ''redis: redirected Cluster node returned %d replies for one command'' [itoa (length rs)]) True), t3)))))))"

fun follow_redirects ::
    "nat \<Rightarrow> (string \<Rightarrow> bool) \<Rightarrow> cluster_env \<Rightarrow> string list \<Rightarrow> redirect \<Rightarrow> cluster \<Rightarrow> IORedisExchange \<times> cluster" where
  "follow_redirects 0 positive env command rd t =
     (ioredisRedirectFailure (errors_New ''redis: Cluster redirect limit reached'') False, t)"
| "follow_redirects (Suc attempts) positive env command rd t =
     (case (case rd_kind rd of ASK \<Rightarrow> ask_attempt env command rd t | MOVED \<Rightarrow> moved_attempt positive env command rd t) of
        (Inl x, t1) \<Rightarrow> (x, t1)
      | (Inr next_rd, t1) \<Rightarrow> follow_redirects attempts positive env command next_rd t1)"

definition followSingleRedirect ::
    "(string \<Rightarrow> bool) \<Rightarrow> cluster_env \<Rightarrow> string list \<Rightarrow> redirect \<Rightarrow> cluster \<Rightarrow> IORedisExchange \<times> cluster" where
  "followSingleRedirect = follow_redirects ioredisClusterMaxRedirects"

section \<open>Exchange\<close>

fun route_all :: "(string \<Rightarrow> bool) \<Rightarrow> cluster \<Rightarrow> string list list \<Rightarrow> go_error + string list" where
  "route_all positive t [] = Inr []"
| "route_all positive t (command # cmds) =
     (case route positive t command of
        Inl e \<Rightarrow> Inl e
      | Inr a \<Rightarrow> (case route_all positive t cmds of Inl e \<Rightarrow> Inl e | Inr as \<Rightarrow> Inr (a # as)))"

definition first_redirect :: "IORedisReply list \<Rightarrow> redirect option" where
  "first_redirect rs =
     (case List.map_filter (\<lambda>r. parseIORedisClusterRedirect (ReplyError r)) rs of [] \<Rightarrow> None | rd # _ \<Rightarrow> Some rd)"

definition sort_addresses :: "nat gomap \<Rightarrow> nat list" where
  "sort_addresses nodes = map snd (sort_key fst nodes)"

definition quit_result :: "IORedisExchange \<Rightarrow> go_error option" where
  "quit_result x =
     (case Error x of
        Some e \<Rightarrow> Some e
      | None \<Rightarrow>
          (case Replies x of
             [r] \<Rightarrow>
               (case ReplyError r of
                  Some e \<Rightarrow> Some e
                | None \<Rightarrow> if Value r \<noteq> VStr ''OK'' then Some (errors_New ''redis: Cluster node returned an invalid QUIT reply'') else None)
           | _ \<Rightarrow> Some (errors_New ''redis: Cluster node returned an invalid QUIT reply count'')))"

fun quit_nodes :: "cluster_env \<Rightarrow> nat list \<Rightarrow> go_error option \<Rightarrow> cluster \<Rightarrow> go_error option \<times> cluster" where
  "quit_nodes env [] quitErr t = (quitErr, t)"
| "quit_nodes env (n # ns) quitErr t =
     (let ce = ce_ctx env (c_events t); t1 = log_event (CtxCheck ce) t
      in case ce of
           Some e \<Rightarrow> (Some e, t1)
         | None \<Rightarrow>
             (case node_exchange env n [[''quit'']] t1 of
                (x, t2) \<Rightarrow>
                  quit_nodes env ns
                    (case quitErr of
                       Some q \<Rightarrow> Some q
                     | None \<Rightarrow> map_option (newIORedisSafeError ''redis: Cluster node QUIT failed'') (quit_result x)) t2))"

definition cluster_quit :: "cluster_env \<Rightarrow> cluster \<Rightarrow> IORedisExchange \<times> cluster" where
  "cluster_quit env t =
     (if c_stopped t
      then (outcome [] False IORedisWriteUnknown (Some (newIORedisTerminalError IORedisConnectionClosedError)), t)
      else case quit_nodes env (sort_addresses (c_nodes t)) None (t\<lparr>c_stopped := True\<rparr>) of
             (quitErr, t1) \<Rightarrow>
           (case cluster_Close env t1 of
              (closeErr, t2) \<Rightarrow>
                (case (case quitErr of Some e \<Rightarrow> Some e | None \<Rightarrow> closeErr) of
                   Some e \<Rightarrow> (outcome [] False IORedisFullyWritten (Some (newIORedisTerminalError e)), t2)
                 | None \<Rightarrow> (outcome [Reply (VStr ''OK'') None] False IORedisFullyWritten None, t2))))"

text \<open>Every command went to one node, so that node's replies are the replies, in order.\<close>

definition send_batch ::
    "(string \<Rightarrow> bool) \<Rightarrow> cluster_env \<Rightarrow> string \<Rightarrow> string list list \<Rightarrow> cluster \<Rightarrow> IORedisExchange \<times> cluster" where
  "send_batch positive env address cmds t =
     (case nodeForAddress env address t of
        (Inl e, t1) \<Rightarrow> (not_sent (newIORedisTerminalError e), t1)
      | (Inr n, t1) \<Rightarrow>
     (case node_exchange env n cmds t1 of
        (x, t2) \<Rightarrow>
          if Error x \<noteq> None then (x, t2)
          else if length (Replies x) \<noteq> length cmds
          then (outcome [] True IORedisFullyWritten
                  (Some (Errorf ''redis: Cluster node returned %d replies for %d commands'' [itoa (length (Replies x)), itoa (length cmds)])), t2)
          else case first_redirect (Replies x) of
                 None \<Rightarrow> (outcome (Replies x) True IORedisFullyWritten None, t2)
               | Some rd \<Rightarrow>
                   if length cmds = 1 then followSingleRedirect positive env (hd cmds) rd t2
                   else (outcome (Replies x) (length cmds > 1) IORedisFullyWritten
                           (Some (newIORedisAuthoritativeRedirectError
                              (errors_New ''redis: ioredis Cluster pipeline redirect is not replayed automatically'') (length cmds > 1))), t2)))"

definition cluster_Exchange :: "(string \<Rightarrow> bool) \<Rightarrow> cluster_env \<Rightarrow> string list list \<Rightarrow> cluster \<Rightarrow> IORedisExchange \<times> cluster" where
  "cluster_Exchange positive env cmds t =
     (if cmds = [] then (not_sent (errors_New ''redis: empty Cluster exchange''), t)
      else if length cmds = 1 \<and> length (hd cmds) = 1 \<and> equal_fold_lit (hd (hd cmds)) ''QUIT'' then cluster_quit env t
      else case route_all positive t cmds of
             Inl e \<Rightarrow> (not_sent (newIORedisTerminalError e), t)
           | Inr addresses \<Rightarrow>
               (case remdups addresses of
                  [a] \<Rightarrow> send_batch positive env a cmds t
                | order \<Rightarrow>
                    (not_sent (newIORedisTerminalError
                       (Errorf ''redis: ioredis Cluster pipeline spans %d nodes; split it by hash slot before submitting'' [itoa (length order)])), t)))"

section \<open>Factories\<close>

fun attach_ranges :: "cluster_env \<Rightarrow> slot_range list \<Rightarrow> cluster \<Rightarrow> go_error option \<times> cluster" where
  "attach_ranges env [] t = (None, t)"
| "attach_ranges env (r # rs) t =
     (let t1 = t\<lparr>c_first := (if c_first t = '''' then sr_address r else c_first t), c_slots := set_range r (c_slots t)\<rparr>
      in if go_get (c_nodes t1) (sr_address r) \<noteq> None then attach_ranges env rs t1
         else case connectNode env (sr_address r) t1 of
                (Inl e, t2) \<Rightarrow> (Some (newIORedisSafeError ''redis: Cluster node connection failed'' e), snd (cluster_Close env t2))
              | (Inr n, t2) \<Rightarrow> attach_ranges env rs (t2\<lparr>c_nodes := go_set (sr_address r) n (c_nodes t2)\<rparr>))"

definition newIORedisClusterTransport :: "cluster_env \<Rightarrow> slot_range list \<Rightarrow> cluster \<Rightarrow> go_error option \<times> cluster" where
  "newIORedisClusterTransport env ranges t =
     (case attach_ranges env ranges t of
        (Some e, t1) \<Rightarrow> (Some e, t1)
      | (None, t1) \<Rightarrow>
          if c_first t1 = '''' \<or> c_nodes t1 = []
          then (Some (errors_New ''redis: CLUSTER SLOTS returned no master nodes''), t1) else (None, t1))"

definition new_cluster :: "ioredisClusterOptions \<Rightarrow> cluster_events \<Rightarrow> nat \<Rightarrow> cluster" where
  "new_cluster opts ev n = \<lparr>c_options = opts, c_nodes = [], c_slots = (\<lambda>_. ''''), c_first = '''', c_stopped = False,
     c_closed = False, c_closeErr = None, c_next = n, c_events = ev\<rparr>"

text \<open>The seeds are asked in turn for the slots; the first useful answer decides.\<close>

fun cluster_Connect :: "cluster_env \<Rightarrow> string list \<Rightarrow> nat \<Rightarrow> cluster \<Rightarrow> go_error option \<times> cluster" where
  "cluster_Connect env [] failures t =
     (Some (Errorf ''redis: no Cluster seed returned slots after %d attempts'' [itoa failures]), t)"
| "cluster_Connect env (seed # seeds) failures t =
     (case connectNode env seed t of
        (Inl e, t1) \<Rightarrow> cluster_Connect env seeds (Suc failures) t1
      | (Inr n, t1) \<Rightarrow>
     (case slots_exchange env n t1 of
        (x, t2) \<Rightarrow>
          (let t3 = snd (close_node env n t2)
           in case (Error x, Replies x) of
                (None, [r]) \<Rightarrow>
                  (case (ReplyError r, parseIORedisClusterSlots (Value r) seed) of
                     (None, Inr ranges) \<Rightarrow> newIORedisClusterTransport env ranges t3
                   | _ \<Rightarrow> cluster_Connect env seeds (Suc failures) t3)
              | _ \<Rightarrow> cluster_Connect env seeds (Suc failures) t3)))"

definition ioredisClusterFactory_Connect :: "cluster_env \<Rightarrow> string list \<Rightarrow> ioredisClusterOptions \<Rightarrow> go_error option \<times> cluster" where
  "ioredisClusterFactory_Connect env seeds opts =
     (if seeds = [] then (Some (errors_New ''redis: ioredis Cluster seed address is required''), new_cluster opts [] 0)
      else cluster_Connect env seeds 0 (new_cluster opts [] 0))"

text \<open>The Sentinels are asked in turn; the first address they agree to give is the one connected to.\<close>

fun sentinel_Connect :: "cluster_env \<Rightarrow> ioredisSentinelOptions \<Rightarrow> string list \<Rightarrow> nat \<Rightarrow> cluster \<Rightarrow> (go_error + nat) \<times> cluster" where
  "sentinel_Connect env so [] failures t =
     (Inl (Errorf ''redis: no Sentinel could resolve the configured master after %d attempts'' [itoa failures]), t)"
| "sentinel_Connect env so (address # addresses) failures t =
     (case connectIORedisRESP env (sentinel_conn so address) t of
        (Inl e, t1) \<Rightarrow> sentinel_Connect env so addresses (Suc failures) t1
      | (Inr n, t1) \<Rightarrow>
     (case node_exchange env n [[''sentinel'', ''get-master-addr-by-name'', so_MasterName so]] t1 of
        (x, t2) \<Rightarrow>
          (let t3 = snd (close_node env n t2)
           in case (Error x, Replies x) of
                (None, [r]) \<Rightarrow>
                  (case (ReplyError r, ioredisSentinelMasterAddress (Value r)) of
                     (None, Inr master) \<Rightarrow>
                       (case connectIORedisRESP env (master_conn so master) t3 of
                          (Inl e, t4) \<Rightarrow> (Inl (newIORedisSafeError ''redis: resolved Sentinel master connection failed'' e), t4)
                        | (Inr m, t4) \<Rightarrow> (Inr m, t4))
                   | _ \<Rightarrow> sentinel_Connect env so addresses (Suc failures) t3)
              | _ \<Rightarrow> sentinel_Connect env so addresses (Suc failures) t3)))"

definition ioredisSentinelFactory_Connect ::
    "cluster_env \<Rightarrow> ioredisSentinelOptions \<Rightarrow> string list \<Rightarrow> cluster \<Rightarrow> (go_error + nat) \<times> cluster" where
  "ioredisSentinelFactory_Connect env so addresses t =
     (if addresses = [] \<or> TrimSpace (so_MasterName so) = ''''
      then (Inl (errors_New ''redis: ioredis Sentinel addresses and master name are required''), t)
      else sentinel_Connect env so addresses 0 t)"

end
