(* ===== verification/Redis_Slots_Properties.thy ===== *)
theory Redis_Slots_Properties
  imports Redis_Slots
begin

unbundle bit_operations_syntax

text \<open>
  What the slot functions promise: the checksum is the CRC-16/XMODEM remainder, slots and ranges
  stay inside the table of 16384 entries, and redirections are read back as the server prints them.
\<close>

section \<open>Polynomials over two elements\<close>

text \<open>
  A polynomial is the integer whose bits are its coefficients; addition is exclusive or.  A multiple
  of the generator is the sum of the generator shifted by some exponents.
\<close>

definition generator :: int where
  "generator = 0x11021"

definition multiple :: "nat list \<Rightarrow> int" where
  "multiple ks = foldr (\<lambda>k x. push_bit k generator XOR x) ks 0"

lemma multiple_simps [simp]:
  "multiple [] = 0" "multiple (k # ks) = push_bit k generator XOR multiple ks"
  by (simp_all add: multiple_def)

lemma multiple_append: "multiple (ks @ ls) = multiple ks XOR multiple ls"
  by (induction ks) (simp_all add: xor.assoc)

lemma multiple_shift: "push_bit n (multiple ks) = multiple (map (\<lambda>k. n + k) ks)"
  by (induction ks) (simp_all add: push_bit_xor push_bit_push_bit)

definition divisible :: "int \<Rightarrow> bool" where
  "divisible x \<longleftrightarrow> (\<exists>ks. x = multiple ks)"

lemma divisible_xor: "divisible x \<Longrightarrow> divisible y \<Longrightarrow> divisible (x XOR y)"
  unfolding divisible_def by (metis multiple_append)

lemma divisible_shift: "divisible x \<Longrightarrow> divisible (push_bit n x)"
  unfolding divisible_def by (metis multiple_shift)

lemma divisible_0: "divisible 0"
  unfolding divisible_def by (metis multiple_simps(1))

lemma divisible_generator: "divisible generator"
  unfolding divisible_def by (rule exI [of _ "[0]"]) simp

text \<open>The exponents may be taken distinct, and then the greatest decides the degree.\<close>

lemma multiple_remove1: "k \<in> set ks \<Longrightarrow> multiple ks = push_bit k generator XOR multiple (remove1 k ks)"
  by (induction ks) (auto simp: xor.left_commute)

lemma multiple_distinct: "\<exists>ls. distinct ls \<and> multiple ls = multiple ks"
proof (induction ks)
  case (Cons k ks)
  then obtain ls where ls: "distinct ls" "multiple ls = multiple ks" by blast
  show ?case
  proof (cases "k \<in> set ls")
    case True
    have "multiple (remove1 k ls) = push_bit k generator XOR multiple ls"
      using multiple_remove1 [OF True] by (simp add: xor.assoc [symmetric])
    then show ?thesis using ls by (metis distinct_remove1 multiple_simps(2))
  next
    case False
    then show ?thesis using ls by (metis distinct.simps(2) multiple_simps(2))
  qed
qed (metis distinct.simps(1))

lemma generator_bit_above: "16 < n \<Longrightarrow> \<not> bit generator n"
proof -
  assume "16 < n"
  have "generator = take_bit 17 generator" by (simp add: generator_def)
  then show ?thesis using \<open>16 < n\<close> by (metis bit_take_bit_iff not_less_iff_gr_or_eq Suc_leI eval_nat_numeral(3) leD)
qed

lemma multiple_above:
  assumes "\<forall>k \<in> set ks. k + 16 < n"
  shows "\<not> bit (multiple ks) n"
  using assms
proof (induction ks)
  case (Cons k ks)
  then have "\<not> bit generator (n - k)" by (intro generator_bit_above) auto
  with Cons show ?case by (auto simp: bit_simps)
qed simp

lemma multiple_degree:
  assumes "distinct ks" and "ks \<noteq> []"
  shows "bit (multiple ks) (Max (set ks) + 16)"
proof -
  let ?m = "Max (set ks)"
  have m: "?m \<in> set ks" using assms(2) by simp
  have rest: "\<not> bit (multiple (remove1 ?m ks)) (?m + 16)"
  proof (rule multiple_above, rule ballI)
    fix k assume "k \<in> set (remove1 ?m ks)"
    then have "k \<in> set ks" "k \<noteq> ?m" using assms(1) by auto
    then show "k + 16 < ?m + 16" using Max_ge [of "set ks" k] by (simp add: less_le)
  qed
  have "bit (push_bit ?m generator) (?m + 16)"
    by (simp add: bit_push_bit_iff generator_def)
  with rest show ?thesis by (subst multiple_remove1 [OF m]) (simp add: bit_xor_iff)
qed

lemma divisible_small:
  assumes "divisible x" and "take_bit 16 x = x"
  shows "x = 0"
proof (rule ccontr)
  assume "x \<noteq> 0"
  from assms(1) obtain ks where "x = multiple ks" "distinct ks"
    unfolding divisible_def by (metis multiple_distinct)
  with \<open>x \<noteq> 0\<close> have "bit x (Max (set ks) + 16)" by (metis multiple_degree multiple_simps(1))
  then have "bit (take_bit 16 x) (Max (set ks) + 16)" using assms(2) by simp
  then show False by (simp add: bit_take_bit_iff)
qed

section \<open>The checksum is the remainder\<close>

lemma crc_bit_top: "t AND 0x8000 \<noteq> 0 \<longleftrightarrow> bit t 15" for t :: "16 word"
proof -
  have "(0x8000 :: 16 word) = 2 ^ 15" by simp
  then show ?thesis by (simp only: and_exp_eq_0_iff_not_bit) simp
qed

lemma generator_low:
  assumes "n < 16"
  shows "bit (0x1021 :: 16 word) n = bit generator n"
proof -
  have "(0x1021 :: 16 word) = word_of_int generator" by (simp add: generator_def)
  then show ?thesis using assms by (simp only: bit_word_of_int_iff) simp
qed

lemma generator_low_int:
  assumes "n < 16"
  shows "bit (0x1021 :: int) n = bit generator n"
proof -
  have "(0x1021 :: int) = take_bit 16 generator" by (simp add: generator_def)
  then show ?thesis using assms by (simp only: bit_take_bit_iff) simp
qed

lemma crc_bit_int: "push_bit 1 (uint t) XOR uint (crc_bit t) = (if bit t 15 then generator else 0)"
proof (rule bit_eqI)
  fix n :: nat
  have shifted: "bit (push_bit 1 (uint t)) n \<longleftrightarrow> 1 \<le> n \<and> n \<le> 16 \<and> bit t (n - 1)"
    "bit (push_bit 1 t) n \<longleftrightarrow> 1 \<le> n \<and> n < 16 \<and> bit t (n - 1)"
    by (auto simp only: bit_push_bit_iff bit_uint_iff possible_bit_word possible_bit_int) auto
  have next_bit: "bit (uint (crc_bit t)) n \<longleftrightarrow> n < 16 \<and> (bit (push_bit 1 t) n \<noteq> (bit t 15 \<and> bit generator n))"
    by (cases "n < 16"; cases "bit t 15")
      (simp_all add: crc_bit_def crc_bit_top bit_uint_iff bit_xor_iff generator_low generator_low_int del: push_bit_of_Suc_0 push_bit_Suc)
  have 16: "bit generator 16" by (simp add: generator_def)
  have expected: "bit (if bit t 15 then generator else 0) n \<longleftrightarrow> bit t 15 \<and> bit generator n" by simp
  consider "n < 16" | "n = 16" | "16 < n" by linarith
  then show "bit (push_bit 1 (uint t) XOR uint (crc_bit t)) n = bit (if bit t 15 then generator else 0) n"
  proof cases
    case 1
    then show ?thesis unfolding bit_xor_iff expected shifted next_bit by auto
  next
    case 2
    then show ?thesis unfolding bit_xor_iff expected shifted next_bit using 16 by simp
  next
    case 3
    then show ?thesis unfolding bit_xor_iff expected shifted next_bit using generator_bit_above [of n] by simp
  qed
qed

lemma xor_cancel_left: "b XOR (b XOR c) = c" for b c :: int
  by (simp add: xor.assoc [symmetric])

lemma crc_bits_step: "divisible (push_bit n (uint t) XOR uint ((crc_bit ^^ n) t))"
proof (induction n)
  case 0
  then show ?case by (simp add: divisible_0)
next
  case (Suc n)
  let ?r = "(crc_bit ^^ n) t"
  have "push_bit (Suc n) (uint t) XOR uint (crc_bit ?r)
      = push_bit 1 (push_bit n (uint t) XOR uint ?r) XOR (push_bit 1 (uint ?r) XOR uint (crc_bit ?r))"
    by (simp add: push_bit_xor push_bit_push_bit xor.assoc xor_cancel_left)
  moreover have "divisible (push_bit 1 (uint ?r) XOR uint (crc_bit ?r))"
    unfolding crc_bit_int by (simp add: divisible_0 divisible_generator)
  ultimately show ?case
    using divisible_xor [OF divisible_shift [OF Suc, of 1]] by simp
qed

text \<open>The message as a polynomial, the first byte highest.\<close>

definition message :: "string \<Rightarrow> int" where
  "message s = foldl (\<lambda>m b. push_bit 8 m XOR of_char b) 0 s"

lemma message_snoc: "message (s @ [b]) = push_bit 8 (message s) XOR of_char b"
  by (simp add: message_def)

lemma crc16_snoc: "crc16 (s @ [b]) = crc_byte (crc16 s) b"
  by (simp add: crc16_def)

lemma uint_byte_top: "uint (push_bit 8 (of_char b :: 16 word)) = push_bit 8 (of_char b)"
proof -
  have "(of_char b :: int) mod 256 = of_char b" by simp
  then have b: "0 \<le> (of_char b :: int)" "(of_char b :: int) < 256"
    by (metis pos_mod_sign zero_less_numeral, metis pos_mod_bound zero_less_numeral)
  have "push_bit 8 (of_char b :: 16 word) = word_of_int (push_bit 8 (of_char b))"
    by (simp add: push_bit_eq_mult of_int_of_char)
  then have "uint (push_bit 8 (of_char b :: 16 word)) = push_bit 8 (of_char b) mod 65536"
    by (simp add: uint_word_of_int)
  then show ?thesis using b by (simp add: push_bit_eq_mult)
qed

lemma crc16_divides: "divisible (push_bit 16 (message s) XOR uint (crc16 s))"
proof (induction s rule: rev_induct)
  case Nil
  then show ?case by (simp add: message_def crc16_def divisible_0)
next
  case (snoc b s)
  let ?m = "message s" and ?r = "crc16 s"
  let ?t = "?r XOR push_bit 8 (of_char b)"
  have "push_bit 16 (message (s @ [b])) XOR uint (crc16 (s @ [b]))
      = push_bit 8 (push_bit 16 ?m XOR uint ?r) XOR (push_bit 8 (uint ?t) XOR uint ((crc_bit ^^ 8) ?t))"
    unfolding message_snoc crc16_snoc crc_byte_def uint_xor uint_byte_top
    by (simp add: push_bit_xor push_bit_push_bit xor.assoc xor.left_commute xor_cancel_left)
  then show ?case
    using divisible_xor [OF divisible_shift [OF snoc, of 8] crc_bits_step [of 8 ?t]] by simp
qed

text \<open>
  C33.  The slot checksum is the CRC-16 with generator \<open>x\<^sup>1\<^sup>6 + x\<^sup>1\<^sup>2 + x\<^sup>5 + 1\<close> and initial value 0: the loop's
  result is the one and only 16-bit remainder of the key, as a polynomial over two elements shifted by
  16, modulo the generator.
\<close>

theorem crc16_remainder: "divisible (push_bit 16 (message s) XOR uint r) \<longleftrightarrow> r = crc16 s"
proof
  assume r: "divisible (push_bit 16 (message s) XOR uint r)"
  have "uint r XOR uint (crc16 s)
      = (push_bit 16 (message s) XOR uint r) XOR (push_bit 16 (message s) XOR uint (crc16 s))"
    by (simp add: xor.assoc xor.left_commute xor_cancel_left)
  then have d: "divisible (uint (r XOR crc16 s))"
    using divisible_xor [OF r crc16_divides] by (simp add: uint_xor)
  have "uint (r XOR crc16 s) = 0"
    by (rule divisible_small [OF d]) (rule bintr_uint, simp)
  then have "r XOR crc16 s = 0" unfolding uint_0_iff .
  then have "r = 0 XOR crc16 s" by (metis xor.assoc xor_self_eq xor.right_neutral)
  then show "r = crc16 s" by simp
qed (use crc16_divides in simp)

section \<open>Slots and ranges\<close>

lemma ioredisClusterSlot_less: "ioredisClusterSlot key < 16384"
proof -
  have "unat (crc16 (hash_tag key) mod 16384) = unat (crc16 (hash_tag key)) mod 16384"
    by (simp add: unat_mod)
  then show ?thesis by (simp add: ioredisClusterSlot_def)
qed

lemma parse_row_ok:
  assumes "parse_row seed v = Inr r"
  shows "sr_first r \<le> sr_last r" and "sr_last r < 16384" and "sr_address r \<noteq> ''''"
  using assms
  by (auto simp: parse_row_def JoinHostPort_def split: resp_value.splits list.splits option.splits if_splits sum.splits)

lemma parse_rows_ok:
  "parse_rows seed vs = Inr rs \<Longrightarrow> r \<in> set rs \<Longrightarrow>
   sr_first r \<le> sr_last r \<and> sr_last r < 16384 \<and> sr_address r \<noteq> ''''"
  by (induction vs arbitrary: rs) (auto split: sum.splits dest: parse_row_ok)

lemma parseIORedisClusterSlots_ok:
  assumes "parseIORedisClusterSlots v seed = Inr rs"
  shows "rs \<noteq> []" and "r \<in> set rs \<Longrightarrow> sr_first r \<le> sr_last r \<and> sr_last r < 16384 \<and> sr_address r \<noteq> ''''"
proof -
  obtain w ws where v: "v = VArr (w # ws)" and rs: "parse_rows seed (w # ws) = Inr rs"
    using assms by (auto simp: parseIORedisClusterSlots_def split: resp_value.splits list.splits)
  show "rs \<noteq> []" using rs by (auto split: sum.splits)
  show "r \<in> set rs \<Longrightarrow> sr_first r \<le> sr_last r \<and> sr_last r < 16384 \<and> sr_address r \<noteq> ''''"
    using parse_rows_ok [OF rs] .
qed

lemma parseIORedisClusterRedirect_slot:
  "parseIORedisClusterRedirect e = Some rd \<Longrightarrow> rd_slot rd < 16384"
  by (auto simp: parseIORedisClusterRedirect_def Let_def split: option.splits list.splits sum.splits if_splits)

text \<open>
  C34.  Every slot number the program computes or accepts is an index of the table of 16384 slots: the
  slot of a key, the bounds of every range read from CLUSTER SLOTS (whatever the server sent) and the
  slot of a redirection; a parsed table is not empty and names an address for every range.
\<close>

theorem slot_indices_in_range:
  "ioredisClusterSlot key < 16384
   \<and> (\<forall>rs. parseIORedisClusterSlots v seed = Inr rs \<longrightarrow>
        rs \<noteq> [] \<and> (\<forall>r \<in> set rs. sr_first r \<le> sr_last r \<and> sr_last r < 16384 \<and> sr_address r \<noteq> ''''))
   \<and> (\<forall>rd. parseIORedisClusterRedirect e = Some rd \<longrightarrow> rd_slot rd < 16384)"
  using ioredisClusterSlot_less parseIORedisClusterSlots_ok parseIORedisClusterRedirect_slot by blast

theorem slot_indices_in_range_witness:
  "parseIORedisClusterSlots (VArr [VArr [VInt 0, VInt 1, VArr [VStr ''n1'', VInt 7]]]) ''seed:7''
     = Inr [\<lparr>sr_first = 0, sr_last = 1, sr_address = ''n1:7''\<rparr>]
   \<and> sr_last \<lparr>sr_first = 0, sr_last = 1, sr_address = ''n1:7''\<rparr> < 16384"
proof -
  have p: "parseIORedisClusterSlots (VArr [VArr [VInt 0, VInt 1, VArr [VStr ''n1'', VInt 7]]]) ''seed:7''
     = Inr [\<lparr>sr_first = 0, sr_last = 1, sr_address = ''n1:7''\<rparr>]" by code_simp
  show ?thesis using slot_indices_in_range [of _ "VArr [VArr [VInt 0, VInt 1, VArr [VStr ''n1'', VInt 7]]]" "''seed:7''"] p by fastforce
qed

end
