(* ===== verification/Redis_Cluster_Properties.thy ===== *)
theory Redis_Cluster_Properties
  imports Redis_Cluster Redis_Slots_Properties
begin

text \<open>
  What the cluster transport promises: a batch goes to the one node that owns all its keys or is not
  sent at all, redirections are followed a bounded number of times and execute a command at most once,
  and no node connection is left open.
\<close>

section \<open>Events of one call\<close>

text \<open>The events between two states, and what kind of events they are.\<close>

definition extends :: "(cluster_event list \<Rightarrow> bool) \<Rightarrow> cluster \<Rightarrow> cluster \<Rightarrow> bool" where
  "extends P t t' \<longleftrightarrow> (\<exists>new. c_events t' = c_events t @ new \<and> P new)"

fun is_send :: "cluster_event \<Rightarrow> bool" where
  "is_send (NodeExchange n cmds x) = True"
| "is_send _ = False"

text \<open>
  An exchange that certainly did not execute its command: the node says so, or answers the last command
  with a redirection.
\<close>

definition redirected :: "IORedisExchange \<Rightarrow> bool" where
  "redirected x \<longleftrightarrow> Replies x \<noteq> [] \<and> parseIORedisClusterRedirect (ReplyError (last (Replies x))) \<noteq> None"

fun refused :: "cluster_event \<Rightarrow> bool" where
  "refused (NodeExchange n cmds x) = (if Error x = None then redirected x else \<not> MayHaveExecuted x)"
| "refused _ = True"

definition sends :: "cluster_event list \<Rightarrow> nat" where
  "sends es = length (filter is_send es)"

definition executions :: "cluster_event list \<Rightarrow> nat" where
  "executions es = length (filter (\<lambda>e. \<not> refused e) es)"

lemma sends_append [simp]: "sends (es @ fs) = sends es + sends fs"
  by (simp add: sends_def)

lemma executions_append [simp]: "executions (es @ fs) = executions es + executions fs"
  by (simp add: executions_def)

lemma counts_simps [simp]:
  "sends [] = 0" "sends (e # es) = (if is_send e then 1 else 0) + sends es"
  "executions [] = 0" "executions (e # es) = (if refused e then 0 else 1) + executions es"
  by (simp_all add: sends_def executions_def)

text \<open>At most so many sends and so many possible executions.\<close>

definition at_most :: "nat \<Rightarrow> nat \<Rightarrow> cluster_event list \<Rightarrow> bool" where
  "at_most k m es \<longleftrightarrow> sends es \<le> k \<and> executions es \<le> m"




text \<open>Calls that only connect, close or ask for the slots.\<close>

abbreviation quiet :: "cluster \<Rightarrow> cluster \<Rightarrow> bool" where
  "quiet \<equiv> extends (at_most 0 0)"




lemma quiet_upd:
  "c_events u = c_events t \<Longrightarrow> quiet t u"
  by (simp add: extends_def at_most_def)







section \<open>Redirections execute a command at most once\<close>


lemma outcome_simps [simp]:
  "MayHaveExecuted (outcome rs m d e) = m" "Error (outcome rs m d e) = e" "Replies (outcome rs m d e) = rs"
  "WriteDisposition (outcome rs m d e) = d"
  by (simp_all add: outcome_def)

lemma failure_simps [simp]:
  "MayHaveExecuted (ioredisRedirectFailure e m) = m" "MayHaveExecuted (not_sent e) = False"
  by (simp_all add: ioredisRedirectFailure_def not_sent_def)







text \<open>Whether the exchange is the one for QUIT.\<close>

definition is_quit :: "string list list \<Rightarrow> bool" where
  "is_quit cmds \<longleftrightarrow> length cmds = 1 \<and> length (hd cmds) = 1 \<and> equal_fold_lit (hd (hd cmds)) ''QUIT''"

lemma cluster_Exchange_cases:
  assumes "cluster_Exchange positive env cmds t = (x, t')" and "\<not> is_quit cmds"
  obtains (unsent) e where "x = not_sent e" "t' = t"
  | (sent) a where "cmds \<noteq> []" "\<And>c. c \<in> set cmds \<Longrightarrow> route positive t c = Inr a" "send_batch positive env a cmds t = (x, t')"
proof -
  have all: "route_all positive t cs = Inr as \<Longrightarrow> c \<in> set cs \<Longrightarrow> \<exists>a \<in> set as. route positive t c = Inr a" for cs as c
    by (induction cs arbitrary: as) (auto split: sum.splits)
  show ?thesis
  proof (cases "\<exists>as a. cmds \<noteq> [] \<and> route_all positive t cmds = Inr as \<and> remdups as = [a]")
    case True
    then obtain as a where "cmds \<noteq> []" "route_all positive t cmds = Inr as" "remdups as = [a]" by blast
    moreover from this(3) have "set as = {a}" by (metis set_remdups list.set(1,2))
    ultimately show ?thesis using sent [of a] all [of cmds as] assms
      unfolding cluster_Exchange_def is_quit_def [symmetric] by auto
  next
    case False
    then have "\<exists>e. x = not_sent e \<and> t' = t" using assms
      unfolding cluster_Exchange_def is_quit_def [symmetric]
      by (simp split: sum.splits if_splits list.splits) (use prod.inject in blast)+
    then show ?thesis using unsent by blast
  qed
qed


section \<open>No connection is left open\<close>

fun connected :: "cluster_event \<Rightarrow> bool" where
  "connected (NodeConnect opts None) = True"
| "connected _ = False"

definition connects :: "cluster_event list \<Rightarrow> nat" where
  "connects es = length (filter connected es)"

definition closed_in :: "cluster_event list \<Rightarrow> nat \<Rightarrow> bool" where
  "closed_in es n \<longleftrightarrow> (\<exists>e. NodeClose n e \<in> set es)"

definition all_closed :: "cluster \<Rightarrow> bool" where
  "all_closed t \<longleftrightarrow> (\<forall>n < connects (c_events t). closed_in (c_events t) n)"

text \<open>
  Every connection is in the table of nodes, closed, or held by the caller; once the transport has been
  closed, every connection the caller does not hold is closed.
\<close>

definition held :: "nat set \<Rightarrow> cluster \<Rightarrow> bool" where
  "held F t \<longleftrightarrow> c_next t = connects (c_events t)
     \<and> (\<forall>n < c_next t. n \<in> F \<or> n \<in> snd ` set (c_nodes t) \<or> closed_in (c_events t) n)
     \<and> (c_closeErr t \<noteq> None \<longrightarrow> c_stopped t \<and> (\<forall>n < c_next t. n \<in> F \<or> closed_in (c_events t) n))"

lemma connects_append [simp]: "connects (es @ fs) = connects es + connects fs"
  by (simp add: connects_def)

lemma connects_simps [simp]: "connects [] = 0" "connects (e # es) = (if connected e then 1 else 0) + connects es"
  by (simp_all add: connects_def)

lemma closed_in_append [simp]: "closed_in (es @ fs) n \<longleftrightarrow> closed_in es n \<or> closed_in fs n"
  by (auto simp: closed_in_def)

lemma closed_in_simps [simp]: "\<not> closed_in [] n" "closed_in [e] n \<longleftrightarrow> (\<exists>r. e = NodeClose n r)"
  by (auto simp: closed_in_def)

lemma held_mono: "held F t \<Longrightarrow> F \<subseteq> G \<Longrightarrow> held G t"
  unfolding held_def by blast

lemma held_log: "held F t \<Longrightarrow> \<not> connected e \<Longrightarrow> held F (log_event e t)"
  unfolding held_def by (auto simp: log_event_def)

lemma held_connect:
  assumes "connectIORedisRESP env opts t = (r, t')" and "held F t"
  shows "held (case r of Inl _ \<Rightarrow> F | Inr n \<Rightarrow> insert n F) t'"
    and "c_closeErr t' = c_closeErr t" and "c_stopped t' = c_stopped t" and "c_nodes t' = c_nodes t"
  using assms
  by (auto simp: connectIORedisRESP_def Let_def held_def log_event_def less_Suc_eq split: sum.splits option.splits)

lemma held_exchange: "held F t \<Longrightarrow> node_exchange env n cmds t = (x, t') \<Longrightarrow> held F t'"
  by (auto simp: node_exchange_def Let_def intro: held_log)

lemma held_slots: "held F t \<Longrightarrow> slots_exchange env n t = (x, t') \<Longrightarrow> held F t'"
  by (auto simp: slots_exchange_def Let_def intro: held_log)

lemma held_close: "held (insert n F) t \<Longrightarrow> held F (snd (close_node env n t))"
  unfolding held_def by (auto simp: close_node_def Let_def log_event_def)

lemma held_close_same: "held F t \<Longrightarrow> held F (snd (close_node env n t))"
  by (rule held_close) (rule held_mono, auto)

lemma close_nodes_fields:
  "close_nodes env ns k t = (f, t') \<Longrightarrow>
   c_next t' = c_next t \<and> c_nodes t' = c_nodes t \<and> c_stopped t' = c_stopped t \<and> c_closeErr t' = c_closeErr t
   \<and> connects (c_events t') = connects (c_events t)
   \<and> (\<forall>n. closed_in (c_events t') n \<longleftrightarrow> closed_in (c_events t) n \<or> n \<in> set ns)"
proof (induction ns arbitrary: k t)
  case (Cons n ns)
  obtain e u where u: "close_node env n t = (e, u)" by force
  then have "c_next u = c_next t \<and> c_nodes u = c_nodes t \<and> c_stopped u = c_stopped t \<and> c_closeErr u = c_closeErr t
      \<and> connects (c_events u) = connects (c_events t)
      \<and> (\<forall>m. closed_in (c_events u) m \<longleftrightarrow> closed_in (c_events t) m \<or> m = n)"
    by (auto simp: close_node_def Let_def log_event_def)
  moreover have "close_nodes env ns (if e \<noteq> None then Suc k else k) u = (f, t')" using Cons.prems u by simp
  note Cons.IH [OF this]
  ultimately show ?case by auto
qed simp

lemma held_Close:
  assumes "held F t"
  shows "held F (snd (cluster_Close env t))" and "c_stopped (snd (cluster_Close env t))"
    and "c_closeErr (snd (cluster_Close env t)) \<noteq> None" and "c_nodes (snd (cluster_Close env t)) = c_nodes t"
proof -
  have "held F (snd (cluster_Close env t)) \<and> c_stopped (snd (cluster_Close env t))
      \<and> c_closeErr (snd (cluster_Close env t)) \<noteq> None \<and> c_nodes (snd (cluster_Close env t)) = c_nodes t"
  proof (cases "c_closeErr t")
    case None
    obtain f u where u: "close_nodes env (map snd (c_nodes t)) 0 (t\<lparr>c_closed := True, c_stopped := True\<rparr>) = (f, u)"
      by force
    from close_nodes_fields [OF u] None u assms show ?thesis
      by (auto simp: cluster_Close_def Let_def held_def)
  qed (use assms in \<open>auto simp: cluster_Close_def held_def\<close>)
  then show "held F (snd (cluster_Close env t))" "c_stopped (snd (cluster_Close env t))"
    "c_closeErr (snd (cluster_Close env t)) \<noteq> None" "c_nodes (snd (cluster_Close env t)) = c_nodes t" by auto
qed

lemma go_set_new: "go_get m a = None \<Longrightarrow> go_set a n m = m @ [(a, n)]"
  by (induction m) (auto split: if_splits)

lemma held_attach:
  assumes "held (insert n F) t" and "c_closeErr t = None" and "go_get (c_nodes t) a = None"
  shows "held F (t\<lparr>c_nodes := go_set a n (c_nodes t)\<rparr>)"
proof -
  have "snd ` set (go_set a n (c_nodes t)) = insert n (snd ` set (c_nodes t))"
    using go_set_new [OF assms(3), of n] by auto
  then show ?thesis using assms unfolding held_def by auto
qed

lemma held_nodeForAddress:
  assumes "nodeForAddress env a t = (r, t')" and "held F t"
  shows "held F t'" and "c_nodes t' = c_nodes t \<or> (\<exists>n. go_get (c_nodes t) a = None \<and> c_nodes t' = go_set a n (c_nodes t))"
    and "r = Inr n \<Longrightarrow> go_get (c_nodes t') a = Some n"
proof -
  have "held F t' \<and> (c_nodes t' = c_nodes t \<or> (\<exists>n. go_get (c_nodes t) a = None \<and> c_nodes t' = go_set a n (c_nodes t)))
    \<and> (\<forall>n. r = Inr n \<longrightarrow> go_get (c_nodes t') a = Some n)"
  proof (cases "c_stopped t \<or> go_get (c_nodes t) a \<noteq> None")
    case True
    then show ?thesis using assms by (auto simp: nodeForAddress_def split: if_splits)
  next
    case False
    obtain c u where u: "connectNode env a t = (c, u)" by force
    note h = held_connect [OF u [unfolded connectNode_def] assms(2)]
    show ?thesis
    proof (cases c)
      case (Inl e)
      then show ?thesis using assms False u h by (auto simp: nodeForAddress_def)
    next
      case (Inr n)
      define v where "v = (if ce_closing env (c_events u) then snd (cluster_Close env u) else u)"
      have v: "held (insert n F) v" "c_nodes v = c_nodes t"
        using h Inr held_Close [of "insert n F" u] by (auto simp: v_def)
      have closes: "held F (snd (close_node env n v))" using held_close [OF v(1)] .
      have nodes: "c_nodes (snd (close_node env n v)) = c_nodes v" by (simp add: close_node_def Let_def log_event_def)
      show ?thesis
      proof (cases "c_stopped v")
        case True
        then have "t' = snd (close_node env n v) \<and> r = Inl IORedisConnectionClosedError"
          using assms False u Inr by (auto simp: nodeForAddress_def Let_def v_def [symmetric])
        then show ?thesis using closes nodes v by simp
      next
        case live: False
        then have "c_closeErr v = None" using v by (auto simp: held_def)
        with live False u Inr v have "t' = v\<lparr>c_nodes := go_set a n (c_nodes v)\<rparr>" "r = Inr n"
          using assms by (auto simp: nodeForAddress_def Let_def v_def [symmetric])
        then show ?thesis using held_attach [OF v(1) \<open>c_closeErr v = None\<close>] v False by (auto simp: go_map)
      qed
    qed
  qed
  then show "held F t'" "c_nodes t' = c_nodes t \<or> (\<exists>n. go_get (c_nodes t) a = None \<and> c_nodes t' = go_set a n (c_nodes t))"
    "r = Inr n \<Longrightarrow> go_get (c_nodes t') a = Some n" by blast+
qed

lemma held_slots_upd [simp]: "held F (t\<lparr>c_slots := s, c_first := f\<rparr>) = held F t"
  by (simp add: held_def)

lemma held_refreshSlots:
  assumes "refreshSlots env a t = (r, t')" and "held F t"
  shows "held F t'"
proof -
  obtain c u where u: "nodeForAddress env a t = (c, u)" by force
  note h = held_nodeForAddress [OF u assms(2)]
  show ?thesis
  proof (cases c)
    case (Inr n)
    obtain x v where v: "slots_exchange env n u = (x, v)" by force
    have "held F v" using held_slots h v by blast
    then show ?thesis using assms u v Inr
      by (auto simp: refreshSlots_def split: option.splits list.splits sum.splits)
  qed (use assms u h in \<open>auto simp: refreshSlots_def\<close>)
qed

lemma held_ask:
  assumes "ask_attempt env command rd t = (r, t')" and "held F t"
  shows "held F t'"
proof -
  obtain c u where u: "nodeForAddress env (rd_address rd) t = (c, u)" by force
  note h = held_nodeForAddress [OF u assms(2)]
  show ?thesis
  proof (cases c)
    case (Inr n)
    obtain x v where v: "node_exchange env n [[''asking''], command] u = (x, v)" by force
    have "t' = v" using assms u v Inr
      by (auto simp: ask_attempt_def split: option.splits list.splits if_splits)
    then show ?thesis using held_exchange [OF h(1) v] by simp
  qed (use assms u h in \<open>auto simp: ask_attempt_def\<close>)
qed

lemma held_moved:
  assumes "moved_attempt positive env command rd t = (r, t')" and "held F t"
  shows "held F t'"
proof -
  obtain f t1 where f: "refreshSlots env (rd_address rd) t = (f, t1)" by force
  have h1: "held F t1" using held_refreshSlots [OF f assms(2)] .
  show ?thesis
  proof (cases "\<exists>a. f = None \<and> route positive t1 command = Inr a")
    case False
    then show ?thesis using assms f h1 by (auto simp: moved_attempt_def split: option.splits sum.splits)
  next
    case True
    then obtain a where a: "f = None" "route positive t1 command = Inr a" by blast
    obtain c u where u: "nodeForAddress env a t1 = (c, u)" by force
    note h = held_nodeForAddress [OF u h1]
    show ?thesis
    proof (cases c)
      case (Inr n)
      obtain x v where v: "node_exchange env n [command] u = (x, v)" by force
      have "t' = v" using assms f a u v Inr
        by (auto simp: moved_attempt_def split: option.splits list.splits)
      then show ?thesis using held_exchange [OF h(1) v] by simp
    qed (use assms f a u h in \<open>auto simp: moved_attempt_def\<close>)
  qed
qed

lemma held_follow: "follow_redirects k positive env command rd t = (x, t') \<Longrightarrow> held F t \<Longrightarrow> held F t'"
proof (induction k arbitrary: rd t)
  case (Suc k)
  obtain r u where u: "(case rd_kind rd of ASK \<Rightarrow> ask_attempt env command rd t | MOVED \<Rightarrow> moved_attempt positive env command rd t) = (r, u)"
    by force
  have "held F u"
  proof (cases "rd_kind rd")
    case MOVED
    then show ?thesis using u Suc.prems(2) held_moved by auto
  next
    case ASK
    then show ?thesis using u Suc.prems(2) held_ask by auto
  qed
  then show ?case using Suc u by (cases r) auto
qed simp

lemma held_send_batch:
  assumes "send_batch positive env a cmds t = (x, t')" and "held F t"
  shows "held F t'"
proof -
  obtain c u where u: "nodeForAddress env a t = (c, u)" by force
  note h = held_nodeForAddress [OF u assms(2)]
  show ?thesis
  proof (cases c)
    case (Inr n)
    obtain y v where v: "node_exchange env n cmds u = (y, v)" by force
    have "held F v" using held_exchange [OF h(1) v] .
    then show ?thesis using assms u v Inr held_follow
      by (auto simp: send_batch_def followSingleRedirect_def split: if_splits option.splits)
  qed (use assms u h in \<open>auto simp: send_batch_def\<close>)
qed

lemma held_stop [simp]: "held F t \<Longrightarrow> held F (t\<lparr>c_stopped := True\<rparr>)"
  by (auto simp: held_def)

lemma held_quit_nodes: "quit_nodes env ns q t = (e, t') \<Longrightarrow> held F t \<Longrightarrow> held F t'"
proof (induction ns arbitrary: q t)
  case (Cons n ns)
  let ?u = "log_event (CtxCheck (ce_ctx env (c_events t))) t"
  have u: "held F ?u" using Cons.prems(2) by (simp add: held_log)
  obtain x v where v: "node_exchange env n [[''quit'']] ?u = (x, v)" by force
  show ?case using Cons u v held_exchange [OF u v] by (auto simp: Let_def split: option.splits)
qed simp

lemma held_Exchange:
  assumes "held F t"
  shows "held F (snd (cluster_Exchange positive env cmds t))"
proof -
  obtain x t' where x: "cluster_Exchange positive env cmds t = (x, t')" by force
  have "held F t'"
  proof (cases "is_quit cmds")
    case False
    with x show ?thesis
      by (cases rule: cluster_Exchange_cases) (use assms held_send_batch in auto)
  next
    case True
    then have "cmds \<noteq> []" by (auto simp only: is_quit_def list.size)
    with True have q: "cluster_quit env t = (x, t')"
      using x unfolding cluster_Exchange_def is_quit_def [symmetric] by simp
    show ?thesis
    proof (cases "c_stopped t")
      case False
      obtain e u where u: "quit_nodes env (sort_addresses (c_nodes t)) None (t\<lparr>c_stopped := True\<rparr>) = (e, u)" by force
      have "held F u" using held_quit_nodes [OF u] assms by simp
      then have "held F (snd (cluster_Close env u))" by (rule held_Close)
      then show ?thesis using q u False
        by (auto simp: cluster_quit_def split: prod.splits option.splits)
    qed (use q assms in \<open>auto simp: cluster_quit_def\<close>)
  qed
  then show ?thesis using x by simp
qed

section \<open>Sessions of a cluster transport\<close>

text \<open>What a client may do with a connected transport, in any order.\<close>

datatype cluster_op = OpExchange "string list list" | OpClose | OpWatch

fun cluster_run :: "(string \<Rightarrow> bool) \<Rightarrow> cluster_env \<Rightarrow> cluster_op list \<Rightarrow> cluster \<Rightarrow> cluster" where
  "cluster_run positive env [] t = t"
| "cluster_run positive env (OpExchange cmds # ops) t = cluster_run positive env ops (snd (cluster_Exchange positive env cmds t))"
| "cluster_run positive env (OpClose # ops) t = cluster_run positive env ops (snd (cluster_Close env t))"
| "cluster_run positive env (OpWatch # ops) t = cluster_run positive env ops (watch_fired t)"

lemma held_run: "held F t \<Longrightarrow> held F (cluster_run positive env ops t)"
proof (induction positive env ops t rule: cluster_run.induct)
  case (4 positive env ops t)
  moreover have "held F (watch_fired t)" using \<open>held F t\<close> by (auto simp: watch_fired_def held_def)
  ultimately show ?case by simp
qed (simp_all add: held_Exchange held_Close)

text \<open>Connecting.\<close>

lemma close_nodes_first: "close_nodes env ns k t = (f, t') \<Longrightarrow> c_first t' = c_first t"
  by (induction ns arbitrary: k t) (auto simp: close_node_def Let_def log_event_def)

lemma close_first: "c_first (snd (cluster_Close env t)) = c_first t"
  using close_nodes_first by (fastforce simp: cluster_Close_def Let_def split: option.splits prod.splits)

lemma held_attach_ranges:
  assumes "attach_ranges env rs t = (r, t')" and "held {} t" and "c_closeErr t = None"
  shows "held {} t' \<and> (r = None \<longleftrightarrow> c_closeErr t' = None) \<and> (c_nodes t \<noteq> [] \<longrightarrow> c_nodes t' \<noteq> [])
    \<and> (c_first t \<noteq> '''' \<longrightarrow> c_first t' \<noteq> '''')
    \<and> (r = None \<longrightarrow> (\<forall>s. c_slots t s \<noteq> '''' \<longrightarrow> go_get (c_nodes t) (c_slots t s) \<noteq> None)
          \<longrightarrow> (\<forall>s. c_slots t' s \<noteq> '''' \<longrightarrow> go_get (c_nodes t') (c_slots t' s) \<noteq> None))"
  using assms
proof (induction rs arbitrary: t)
  case (Cons a rs)
  define u where "u = t\<lparr>c_first := (if c_first t = '''' then sr_address a else c_first t), c_slots := set_range a (c_slots t)\<rparr>"
  have u: "held {} u" "c_closeErr u = None" "c_nodes u = c_nodes t" "c_first t \<noteq> '''' \<Longrightarrow> c_first u \<noteq> ''''"
    "c_slots u = set_range a (c_slots t)"
    using Cons.prems by (auto simp: u_def held_def)
  show ?case
  proof (cases "go_get (c_nodes u) (sr_address a)")
    case (Some n)
    then have step: "attach_ranges env rs u = (r, t')" using Cons.prems(1) by (simp add: Let_def u_def [symmetric])
    show ?thesis using Cons.IH [OF step u(1,2)] u Some by (auto simp: set_range_def)
  next
    case None
    obtain c v where v: "connectNode env (sr_address a) u = (c, v)" by force
    note h = held_connect [OF v [unfolded connectNode_def] u(1)]
    have slots: "c_slots v = c_slots u" "c_first v = c_first u"
      using v by (auto simp: connectNode_def connectIORedisRESP_def Let_def log_event_def split: sum.splits option.splits)
    show ?thesis
    proof (cases c)
      case (Inl e)
      then have "r \<noteq> None" "t' = snd (cluster_Close env v)"
        using Cons.prems(1) None v by (auto simp: Let_def u_def [symmetric])
      moreover have "c_first (snd (cluster_Close env v)) = c_first v"
        by (simp add: close_first)
      ultimately show ?thesis using held_Close [of "{}" v env] h Inl u slots by auto
    next
      case (Inr n)
      define w where "w = v\<lparr>c_nodes := go_set (sr_address a) n (c_nodes v)\<rparr>"
      have step: "attach_ranges env rs w = (r, t')"
        using Cons.prems(1) None v Inr by (simp add: Let_def u_def [symmetric] w_def)
      have w: "held {} w" "c_closeErr w = None" "c_nodes w \<noteq> []" "c_first w = c_first u" "c_slots w = c_slots u"
        using held_attach [of n "{}" v] h Inr None u slots go_set_new [of "c_nodes v"] by (auto simp: w_def)
      moreover have "\<forall>s. c_slots t s \<noteq> '''' \<longrightarrow> go_get (c_nodes t) (c_slots t s) \<noteq> None \<Longrightarrow>
          \<forall>s. c_slots w s \<noteq> '''' \<longrightarrow> go_get (c_nodes w) (c_slots w s) \<noteq> None"
        using u h w by (auto simp: w_def go_map set_range_def)
      ultimately show ?thesis using Cons.IH [OF step] u by auto
    qed
  qed
qed simp

lemma attach_ranges_nonempty:
  assumes "attach_ranges env (a # rs) t = (None, t')" and "held {} t" and "c_closeErr t = None"
    and "sr_address a \<noteq> ''''"
  shows "c_first t' \<noteq> '''' \<and> c_nodes t' \<noteq> []"
proof -
  define u where "u = t\<lparr>c_first := (if c_first t = '''' then sr_address a else c_first t), c_slots := set_range a (c_slots t)\<rparr>"
  have u: "held {} u" "c_closeErr u = None" "c_first u \<noteq> ''''" using assms by (auto simp: u_def held_def)
  show ?thesis
  proof (cases "go_get (c_nodes u) (sr_address a)")
    case (Some n)
    then have "attach_ranges env rs u = (None, t')" "c_nodes u \<noteq> []"
      using assms(1) by (auto simp: Let_def u_def [symmetric])
    then show ?thesis using held_attach_ranges [of env rs u None t'] u by blast
  next
    case None
    obtain c v where v: "connectNode env (sr_address a) u = (c, v)" by force
    note h = held_connect [OF v [unfolded connectNode_def] u(1)]
    have first: "c_first v = c_first u"
      using v by (auto simp: connectNode_def connectIORedisRESP_def Let_def log_event_def split: sum.splits option.splits)
    from None v assms(1) obtain n where n: "c = Inr n"
      by (cases c) (auto simp: Let_def u_def [symmetric])
    let ?w = "v\<lparr>c_nodes := go_set (sr_address a) n (c_nodes v)\<rparr>"
    have "attach_ranges env rs ?w = (None, t')" using assms(1) None v n by (simp add: Let_def u_def [symmetric])
    moreover have "held {} ?w" "c_closeErr ?w = None" "c_first ?w \<noteq> ''''" "c_nodes ?w \<noteq> []"
      using held_attach [of n "{}" v] h n None u first go_set_new [of "c_nodes v"] by auto
    ultimately show ?thesis using held_attach_ranges [of env rs ?w None t'] by blast
  qed
qed

text \<open>A connected transport knows a node for every slot it has an address for.\<close>

definition cluster_ready :: "cluster \<Rightarrow> bool" where
  "cluster_ready t \<longleftrightarrow> c_first t \<noteq> '''' \<and> \<not> c_stopped t
     \<and> (\<forall>s. c_slots t s \<noteq> '''' \<longrightarrow> go_get (c_nodes t) (c_slots t s) \<noteq> None)"

lemma held_closed: "held {} t \<Longrightarrow> c_closeErr t \<noteq> None \<or> c_nodes t = [] \<Longrightarrow> all_closed t"
  by (auto simp: held_def all_closed_def)

lemma attach_stopped: "attach_ranges env rs t = (None, t') \<Longrightarrow> c_stopped t' = c_stopped t"
proof (induction rs arbitrary: t)
  case (Cons a rs)
  show ?case
    using Cons.prems
    by (auto simp: Let_def connectNode_def connectIORedisRESP_def log_event_def dest!: Cons.IH split: if_splits sum.splits option.splits)
qed simp

lemma connect_transport:
  assumes "newIORedisClusterTransport env rs t = (r, t')" and "parseIORedisClusterSlots v seed = Inr rs"
    and "held {} t" and "c_closeErr t = None" and "c_slots t = (\<lambda>_. '''')" and "\<not> c_stopped t"
  shows "held {} t' \<and> (r \<noteq> None \<longrightarrow> all_closed t') \<and> (r = None \<longrightarrow> cluster_ready t')"
proof -
  obtain f u where u: "attach_ranges env rs t = (f, u)" by force
  note h = held_attach_ranges [OF u assms(3,4)]
  obtain a rs' where rs: "rs = a # rs'" "sr_address a \<noteq> ''''"
    using parseIORedisClusterSlots_ok [OF assms(2)] by (metis list.exhaust list.set_intros(1))
  show ?thesis
  proof (cases f)
    case None
    then have "c_first u \<noteq> '''' \<and> c_nodes u \<noteq> []"
      using attach_ranges_nonempty [of env a rs' t u] u rs assms by simp
    moreover have "\<not> c_stopped u" using attach_stopped u None assms(6) by blast
    ultimately show ?thesis using assms u None h by (auto simp: newIORedisClusterTransport_def cluster_ready_def)
  next
    case (Some e)
    then show ?thesis using assms u h held_closed [of u] by (auto simp: newIORedisClusterTransport_def)
  qed
qed

lemma close_fields:
  "c_closeErr (snd (close_node env n t)) = c_closeErr t" "c_slots (snd (close_node env n t)) = c_slots t"
  "c_stopped (snd (close_node env n t)) = c_stopped t" "c_nodes (snd (close_node env n t)) = c_nodes t"
  by (simp_all add: close_node_def Let_def log_event_def)

lemma connect_cluster:
  assumes "cluster_Connect env seeds k t = (r, t')"
    and "held {} t" and "c_closeErr t = None" and "c_slots t = (\<lambda>_. '''')" and "\<not> c_stopped t" and "c_nodes t = []"
  shows "held {} t' \<and> (r \<noteq> None \<longrightarrow> all_closed t') \<and> (r = None \<longrightarrow> cluster_ready t')"
  using assms
proof (induction seeds arbitrary: k t)
  case Nil
  then show ?case using held_closed [of t] by auto
next
  case (Cons seed seeds)
  obtain c u where u: "connectNode env seed t = (c, u)" by force
  note h = held_connect [OF u [unfolded connectNode_def] Cons.prems(2)]
  have slots: "c_slots u = c_slots t"
    using u by (auto simp: connectNode_def connectIORedisRESP_def Let_def log_event_def split: sum.splits option.splits)
  show ?case
  proof (cases c)
    case (Inl e)
    then show ?thesis using Cons.IH [of "Suc k" u] Cons.prems u h slots by auto
  next
    case (Inr n)
    obtain x v where v: "slots_exchange env n u = (x, v)" by force
    have fields: "c_closeErr v = c_closeErr u" "c_slots v = c_slots u" "c_stopped v = c_stopped u" "c_nodes v = c_nodes u"
      using v by (auto simp: slots_exchange_def Let_def log_event_def)
    define w where "w = snd (close_node env n v)"
    have "held {n} v" using h Inr held_slots [OF _ v] by auto
    then have w: "held {} w" "c_closeErr w = None" "c_slots w = (\<lambda>_. '''')" "\<not> c_stopped w" "c_nodes w = []"
      using held_close [of n "{}" v] fields h slots Cons.prems by (simp_all add: w_def close_fields)
    consider (good) y rs where "parseIORedisClusterSlots (Value y) seed = Inr rs" "newIORedisClusterTransport env rs w = (r, t')"
      | (bad) "cluster_Connect env seeds (Suc k) w = (r, t')"
      using Cons.prems(1) u v Inr
      by (auto simp: Let_def w_def [symmetric] split: option.splits list.splits sum.splits)
    then show ?thesis
    proof cases
      case good
      then show ?thesis using connect_transport [OF good(2,1) w(1-4)] by simp
    next
      case bad
      then show ?thesis using Cons.IH w by blast
    qed
  qed
qed

lemma held_new: "held {} (new_cluster opts [] 0)"
  by (simp add: held_def new_cluster_def)

text \<open>
  C26.  The cluster transport leaks no connection.  When connecting fails, every connection that was
  opened on the way (to seeds and to nodes) has been closed; when it succeeds, there is a node for every
  slot the table has an address for, and after any sequence of exchanges (QUIT, redirections, and closing
  by another goroutine included), of closed nodes and of calls to \<^verbatim>\<open>Close\<close>, one more \<^verbatim>\<open>Close\<close> leaves every
  connection ever opened closed.
\<close>

theorem cluster_no_leak:
  assumes "ioredisClusterFactory_Connect env seeds opts = (r, t)"
  shows "(r \<noteq> None \<longrightarrow> all_closed t) \<and> (r = None \<longrightarrow> cluster_ready t)
    \<and> all_closed (snd (cluster_Close env (cluster_run positive env ops t)))"
proof -
  have t: "held {} t \<and> (r \<noteq> None \<longrightarrow> all_closed t) \<and> (r = None \<longrightarrow> cluster_ready t)"
  proof (cases "seeds = []")
    case True
    then show ?thesis using assms held_new held_closed [OF held_new]
      by (auto simp: ioredisClusterFactory_Connect_def new_cluster_def)
  next
    case False
    then show ?thesis using assms connect_cluster [OF _ held_new]
      by (auto simp: ioredisClusterFactory_Connect_def new_cluster_def)
  qed
  have "held {} (cluster_run positive env ops t)" using t held_run by blast
  then have "all_closed (snd (cluster_Close env (cluster_run positive env ops t)))"
    using held_Close [of "{}"] held_closed by metis
  then show ?thesis using t by blast
qed

section \<open>A batch has one owner\<close>



section \<open>Keys are routed to their owner\<close>

text \<open>The keys of a command that routing looks at, written as one table.\<close>

definition counted_keys :: "string list \<Rightarrow> string list" where
  "counted_keys command = (case key_count (command ! 2) of None \<Rightarrow> [] | Some n \<Rightarrow> take (nat n) (drop 3 command))"

definition stream_keys :: "(string \<Rightarrow> bool) \<Rightarrow> string list \<Rightarrow> string list" where
  "stream_keys positive command =
     (case parseIORedisXReadPrefix positive command of
        Inl _ \<Rightarrow> []
      | Inr x \<Rightarrow> take ((length command - streamsIndex x - 1) div 2) (drop (streamsIndex x + 1) command))"

definition routing_keys :: "(string \<Rightarrow> bool) \<Rightarrow> string list \<Rightarrow> string list" where
  "routing_keys positive command =
     (let verb = to_upper (hd command)
      in if ioredisClusterNodeCommand verb \<or> verb = ''SCRIPT'' then []
         else if verb \<in> set [''EVAL'', ''EVALSHA'', ''FCALL'', ''FCALL_RO''] then counted_keys command
         else if verb \<in> set [''XREAD'', ''XREADGROUP''] then stream_keys positive command
         else if verb \<in> set [''OBJECT'', ''XGROUP'', ''XINFO''] then
           (if to_upper (command ! 1) = ''HELP'' then [] else [command ! 2])
         else if verb = ''MEMORY'' then (if to_upper (command ! 1) = ''USAGE'' then [command ! 2] else [])
         else if verb \<in> set [''BLPOP'', ''BRPOP'', ''BZPOPMIN'', ''BZPOPMAX''] then butlast (tl command)
         else if verb \<in> set [''BRPOPLPUSH'', ''BLMOVE''] then [command ! 1]
         else if verb \<in> set [''BLMPOP'', ''BZMPOP''] then counted_keys command
         else [command ! 1])"

definition owned_by :: "cluster \<Rightarrow> string \<Rightarrow> string list \<Rightarrow> bool" where
  "owned_by t a keys \<longleftrightarrow>
     (\<forall>k \<in> set keys. c_slots t (ioredisClusterSlot k) = a \<and> ioredisClusterSlot k = ioredisClusterSlot (hd keys))"

lemma owned_by_Nil [simp]: "owned_by t a []"
  by (simp add: owned_by_def)

lemma routeSlot_ok: "routeSlot t s = Inr a \<Longrightarrow> c_slots t s = a \<and> a \<noteq> ''''"
  by (auto simp: routeSlot_def split: if_splits)

lemma other_slot_None: "other_slot s ks = None \<longleftrightarrow> (\<forall>k \<in> set ks. ioredisClusterSlot k = s)"
  by (auto simp: other_slot_def find_None_iff)

lemma routeKey_owned: "routeKey t k = Inr a \<Longrightarrow> owned_by t a [k]"
  using routeSlot_ok by (auto simp: routeKey_def owned_by_def)

lemma routeKeys_owned: "routeKeys t keys = Inr a \<Longrightarrow> owned_by t a keys"
  by (auto simp: routeKeys_def owned_by_def other_slot_None dest: routeSlot_ok split: list.splits option.splits)

lemma routeKeyAt_owned: "routeKeyAt t command i = Inr a \<Longrightarrow> owned_by t a [command ! i]"
  by (auto simp: routeKeyAt_def dest: routeKey_owned split: if_splits)

lemma routeCountedKeys_owned: "routeCountedKeys t command 2 3 = Inr a \<Longrightarrow> owned_by t a (counted_keys command)"
  by (auto simp: routeCountedKeys_def counted_keys_def Let_def dest: routeKeys_owned split: if_splits option.splits)

lemma routeXRead_owned: "routeXRead positive t command = Inr a \<Longrightarrow> owned_by t a (stream_keys positive command)"
  by (auto simp: routeXRead_def stream_keys_def Let_def dest: routeKeys_owned split: if_splits sum.splits)

lemma routeSubcommandKey_owned:
  "routeSubcommandKey t command = Inr a \<Longrightarrow> to_upper (command ! Suc 0) \<noteq> ''HELP'' \<Longrightarrow> owned_by t a [command ! 2]"
  by (auto simp: routeSubcommandKey_def Let_def dest: routeKeyAt_owned split: if_splits)

lemma routeMemory_owned:
  "routeMemory t command = Inr a \<Longrightarrow> to_upper (command ! Suc 0) = ''USAGE'' \<Longrightarrow> owned_by t a [command ! 2]"
  by (auto simp: routeMemory_def Let_def dest: routeKeyAt_owned split: if_splits)

lemma take_drop_hd: "0 < n \<Longrightarrow> i < length xs \<Longrightarrow> take n (drop i xs) = xs ! i # take (n - 1) (drop (Suc i) xs)"
  by (cases n) (simp_all add: Cons_nth_drop_Suc [symmetric])

lemma routeEval_owned:
  assumes "routeEval t command 2 = Inr a"
  shows "owned_by t a (counted_keys command)"
proof -
  obtain n where n: "key_count (command ! 2) = Some n" "0 \<le> n" "n \<le> int (length command) - 3"
    using assms by (auto simp: routeEval_def Let_def split: if_splits option.splits)
  show ?thesis
  proof (cases "n = 0")
    case False
    then have keys: "take (nat n) (drop 3 command) = command ! 3 # take (nat n - 1) (drop 4 command)"
      using n take_drop_hd [of "nat n" 3 command] by simp
    have "other_slot (ioredisClusterSlot (command ! 3)) (take (nat n - 1) (drop 4 command)) = None
        \<and> routeSlot t (ioredisClusterSlot (command ! 3)) = Inr a"
      using assms n False by (auto simp: routeEval_def Let_def split: if_splits option.splits)
    then show ?thesis using n keys routeSlot_ok
      by (fastforce simp: counted_keys_def owned_by_def other_slot_None)
  qed (simp add: n counted_keys_def)
qed

lemmas routed_owned = routeKey_owned routeKeys_owned routeCountedKeys_owned routeXRead_owned
  routeSubcommandKey_owned routeMemory_owned routeEval_owned

text \<open>
  Routing respects ownership: when a command is routed to an address, all the keys that routing
  looks at (the counted keys of scripts and of BLMPOP, the streams of XREAD, every key of a blocking
  pop, else the first) lie in one hash slot, and the slot table gives exactly that address for it.
\<close>

theorem route_owner:
  assumes "route positive t command = Inr a"
  shows "\<forall>k \<in> set (routing_keys positive command).
    c_slots t (ioredisClusterSlot k) = a \<and> ioredisClusterSlot k = ioredisClusterSlot (hd (routing_keys positive command))"
proof -
  have "owned_by t a (routing_keys positive command)"
    using assms unfolding route_def routing_keys_def Let_def
    by (simp only: if_True if_False split: if_split_asm) (simp_all add: routed_owned if_split)
  then show ?thesis unfolding owned_by_def .
qed

section \<open>Sentinels\<close>

text \<open>A Sentinel answered with the address of the master.\<close>

fun names_master :: "ioredisSentinelOptions \<Rightarrow> string \<Rightarrow> cluster_event \<Rightarrow> bool" where
  "names_master so a (NodeExchange n cmds x) \<longleftrightarrow>
     cmds = [[''sentinel'', ''get-master-addr-by-name'', so_MasterName so]] \<and> Error x = None
     \<and> (\<exists>r. Replies x = [r] \<and> ReplyError r = None \<and> ioredisSentinelMasterAddress (Value r) = Inr a)"
| "names_master so a _ \<longleftrightarrow> False"

text \<open>Whether a connection uses the credentials of its kind.\<close>

definition as_sentinel :: "ioredisSentinelOptions \<Rightarrow> string list \<Rightarrow> IORedisRESPOptions \<Rightarrow> bool" where
  "as_sentinel so addresses opts \<longleftrightarrow>
     Addr opts \<in> set addresses \<and> Username opts = so_SentinelUsername so \<and> Password opts = so_SentinelPassword so \<and> DB opts = 0"

definition as_master :: "ioredisSentinelOptions \<Rightarrow> IORedisRESPOptions \<Rightarrow> bool" where
  "as_master so opts \<longleftrightarrow> Username opts = so_Username so \<and> Password opts = so_Password so \<and> DB opts = so_DB so"

definition credentials_ok :: "ioredisSentinelOptions \<Rightarrow> string list \<Rightarrow> cluster_events \<Rightarrow> bool" where
  "credentials_ok so addresses es \<longleftrightarrow>
     (\<forall>i < length es. \<forall>opts r. es ! i = NodeConnect opts r \<longrightarrow>
        as_sentinel so addresses opts \<or> as_master so opts \<and> (\<exists>j < i. names_master so (Addr opts) (es ! j)))"

lemma credentials_Nil: "credentials_ok so addresses []"
  by (simp add: credentials_ok_def)

lemma credentials_snoc:
  assumes "credentials_ok so addresses es"
    and "\<And>opts r. e = NodeConnect opts r \<Longrightarrow> as_sentinel so addresses opts \<or>
           as_master so opts \<and> (\<exists>f \<in> set es. names_master so (Addr opts) f)"
  shows "credentials_ok so addresses (es @ [e])"
  unfolding credentials_ok_def
proof (intro allI impI)
  fix i opts r
  assume i: "i < length (es @ [e])" and c: "(es @ [e]) ! i = NodeConnect opts r"
  show "as_sentinel so addresses opts \<or> as_master so opts \<and> (\<exists>j<i. names_master so (Addr opts) ((es @ [e]) ! j))"
  proof (cases "i < length es")
    case True
    then have "es ! i = NodeConnect opts r" using c by (simp add: nth_append)
    then show ?thesis using assms(1) True unfolding credentials_ok_def
      by (metis less_trans nth_append)
  next
    case False
    then have "i = length es" "e = NodeConnect opts r" using i c by (auto simp: nth_append)
    then show ?thesis using assms(2) by (metis in_set_conv_nth nth_append)
  qed
qed

lemma factory_keeps:
  "NewIORedisRESPTransportFactory opts = Inr opts' \<Longrightarrow>
   Addr opts' = Addr opts \<and> Username opts' = Username opts \<and> Password opts' = Password opts \<and> DB opts' = DB opts"
  by (auto simp: NewIORedisRESPTransportFactory_def split: if_splits)

lemma connect_credentials:
  assumes "connectIORedisRESP env opts t = (r, t')" and "credentials_ok so addresses (c_events t)"
    and "as_sentinel so addresses opts \<or> as_master so opts \<and> (\<exists>f \<in> set (c_events t). names_master so (Addr opts) f)"
  shows "credentials_ok so addresses (c_events t')"
proof (cases "NewIORedisRESPTransportFactory opts")
  case (Inr opts')
  have "credentials_ok so addresses (c_events t @ [NodeConnect opts' e])" for e
    using assms(2,3) factory_keeps [OF Inr] by (intro credentials_snoc) (auto simp: as_sentinel_def as_master_def)
  then show ?thesis using assms(1) Inr
    by (auto simp: connectIORedisRESP_def Let_def log_event_def split: option.splits)
qed (use assms in \<open>auto simp: connectIORedisRESP_def\<close>)

lemma log_credentials: "credentials_ok so addresses es \<Longrightarrow> (\<forall>opts r. e \<noteq> NodeConnect opts r) \<Longrightarrow> credentials_ok so addresses (es @ [e])"
  by (rule credentials_snoc) auto

lemma held_nodes: "held F t \<Longrightarrow> c_nodes t = [] \<Longrightarrow> n < connects (c_events t) \<Longrightarrow> n \<notin> F \<Longrightarrow> closed_in (c_events t) n"
  by (auto simp: held_def)

lemma sentinel_Connect_ok:
  assumes "sentinel_Connect env so bs k t = (r, t')" and "set bs \<subseteq> set addresses"
    and "credentials_ok so addresses (c_events t)" and "held {} t" and "c_nodes t = []"
  shows "credentials_ok so addresses (c_events t') \<and> c_nodes t' = []
    \<and> held (case r of Inl _ \<Rightarrow> {} | Inr m \<Rightarrow> {m}) t'"
  using assms
proof (induction bs arbitrary: k t)
  case (Cons b bs)
  obtain c u where u: "connectIORedisRESP env (sentinel_conn so b) t = (c, u)" by force
  have cu: "credentials_ok so addresses (c_events u)"
    using connect_credentials [OF u Cons.prems(3)] Cons.prems(2) by (simp add: as_sentinel_def sentinel_conn_def)
  note hu = held_connect [OF u Cons.prems(4)]
  show ?case
  proof (cases c)
    case (Inl e)
    then show ?thesis using Cons.IH [of "Suc k" u] Cons.prems u cu hu by auto
  next
    case (Inr n)
    obtain x v where v: "node_exchange env n [[''sentinel'', ''get-master-addr-by-name'', so_MasterName so]] u = (x, v)" by force
    define w where "w = snd (close_node env n v)"
    have hv: "held {n} v" using hu Inr held_exchange [OF _ v] by auto
    have ev: "c_events w = (c_events u @ [NodeExchange n [[''sentinel'', ''get-master-addr-by-name'', so_MasterName so]] x])
        @ [NodeClose n (ce_close env n (c_events v))]" and nodes: "c_nodes w = c_nodes u"
      using v by (auto simp: w_def close_node_def node_exchange_def Let_def log_event_def)
    have w: "held {} w" "c_nodes w = []" "credentials_ok so addresses (c_events w)"
      "NodeExchange n [[''sentinel'', ''get-master-addr-by-name'', so_MasterName so]] x \<in> set (c_events w)"
      subgoal unfolding w_def by (rule held_close [OF hv])
      subgoal using nodes hu(4) Cons.prems(5) by simp
      subgoal unfolding ev by (intro log_credentials cu) simp_all
      subgoal by (simp add: ev)
      done
    consider (bad) "sentinel_Connect env so bs (Suc k) w = (r, t')"
      | (good) y a m v' where "Error x = None" "Replies x = [y]" "ReplyError y = None" "ioredisSentinelMasterAddress (Value y) = Inr a"
          "connectIORedisRESP env (master_conn so a) w = (m, v')" "v' = t'"
          "(case m of Inl _ \<Rightarrow> \<exists>e. r = Inl e | Inr i \<Rightarrow> r = Inr i)"
      using Cons.prems(1) u v Inr
      by (auto simp: Let_def w_def [symmetric] split: option.splits list.splits sum.splits prod.splits)
    then show ?thesis
    proof cases
      case bad
      then show ?thesis using Cons.IH w Cons.prems(2) by simp
    next
      case good
      have "names_master so a (NodeExchange n [[''sentinel'', ''get-master-addr-by-name'', so_MasterName so]] x)"
        using good by simp
      then have "credentials_ok so addresses (c_events t')"
        using connect_credentials [OF good(5) w(3)] w(4) good(6)
        by (auto simp: as_master_def master_conn_def sentinel_conn_def simp del: names_master.simps)
      moreover have "held (case r of Inl _ \<Rightarrow> {} | Inr m \<Rightarrow> {m}) t'" "c_nodes t' = []"
        using held_connect [OF good(5) w(1)] good(6,7) w(2) by (cases m; auto)+
      ultimately show ?thesis by simp
    qed
  qed
qed auto

text \<open>
  C31.  Connecting through Sentinels keeps the two sets of credentials apart and leaks nothing: the
  Sentinel credentials go only to the configured addresses, the master's user, password and database
  only to an address that a Sentinel has just named as the master, and afterwards every connection but
  the returned one is closed (every one when connecting fails).
\<close>

theorem sentinel_credentials:
  assumes "ioredisSentinelFactory_Connect env so addresses (new_cluster opts [] 0) = (r, t)"
  shows "credentials_ok so addresses (c_events t)
    \<and> (\<forall>n < connects (c_events t). r = Inr n \<or> closed_in (c_events t) n)"
proof -
  have "credentials_ok so addresses (c_events t) \<and> c_nodes t = [] \<and> held (case r of Inl _ \<Rightarrow> {} | Inr m \<Rightarrow> {m}) t"
  proof (cases "addresses = [] \<or> TrimSpace (so_MasterName so) = ''''")
    case True
    then show ?thesis using assms held_new credentials_Nil
      by (auto simp: ioredisSentinelFactory_Connect_def new_cluster_def)
  next
    case False
    then have "sentinel_Connect env so addresses 0 (new_cluster opts [] 0) = (r, t)"
      using assms by (simp add: ioredisSentinelFactory_Connect_def)
    then show ?thesis
      by (rule sentinel_Connect_ok) (simp_all add: held_new, simp_all add: new_cluster_def credentials_Nil)
  qed
  then show ?thesis using held_nodes [of _ t] by (cases r) auto
qed

section \<open>A cluster of one node\<close>

text \<open>A seed that gives two slots to one node, which answers every command.\<close>

definition sample_slots :: resp_value where
  "sample_slots = VArr [VArr [VInt 0, VInt 1, VArr [VStr ''n1'', VInt 7]]]"

definition sample_node :: "nat \<Rightarrow> string list list \<Rightarrow> cluster_events \<Rightarrow> IORedisExchange" where
  "sample_node n cmds es =
     outcome (map (\<lambda>c. Reply (if c = [''cluster'', ''slots''] then sample_slots else VStr ''OK'') None) cmds) True IORedisFullyWritten None"

definition sample_cluster_env :: cluster_env where
  "sample_cluster_env = \<lparr>ce_connect = (\<lambda>_ _. None), ce_exchange = sample_node, ce_close = (\<lambda>_ _. None),
     ce_ctx = (\<lambda>_. None), ce_closing = (\<lambda>_. False)\<rparr>"

definition sample_cluster_options :: ioredisClusterOptions where
  "sample_cluster_options = \<lparr>co_Username = '''', co_Password = '''', co_DB = 0, co_ConnectionName = '''',
     co_ConnectTimeout = 1, co_SocketTimeout = 1, co_KeepAlive = 0, co_DisableClientInfo = True,
     co_clientInfoLibraryVersion = ''''\<rparr>"

definition sample_connected :: "go_error option \<times> cluster" where
  "sample_connected = ioredisClusterFactory_Connect sample_cluster_env [''seed:7''] sample_cluster_options"

lemma sample_connects: "fst sample_connected = None"
  by code_simp

theorem cluster_no_leak_witness:
  "fst sample_connected = None \<and> cluster_ready (snd sample_connected)
   \<and> all_closed (snd (cluster_Close sample_cluster_env
        (cluster_run (\<lambda>_. True) sample_cluster_env [OpExchange [[''get'', ''k'']], OpWatch] (snd sample_connected))))"
  using cluster_no_leak [of sample_cluster_env "[''seed:7'']" sample_cluster_options "fst sample_connected" "snd sample_connected"
      "\<lambda>_. True" "[OpExchange [[''get'', ''k'']], OpWatch]"] sample_connects
  by (simp add: sample_connected_def)







definition sample_routed :: cluster where
  "sample_routed = (snd sample_connected)\<lparr>c_slots := \<lambda>_. ''n1:7''\<rparr>"

lemma sample_route: "route (\<lambda>_. True) sample_routed [''get'', ''k''] = Inr ''n1:7''"
  by (simp add: sample_routed_def route_def routeKey_def routeSlot_def ioredisClusterNodeCommand_def ascii_upper_def)

theorem route_owner_witness: "c_slots sample_routed (ioredisClusterSlot ''k'') = ''n1:7''"
  using route_owner [OF sample_route]
  by (simp add: routing_keys_def ioredisClusterNodeCommand_def ascii_upper_def)

text \<open>A Sentinel that names a master.\<close>

definition sample_sentinel_env :: cluster_env where
  "sample_sentinel_env = sample_cluster_env\<lparr>ce_exchange :=
     \<lambda>n cmds es. outcome [Reply (VArr [VStr ''m'', VInt 7]) None] True IORedisFullyWritten None\<rparr>"

definition sample_sentinel_options :: ioredisSentinelOptions where
  "sample_sentinel_options = \<lparr>so_MasterName = ''mymaster'', so_Username = ''u'', so_Password = ''p'', so_SentinelUsername = '''',
     so_SentinelPassword = ''s'', so_DB = 2, so_ConnectionName = '''', so_ConnectTimeout = 1, so_SocketTimeout = 1,
     so_KeepAlive = 0, so_DisableClientInfo = True, so_clientInfoLibraryVersion = ''''\<rparr>"

definition sample_resolved :: "(go_error + nat) \<times> cluster" where
  "sample_resolved = ioredisSentinelFactory_Connect sample_sentinel_env sample_sentinel_options [''s:9'']
     (new_cluster sample_cluster_options [] 0)"

lemma sample_resolves: "fst sample_resolved = Inr 1 \<and> connects (c_events (snd sample_resolved)) = 2"
  by code_simp

theorem sentinel_credentials_witness:
  "fst sample_resolved = Inr 1 \<and> credentials_ok sample_sentinel_options [''s:9''] (c_events (snd sample_resolved))
   \<and> closed_in (c_events (snd sample_resolved)) 0"
proof -
  have "ioredisSentinelFactory_Connect sample_sentinel_env sample_sentinel_options [''s:9'']
      (new_cluster sample_cluster_options [] 0) = (fst sample_resolved, snd sample_resolved)"
    by (simp add: sample_resolved_def)
  note ok = sentinel_credentials [OF this]
  have "fst sample_resolved = Inr 0 \<or> closed_in (c_events (snd sample_resolved)) 0"
    using ok sample_resolves by (auto dest: spec [of _ 0])
  then show ?thesis using ok sample_resolves by simp
qed

end
