(* ===== verification/Feature_Strategy.thy ===== *)
theory Feature_Strategy
  imports Go_Prelude Complex_Main "HOL-Library.Word" "HOL-Library.List_Lexorder" "HOL-Library.Char_ord"
begin

unbundle bit_operations_syntax

text \<open>
  Local evaluation of rollout strategies (\<^verbatim>\<open>feature/strategy.go\<close>): the MurmurHash3 bucket of a user,
  cumulative percentage rollouts, and attribute matching.

  The arguments of the record \<open>std\<close> stand for library functions whose behaviour the properties do
  not depend on: number, date and address parsing, date formatting, and regular expressions.
\<close>

section \<open>Values\<close>

text \<open>A float64; finite values are rationals.\<close>

datatype float64 = Fin rat | PosInf | NegInf | NaN

fun f_less :: "float64 \<Rightarrow> float64 \<Rightarrow> bool" where
  "f_less (Fin x) (Fin y) \<longleftrightarrow> x < y"
| "f_less NegInf (Fin y) \<longleftrightarrow> True"
| "f_less (Fin x) PosInf \<longleftrightarrow> True"
| "f_less NegInf PosInf \<longleftrightarrow> True"
| "f_less _ _ \<longleftrightarrow> False"

definition f_eq :: "float64 \<Rightarrow> float64 \<Rightarrow> bool" where
  "f_eq x y \<longleftrightarrow> x = y \<and> x \<noteq> NaN"

text \<open>
  An \<^verbatim>\<open>interface{}\<close> decoded from JSON.  Where \<^verbatim>\<open>fmt.Sprint\<close> is not the identity on text its result is
  carried along.
\<close>

datatype go_any = AnyNil | AnyBool bool | AnyString string | AnyFloat float64 string | AnyOther string

fun Sprint :: "go_any \<Rightarrow> string" where
  "Sprint AnyNil = ''<nil>''"
| "Sprint (AnyBool b) = (if b then ''true'' else ''false'')"
| "Sprint (AnyString s) = s"
| "Sprint (AnyFloat f t) = t"
| "Sprint (AnyOther t) = t"

record std =
  ParseFloat :: "string \<Rightarrow> float64 option"
  RegexpMatch :: "string \<Rightarrow> string \<Rightarrow> bool option"
  ParseIP :: "string \<Rightarrow> nat list option"
  ParseCIDR :: "string \<Rightarrow> (nat list \<Rightarrow> bool) option"
  TimeParse :: "string \<Rightarrow> string \<Rightarrow> int option"
  TimeFormatUTC :: "string \<Rightarrow> int \<Rightarrow> string"

type_synonym attributes = "string list gomap"

record strategyAttribute =
  Conditional :: string
  FieldName :: string
  Values :: "go_any list option"
  AttributeType :: string

record rolloutStrategy =
  StrategyID :: string
  Percentage :: rat
  PercentageAttributes :: "string list"
  Attributes :: "strategyAttribute list"
  StrategyValue :: go_any

record featureState =
  FeatureID :: string
  Key :: string
  Locked :: bool
  Version :: "int option"
  FeatureType :: string
  FeatureValue :: go_any
  Strategies :: "rolloutStrategy list"

definition featureVersion :: "featureState option \<Rightarrow> int" where
  "featureVersion f = (case f of None \<Rightarrow> -1 | Some g \<Rightarrow> (case Version g of None \<Rightarrow> -1 | Some v \<Rightarrow> v))"

section \<open>The bucket of a user\<close>

definition RotateLeft32 :: "32 word \<Rightarrow> nat \<Rightarrow> 32 word" where
  "RotateLeft32 x k = push_bit k x OR drop_bit (32 - k) x"

definition byte :: "char \<Rightarrow> 32 word" where
  "byte c = of_char c"

definition LittleEndian_Uint32 :: "string \<Rightarrow> 32 word" where
  "LittleEndian_Uint32 b = byte (b ! 0) OR push_bit 8 (byte (b ! 1)) OR push_bit 16 (byte (b ! 2)) OR push_bit 24 (byte (b ! 3))"

definition murmur_c1 :: "32 word" where
  "murmur_c1 = 0xcc9e2d51"

definition murmur_c2 :: "32 word" where
  "murmur_c2 = 0x1b873593"

definition mix :: "32 word \<Rightarrow> 32 word" where
  "mix v = RotateLeft32 (v * murmur_c1) 15 * murmur_c2"

definition murmur_block :: "32 word \<Rightarrow> 32 word \<Rightarrow> 32 word" where
  "murmur_block hash v = RotateLeft32 (hash XOR mix v) 13 * 5 + 0xe6546b64"

text \<open>The block loop, from block \<open>b\<close> on.\<close>

function murmur_blocks :: "string \<Rightarrow> nat \<Rightarrow> nat \<Rightarrow> 32 word \<Rightarrow> 32 word" where
  "murmur_blocks data blockCount b hash =
     (if blockCount \<le> b then hash
      else murmur_blocks data blockCount (Suc b) (murmur_block hash (LittleEndian_Uint32 (drop (b * 4) data))))"
  by pat_completeness auto

termination
  by (relation "measure (\<lambda>(data, n, b, h). n - b)") auto

declare murmur_blocks.simps [simp del]

definition murmur_tail :: "string \<Rightarrow> 32 word \<Rightarrow> 32 word" where
  "murmur_tail rest hash =
     (if rest = [] then hash
      else let v2 = (if 3 \<le> length rest then push_bit 16 (byte (rest ! 2)) else 0);
               v1 = (if 2 \<le> length rest then v2 XOR push_bit 8 (byte (rest ! 1)) else v2);
               v0 = v1 XOR byte (rest ! 0)
           in hash XOR mix v0)"

definition murmur_final :: "32 word \<Rightarrow> 32 word" where
  "murmur_final h0 =
     (let h1 = (h0 XOR drop_bit 16 h0) * 0x85ebca6b;
          h2 = (h1 XOR drop_bit 13 h1) * 0xc2b2ae35
      in h2 XOR drop_bit 16 h2)"

definition murmurHash3 :: "string \<Rightarrow> 32 word \<Rightarrow> 32 word" where
  "murmurHash3 data seed =
     (let blockCount = length data div 4;
          hash = murmur_tail (drop (blockCount * 4) data) (murmur_blocks data blockCount 0 seed)
      in murmur_final (hash XOR of_nat (length data)))"

definition maxPercentage :: int where
  "maxPercentage = 1000000"

text \<open>
  The float64 computation is exact: dividing by a power of two loses nothing, and the product has
  at most 32 + 20 significant bits, so that the floor is that of the rational.
\<close>

definition determineClientPercentage :: "string \<Rightarrow> string \<Rightarrow> int" where
  "determineClientPercentage percentageKey featureID =
     uint (murmurHash3 (percentageKey @ featureID) 0) * maxPercentage div 2 ^ 32"

section \<open>Matching attributes\<close>

text \<open>The prefix a regular expression of \<^verbatim>\<open>parseJavaScriptNumber\<close> matches, and the rest.\<close>

definition take_digits :: "string \<Rightarrow> string \<times> string" where
  "take_digits s = (takeWhile is_digit s, dropWhile is_digit s)"

definition take_sign :: "string \<Rightarrow> string \<times> string" where
  "take_sign s = (if s \<noteq> [] \<and> hd s \<in> {CHR ''+'', CHR ''-''} then ([hd s], tl s) else ([], s))"

definition javascriptIntegerPrefix :: "string \<Rightarrow> string" where
  "javascriptIntegerPrefix s =
     (let (sign, s1) = take_sign s; (ds, _) = take_digits s1 in if ds = [] then [] else sign @ ds)"

definition exponent_prefix :: "string \<Rightarrow> string" where
  "exponent_prefix s =
     (if s \<noteq> [] \<and> hd s \<in> {CHR ''e'', CHR ''E''}
      then let (sign, s1) = take_sign (tl s); (ds, _) = take_digits s1 in if ds = [] then [] else hd s # sign @ ds
      else [])"

definition javascriptFloatPrefix :: "string \<Rightarrow> string" where
  "javascriptFloatPrefix s =
     (let (sign, s1) = take_sign s;
          (whole, s2) = take_digits s1;
          dot = (s2 \<noteq> [] \<and> hd s2 = CHR ''.'');
          (frac, s3) = (if dot then take_digits (tl s2) else ([], s2))
      in if whole = [] \<and> (\<not> dot \<or> frac = []) then []
         else sign @ whole @ (if dot then CHR ''.'' # frac else []) @ exponent_prefix s3)"

definition parseJavaScriptNumber :: "std \<Rightarrow> string \<Rightarrow> bool \<Rightarrow> float64 option" where
  "parseJavaScriptNumber lib value floatMode =
     (let trimmed = TrimSpace value
      in if trimmed = '''' then None
         else let pre = (if floatMode then javascriptFloatPrefix trimmed else javascriptIntegerPrefix trimmed)
              in if pre = '''' then None else ParseFloat lib pre)"

definition attributeStrings :: "go_any list \<Rightarrow> string list" where
  "attributeStrings values = map Sprint (filter (\<lambda>v. v \<noteq> AnyNil) values)"

definition attr_values :: "strategyAttribute \<Rightarrow> go_any list" where
  "attr_values a = (case Values a of None \<Rightarrow> [] | Some vs \<Rightarrow> vs)"

text \<open>The positive conditions on text, for one candidate.\<close>

definition string_test :: "std \<Rightarrow> string \<Rightarrow> string \<Rightarrow> string \<Rightarrow> bool" where
  "string_test lib cond value candidate =
     (if cond = ''EQUALS'' then value = candidate
      else if cond = ''ENDS_WITH'' then HasSuffix value candidate
      else if cond = ''STARTS_WITH'' then HasPrefix value candidate
      else if cond = ''GREATER'' then candidate < value
      else if cond = ''GREATER_EQUALS'' then candidate \<le> value
      else if cond = ''LESS'' then value < candidate
      else if cond = ''LESS_EQUALS'' then value \<le> candidate
      else if cond = ''INCLUDES'' then Contains value candidate
      else if cond = ''REGEX'' then RegexpMatch lib candidate value = Some True
      else False)"

definition matchString :: "std \<Rightarrow> string \<Rightarrow> strategyAttribute \<Rightarrow> bool" where
  "matchString lib value a =
     (let values = attributeStrings (attr_values a)
      in if list_ex (string_test lib (Conditional a) value) values then True
         else if Conditional a = ''NOT_EQUALS'' then list_all (\<lambda>c. value \<noteq> c) values
         else if Conditional a = ''EXCLUDES'' then list_all (\<lambda>c. \<not> Contains value c) values
         else False)"

definition number_test :: "std \<Rightarrow> string \<Rightarrow> string \<Rightarrow> float64 \<Rightarrow> string \<times> float64 \<Rightarrow> bool" where
  "number_test lib cond value actual c =
     (case c of (text, candidate) \<Rightarrow>
        if cond = ''EQUALS'' then f_eq actual candidate
        else if cond = ''GREATER'' then f_less candidate actual
        else if cond = ''GREATER_EQUALS'' then f_less candidate actual \<or> f_eq actual candidate
        else if cond = ''LESS'' then f_less actual candidate
        else if cond = ''LESS_EQUALS'' then f_less actual candidate \<or> f_eq actual candidate
        else if cond = ''STARTS_WITH'' then HasPrefix value text
        else if cond = ''ENDS_WITH'' then HasSuffix value text
        else if cond = ''INCLUDES'' then Contains value text
        else if cond = ''REGEX'' then RegexpMatch lib text value = Some True
        else False)"

text \<open>The candidates that parse, with their text.\<close>

definition number_candidates :: "std \<Rightarrow> bool \<Rightarrow> go_any list \<Rightarrow> (string \<times> float64) list" where
  "number_candidates lib floatMode values =
     List.map_filter (\<lambda>raw. map_option (Pair (Sprint raw)) (parseJavaScriptNumber lib (Sprint raw) floatMode)) values"

definition matchNumber :: "std \<Rightarrow> string \<Rightarrow> strategyAttribute \<Rightarrow> bool" where
  "matchNumber lib value a =
     (let floatMode = Contains value ''.''
      in case parseJavaScriptNumber lib value floatMode of
           None \<Rightarrow> False
         | Some actual \<Rightarrow>
             let cs = number_candidates lib floatMode (attr_values a)
             in if list_ex (number_test lib (Conditional a) value actual) cs then True
                else if Conditional a = ''NOT_EQUALS'' then \<not> list_ex (\<lambda>(t, c). f_eq actual c) cs
                else if Conditional a = ''EXCLUDES'' then \<not> list_ex (\<lambda>(t, c). Contains value t) cs
                else False)"

definition semanticPart :: "std \<Rightarrow> string list \<Rightarrow> nat \<Rightarrow> float64 option" where
  "semanticPart lib parts index = (if length parts \<le> index then None else ParseFloat lib (parts ! index))"

fun compare_parts_from :: "float64 option list \<Rightarrow> float64 option list \<Rightarrow> int" where
  "compare_parts_from (l # ls) (r # rs) =
     (case (l, r) of
        (Some x, Some y) \<Rightarrow> if f_less y x then 1 else if f_less x y then -1 else compare_parts_from ls rs
      | (Some x, None) \<Rightarrow> 1
      | (None, Some y) \<Rightarrow> -1
      | (None, None) \<Rightarrow> compare_parts_from ls rs)"
| "compare_parts_from _ _ = 0"

definition compareSemanticVersion :: "std \<Rightarrow> string \<Rightarrow> string \<Rightarrow> int" where
  "compareSemanticVersion lib left right =
     compare_parts_from (map (semanticPart lib (SplitByte CHR ''.'' left)) [0..<3])
       (map (semanticPart lib (SplitByte CHR ''.'' right)) [0..<3])"

definition version_test :: "string \<Rightarrow> int \<Rightarrow> bool" where
  "version_test cond comparison =
     (if cond = ''EQUALS'' \<or> cond = ''INCLUDES'' then comparison = 0
      else if cond = ''GREATER'' then comparison > 0
      else if cond = ''GREATER_EQUALS'' then comparison \<ge> 0
      else if cond = ''LESS'' then comparison < 0
      else if cond = ''LESS_EQUALS'' then comparison \<le> 0
      else if cond = ''NOT_EQUALS'' \<or> cond = ''EXCLUDES'' then comparison \<noteq> 0
      else False)"

definition matchSemanticVersion :: "std \<Rightarrow> string \<Rightarrow> strategyAttribute \<Rightarrow> bool" where
  "matchSemanticVersion lib value a =
     list_ex (\<lambda>candidate. version_test (Conditional a) (compareSemanticVersion lib value candidate)) (attributeStrings (attr_values a))"

definition ip_candidate :: "std \<Rightarrow> nat list \<Rightarrow> string \<Rightarrow> bool" where
  "ip_candidate lib ip candidate =
     (if \<not> Contains candidate ''/'' then ParseIP lib candidate = Some ip
      else case ParseCIDR lib candidate of None \<Rightarrow> False | Some network \<Rightarrow> network ip)"

definition matchIPAddress :: "std \<Rightarrow> string \<Rightarrow> strategyAttribute \<Rightarrow> bool" where
  "matchIPAddress lib value a =
     (case ParseIP lib value of
        None \<Rightarrow> False
      | Some ip \<Rightarrow>
          let contained = list_ex (ip_candidate lib ip) (attributeStrings (attr_values a))
          in if Conditional a = ''EQUALS'' \<or> Conditional a = ''INCLUDES'' then contained
             else if Conditional a = ''NOT_EQUALS'' \<or> Conditional a = ''EXCLUDES'' then \<not> contained
             else False)"

definition RFC3339Nano :: string where
  "RFC3339Nano = ''2006-01-02T15:04:05.999999999Z07:00''"

definition parseFeatureDate :: "std \<Rightarrow> string \<Rightarrow> int option" where
  "parseFeatureDate lib value =
     (case TimeParse lib RFC3339Nano value of
        Some t \<Rightarrow> Some t
      | None \<Rightarrow> (case TimeParse lib ''2006-01-02T15:04:05Z07:00'' value of
                   Some t \<Rightarrow> Some t
                 | None \<Rightarrow> TimeParse lib ''2006-01-02'' value))"

definition matchAttributeValue :: "std \<Rightarrow> string \<Rightarrow> strategyAttribute \<Rightarrow> bool" where
  "matchAttributeValue lib value a =
     (if AttributeType a = ''BOOLEAN'' then
        (case attr_values a of
           [] \<Rightarrow> False
         | v # _ \<Rightarrow>
             let expected = (Sprint v = ''true''); actual = (value = ''true'')
             in if Conditional a = ''EQUALS'' then actual = expected
                else if Conditional a = ''NOT_EQUALS'' then actual \<noteq> expected else False)
      else if AttributeType a = ''NUMBER'' then matchNumber lib value a
      else if AttributeType a = ''DATE'' then
        (case parseFeatureDate lib value of None \<Rightarrow> False | Some t \<Rightarrow> matchString lib (TimeFormatUTC lib ''2006-01-02'' t) a)
      else if AttributeType a = ''DATETIME'' then
        (case parseFeatureDate lib value of None \<Rightarrow> False | Some t \<Rightarrow> matchString lib (TimeFormatUTC lib ''2006-01-02T15:04:05Z'' t) a)
      else if AttributeType a = ''SEMANTIC_VERSION'' then matchSemanticVersion lib value a
      else if AttributeType a = ''IP_ADDRESS'' then matchIPAddress lib value a
      else if AttributeType a = ''STRING'' then matchString lib value a
      else False)"

definition supplied_values :: "std \<Rightarrow> attributes \<Rightarrow> int \<Rightarrow> strategyAttribute \<Rightarrow> string list" where
  "supplied_values lib ctx now a =
     (let supplied = (case go_get ctx (FieldName a) of None \<Rightarrow> [] | Some vs \<Rightarrow> vs)
      in if supplied = [] \<and> equal_fold_lit (FieldName a) ''now'' then
           (if AttributeType a = ''DATE'' then [TimeFormatUTC lib ''2006-01-02'' now]
            else if AttributeType a = ''DATETIME'' then [TimeFormatUTC lib RFC3339Nano now]
            else supplied)
         else supplied)"

definition match_one :: "std \<Rightarrow> attributes \<Rightarrow> int \<Rightarrow> strategyAttribute \<Rightarrow> bool" where
  "match_one lib ctx now a =
     (let supplied = supplied_values lib ctx now a
      in if Values a = None \<and> supplied = [] then Conditional a = ''EQUALS''
         else if Values a = None \<or> supplied = [] then False
         else list_ex (\<lambda>v. matchAttributeValue lib v a) supplied)"

definition matchAttributes :: "std \<Rightarrow> attributes \<Rightarrow> strategyAttribute list \<Rightarrow> int \<Rightarrow> bool" where
  "matchAttributes lib ctx as now = list_all (match_one lib ctx now) as"

section \<open>Rollouts\<close>

definition firstAttribute :: "attributes \<Rightarrow> string \<Rightarrow> string \<Rightarrow> string" where
  "firstAttribute ctx key fallback =
     (case go_get ctx key of Some (v # _) \<Rightarrow> v | _ \<Rightarrow> fallback)"

definition percentage_key :: "attributes \<Rightarrow> string \<Rightarrow> rolloutStrategy \<Rightarrow> string" where
  "percentage_key ctx dflt s =
     (if PercentageAttributes s \<noteq> [] then Join (map (\<lambda>a. firstAttribute ctx a ''<none>'') (PercentageAttributes s)) ''$''
      else dflt)"

text \<open>
  The loop of \<^verbatim>\<open>applyStrategies\<close> over the strategies that remain, with the base percentage of each key
  and the last key and bucket computed.  \<open>rnd\<close> is the rounding of a float64 addition.
\<close>

record rollout =
  basePercentages :: "rat gomap"
  lastBucket :: "(string \<times> int) option"

definition base_of :: "rat gomap \<Rightarrow> string \<Rightarrow> rat" where
  "base_of m k = (case go_get m k of None \<Rightarrow> 0 | Some p \<Rightarrow> p)"

fun apply_loop ::
    "std \<Rightarrow> (rat \<Rightarrow> rat) \<Rightarrow> string \<Rightarrow> attributes \<Rightarrow> int \<Rightarrow> string \<Rightarrow> rolloutStrategy list \<Rightarrow> rollout \<Rightarrow> go_any option" where
  "apply_loop lib rnd fid ctx now dflt [] st = None"
| "apply_loop lib rnd fid ctx now dflt (s # ss) st =
     (if Percentage s \<noteq> 0 \<and> (dflt \<noteq> '''' \<or> PercentageAttributes s \<noteq> []) then
        (let key = percentage_key ctx dflt s;
             bucket = (case lastBucket st of
                         Some (k, p) \<Rightarrow> if k = key then p else determineClientPercentage key fid
                       | None \<Rightarrow> determineClientPercentage key fid);
             base = (if Attributes s \<noteq> [] then 0 else base_of (basePercentages st) key);
             st1 = st\<lparr>lastBucket := Some (key, bucket)\<rparr>
         in if of_int bucket \<le> rnd (base + Percentage s) \<and> (Attributes s = [] \<or> matchAttributes lib ctx (Attributes s) now)
            then Some (StrategyValue s)
            else apply_loop lib rnd fid ctx now dflt ss
                   (if Attributes s = []
                    then st1\<lparr>basePercentages := go_set key (rnd (base_of (basePercentages st) key + Percentage s)) (basePercentages st)\<rparr>
                    else st1))
      else if Percentage s = 0 \<and> Attributes s \<noteq> [] \<and> matchAttributes lib ctx (Attributes s) now
      then Some (StrategyValue s)
      else apply_loop lib rnd fid ctx now dflt ss st)"

definition applyStrategies :: "std \<Rightarrow> (rat \<Rightarrow> rat) \<Rightarrow> featureState \<Rightarrow> attributes \<Rightarrow> int \<Rightarrow> go_any option" where
  "applyStrategies lib rnd f ctx now =
     apply_loop lib rnd (FeatureID f) ctx now (firstAttribute ctx ''session'' (firstAttribute ctx ''userkey'' ''''))
       (Strategies f) \<lparr>basePercentages = [], lastBucket = None\<rparr>"

section \<open>Typed values\<close>

definition castBoolean :: "go_any \<Rightarrow> bool \<times> bool" where
  "castBoolean v = (case v of AnyBool b \<Rightarrow> (b, True) | AnyString s \<Rightarrow> (s = ''true'', True) | _ \<Rightarrow> (Sprint v = ''true'', v \<noteq> AnyNil))"

definition castNumber :: "std \<Rightarrow> go_any \<Rightarrow> float64 option" where
  "castNumber lib v = (case v of AnyFloat f t \<Rightarrow> Some f | _ \<Rightarrow> ParseFloat lib (Sprint v))"

text \<open>
  \<open>unmarshal\<close> is \<^verbatim>\<open>json.Unmarshal\<close> into an \<^verbatim>\<open>interface{}\<close>; the value of undecodable JSON is an empty
  \<^verbatim>\<open>map[string]interface{}\<close>.
\<close>

definition castFeatureValue :: "std \<Rightarrow> (string \<Rightarrow> go_any option) \<Rightarrow> string \<Rightarrow> go_any \<Rightarrow> bool \<Rightarrow> go_any" where
  "castFeatureValue lib unmarshal valueType v parseJSON =
     (if v = AnyNil then AnyNil
      else if valueType = ''BOOLEAN'' then AnyBool (fst (castBoolean v))
      else if valueType = ''STRING'' then AnyString (Sprint v)
      else if valueType = ''NUMBER'' then (case castNumber lib v of None \<Rightarrow> AnyNil | Some f \<Rightarrow> AnyFloat f (Sprint v))
      else if valueType = ''JSON'' then
        (if \<not> parseJSON then AnyString (Sprint v)
         else case v of
                AnyString raw \<Rightarrow> (case unmarshal raw of Some decoded \<Rightarrow> decoded | None \<Rightarrow> AnyOther ''map[]'')
              | _ \<Rightarrow> v)
      else AnyNil)"

end
