(* ===== verification/Feature_Repository.thy ===== *)
theory Feature_Repository
  imports Feature_Strategy
begin

text \<open>
  The feature repository of the streaming FeatureHub client (\<^verbatim>\<open>feature/flags.go\<close>, \<^verbatim>\<open>feature/sse.go\<close>):
  the evaluation context and its revision, the server-sent event parser, the feature events, the
  retention of a snapshot while the edge is stale, the reconnect delays, and the reads.

  Context revisions are counted from one, one per context change; the model does not let the 64-bit
  counter wrap.  A nil feature map and an empty one behave the same and are both the empty map.
  Durations are in nanoseconds.
\<close>

section \<open>State\<close>

definition maxReconnectInterval :: int where
  "maxReconnectInterval = 30 * 1000000000"

definition defaultReconnectInterval :: int where
  "defaultReconnectInterval = 1000000000"

definition maxRetainedSnapshotAge :: int where
  "maxRetainedSnapshotAge = 30 * 1000000000"

record Client =
  clientEvaluated :: bool
  features :: "featureState gomap"
  featureContextRevision :: nat
  attributes :: attributes
  defaults :: attributes
  reconnectDelay :: int
  contextRevision :: nat
  readyRevision :: nat
  ready :: bool
  receivedInitial :: bool
  lastStreamingErr :: "go_error option"
  featureEvents :: nat
  staleTimer :: "nat option"
  staleGeneration :: nat
  stopped :: bool

definition InitWithOptions :: "string \<Rightarrow> attributes \<Rightarrow> int \<Rightarrow> Client" where
  "InitWithOptions apiKey defs delay = \<lparr>clientEvaluated = Contains apiKey ''*'', features = [], featureContextRevision = 0,
     attributes = defs, defaults = defs, reconnectDelay = delay, contextRevision = 1, readyRevision = 0, ready = False,
     receivedInitial = False, lastStreamingErr = None, featureEvents = 0, staleTimer = None, staleGeneration = 0, stopped = False\<rparr>"

definition attr_at :: "attributes \<Rightarrow> string \<Rightarrow> string list" where
  "attr_at m k = (case go_get m k of None \<Rightarrow> [] | Some vs \<Rightarrow> vs)"

section \<open>Context changes\<close>

definition context_changed :: "bool \<Rightarrow> Client \<Rightarrow> Client" where
  "context_changed changed c =
     (if changed \<and> \<not> clientEvaluated c then c\<lparr>contextRevision := Suc (contextRevision c), ready := False\<rparr> else c)"

definition setAttributeValues :: "string \<Rightarrow> string list \<Rightarrow> Client \<Rightarrow> Client" where
  "setAttributeValues key vs c =
     (if TrimSpace key = '''' then c
      else let previous = attr_at (attributes c) key;
               c1 = c\<lparr>attributes := (if vs = [] then go_del key (attributes c) else go_set key vs (attributes c))\<rparr>
           in context_changed (previous \<noteq> vs) c1)"

definition attributeMapsEqual :: "attributes \<Rightarrow> attributes \<Rightarrow> bool" where
  "attributeMapsEqual left right \<longleftrightarrow> length left = length right \<and> list_all (\<lambda>(k, vs). vs = attr_at right k) left"

definition replaceAttributes :: "attributes \<Rightarrow> Client \<Rightarrow> Client" where
  "replaceAttributes attrs c =
     (if attributeMapsEqual (attributes c) attrs then c
      else context_changed True (c\<lparr>attributes := attrs\<rparr>))"

definition ResetContext :: "Client \<Rightarrow> Client" where
  "ResetContext c = replaceAttributes (defaults c) c"

section \<open>Stale retention\<close>

definition clearStaleRetention :: "Client \<Rightarrow> Client" where
  "clearStaleRetention c = c\<lparr>staleGeneration := Suc (staleGeneration c), staleTimer := None\<rparr>"

text \<open>A pending timer is its generation; the deadline is the one of the first stale notice.\<close>

definition retainReadyDuringStaleWindow :: "Client \<Rightarrow> Client" where
  "retainReadyDuringStaleWindow c =
     (if stopped c \<or> staleTimer c \<noteq> None then c
      else c\<lparr>staleGeneration := Suc (staleGeneration c), staleTimer := Some (Suc (staleGeneration c))\<rparr>)"

definition stale_timer_fired :: "nat \<Rightarrow> Client \<Rightarrow> Client" where
  "stale_timer_fired generation c =
     (if generation \<noteq> staleGeneration c \<or> stopped c then c
      else c\<lparr>staleTimer := None, ready := False,
             lastStreamingErr := Some (errors_New ''FeatureHub cached snapshot expired while the edge remained stale'')\<rparr>)"

definition Stop :: "Client \<Rightarrow> Client" where
  "Stop c = (if stopped c then c else clearStaleRetention (c\<lparr>stopped := True\<rparr>))"

section \<open>Feature events\<close>

definition prepareFeatureNamespaceLocked :: "nat \<Rightarrow> Client \<Rightarrow> Client" where
  "prepareFeatureNamespaceLocked revision c =
     (if \<not> clientEvaluated c \<and> featureContextRevision c \<noteq> revision then c\<lparr>features := []\<rparr> else c)
       \<lparr>featureContextRevision := revision\<rparr>"

definition featureIdentityChanged :: "featureState \<Rightarrow> featureState \<Rightarrow> bool" where
  "featureIdentityChanged current incoming \<longleftrightarrow>
     FeatureID current \<noteq> '''' \<and> FeatureID incoming \<noteq> '''' \<and> FeatureID current \<noteq> FeatureID incoming"

definition store_feature :: "featureState \<Rightarrow> featureState gomap \<Rightarrow> featureState gomap" where
  "store_feature f m =
     (case go_get m (Key f) of
        None \<Rightarrow> go_set (Key f) f m
      | Some current \<Rightarrow>
          if featureIdentityChanged current f \<or> featureVersion (Some f) \<ge> featureVersion (Some current)
          then go_set (Key f) f m else m)"

text \<open>The features of a full set that count: not null, with a key.\<close>

definition named_features :: "featureState option list \<Rightarrow> featureState list" where
  "named_features fs = filter (\<lambda>f. Key f \<noteq> '''') (List.map_filter id fs)"

definition applyFullFeatureSet :: "featureState option list \<Rightarrow> nat \<Rightarrow> Client \<Rightarrow> bool \<times> Client" where
  "applyFullFeatureSet fs revision c =
     (if contextRevision c \<noteq> revision then (False, c)
      else let c1 = prepareFeatureNamespaceLocked revision c;
               incoming = map Key (named_features fs);
               stored = fold store_feature (named_features fs) (features c1);
               c2 = c1\<lparr>features := filter (\<lambda>(k, f). k \<in> set incoming) stored\<rparr>;
               c3 = clearStaleRetention c2
           in (True, c3\<lparr>featureEvents := Suc (featureEvents c3), readyRevision := revision, ready := True,
                 receivedInitial := True, lastStreamingErr := None\<rparr>))"

definition applyFeature :: "featureState \<Rightarrow> nat \<Rightarrow> Client \<Rightarrow> bool \<times> Client" where
  "applyFeature f revision c =
     (if Key f = '''' \<or> contextRevision c \<noteq> revision then (False, c)
      else let c1 = prepareFeatureNamespaceLocked revision c;
               c2 = clearStaleRetention (c1\<lparr>features := store_feature f (features c1)\<rparr>)
           in (True, c2\<lparr>featureEvents := Suc (featureEvents c2)\<rparr>))"

definition delete_allowed :: "featureState \<Rightarrow> featureState option \<Rightarrow> bool" where
  "delete_allowed f current =
     (case current of
        None \<Rightarrow> True
      | Some g \<Rightarrow>
          (FeatureID f = '''' \<or> FeatureID g = '''' \<or> FeatureID f = FeatureID g)
          \<and> (case Version f of None \<Rightarrow> True | Some v \<Rightarrow> v = 0 \<or> v \<ge> featureVersion (Some g)))"

definition deleteFeature :: "featureState \<Rightarrow> nat \<Rightarrow> Client \<Rightarrow> bool \<times> Client" where
  "deleteFeature f revision c =
     (if Key f = '''' \<or> contextRevision c \<noteq> revision then (False, c)
      else let c1 = prepareFeatureNamespaceLocked revision c;
               m = (if delete_allowed f (go_get (features c1) (Key f)) then go_del (Key f) (features c1) else features c1);
               c2 = clearStaleRetention (c1\<lparr>features := m\<rparr>)
           in (True, c2\<lparr>featureEvents := Suc (featureEvents c2)\<rparr>))"

section \<open>Delays\<close>

text \<open>The errors the delays distinguish.\<close>

datatype stream_error = EdgeStale int | HTTPError int int | OtherError go_error

definition retryDelay :: "stream_error option \<Rightarrow> Client \<Rightarrow> int" where
  "retryDelay err c =
     (let delay = (case err of Some (EdgeStale d) \<Rightarrow> if d > 0 then d else reconnectDelay c | _ \<Rightarrow> reconnectDelay c)
      in if delay \<le> 0 then defaultReconnectInterval else delay)"

text \<open>The doubling loop, with \<open>left\<close> rounds to go.\<close>

fun backoff :: "nat \<Rightarrow> int \<Rightarrow> int \<Rightarrow> int" where
  "backoff 0 maximum delay = delay"
| "backoff (Suc left) maximum delay =
     (if \<not> delay < maximum then delay
      else if delay > maximum div 2 then maximum
      else backoff left maximum (delay * 2))"

definition retryDelayForAttempt :: "(int \<Rightarrow> int) \<Rightarrow> stream_error option \<Rightarrow> int \<Rightarrow> Client \<Rightarrow> int" where
  "retryDelayForAttempt jitter err attempt c =
     (let delay = retryDelay err c
      in case err of
           Some (EdgeStale d) \<Rightarrow> delay
         | _ \<Rightarrow>
             let maximum = (if delay > maxReconnectInterval then delay else maxReconnectInterval);
                 d1 = min (backoff (nat (attempt - 1)) maximum delay) maximum;
                 d2 = (if jitter d1 > 0 then jitter d1 else d1)
             in case err of
                  Some (HTTPError status retryAfter) \<Rightarrow> if retryAfter > d2 then min retryAfter maximum else d2
                | _ \<Rightarrow> d2)"

text \<open>\<^verbatim>\<open>equalRetryJitter\<close>; \<open>rand n\<close> is the random number below \<open>n\<close>.\<close>

definition equalRetryJitter :: "(int \<Rightarrow> int) \<Rightarrow> int \<Rightarrow> int" where
  "equalRetryJitter rand delay =
     (if delay \<le> 1 then delay
      else let half = delay div 2; span = delay - half in if span \<le> 1 then delay else half + rand span)"

text \<open>\<open>scale\<close> is the float64 conversion of seconds to nanoseconds.\<close>

definition staleDelay :: "(rat \<Rightarrow> int) \<Rightarrow> float64 \<Rightarrow> Client \<Rightarrow> int" where
  "staleDelay scale seconds c =
     (let minimum = min (retryDelay None c) maxReconnectInterval
      in case seconds of
           NaN \<Rightarrow> minimum
         | NegInf \<Rightarrow> minimum
         | PosInf \<Rightarrow> maxReconnectInterval
         | Fin x \<Rightarrow> if x \<le> 0 then minimum
                    else if x \<ge> 30 then maxReconnectInterval
                    else max (scale x) minimum)"

text \<open>\<open>Inl\<close>: a decoding error; \<open>Inr None\<close>: not stale; \<open>Inr (Some s)\<close>: stale for \<open>s\<close> seconds.\<close>

definition edgeStaleSeconds :: "std \<Rightarrow> go_any \<Rightarrow> go_error + float64 option" where
  "edgeStaleSeconds lib v =
     (case v of
        AnyNil \<Rightarrow> Inr None
      | AnyBool b \<Rightarrow> Inr (if b then Some (Fin 1) else None)
      | AnyFloat f _ \<Rightarrow> Inr (if f_less f (Fin 0) \<or> f_eq f (Fin 0) then None else Some f)
      | AnyString s \<Rightarrow>
          if TrimSpace s = '''' then Inr None
          else (case ParseFloat lib (TrimSpace s) of
                  None \<Rightarrow> Inl (errors_New ''invalid syntax'')
                | Some (Fin x) \<Rightarrow> Inr (if x \<le> 0 then None else Some (Fin x))
                | Some _ \<Rightarrow> Inl (errors_New ''non-finite numeric value''))
      | AnyOther t \<Rightarrow> Inl (Errorf ''unsupported %T value'' [t]))"

section \<open>Server-sent events\<close>

definition maxSSEEventSize :: nat where
  "maxSSEEventSize = 16 * 1024 * 1024"

record featureSSEEvent =
  ev_name :: string
  ev_data :: string
  ev_bytes :: nat
  dataLines :: nat

definition no_event :: featureSSEEvent where
  "no_event = \<lparr>ev_name = '''', ev_data = '''', ev_bytes = 0, dataLines = 0\<rparr>"

text \<open>\<^verbatim>\<open>strings.Cut(line, \":\")\<close>; the value is \<open>None\<close> when there is no colon.\<close>

definition cut_field :: "string \<Rightarrow> string \<times> string option" where
  "cut_field line =
     (takeWhile (\<lambda>c. c \<noteq> CHR '':'') line, case dropWhile (\<lambda>c. c \<noteq> CHR '':'') line of [] \<Rightarrow> None | _ # v \<Rightarrow> Some v)"

text \<open>\<open>None\<close>: the event is too large.\<close>

definition appendLine :: "string \<Rightarrow> featureSSEEvent \<Rightarrow> featureSSEEvent option" where
  "appendLine line e =
     (if HasPrefix line '':'' then Some e
      else if int (length line) \<ge> int maxSSEEventSize - int (ev_bytes e) then None
      else let e1 = e\<lparr>ev_bytes := ev_bytes e + length line + 1\<rparr>;
               (field, v) = cut_field line;
               val = (case v of Some w \<Rightarrow> TrimPrefix w '' '' | None \<Rightarrow> '''')
           in Some (if field = ''event'' then e1\<lparr>ev_name := val\<rparr>
                    else if field = ''data''
                    then e1\<lparr>ev_data := ev_data e @ (if dataLines e > 0 then [CHR 0x0A] else []) @ val, dataLines := Suc (dataLines e)\<rparr>
                    else e1))"

definition event_empty :: "featureSSEEvent \<Rightarrow> bool" where
  "event_empty e \<longleftrightarrow> ev_name e = '''' \<and> dataLines e = 0"

text \<open>
  The JSON decoder, as far as the events use it.  A configuration is decoded to the value of
  \<^verbatim>\<open>edge.stale\<close>, if it has one.
\<close>

record json_lib =
  decode_features :: "string \<Rightarrow> go_error + featureState option list"
  decode_feature :: "string \<Rightarrow> go_error + featureState"
  decode_config :: "string \<Rightarrow> go_error + go_any option"

definition stream_EOF :: go_error where
  "stream_EOF = errors_New ''EOF''"

definition config_event :: "std \<Rightarrow> (rat \<Rightarrow> int) \<Rightarrow> json_lib \<Rightarrow> string \<Rightarrow> Client \<Rightarrow> stream_error option" where
  "config_event lib scale js data c =
     (case decode_config js data of
        Inl e \<Rightarrow> Some (OtherError (Errorw ''decode FeatureHub config event: %w'' [] e))
      | Inr None \<Rightarrow> None
      | Inr (Some raw) \<Rightarrow>
          (case edgeStaleSeconds lib raw of
             Inl e \<Rightarrow> Some (OtherError (Errorw ''decode FeatureHub edge.stale: %w'' [] e))
           | Inr None \<Rightarrow> None
           | Inr (Some seconds) \<Rightarrow> Some (EdgeStale (staleDelay scale seconds c))))"

definition handleEvent :: "std \<Rightarrow> (rat \<Rightarrow> int) \<Rightarrow> json_lib \<Rightarrow> string \<Rightarrow> string \<Rightarrow> nat \<Rightarrow> Client \<Rightarrow> stream_error option \<times> Client" where
  "handleEvent lib scale js name data revision c =
     (if name = '''' \<or> name = ''ack'' then (None, c)
      else if name = ''bye'' then (Some (OtherError stream_EOF), c)
      else if name = ''failure'' \<or> name = ''error'' then (Some (OtherError (Errorf ''FeatureHub emitted %s'' [name])), c)
      else if name = ''config'' then (config_event lib scale js data c, c)
      else if name = ''features'' then
        (case decode_features js data of
           Inl e \<Rightarrow> (Some (OtherError (Errorw ''decode FeatureHub features event: %w'' [] e)), c)
         | Inr fs \<Rightarrow> (None, snd (applyFullFeatureSet fs revision c)))
      else if name = ''feature'' then
        (case decode_feature js data of
           Inl e \<Rightarrow> (Some (OtherError (Errorw ''decode FeatureHub feature event: %w'' [] e)), c)
         | Inr f \<Rightarrow> (None, snd (applyFeature f revision c)))
      else if name = ''delete_feature'' then
        (case decode_feature js data of
           Inl e \<Rightarrow> (Some (OtherError (Errorw ''decode FeatureHub delete event: %w'' [] e)), c)
         | Inr f \<Rightarrow> (None, snd (deleteFeature f revision c)))
      else (None, c))"

text \<open>
  The scanning loop of \<^verbatim>\<open>consumeStream\<close> over the lines of a stream; it returns the error the stream
  ends with.  Without a blank line an event is not dispatched.
\<close>

fun consume_lines ::
    "std \<Rightarrow> (rat \<Rightarrow> int) \<Rightarrow> json_lib \<Rightarrow> nat \<Rightarrow> string list \<Rightarrow> featureSSEEvent \<Rightarrow> Client \<Rightarrow> stream_error \<times> Client" where
  "consume_lines lib scale js revision [] e c = (OtherError stream_EOF, c)"
| "consume_lines lib scale js revision (line # ls) e c =
     (if line = '''' then
        (if event_empty e then consume_lines lib scale js revision ls no_event c
         else case handleEvent lib scale js (ev_name e) (ev_data e) revision c of
                (Some err, c1) \<Rightarrow> (err, c1)
              | (None, c1) \<Rightarrow> consume_lines lib scale js revision ls no_event c1)
      else case appendLine line e of
             None \<Rightarrow> (OtherError (errors_New ''FeatureHub SSE event exceeds the 16 MiB size limit''), c)
           | Some e1 \<Rightarrow> consume_lines lib scale js revision ls e1 c)"

section \<open>Reads\<close>

text \<open>A value, its type, and whether there is one.\<close>

definition evaluatedValueFor :: "std \<Rightarrow> (rat \<Rightarrow> rat) \<Rightarrow> int \<Rightarrow> string \<Rightarrow> attributes \<Rightarrow> Client \<Rightarrow> go_any \<times> string \<times> bool" where
  "evaluatedValueFor lib rnd now key attrs c =
     (case go_get (features c) key of
        None \<Rightarrow> (AnyNil, '''', False)
      | Some f \<Rightarrow>
          let v = (if clientEvaluated c
                   then (case applyStrategies lib rnd f attrs now of Some w \<Rightarrow> w | None \<Rightarrow> FeatureValue f)
                   else FeatureValue f)
          in (v, FeatureType f, v \<noteq> AnyNil))"

definition evaluatedValue :: "std \<Rightarrow> (rat \<Rightarrow> rat) \<Rightarrow> int \<Rightarrow> string \<Rightarrow> Client \<Rightarrow> go_any \<times> string \<times> bool" where
  "evaluatedValue lib rnd now key c = evaluatedValueFor lib rnd now key (attributes c) c"

definition IsEnabled :: "std \<Rightarrow> (rat \<Rightarrow> rat) \<Rightarrow> int \<Rightarrow> string \<Rightarrow> Client \<Rightarrow> bool" where
  "IsEnabled lib rnd now key c =
     (case evaluatedValue lib rnd now key c of
        (v, valueType, ok) \<Rightarrow>
          if \<not> ok \<or> valueType \<noteq> ''BOOLEAN'' then False
          else (case castBoolean v of (b, good) \<Rightarrow> good \<and> b))"

definition GetValue :: "std \<Rightarrow> (rat \<Rightarrow> rat) \<Rightarrow> (string \<Rightarrow> go_any option) \<Rightarrow> int \<Rightarrow> string \<Rightarrow> Client \<Rightarrow> go_any" where
  "GetValue lib rnd unmarshal now key c =
     (case evaluatedValue lib rnd now key c of
        (v, valueType, ok) \<Rightarrow> if \<not> ok then AnyNil else castFeatureValue lib unmarshal valueType v True)"

definition GetString :: "std \<Rightarrow> (rat \<Rightarrow> rat) \<Rightarrow> int \<Rightarrow> string \<Rightarrow> Client \<Rightarrow> string option" where
  "GetString lib rnd now key c =
     (case evaluatedValue lib rnd now key c of
        (v, valueType, ok) \<Rightarrow> if \<not> ok \<or> valueType \<noteq> ''STRING'' \<or> v = AnyNil then None else Some (Sprint v))"

definition GetNumber :: "std \<Rightarrow> (rat \<Rightarrow> rat) \<Rightarrow> int \<Rightarrow> string \<Rightarrow> Client \<Rightarrow> float64 option" where
  "GetNumber lib rnd now key c =
     (case evaluatedValue lib rnd now key c of
        (v, valueType, ok) \<Rightarrow> if \<not> ok \<or> valueType \<noteq> ''NUMBER'' then None else castNumber lib v)"

section \<open>The stream loop\<close>

text \<open>How the run loop records the error of a stream that was not cancelled by a context change.\<close>

definition stream_text :: "stream_error \<Rightarrow> go_error" where
  "stream_text err =
     (case err of
        EdgeStale d \<Rightarrow> Errorf ''FeatureHub edge marked the stream stale for %s'' [itoa_int d]
      | HTTPError status _ \<Rightarrow> Errorf ''FeatureHub returned HTTP %d'' [itoa_int status]
      | OtherError e \<Rightarrow> e)"

definition stream_failed :: "stream_error \<Rightarrow> Client \<Rightarrow> Client" where
  "stream_failed err c =
     (let c1 = c\<lparr>lastStreamingErr := Some (stream_text err)\<rparr>
      in case err of
           EdgeStale d \<Rightarrow> if ready c then retainReadyDuringStaleWindow c1 else c1\<lparr>ready := False\<rparr>
         | _ \<Rightarrow> c1\<lparr>ready := False\<rparr>)"

text \<open>
  Where the stream goroutine is: no stream, a stream whose revision was read but whose request was
  not yet built, or a stream with the context of its request.
\<close>

datatype stream = NoStream | Opening nat | Open nat attributes

text \<open>The features an event carries.\<close>

definition event_features :: "json_lib \<Rightarrow> string \<Rightarrow> string \<Rightarrow> featureState list" where
  "event_features js name data =
     (if name = ''features'' then (case decode_features js data of Inr fs \<Rightarrow> List.map_filter id fs | Inl _ \<Rightarrow> [])
      else if name = ''feature'' then (case decode_feature js data of Inr f \<Rightarrow> [f] | Inl _ \<Rightarrow> [])
      else [])"

text \<open>
  The steps of users, of the stale timer and of the stream loop.  The edge server is the predicate
  \<open>evaluated\<close>: on a stream opened for a context it sends only features evaluated for that context.
\<close>

inductive feature_step ::
    "std \<Rightarrow> (rat \<Rightarrow> int) \<Rightarrow> json_lib \<Rightarrow> (attributes \<Rightarrow> featureState \<Rightarrow> bool) \<Rightarrow> Client \<times> stream \<Rightarrow> Client \<times> stream \<Rightarrow> bool"
  for lib scale js evaluated where
  set_attributes: "feature_step lib scale js evaluated (c, s) (setAttributeValues key vs c, s)"
| reset_context: "feature_step lib scale js evaluated (c, s) (ResetContext c, s)"
| stop_client: "feature_step lib scale js evaluated (c, s) (Stop c, s)"
| timer: "feature_step lib scale js evaluated (c, s) (stale_timer_fired g c, s)"
| load_revision: "feature_step lib scale js evaluated (c, NoStream) (c, Opening (contextRevision c))"
| build_request: "feature_step lib scale js evaluated (c, Opening r) (c, Open r (attributes c))"
| event: "\<forall>f \<in> set (event_features js name data). evaluated a f
    \<Longrightarrow> handleEvent lib scale js name data r c = (None, c')
    \<Longrightarrow> feature_step lib scale js evaluated (c, Open r a) (c', Open r a)"
| event_failed: "\<forall>f \<in> set (event_features js name data). evaluated a f
    \<Longrightarrow> handleEvent lib scale js name data r c = (Some err, c')
    \<Longrightarrow> feature_step lib scale js evaluated (c, Open r a) (stream_failed err c', NoStream)"
| stream_error: "s \<noteq> NoStream \<Longrightarrow> feature_step lib scale js evaluated (c, s) (stream_failed err c, NoStream)"
| stream_refreshed: "s \<noteq> NoStream \<Longrightarrow> feature_step lib scale js evaluated (c, s) (c, NoStream)"

inductive feature_reachable ::
    "std \<Rightarrow> (rat \<Rightarrow> int) \<Rightarrow> json_lib \<Rightarrow> (attributes \<Rightarrow> featureState \<Rightarrow> bool) \<Rightarrow> Client \<times> stream \<Rightarrow> bool"
  for lib scale js evaluated where
  start: "gomap_ok defs \<Longrightarrow> feature_reachable lib scale js evaluated (InitWithOptions apiKey defs delay, NoStream)"
| more: "feature_reachable lib scale js evaluated st \<Longrightarrow> feature_step lib scale js evaluated st st'
    \<Longrightarrow> feature_reachable lib scale js evaluated st'"

end
