(* ===== verification/Feature_Repository_Properties.thy ===== *)
theory Feature_Repository_Properties
  imports Feature_Repository Feature_Strategy_Properties
begin

text \<open>
  What the feature repository promises: a server-evaluated client that is ready serves only values
  evaluated for its current context, feature versions never go back, a full set replaces the
  repository, reconnect delays are capped exponential delays, and events survive framing.
\<close>

section \<open>Events are gated by the context revision\<close>

definition same_context :: "attributes \<Rightarrow> attributes \<Rightarrow> bool" where
  "same_context a b \<longleftrightarrow> (\<forall>k. attr_at a k = attr_at b k)"

text \<open>The server evaluates features by the values of the context, not by how it is written down.\<close>

definition by_context :: "(attributes \<Rightarrow> featureState \<Rightarrow> bool) \<Rightarrow> bool" where
  "by_context evaluated \<longleftrightarrow> (\<forall>a b f. same_context a b \<longrightarrow> evaluated a f = evaluated b f)"

text \<open>What is known of the revisions and of the features of a server-evaluated client.\<close>

definition context_ok :: "(attributes \<Rightarrow> featureState \<Rightarrow> bool) \<Rightarrow> Client \<Rightarrow> bool" where
  "context_ok evaluated c \<longleftrightarrow> featureContextRevision c \<le> contextRevision c
     \<and> (\<not> clientEvaluated c \<longrightarrow>
          (ready c \<longrightarrow> readyRevision c = contextRevision c \<and> featureContextRevision c = contextRevision c)
          \<and> (featureContextRevision c = contextRevision c \<longrightarrow> (\<forall>(k, f) \<in> set (features c). evaluated (attributes c) f)))"

text \<open>
  The contract of a feature event: it takes effect only for the current revision, leaves the context
  alone, and fills a namespace of that revision with the features it carries and with those already
  there.
\<close>

locale gated_event =
  fixes op :: "nat \<Rightarrow> Client \<Rightarrow> bool \<times> Client" and carried :: "featureState set"
  assumes rejects: "contextRevision c \<noteq> r \<Longrightarrow> op r c = (False, c)"
    and unaccepted: "\<not> fst (op r c) \<Longrightarrow> snd (op r c) = c"
    and frame: "contextRevision (snd (op r c)) = contextRevision c" "attributes (snd (op r c)) = attributes c"
      "clientEvaluated (snd (op r c)) = clientEvaluated c"
    and namespace: "fst (op r c) \<Longrightarrow> featureContextRevision (snd (op r c)) = r"
    and origin: "fst (op r c) \<Longrightarrow> (k, f) \<in> set (features (snd (op r c)))
      \<Longrightarrow> f \<in> carried \<or> (k, f) \<in> set (features c) \<and> (clientEvaluated c \<or> featureContextRevision c = r)"
    and readiness: "fst (op r c) \<Longrightarrow> ready (snd (op r c))
      \<Longrightarrow> readyRevision (snd (op r c)) = r \<or> ready c \<and> readyRevision (snd (op r c)) = readyRevision c"
begin

lemma keeps_context_ok:
  assumes c: "context_ok evaluated c"
    and new: "\<And>f. f \<in> carried \<Longrightarrow> contextRevision c = r \<Longrightarrow> \<not> clientEvaluated c \<Longrightarrow> evaluated (attributes c) f"
  shows "context_ok evaluated (snd (op r c))"
proof (cases "fst (op r c)")
  case False
  then show ?thesis using c unaccepted by simp
next
  case True
  then have r: "contextRevision c = r" using rejects [of c r] by (cases "contextRevision c = r") auto
  let ?c = "snd (op r c)"
  have "evaluated (attributes c) f" if "(k, f) \<in> set (features ?c)" "\<not> clientEvaluated c" for k f
    using origin [OF True that(1)] that(2) new [OF _ r that(2)] c r by (auto simp: context_ok_def)
  moreover have "readyRevision ?c = r" if "ready ?c" "\<not> clientEvaluated c"
    using readiness [OF True that(1)] that(2) c r by (auto simp: context_ok_def)
  ultimately show ?thesis using r namespace [OF True] frame [of r c] by (auto simp: context_ok_def)
qed

end

lemma prepare_fields [simp]:
  "contextRevision (prepareFeatureNamespaceLocked r c) = contextRevision c"
  "attributes (prepareFeatureNamespaceLocked r c) = attributes c"
  "clientEvaluated (prepareFeatureNamespaceLocked r c) = clientEvaluated c"
  "featureContextRevision (prepareFeatureNamespaceLocked r c) = r"
  "ready (prepareFeatureNamespaceLocked r c) = ready c" "readyRevision (prepareFeatureNamespaceLocked r c) = readyRevision c"
  by (simp_all add: prepareFeatureNamespaceLocked_def)

lemma prepare_features:
  "features (prepareFeatureNamespaceLocked r c) = (if clientEvaluated c \<or> featureContextRevision c = r then features c else [])"
  by (simp add: prepareFeatureNamespaceLocked_def)

lemma prepared_origin:
  "x \<in> set (features (prepareFeatureNamespaceLocked r c))
     \<Longrightarrow> x \<in> set (features c) \<and> (clientEvaluated c \<or> featureContextRevision c = r)"
  by (simp add: prepare_features split: if_splits)

lemma clear_fields [simp]:
  "contextRevision (clearStaleRetention c) = contextRevision c" "attributes (clearStaleRetention c) = attributes c"
  "clientEvaluated (clearStaleRetention c) = clientEvaluated c" "featureContextRevision (clearStaleRetention c) = featureContextRevision c"
  "ready (clearStaleRetention c) = ready c" "readyRevision (clearStaleRetention c) = readyRevision c"
  "features (clearStaleRetention c) = features c"
  by (simp_all add: clearStaleRetention_def)

lemma set_go_set: "set (go_set k v m) \<subseteq> insert (k, v) (set m)"
  by (induction m) auto

lemma store_feature_origin: "(k, f) \<in> set (store_feature g m) \<Longrightarrow> f = g \<or> (k, f) \<in> set m"
  using set_go_set [of "Key g" g m] by (auto simp: store_feature_def split: option.splits if_splits)

lemma fold_store_origin: "(k, f) \<in> set (fold store_feature gs m) \<Longrightarrow> f \<in> set gs \<or> (k, f) \<in> set m"
proof (induction gs arbitrary: m)
  case (Cons g gs)
  then show ?case using store_feature_origin [of k f g m] Cons.IH [of "store_feature g m"] by auto
qed simp

interpretation full_set: gated_event "applyFullFeatureSet fs" "set (named_features fs)" for fs
proof
  fix r c k f
  assume "fst (applyFullFeatureSet fs r c)" "(k, f) \<in> set (features (snd (applyFullFeatureSet fs r c)))"
  then show "f \<in> set (named_features fs) \<or> (k, f) \<in> set (features c) \<and> (clientEvaluated c \<or> featureContextRevision c = r)"
    by (auto simp: applyFullFeatureSet_def Let_def split: if_splits dest!: fold_store_origin prepared_origin)
qed (auto simp: applyFullFeatureSet_def Let_def)

interpretation one_feature: gated_event "applyFeature g" "{g}" for g
proof
  fix r c k f
  assume "fst (applyFeature g r c)" "(k, f) \<in> set (features (snd (applyFeature g r c)))"
  then show "f \<in> {g} \<or> (k, f) \<in> set (features c) \<and> (clientEvaluated c \<or> featureContextRevision c = r)"
    by (auto simp: applyFeature_def Let_def split: if_splits dest!: store_feature_origin prepared_origin)
qed (auto simp: applyFeature_def Let_def)

lemma set_go_del: "set (go_del k m) \<subseteq> set m"
  by (auto simp: AList.delete_eq)

interpretation delete_one: gated_event "deleteFeature g" "{}" for g
proof
  fix r c k f
  assume "fst (deleteFeature g r c)" "(k, f) \<in> set (features (snd (deleteFeature g r c)))"
  then show "f \<in> {} \<or> (k, f) \<in> set (features c) \<and> (clientEvaluated c \<or> featureContextRevision c = r)"
    by (auto simp: deleteFeature_def Let_def split: if_splits dest!: set_go_del [THEN subsetD] prepared_origin)
qed (auto simp: deleteFeature_def Let_def)

section \<open>The invariant of the client and its stream\<close>

fun stream_ok :: "Client \<Rightarrow> stream \<Rightarrow> bool" where
  "stream_ok c NoStream \<longleftrightarrow> True"
| "stream_ok c (Opening r) \<longleftrightarrow> r \<le> contextRevision c"
| "stream_ok c (Open r a) \<longleftrightarrow> r \<le> contextRevision c
     \<and> (\<not> clientEvaluated c \<and> r = contextRevision c \<longrightarrow> same_context a (attributes c))"

lemma stream_ok_later:
  "stream_ok c s \<Longrightarrow> contextRevision c < contextRevision c' \<Longrightarrow> stream_ok c' s"
  by (cases s) auto

lemma stream_ok_same:
  "stream_ok c s \<Longrightarrow> contextRevision c' = contextRevision c \<Longrightarrow> clientEvaluated c' = clientEvaluated c
     \<Longrightarrow> same_context (attributes c) (attributes c') \<Longrightarrow> stream_ok c' s"
  by (cases s) (auto simp: same_context_def)

lemma stream_ok_client:
  "stream_ok c s \<Longrightarrow> contextRevision c' = contextRevision c \<Longrightarrow> clientEvaluated c \<Longrightarrow> clientEvaluated c' \<Longrightarrow> stream_ok c' s"
  by (cases s) auto

lemma attr_at_set: "attr_at (if vs = [] then go_del key m else go_set key vs m) k = (if k = key then vs else attr_at m k)"
  by (simp add: attr_at_def go_map)

lemma context_change_ok:
  assumes i: "context_ok evaluated c" "stream_ok c s" "by_context evaluated"
    and a: "\<not> changed \<Longrightarrow> same_context (attributes c) attrs"
  shows "context_ok evaluated (context_changed changed (c\<lparr>attributes := attrs\<rparr>))
    \<and> stream_ok (context_changed changed (c\<lparr>attributes := attrs\<rparr>)) s"
proof (cases "clientEvaluated c")
  case True
  then show ?thesis using i(1) stream_ok_client [OF i(2)] by (simp add: context_changed_def context_ok_def)
next
  case False
  show ?thesis
  proof (cases changed)
    case True
    then show ?thesis
      using i(1) stream_ok_later [OF i(2)] False by (auto simp: context_changed_def context_ok_def)
  next
    case unchanged: False
    have "evaluated (attributes c) f = evaluated attrs f" for f
      using i(3) a [OF unchanged] by (simp add: by_context_def)
    then show ?thesis
      using i(1) stream_ok_same [OF i(2)] a [OF unchanged] unchanged False by (auto simp: context_changed_def context_ok_def)
  qed
qed

lemma setAttributeValues_ok:
  assumes "context_ok evaluated c" "stream_ok c s" "by_context evaluated"
  shows "context_ok evaluated (setAttributeValues key vs c) \<and> stream_ok (setAttributeValues key vs c) s"
proof (cases "TrimSpace key = ''''")
  case False
  let ?m = "if vs = [] then go_del key (attributes c) else go_set key vs (attributes c)"
  have "same_context (attributes c) ?m" if "\<not> attr_at (attributes c) key \<noteq> vs"
    using that by (simp add: same_context_def attr_at_set)
  then show ?thesis using context_change_ok [OF assms, of "attr_at (attributes c) key \<noteq> vs" ?m] False
    by (simp add: setAttributeValues_def Let_def)
qed (use assms in \<open>simp add: setAttributeValues_def\<close>)

lemma ResetContext_ok:
  assumes "context_ok evaluated c" "stream_ok c s" "by_context evaluated"
  shows "context_ok evaluated (ResetContext c) \<and> stream_ok (ResetContext c) s"
  using context_change_ok [OF assms, of True "defaults c"] assms by (simp add: ResetContext_def replaceAttributes_def)

text \<open>Steps that change neither the context nor the features, and never make the client ready.\<close>

lemma quiet_step_ok:
  assumes "context_ok evaluated c" "stream_ok c s" "contextRevision c' = contextRevision c" "attributes c' = attributes c"
    "clientEvaluated c' = clientEvaluated c" "features c' = features c" "featureContextRevision c' = featureContextRevision c"
    "readyRevision c' = readyRevision c" "ready c' \<longrightarrow> ready c"
  shows "context_ok evaluated c' \<and> stream_ok c' s"
  using assms stream_ok_same [OF assms(2,3,5)] by (auto simp: context_ok_def same_context_def)

lemma named_features_sub: "set (named_features fs) \<subseteq> set (List.map_filter id fs)"
  by (auto simp: named_features_def)

lemma handleEvent_ok:
  assumes c: "context_ok evaluated c" and s: "stream_ok c (Open r a)" and bc: "by_context evaluated"
    and ev: "\<forall>f \<in> set (event_features js name data). evaluated a f"
    and h: "handleEvent lib scale js name data r c = (err, c')"
  shows "context_ok evaluated c' \<and> stream_ok c' (Open r a)"
proof -
  have cur: "evaluated (attributes c) f" if "contextRevision c = r" "\<not> clientEvaluated c" "evaluated a f" for f
    using s bc that by (auto simp: by_context_def)
  have same: "stream_ok c'' (Open r a)"
    if "contextRevision c'' = contextRevision c" "attributes c'' = attributes c" "clientEvaluated c'' = clientEvaluated c" for c''
    using s that by simp
  consider "c' = c" | fs where "name = ''features''" "decode_features js data = Inr fs" "c' = snd (applyFullFeatureSet fs r c)"
    | f where "name = ''feature''" "decode_feature js data = Inr f" "c' = snd (applyFeature f r c)"
    | f where "c' = snd (deleteFeature f r c)"
    using h by (auto simp: handleEvent_def split: if_splits sum.splits)
  then show ?thesis
  proof cases
    case 1
    then show ?thesis using c s by simp
  next
    case (2 fs)
    have "context_ok evaluated c'" unfolding 2(3)
      using ev cur named_features_sub [of fs] 2(1,2) by (intro full_set.keeps_context_ok [OF c]) (auto simp: event_features_def)
    then show ?thesis using same full_set.frame 2(3) by simp
  next
    case (3 f)
    have "context_ok evaluated c'" unfolding 3(3)
      using ev cur 3(1,2) by (intro one_feature.keeps_context_ok [OF c]) (auto simp: event_features_def)
    then show ?thesis using same one_feature.frame 3(3) by simp
  next
    case (4 f)
    have "context_ok evaluated c'" unfolding 4 by (rule delete_one.keeps_context_ok [OF c]) simp
    then show ?thesis using same delete_one.frame 4 by simp
  qed
qed

lemma stream_failed_quiet:
  "contextRevision (stream_failed err c) = contextRevision c" "attributes (stream_failed err c) = attributes c"
  "clientEvaluated (stream_failed err c) = clientEvaluated c" "features (stream_failed err c) = features c"
  "featureContextRevision (stream_failed err c) = featureContextRevision c"
  "readyRevision (stream_failed err c) = readyRevision c" "ready (stream_failed err c) \<longrightarrow> ready c"
  by (simp_all add: stream_failed_def retainReadyDuringStaleWindow_def Let_def split: stream_error.split)

lemma stream_failed_ok: "context_ok evaluated c \<Longrightarrow> context_ok evaluated (stream_failed err c)"
  using quiet_step_ok [of evaluated c NoStream "stream_failed err c"] stream_failed_quiet [of err c] by simp

lemma feature_step_ok:
  assumes "feature_step lib scale js evaluated (c, s) (c', s')" "context_ok evaluated c" "stream_ok c s" "by_context evaluated"
  shows "context_ok evaluated c' \<and> stream_ok c' s'"
  using assms(1)
proof cases
  case (set_attributes key vs)
  then show ?thesis using setAttributeValues_ok assms by blast
next
  case reset_context
  then show ?thesis using ResetContext_ok assms by blast
next
  case stop_client
  have "context_ok evaluated (Stop c) \<and> stream_ok (Stop c) s"
    by (rule quiet_step_ok [OF assms(2,3)]) (simp_all add: Stop_def)
  then show ?thesis using stop_client by simp
next
  case (timer g)
  have "context_ok evaluated (stale_timer_fired g c) \<and> stream_ok (stale_timer_fired g c) s"
    by (rule quiet_step_ok [OF assms(2,3)]) (simp_all add: stale_timer_fired_def)
  then show ?thesis using timer by simp
next
  case (build_request r)
  then show ?thesis using assms by (simp add: same_context_def)
next
  case (event name data a r)
  then show ?thesis using handleEvent_ok assms by blast
next
  case (event_failed name data a r err c1)
  then show ?thesis using handleEvent_ok [of evaluated c r a] assms stream_failed_ok by (metis stream_ok.simps(1))
next
  case (stream_error err)
  then show ?thesis using assms stream_failed_ok by simp
qed (use assms in simp_all)

lemma feature_reachable_ok:
  assumes "feature_reachable lib scale js evaluated st" "by_context evaluated"
  shows "context_ok evaluated (fst st) \<and> stream_ok (fst st) (snd st)"
  using assms(1)
proof (induction rule: feature_reachable.induct)
  case (start defs apiKey delay)
  then show ?case by (simp add: InitWithOptions_def context_ok_def)
next
  case (more st st')
  then show ?case using feature_step_ok [of lib scale js evaluated "fst st" "snd st" "fst st'" "snd st'"] assms(2) by simp
qed

section \<open>Properties\<close>

text \<open>
  C3.  A server-evaluated client that is ready serves only values the server evaluated for the
  client's current context, whatever context changes, stale streams, buffered events and timers have
  come before: readiness is that of the current revision, and a read returns the value of a feature
  evaluated for the current attributes.
\<close>

theorem ready_values_are_current:
  assumes "feature_reachable lib scale js evaluated (c, s)" and "by_context evaluated"
    and "\<not> clientEvaluated c" and "ready c"
  shows "readyRevision c = contextRevision c
    \<and> (\<forall>key v t. evaluatedValue lib rnd now key c = (v, t, True)
          \<longrightarrow> (\<exists>f. evaluated (attributes c) f \<and> FeatureValue f = v \<and> FeatureType f = t))"
proof -
  have c: "context_ok evaluated c" using feature_reachable_ok [OF assms(1,2)] by simp
  have "\<exists>f. evaluated (attributes c) f \<and> FeatureValue f = v \<and> FeatureType f = t"
    if e: "evaluatedValue lib rnd now key c = (v, t, True)" for key v t
  proof -
    obtain f where f: "go_get (features c) key = Some f" "FeatureValue f = v" "FeatureType f = t"
      using e assms(3) by (auto simp: evaluatedValue_def evaluatedValueFor_def Let_def split: option.splits)
    then have "(key, f) \<in> set (features c)" by (simp add: map_of_SomeD)
    then show ?thesis using c assms(3,4) f by (auto simp: context_ok_def)
  qed
  then show ?thesis using c assms(3,4) by (simp add: context_ok_def)
qed

text \<open>A server that answers with the user key of the context.\<close>

definition echo :: "attributes \<Rightarrow> featureState \<Rightarrow> bool" where
  "echo a f \<longleftrightarrow> FeatureValue f = AnyString (concat (attr_at a ''userkey''))"

definition echo_feature :: featureState where
  "echo_feature = sample_feature\<lparr>FeatureValue := AnyString ''u1''\<rparr>"

definition echo_json :: json_lib where
  "echo_json = \<lparr>decode_features = (\<lambda>_. Inr [Some echo_feature, None]), decode_feature = (\<lambda>_. Inl stream_EOF), decode_config = (\<lambda>_. Inr None)\<rparr>"

definition echo_start :: Client where
  "echo_start = InitWithOptions ''default/key'' [(''userkey'', [''u1''])] 0"

definition echo_ready :: Client where
  "echo_ready = snd (applyFullFeatureSet [Some echo_feature, None] 1 echo_start)"

lemma echo_start_facts: "\<not> clientEvaluated echo_start" "contextRevision echo_start = 1" "attributes echo_start = [(''userkey'', [''u1''])]"
  by (simp_all add: echo_start_def InitWithOptions_def HasPrefix_def)

lemma echo_reachable: "feature_reachable sample_std floor echo_json echo (echo_ready, Open 1 (attributes echo_start))"
proof -
  let ?R = "feature_reachable sample_std floor echo_json echo"
  have "?R (echo_start, NoStream)" unfolding echo_start_def by (rule feature_reachable.start) (simp add: gomap_ok_def)
  then have "?R (echo_start, Opening (contextRevision echo_start))" by (rule feature_reachable.more) (rule load_revision)
  then have "?R (echo_start, Open (contextRevision echo_start) (attributes echo_start))"
    by (rule feature_reachable.more) (rule build_request)
  then have "?R (echo_start, Open 1 (attributes echo_start))" by (simp add: echo_start_facts)
  moreover have "feature_step sample_std floor echo_json echo (echo_start, Open 1 (attributes echo_start)) (echo_ready, Open 1 (attributes echo_start))"
    by (rule event [of _ "''features''" "''''"])
      (simp_all add: event_features_def echo_json_def echo_def echo_feature_def echo_start_facts attr_at_def handleEvent_def echo_ready_def List.map_filter_def)
  ultimately show ?thesis by (rule feature_reachable.more)
qed

theorem ready_values_are_current_witness:
  "readyRevision echo_ready = contextRevision echo_ready
   \<and> evaluatedValue sample_std (\<lambda>x. x) 0 ''k'' echo_ready = (AnyString ''u1'', ''STRING'', True)
   \<and> (\<exists>f. echo (attributes echo_ready) f \<and> FeatureValue f = AnyString ''u1'')"
proof -
  have bc: "by_context echo" by (simp add: by_context_def same_context_def echo_def)
  have v: "evaluatedValue sample_std (\<lambda>x. x) 0 ''k'' echo_ready = (AnyString ''u1'', ''STRING'', True)" by code_simp
  have "\<not> clientEvaluated echo_ready" "ready echo_ready"
    using full_set.frame(3) echo_start_facts by (simp_all add: echo_ready_def applyFullFeatureSet_def Let_def)
  then show ?thesis
    using ready_values_are_current [OF echo_reachable bc, of "\<lambda>x. x" 0] v by blast
qed

subsection \<open>Versions\<close>

lemma store_feature_get:
  "go_get (store_feature g m) k =
     (if k = Key g \<and> (case go_get m k of None \<Rightarrow> True
         | Some cur \<Rightarrow> featureIdentityChanged cur g \<or> featureVersion (Some g) \<ge> featureVersion (Some cur))
      then Some g else go_get m k)"
  by (auto simp: store_feature_def go_map split: option.splits)

lemma fold_store_version:
  assumes "\<forall>h \<in> set gs. Key h = k \<longrightarrow> FeatureID h = FeatureID f" "go_get m k = Some f0" "FeatureID f0 = FeatureID f"
    "featureVersion (Some f) \<le> featureVersion (Some f0)"
  shows "\<exists>g. go_get (fold store_feature gs m) k = Some g \<and> featureVersion (Some f) \<le> featureVersion (Some g)"
  using assms
proof (induction gs arbitrary: m f0)
  case (Cons h gs)
  show ?case
  proof (cases "go_get (store_feature h m) k = Some f0")
    case True
    then show ?thesis using Cons.IH [of "store_feature h m" f0] Cons.prems by simp
  next
    case False
    then have h: "Key h = k" "go_get (store_feature h m) k = Some h"
      "featureIdentityChanged f0 h \<or> featureVersion (Some f0) \<le> featureVersion (Some h)"
      using Cons.prems(2) by (auto simp: store_feature_get split: if_splits)
    have same: "FeatureID h = FeatureID f" using Cons.prems(1) h(1) by simp
    then have "\<not> featureIdentityChanged f0 h" using Cons.prems(3) by (simp add: featureIdentityChanged_def)
    then have "featureVersion (Some f) \<le> featureVersion (Some h)" using h(3) Cons.prems(4) by linarith
    then show ?thesis using Cons.IH [OF _ h(2) same] Cons.prems(1) by simp
  qed
qed auto

lemma map_of_filter_key: "map_of (filter (\<lambda>(k, v). P k) m) k = (if P k then map_of m k else None)"
  by (induction m) auto

text \<open>
  C16.  Feature versions never go back: as long as the features sent for a key keep their identity, an
  event on the current namespace leaves for that key either no feature, after a deletion or a full
  set without it, or one whose version is at least the one before.
\<close>

theorem versions_never_go_back:
  assumes "handleEvent lib scale js name data r c = (err, c')" and "go_get (features c) k = Some f"
    and "clientEvaluated c \<or> featureContextRevision c = r"
    and "\<forall>h \<in> set (event_features js name data). Key h = k \<longrightarrow> FeatureID h = FeatureID f"
  shows "case go_get (features c') k of None \<Rightarrow> True | Some g \<Rightarrow> featureVersion (Some f) \<le> featureVersion (Some g)"
proof -
  have p: "features (prepareFeatureNamespaceLocked r c) = features c" using assms(3) by (auto simp: prepare_features)
  consider "c' = c" | fs where "name = ''features''" "decode_features js data = Inr fs" "c' = snd (applyFullFeatureSet fs r c)"
    | g where "name = ''feature''" "decode_feature js data = Inr g" "c' = snd (applyFeature g r c)"
    | g where "c' = snd (deleteFeature g r c)"
    using assms(1) by (auto simp: handleEvent_def split: if_splits sum.splits)
  then show ?thesis
  proof cases
    case 1
    then show ?thesis using assms(2) by simp
  next
    case (2 fs)
    have "\<forall>h \<in> set (named_features fs). Key h = k \<longrightarrow> FeatureID h = FeatureID f"
      using assms(4) 2(1,2) named_features_sub [of fs] by (auto simp: event_features_def)
    from fold_store_version [OF this assms(2) refl order_refl]
    show ?thesis using 2(3) assms(2) p by (auto simp: applyFullFeatureSet_def Let_def map_of_filter_key)
  next
    case (3 g)
    have "\<forall>h \<in> set [g]. Key h = k \<longrightarrow> FeatureID h = FeatureID f" using assms(4) 3(1,2) by (simp add: event_features_def)
    from fold_store_version [OF this assms(2) refl order_refl]
    show ?thesis using 3(3) assms(2) p by (auto simp: applyFeature_def Let_def)
  next
    case (4 g)
    then show ?thesis using assms(2) p by (auto simp: deleteFeature_def Let_def go_map split: option.split)
  qed
qed

theorem versions_never_go_back_witness:
  "case go_get (features (snd (applyFullFeatureSet [Some (echo_feature\<lparr>Version := Some 0\<rparr>)] 1 echo_ready))) ''k'' of
     None \<Rightarrow> True | Some g \<Rightarrow> 1 \<le> featureVersion (Some g)"
proof -
  let ?js = "echo_json\<lparr>decode_features := (\<lambda>_. Inr [Some (echo_feature\<lparr>Version := Some 0\<rparr>)])\<rparr>"
  have h: "handleEvent sample_std floor ?js ''features'' '''' 1 echo_ready
      = (None, snd (applyFullFeatureSet [Some (echo_feature\<lparr>Version := Some 0\<rparr>)] 1 echo_ready))"
    by (simp add: handleEvent_def)
  have g: "go_get (features echo_ready) ''k'' = Some echo_feature" by code_simp
  have r: "featureContextRevision echo_ready = 1" by code_simp
  have v: "featureVersion (Some echo_feature) = 1" by code_simp
  have e: "\<forall>h \<in> set (event_features ?js ''features'' ''''). Key h = ''k'' \<longrightarrow> FeatureID h = FeatureID echo_feature"
    by (simp add: event_features_def List.map_filter_def)
  show ?thesis using versions_never_go_back [OF h g disjI2 [OF r] e] unfolding v .
qed

text \<open>
  A full set for the current revision replaces the repository: afterwards a key has a feature
  exactly when the set has a feature with that key, whatever was there before; and the client is
  ready for that revision with no pending stale timer.
\<close>

theorem full_set_replaces:
  assumes "contextRevision c = r" and "applyFullFeatureSet fs r c = (ok, c')"
  shows "ok \<and> (\<forall>k. (\<exists>f. go_get (features c') k = Some f) \<longleftrightarrow> (\<exists>f. Some f \<in> set fs \<and> Key f = k \<and> k \<noteq> ''''))
    \<and> ready c' \<and> readyRevision c' = contextRevision c' \<and> staleTimer c' = None \<and> lastStreamingErr c' = None"
proof -
  have stored: "\<exists>f. go_get (fold store_feature gs m) k = Some f" if "k \<in> Key ` set gs \<or> (\<exists>f. go_get m k = Some f)" for gs m k
    using that
  proof (induction gs arbitrary: m)
    case (Cons g gs)
    have "k \<in> Key ` set gs \<or> (\<exists>f. go_get (store_feature g m) k = Some f)"
      using Cons.prems by (auto simp: store_feature_get split: option.splits)
    then show ?case using Cons.IH by simp
  qed simp
  have named: "k \<in> Key ` set (named_features fs) \<longleftrightarrow> (\<exists>f. Some f \<in> set fs \<and> Key f = k \<and> k \<noteq> '''')" for k
    by (force simp: named_features_def List.map_filter_def)
  have "(\<exists>f. go_get (features c') k = Some f) \<longleftrightarrow> k \<in> Key ` set (named_features fs)" for k
    using assms stored [of k "named_features fs"] by (auto simp: applyFullFeatureSet_def Let_def map_of_filter_key split: if_splits)
  then show ?thesis using assms named by (auto simp: applyFullFeatureSet_def Let_def clearStaleRetention_def)
qed

theorem full_set_replaces_witness:
  "fst (applyFullFeatureSet [] 1 echo_ready) \<and> go_get (features (snd (applyFullFeatureSet [] 1 echo_ready))) ''k'' = None"
proof -
  have "contextRevision echo_ready = 1" by code_simp
  from full_set_replaces [OF this, of "[]"] show ?thesis
    by (cases "applyFullFeatureSet [] 1 echo_ready") (auto simp flip: not_Some_eq)
qed

subsection \<open>Delays\<close>

lemma backoff_eq: "0 < d \<Longrightarrow> d \<le> maximum \<Longrightarrow> backoff n maximum d = min (d * 2 ^ n) maximum"
proof (induction n arbitrary: d)
  case (Suc n)
  have grow: "e \<le> e * 2 ^ n" if "0 < e" for e :: int using that by (simp add: mult_le_cancel_left1)
  show ?case
  proof (cases "d < maximum \<and> d \<le> maximum div 2")
    case True
    then have "2 * d \<le> maximum" by linarith
    then show ?thesis using Suc.IH [of "d * 2"] Suc.prems True by (simp add: mult.assoc mult.commute)
  next
    case False
    then have "maximum \<le> d * 2" using Suc.prems by linarith
    also have "\<dots> \<le> (d * 2) * 2 ^ n" using grow Suc.prems by simp
    finally show ?thesis using False Suc.prems by (auto simp: mult.assoc)
  qed
qed simp

lemma equalRetryJitter_half:
  assumes "\<And>n. 0 < n \<Longrightarrow> 0 \<le> rand n \<and> rand n < n" "0 < d"
  shows "d div 2 \<le> equalRetryJitter rand d \<and> equalRetryJitter rand d \<le> d"
  using assms(1) [of "d - d div 2"] assms(2) by (auto simp: equalRetryJitter_def Let_def)

text \<open>
  Reconnect delays: the guarded doubling computes exactly the capped exponential delay; the
  delay never exceeds the larger of thirty seconds and the configured base, and with the built-in
  jitter it is at least half of the exponential delay and at least what the server asked for, up to
  the cap.
\<close>

theorem retryDelayForAttempt_capped:
  fixes c :: Client and attempt :: int
  assumes rand: "\<And>n. 0 < n \<Longrightarrow> 0 \<le> rand n \<and> rand n < n" and "\<And>d. err \<noteq> Some (EdgeStale d)"
  defines "base \<equiv> retryDelay err c"
  defines "cap \<equiv> max base maxReconnectInterval"
  defines "delay \<equiv> retryDelayForAttempt (equalRetryJitter rand) err attempt c"
  shows "0 < delay \<and> delay \<le> cap \<and> min (base * 2 ^ nat (attempt - 1)) cap div 2 \<le> delay
    \<and> (\<forall>status after. err = Some (HTTPError status after) \<longrightarrow> min after cap \<le> delay)"
proof -
  have base: "0 < base" by (simp add: base_def retryDelay_def defaultReconnectInterval_def Let_def)
  define d where "d = min (base * 2 ^ nat (attempt - 1)) cap"
  define j where "j = (if equalRetryJitter rand d > 0 then equalRetryJitter rand d else d)"
  have cap: "(if base > maxReconnectInterval then base else maxReconnectInterval) = cap" by (simp add: cap_def max_def)
  have "backoff (nat (attempt - 1)) cap base = d" unfolding d_def by (rule backoff_eq [OF base]) (simp add: cap_def)
  then have d1: "min (backoff (nat (attempt - 1)) cap base) cap = d" by (simp add: d_def)
  have pos: "0 < d" "d \<le> cap" using base by (simp_all add: d_def cap_def)
  have j: "0 < j" "j \<le> d" "d div 2 \<le> j"
    using equalRetryJitter_half [of rand d, OF rand pos(1)] pos(1) by (auto simp: j_def)
  have eq: "delay = (case err of Some (HTTPError status after) \<Rightarrow> if after > j then min after cap else j | _ \<Rightarrow> j)"
    unfolding delay_def retryDelayForAttempt_def Let_def base_def [symmetric] cap d1 j_def [symmetric]
    using assms(2) by (simp split: option.split stream_error.split)
  have m: "min (base * 2 ^ nat (attempt - 1)) cap = d" by (simp add: d_def)
  consider "delay = j" "\<nexists>status after. err = Some (HTTPError status after)"
    | status after where "err = Some (HTTPError status after)" "delay = (if after > j then min after cap else j)"
    using eq by (cases err; cases "the err") auto
  then show ?thesis
  proof cases
    case 1
    then show ?thesis unfolding m using j pos by auto
  next
    case (2 status after)
    then show ?thesis unfolding m using j pos by auto
  qed
qed

theorem retryDelayForAttempt_capped_witness:
  "retryDelayForAttempt (equalRetryJitter (\<lambda>n. 0)) (Some (HTTPError 503 9000000000)) 3 echo_start \<le> 30000000000
   \<and> 9000000000 \<le> retryDelayForAttempt (equalRetryJitter (\<lambda>n. 0)) (Some (HTTPError 503 9000000000)) 3 echo_start"
proof -
  have "retryDelay (Some (HTTPError 503 9000000000)) echo_start = 1000000000"
    by (simp add: retryDelay_def echo_start_def InitWithOptions_def defaultReconnectInterval_def)
  then show ?thesis
    using retryDelayForAttempt_capped [where rand = "\<lambda>n. 0" and err = "Some (HTTPError 503 9000000000)" and c = echo_start and attempt = 3]
    by (simp add: maxReconnectInterval_def)
qed

subsection \<open>Framing\<close>

text \<open>An event as the lines of a stream, and its size there with one terminator per line.\<close>

definition event_lines :: "string \<Rightarrow> string list \<Rightarrow> string list" where
  "event_lines name ls = (''event: '' @ name) # map (\<lambda>l. ''data: '' @ l) ls"

definition event_size :: "string \<Rightarrow> string list \<Rightarrow> nat" where
  "event_size name ls = sum_list (map (\<lambda>l. Suc (length l)) (event_lines name ls))"

lemma event_size_eq: "event_size name ls = length name + 8 + sum_list (map (\<lambda>l. length l + 7) ls)"
  by (induction ls) (simp_all add: event_size_def event_lines_def)

lemma appendLine_data:
  assumes "ev_bytes e + length l + 7 \<le> maxSSEEventSize"
  shows "appendLine (''data: '' @ l) e = Some (e\<lparr>ev_bytes := ev_bytes e + length l + 7,
    ev_data := ev_data e @ (if dataLines e > 0 then [CHR 0x0A] else []) @ l, dataLines := Suc (dataLines e)\<rparr>)"
  using assms by (simp add: appendLine_def cut_field_def HasPrefix_def TrimPrefix_def Let_def)

lemma appendLine_event:
  assumes "length name + 8 \<le> maxSSEEventSize"
  shows "appendLine (''event: '' @ name) no_event = Some (no_event\<lparr>ev_bytes := length name + 8, ev_name := name\<rparr>)"
  using assms by (simp add: appendLine_def cut_field_def HasPrefix_def TrimPrefix_def no_event_def Let_def)

lemma Join_append1: "ls \<noteq> [] \<Longrightarrow> Join (ls @ [l]) sep = Join ls sep @ sep @ l"
proof (induction ls sep rule: Join.induct)
  case (3 w v ws sep)
  then show ?case by (cases ws) auto
qed auto

lemma consume_data:
  assumes "e = \<lparr>ev_name = name, ev_data = Join seen [CHR 0x0A], ev_bytes = b, dataLines = length seen\<rparr>"
    and "b + sum_list (map (\<lambda>l. length l + 7) ls) \<le> maxSSEEventSize"
  shows "consume_lines lib scale js r (map (\<lambda>l. ''data: '' @ l) ls @ rest) e c =
    consume_lines lib scale js r rest \<lparr>ev_name = name, ev_data = Join (seen @ ls) [CHR 0x0A],
      ev_bytes = b + sum_list (map (\<lambda>l. length l + 7) ls), dataLines = length (seen @ ls)\<rparr> c"
  using assms
proof (induction ls arbitrary: seen b e)
  case (Cons l ls)
  let ?e = "\<lparr>ev_name = name, ev_data = Join (seen @ [l]) [CHR 0x0A], ev_bytes = b + length l + 7, dataLines = length (seen @ [l])\<rparr>"
  have "appendLine (''data: '' @ l) e = Some ?e"
    using appendLine_data [of e l] Cons.prems Join_append1 [of seen l "[CHR 0x0A]"] by (cases "seen = []") auto
  then show ?case using Cons.IH [of ?e "seen @ [l]" "b + length l + 7"] Cons.prems(2) by (simp add: add.assoc)
qed simp

text \<open>
  Events survive framing: the lines of an event, a blank line and the rest of a stream are
  handled as the event with its data lines joined, once, and then the rest, for every event that
  fits the size limit; nothing is dispatched before the blank line.
\<close>

theorem framed_event_dispatched:
  assumes "event_size name ls \<le> maxSSEEventSize" and "name \<noteq> '''' \<or> ls \<noteq> []"
  shows "consume_lines lib scale js r (event_lines name ls @ [] # rest) no_event c =
      (case handleEvent lib scale js name (Join ls [CHR 0x0A]) r c of
         (Some err, c1) \<Rightarrow> (err, c1)
       | (None, c1) \<Rightarrow> consume_lines lib scale js r rest no_event c1)
    \<and> consume_lines lib scale js r (event_lines name ls) no_event c = (OtherError stream_EOF, c)"
proof -
  have size: "length name + 8 + sum_list (map (\<lambda>l. length l + 7) ls) \<le> maxSSEEventSize"
    using assms(1) by (simp add: event_size_eq)
  let ?e = "\<lparr>ev_name = name, ev_data = Join [] [CHR 0x0A], ev_bytes = length name + 8, dataLines = length ([] :: string list)\<rparr>"
  have "appendLine (''event: '' @ name) no_event = Some ?e"
    using appendLine_event [of name] size by (simp add: no_event_def)
  then have "consume_lines lib scale js r (event_lines name ls @ tail) no_event c =
      consume_lines lib scale js r tail \<lparr>ev_name = name, ev_data = Join ls [CHR 0x0A],
        ev_bytes = length name + 8 + sum_list (map (\<lambda>l. length l + 7) ls), dataLines = length ls\<rparr> c" for tail
    using consume_data [of ?e name "[]" "length name + 8" ls lib scale js r tail c] size by (simp add: event_lines_def)
  from this [of "[] # rest"] this [of "[]"] show ?thesis
    using assms(2) by (auto simp: event_empty_def)
qed

theorem framed_event_dispatched_witness:
  "consume_lines sample_std floor echo_json 1 (event_lines ''features'' [''['', '']''] @ [[]]) no_event echo_start =
     (OtherError stream_EOF, echo_ready)"
proof -
  have h: "handleEvent sample_std floor echo_json ''features'' (Join [''['', '']''] [CHR 0x0A]) 1 echo_start = (None, echo_ready)"
    by (simp add: handleEvent_def echo_json_def echo_ready_def)
  have "event_size ''features'' [''['', '']''] \<le> maxSSEEventSize"
    by (simp add: event_size_def event_lines_def maxSSEEventSize_def)
  from framed_event_dispatched [OF this, of sample_std floor echo_json 1 "[]" echo_start] show ?thesis
    unfolding h by simp
qed

end
