(* ===== verification/Kafka_Errors.thy ===== *)
theory Kafka_Errors
  imports Go_Prelude "HOL-Library.Product_Lexorder"
begin

text \<open>
  Errors of the Kafka consumers and the rewind plans they carry (\<^verbatim>\<open>kafka/consumer.go\<close>,
  \<^verbatim>\<open>mergeConsumerRewindPositions\<close> of \<^verbatim>\<open>kafka/confluent.go\<close>, and the classification of errors in
  \<^verbatim>\<open>kafka/franz_kafkajs2_compat_consumer.go\<close>).

  An error is a tree: what \<^verbatim>\<open>errors.Is\<close>, \<^verbatim>\<open>errors.As\<close> and the walks of the source see of it.  A leaf is named
  by its identity, not its text.  Which leaves are errors of the Kafka protocol (and retriable) or of the
  network is a parameter.
\<close>

section \<open>Positions and errors\<close>

record position =
  p_topic :: string
  p_partition :: int
  p_offset :: int
  p_epoch :: int

datatype kerror =
    Sentinel string
  | Wrapf string kerror
  | Joined "kerror list"
  | TransientConsumerError kerror
  | consumerHandlerError string kerror "position option"
  | consumerRewindError kerror position
  | exactOffsetCommitError kerror
  | kafkaJSPollRewindError kerror "position list"
  | consumerWorkerAbortedError "position option"

definition Canceled :: string where "Canceled = ''context.Canceled''"
definition DeadlineExceeded :: string where "DeadlineExceeded = ''context.DeadlineExceeded''"
definition errConsumerWorkerAborted :: string where "errConsumerWorkerAborted = ''errConsumerWorkerAborted''"
definition errKafkaJSUnresolvedRecordRewound :: string where
  "errKafkaJSUnresolvedRecordRewound = ''errKafkaJSUnresolvedRecordRewound''"

text \<open>The leaves in the order of \<^verbatim>\<open>errors.Is\<close> and \<^verbatim>\<open>errors.As\<close>.\<close>

fun leaves :: "kerror \<Rightarrow> string list" where
  "leaves (Sentinel s) = [s]"
| "leaves (Wrapf _ e) = leaves e"
| "leaves (Joined es) = concat (map leaves es)"
| "leaves (TransientConsumerError e) = leaves e"
| "leaves (consumerHandlerError _ e _) = leaves e"
| "leaves (consumerRewindError e _) = leaves e"
| "leaves (exactOffsetCommitError e) = leaves e"
| "leaves (kafkaJSPollRewindError e _) = leaves e"
| "leaves (consumerWorkerAbortedError _) = [errConsumerWorkerAborted]"

definition errors_Is :: "kerror \<Rightarrow> string \<Rightarrow> bool" where
  "errors_Is e s \<longleftrightarrow> s \<in> set (leaves e)"

fun IsTransientConsumerError :: "kerror \<Rightarrow> bool" where
  "IsTransientConsumerError (Sentinel s) = False"
| "IsTransientConsumerError (Wrapf _ e) = IsTransientConsumerError e"
| "IsTransientConsumerError (Joined es) = list_ex IsTransientConsumerError es"
| "IsTransientConsumerError (TransientConsumerError e) = True"
| "IsTransientConsumerError (consumerHandlerError _ e _) = IsTransientConsumerError e"
| "IsTransientConsumerError (consumerRewindError e _) = IsTransientConsumerError e"
| "IsTransientConsumerError (exactOffsetCommitError e) = IsTransientConsumerError e"
| "IsTransientConsumerError (kafkaJSPollRewindError e _) = IsTransientConsumerError e"
| "IsTransientConsumerError (consumerWorkerAbortedError _) = False"

fun isConsumerHandlerError :: "kerror \<Rightarrow> bool" where
  "isConsumerHandlerError (Sentinel s) = False"
| "isConsumerHandlerError (Wrapf _ e) = isConsumerHandlerError e"
| "isConsumerHandlerError (Joined es) = list_ex isConsumerHandlerError es"
| "isConsumerHandlerError (TransientConsumerError e) = isConsumerHandlerError e"
| "isConsumerHandlerError (consumerHandlerError _ e _) = True"
| "isConsumerHandlerError (consumerRewindError e _) = isConsumerHandlerError e"
| "isConsumerHandlerError (exactOffsetCommitError e) = isConsumerHandlerError e"
| "isConsumerHandlerError (kafkaJSPollRewindError e _) = isConsumerHandlerError e"
| "isConsumerHandlerError (consumerWorkerAbortedError _) = False"

definition NewTransientConsumerError :: "kerror \<Rightarrow> kerror" where
  "NewTransientConsumerError e = (if IsTransientConsumerError e then e else TransientConsumerError e)"

definition newConsumerHandlerError :: "string \<Rightarrow> kerror \<Rightarrow> kerror" where
  "newConsumerHandlerError m e = consumerHandlerError m e None"

definition newConsumerHandlerErrorAt :: "string \<Rightarrow> kerror \<Rightarrow> position \<Rightarrow> kerror" where
  "newConsumerHandlerErrorAt m e p = consumerHandlerError m e (Some p)"

text \<open>A run was cancelled when every branch of the error ends in the error of the run's context.\<close>

fun onlyCancellation :: "string \<Rightarrow> kerror \<Rightarrow> bool" where
  "onlyCancellation runErr (Sentinel s) = (s = runErr)"
| "onlyCancellation runErr (Wrapf _ e) = onlyCancellation runErr e"
| "onlyCancellation runErr (Joined es) = (es \<noteq> [] \<and> list_all (onlyCancellation runErr) es)"
| "onlyCancellation runErr (TransientConsumerError e) = onlyCancellation runErr e"
| "onlyCancellation runErr (consumerHandlerError _ e _) = onlyCancellation runErr e"
| "onlyCancellation runErr (consumerRewindError e _) = onlyCancellation runErr e"
| "onlyCancellation runErr (exactOffsetCommitError e) = onlyCancellation runErr e"
| "onlyCancellation runErr (kafkaJSPollRewindError e _) = onlyCancellation runErr e"
| "onlyCancellation runErr (consumerWorkerAbortedError _) = (errConsumerWorkerAborted = runErr)"

definition isConsumerRunCancellation :: "string option \<Rightarrow> kerror \<Rightarrow> bool" where
  "isConsumerRunCancellation ctxErr e = (case ctxErr of None \<Rightarrow> False | Some runErr \<Rightarrow> onlyCancellation runErr e)"

section \<open>Classification\<close>

text \<open>
  Which leaves are Kafka protocol errors, with their retriable flag, and which are network errors.
\<close>

record kafka_lib =
  kerr :: "string \<Rightarrow> bool option"
  net_error :: "string \<Rightarrow> bool"

definition UnknownMemberID :: string where "UnknownMemberID = ''UNKNOWN_MEMBER_ID''"
definition IllegalGeneration :: string where "IllegalGeneration = ''ILLEGAL_GENERATION''"
definition RebalanceInProgress :: string where "RebalanceInProgress = ''REBALANCE_IN_PROGRESS''"

definition isKafkaJSGroupRejoinError :: "kerror \<Rightarrow> bool" where
  "isKafkaJSGroupRejoinError e \<longleftrightarrow>
     errors_Is e UnknownMemberID \<or> errors_Is e IllegalGeneration \<or> errors_Is e RebalanceInProgress"

text \<open>\<^verbatim>\<open>kerr.IsRetriable\<close> looks at the first protocol error of the tree.\<close>

definition IsRetriable :: "kafka_lib \<Rightarrow> kerror \<Rightarrow> bool" where
  "IsRetriable L e = (case find (\<lambda>s. kerr L s \<noteq> None) (leaves e) of None \<Rightarrow> False | Some s \<Rightarrow> kerr L s = Some True)"

definition classifyKafkaJSTransientConsumerError :: "kafka_lib \<Rightarrow> kerror \<Rightarrow> kerror" where
  "classifyKafkaJSTransientConsumerError L e =
     (if IsTransientConsumerError e \<or> errors_Is e Canceled then e
      else if IsRetriable L e \<or> isKafkaJSGroupRejoinError e \<or> errors_Is e DeadlineExceeded then NewTransientConsumerError e
      else if list_ex (net_error L) (leaves e) then NewTransientConsumerError e
      else e)"

section \<open>Rewind plans\<close>

definition partition_of :: "position \<Rightarrow> string \<times> int" where
  "partition_of p = (p_topic p, p_partition p)"

text \<open>The earliest position of each partition is kept, in the place of the first one.\<close>

fun add_position :: "position \<Rightarrow> position list \<Rightarrow> position list" where
  "add_position p [] = [p]"
| "add_position p (q # qs) =
     (if p_topic q = p_topic p \<and> p_partition q = p_partition p
      then (if p_offset p < p_offset q then p else q) # qs
      else q # add_position p qs)"

definition mergeConsumerRewindPositions :: "position list \<Rightarrow> position list \<Rightarrow> position list" where
  "mergeConsumerRewindPositions current added = fold add_position added current"

fun walk :: "kerror \<Rightarrow> position list \<times> bool \<Rightarrow> position list \<times> bool" where
  "walk (Sentinel s) a = a"
| "walk (Wrapf _ e) a = walk e a"
| "walk (Joined es) a = fold walk es a"
| "walk (TransientConsumerError e) a = walk e a"
| "walk (consumerHandlerError _ _ failed) a =
     (case failed of None \<Rightarrow> (fst a, True) | Some p \<Rightarrow> (add_position p (fst a), True))"
| "walk (consumerRewindError _ p) a = (add_position p (fst a), True)"
| "walk (exactOffsetCommitError e) a = walk e a"
| "walk (kafkaJSPollRewindError _ ps) a = (fold add_position ps (fst a), True)"
| "walk (consumerWorkerAbortedError pos) a =
     (case pos of None \<Rightarrow> (fst a, True) | Some p \<Rightarrow> (add_position p (fst a), True))"

definition consumerRewindPositions :: "kerror \<Rightarrow> position list \<times> bool" where
  "consumerRewindPositions e = (case walk e ([], False) of (ps, decided) \<Rightarrow> (sort_key partition_of ps, decided))"

definition withConsumerRewindPosition :: "kerror option \<Rightarrow> position \<Rightarrow> kerror option" where
  "withConsumerRewindPosition err p =
     (case err of
        None \<Rightarrow> None
      | Some e \<Rightarrow> if snd (consumerRewindPositions e) then Some e else Some (consumerRewindError e p))"

section \<open>Plans as functions\<close>

text \<open>What an error asks for: the positions of its outermost planners, and whether it has one.\<close>

fun requests :: "kerror \<Rightarrow> position list" where
  "requests (Sentinel s) = []"
| "requests (Wrapf _ e) = requests e"
| "requests (Joined es) = concat (map requests es)"
| "requests (TransientConsumerError e) = requests e"
| "requests (consumerHandlerError _ _ failed) = (case failed of None \<Rightarrow> [] | Some p \<Rightarrow> [p])"
| "requests (consumerRewindError _ p) = [p]"
| "requests (exactOffsetCommitError e) = requests e"
| "requests (kafkaJSPollRewindError _ ps) = ps"
| "requests (consumerWorkerAbortedError pos) = (case pos of None \<Rightarrow> [] | Some p \<Rightarrow> [p])"

fun planned :: "kerror \<Rightarrow> bool" where
  "planned (Sentinel s) = False"
| "planned (Wrapf _ e) = planned e"
| "planned (Joined es) = list_ex planned es"
| "planned (TransientConsumerError e) = planned e"
| "planned (exactOffsetCommitError e) = planned e"
| "planned _ = True"

lemma walk_eq: "walk e a = (fold add_position (requests e) (fst a), snd a \<or> planned e)"
proof (induction e arbitrary: a)
  case (Joined es)
  have "fold walk fs a = (fold add_position (concat (map requests fs)) (fst a), snd a \<or> list_ex planned fs)"
    if "set fs \<subseteq> set es" for fs a
    using that Joined by (induction fs arbitrary: a) auto
  then show ?case by simp
qed (auto split: option.splits)

lemma consumerRewindPositions_eq:
  "consumerRewindPositions e = (sort_key partition_of (fold add_position (requests e) []), planned e)"
  by (simp add: consumerRewindPositions_def walk_eq)

text \<open>A list of positions as a map from partitions to the earliest offset.\<close>

definition plan_ok :: "position list \<Rightarrow> bool" where
  "plan_ok ps \<longleftrightarrow> distinct (map partition_of ps)"

lemma add_position_partitions:
  "partition_of ` set (add_position p ps) = insert (partition_of p) (partition_of ` set ps)"
  by (induction ps) (auto simp: partition_of_def)

lemma add_position_ok: "plan_ok ps \<Longrightarrow> plan_ok (add_position p ps)"
proof (induction ps)
  case (Cons q qs)
  have "partition_of q \<notin> partition_of ` set (add_position p qs)" if "\<not> (p_topic q = p_topic p \<and> p_partition q = p_partition p)"
    unfolding add_position_partitions using that Cons.prems by (auto simp: plan_ok_def) (simp_all add: partition_of_def)
  then show ?case using Cons by (auto simp: plan_ok_def partition_of_def)
qed (simp add: plan_ok_def)

lemma fold_add_ok: "plan_ok ps \<Longrightarrow> plan_ok (fold add_position qs ps)"
  by (induction qs arbitrary: ps) (auto simp: add_position_ok)

lemma add_position_sub: "set (add_position p ps) \<subseteq> insert p (set ps)"
  by (induction ps) auto

lemma fold_add_sub: "set (fold add_position qs ps) \<subseteq> set qs \<union> set ps"
proof (induction qs arbitrary: ps)
  case (Cons q qs)
  then show ?case using add_position_sub [of q ps] by fastforce
qed simp

lemma add_position_least:
  assumes "q \<in> insert p (set ps)"
  shows "\<exists>r \<in> set (add_position p ps). partition_of r = partition_of q \<and> p_offset r \<le> p_offset q"
  using assms by (induction ps) (auto simp: partition_of_def)

lemma fold_add_least:
  "q \<in> set qs \<union> set ps \<Longrightarrow>
   \<exists>r \<in> set (fold add_position qs ps). partition_of r = partition_of q \<and> p_offset r \<le> p_offset q"
proof (induction qs arbitrary: ps q)
  case (Cons p qs)
  show ?case
  proof (cases "q \<in> set qs")
    case True
    then show ?thesis using Cons.IH [of q "add_position p ps"] by simp
  next
    case False
    then have "q \<in> insert p (set ps)" using Cons.prems by auto
    then obtain r where r: "r \<in> set (add_position p ps)" "partition_of r = partition_of q" "p_offset r \<le> p_offset q"
      using add_position_least by blast
    then show ?thesis using Cons.IH [of r "add_position p ps"] by fastforce
  qed
qed auto

text \<open>
  A rewind plan asks for the earliest position of each partition: whatever tree of joined and wrapped
  errors is given, the plan is sorted with one position per partition, each is one that a failure asked
  for, and none that a failure asked for lies before it.  A plan is decided exactly when a planner is
  reached, even when it asks for nothing.
\<close>

theorem consumerRewindPositions_earliest:
  "sorted (map partition_of (fst (consumerRewindPositions e))) \<and> distinct (map partition_of (fst (consumerRewindPositions e)))
   \<and> set (fst (consumerRewindPositions e)) \<subseteq> set (requests e)
   \<and> (\<forall>q \<in> set (requests e). \<exists>r \<in> set (fst (consumerRewindPositions e)).
        partition_of r = partition_of q \<and> p_offset r \<le> p_offset q)
   \<and> (snd (consumerRewindPositions e) \<longleftrightarrow> planned e)"
proof -
  let ?ps = "fold add_position (requests e) []"
  have "plan_ok ?ps" by (rule fold_add_ok) (simp add: plan_ok_def)
  moreover have "distinct (map partition_of (sort_key partition_of ?ps)) \<longleftrightarrow> distinct (map partition_of ?ps)"
    by (metis mset_map mset_sort mset_eq_imp_distinct_iff)
  ultimately show ?thesis
    using fold_add_sub [of "requests e" "[]"] fold_add_least [of _ "requests e" "[]"]
    by (auto simp: consumerRewindPositions_eq plan_ok_def)
qed

definition sample_failures :: kerror where
  "sample_failures = Joined
     [consumerRewindError (Sentinel ''commit'') \<lparr>p_topic = ''t'', p_partition = 1, p_offset = 9, p_epoch = 0\<rparr>,
      Wrapf ''w'' (consumerHandlerError ''handler'' (Sentinel ''boom'') (Some \<lparr>p_topic = ''t'', p_partition = 1, p_offset = 7, p_epoch = 0\<rparr>)),
      consumerHandlerError ''committed'' (Sentinel ''boom'') None]"

theorem consumerRewindPositions_earliest_witness:
  "requests sample_failures \<noteq> [] \<and> planned sample_failures
   \<and> (\<exists>r. r \<in> set (fst (consumerRewindPositions sample_failures)) \<and> p_offset r \<le> 7)"
proof -
  have r: "\<lparr>p_topic = ''t'', p_partition = 1, p_offset = 7, p_epoch = 0\<rparr> \<in> set (requests sample_failures)"
    "planned sample_failures" by (simp_all add: sample_failures_def)
  then show ?thesis using consumerRewindPositions_earliest [of sample_failures] by fastforce
qed

end
