(* ===== verification/Kafka_Consumer.thy ===== *)
theory Kafka_Consumer
  imports Kafka_Errors
begin

text \<open>
  Message processing of the KafkaJS-compatible consumer
  (\<^verbatim>\<open>kafka/franz_kafkajs2_compat_consumer.go\<close>, the option checks of \<^verbatim>\<open>kafka/confluent.go\<close> and the worker
  progress of \<^verbatim>\<open>kafka/consumer.go\<close>).

  The records of one poll are grouped by partition and every group is processed by a worker.  A worker
  is a function of the answers it gets (of the handler, of commits, of the offset finalizer) that logs
  its calls; the workers of a poll share only the client and the recovery positions, so what happens
  is any interleaving of their logs.  A handler or finalizer may also leave its goroutine.
\<close>

section \<open>Records and options\<close>

record krecord =
  r_topic :: string
  r_partition :: int
  r_offset :: int
  r_epoch :: int
  r_control :: bool
  r_key :: "string option"
  r_value :: "string option"
  r_headers :: "(string \<times> string option) list"
  r_timestamp :: int

record MessagePayload =
  mp_Topic :: string
  mp_Partition :: int
  mp_Offset :: int
  mp_Key :: "string option"
  mp_Value :: "string option"
  mp_Headers :: "(string \<times> string option) list"
  mp_Timestamp :: int

record BatchPayload =
  bp_Topic :: string
  bp_Partition :: int
  bp_Messages :: "MessagePayload list"
  bp_FirstOffset :: int
  bp_LastOffset :: int

definition kafkaJSPayload :: "krecord \<Rightarrow> MessagePayload" where
  "kafkaJSPayload r = \<lparr>mp_Topic = r_topic r, mp_Partition = r_partition r, mp_Offset = r_offset r, mp_Key = r_key r,
     mp_Value = r_value r, mp_Headers = r_headers r, mp_Timestamp = r_timestamp r\<rparr>"

definition kafkaJSRecordPosition :: "krecord \<Rightarrow> position" where
  "kafkaJSRecordPosition r = \<lparr>p_topic = r_topic r, p_partition = r_partition r, p_offset = r_offset r, p_epoch = r_epoch r\<rparr>"

record ConsumerAdvancedOptions =
  ko_AutoCommit :: "bool option"
  ko_CommitBeforeHandler :: bool
  ko_OffsetFinalizer :: bool
  ko_ResolveAfterSuccessfulFinalizer :: bool
  ko_NullOffsetCommitMetadata :: bool
  ko_RedeliverUnresolvedFinalizer :: bool
  ko_PartitionsConsumedConcurrently :: int
  ko_PollTimeout :: int
  ko_MaxRecords :: int

definition resolveAutoCommit :: "bool \<Rightarrow> bool option \<Rightarrow> bool" where
  "resolveAutoCommit configDefault override = (case override of Some b \<Rightarrow> b | None \<Rightarrow> configDefault)"

definition validateConfluentConsumerOptions ::
    "bool \<Rightarrow> ConsumerAdvancedOptions \<Rightarrow> int \<Rightarrow> kerror + bool \<times> int \<times> int" where
  "validateConfluentConsumerOptions configAutoCommit opts defaultPollTimeout =
     (if ko_PartitionsConsumedConcurrently opts < 0
      then Inl (Sentinel ''kafka/confluent: PartitionsConsumedConcurrently must not be negative'')
      else if ko_PollTimeout opts < 0 then Inl (Sentinel ''kafka/confluent: PollTimeout must not be negative'')
      else if ko_MaxRecords opts < 0 then Inl (Sentinel ''kafka/confluent: MaxRecords must not be negative'')
      else let auto = resolveAutoCommit configAutoCommit (ko_AutoCommit opts)
      in if ko_OffsetFinalizer opts \<and> auto then Inl (Sentinel ''kafka/confluent: OffsetFinalizer requires manual commit'')
         else if ko_OffsetFinalizer opts \<and> ko_CommitBeforeHandler opts
         then Inl (Sentinel ''kafka/confluent: OffsetFinalizer cannot be combined with CommitBeforeHandler'')
         else if \<not> ko_OffsetFinalizer opts \<and> ko_ResolveAfterSuccessfulFinalizer opts
         then Inl (Sentinel ''kafka/confluent: ResolveAfterSuccessfulFinalizer requires OffsetFinalizer'')
         else if \<not> ko_OffsetFinalizer opts \<and> ko_NullOffsetCommitMetadata opts
         then Inl (Sentinel ''kafka/confluent: NullOffsetCommitMetadata requires OffsetFinalizer'')
         else Inr (auto, if ko_PollTimeout opts = 0 then defaultPollTimeout else ko_PollTimeout opts,
                   if ko_PartitionsConsumedConcurrently opts = 0 then 1 else ko_PartitionsConsumedConcurrently opts))"

section \<open>Calls and answers\<close>

text \<open>User code returns an error or none, or ends its goroutine.\<close>

datatype answer = Returns "kerror option" | Goexit

text \<open>The answer of a finalizer also says whether its error wraps the handler's.\<close>

datatype final_answer = FReturns "kerror option" bool | FGoexit

type_synonym commit_response = "(string \<times> (int \<times> int) list) list"

datatype kevent =
    Handle krecord answer
  | HandleBatch "krecord list" BatchPayload answer
  | Finalize krecord "kerror option" final_answer
  | Commit krecord "kerror option"
  | Mark krecord
  | CommitExact krecord int bool "kerror option"
  | CommitRefused krecord int
  | SetOffsets "position list"
  | Remember "position list"
  | Complete position
  | AllowRebalance
  | CloseClient nat

type_synonym kevents = "kevent list"

record worker_env =
  we_handler :: "MessagePayload \<Rightarrow> kevents \<Rightarrow> answer"
  we_batch :: "BatchPayload \<Rightarrow> kevents \<Rightarrow> answer"
  we_commit :: "krecord \<Rightarrow> kevents \<Rightarrow> kerror option"
  we_exact :: "krecord \<Rightarrow> int \<Rightarrow> kevents \<Rightarrow> kerror option \<times> commit_response option"
  we_calls :: "MessagePayload \<Rightarrow> kerror option \<Rightarrow> kevents \<Rightarrow> int list"
  we_final :: "MessagePayload \<Rightarrow> kerror option \<Rightarrow> kevents \<Rightarrow> final_answer"

text \<open>The progress of a worker and its log.\<close>

record 'e progress =
  w_pos :: "position option"
  w_next :: "position option"
  w_events :: "'e list"

type_synonym worker = "kevent progress"

definition newConsumerWorkerContext :: "position option \<Rightarrow> 'e progress" where
  "newConsumerWorkerContext p = \<lparr>w_pos = p, w_next = None, w_events = []\<rparr>"

definition wlog :: "'e \<Rightarrow> 'e progress \<Rightarrow> 'e progress" where
  "wlog e w = w\<lparr>w_events := w_events w @ [e]\<rparr>"

definition setConsumerWorkerPosition :: "position \<Rightarrow> position option \<Rightarrow> 'e progress \<Rightarrow> 'e progress" where
  "setConsumerWorkerPosition p nxt w = w\<lparr>w_pos := Some p, w_next := nxt\<rparr>"

definition markConsumerWorkerCommitted :: "'e progress \<Rightarrow> 'e progress" where
  "markConsumerWorkerCommitted w = w\<lparr>w_pos := w_next w\<rparr>"

datatype result = Done "kerror option" | Exited

section \<open>Commits\<close>

text \<open>A 64-bit increment.\<close>

definition next_offset :: "int \<Rightarrow> int" where
  "next_offset x = (if x = 9223372036854775807 then - 9223372036854775808 else x + 1)"

definition kafkaJSOffsetCommitResponseError :: "(int \<Rightarrow> string) \<Rightarrow> commit_response option \<Rightarrow> kerror option" where
  "kafkaJSOffsetCommitResponseError errorForCode response =
     (case response of
        None \<Rightarrow> Some (Sentinel ''broker returned an empty offset commit response'')
      | Some topics \<Rightarrow>
          map_option (\<lambda>(_, code). Wrapf ''broker rejected exact offset commit for topic %q partition %d: %w'' (Sentinel (errorForCode code)))
            (find (\<lambda>(_, code). code \<noteq> 0) (concat (map snd topics))))"

record kafka_run =
  kr_lib :: kafka_lib
  kr_errorForCode :: "int \<Rightarrow> string"
  kr_AutoCommit :: bool
  kr_auto :: bool
  kr_opts :: ConsumerAdvancedOptions

definition classified :: "kafka_run \<Rightarrow> string \<Rightarrow> kerror option \<Rightarrow> kerror option" where
  "classified R m err = map_option (\<lambda>e. classifyKafkaJSTransientConsumerError (kr_lib R) (Wrapf m e)) err"

definition CommitRecords :: "worker_env \<Rightarrow> krecord \<Rightarrow> worker \<Rightarrow> kerror option \<times> worker" where
  "CommitRecords env r w = (let a = we_commit env r (w_events w) in (a, wlog (Commit r a) w))"

definition commitKafkaJSExact :: "kafka_run \<Rightarrow> worker_env \<Rightarrow> krecord \<Rightarrow> int \<Rightarrow> bool \<Rightarrow> worker \<Rightarrow> kerror option \<times> worker" where
  "commitKafkaJSExact R env r exact nullMetadata w =
     (case we_exact env r exact (w_events w) of
        (err, response) \<Rightarrow>
          let commitErr = (case err of Some e \<Rightarrow> Some e | None \<Rightarrow> kafkaJSOffsetCommitResponseError (kr_errorForCode R) response)
          in (classified R ''kafka/kafkajs: exact offset commit failed: %w'' commitErr,
              wlog (CommitExact r exact nullMetadata commitErr) w))"

definition resolveKafkaJSRecord ::
    "kafka_run \<Rightarrow> worker_env \<Rightarrow> krecord \<Rightarrow> bool \<Rightarrow> worker \<Rightarrow> kerror option \<times> worker" where
  "resolveKafkaJSRecord R env r nullMetadata w =
     (if kr_auto R \<and> kr_AutoCommit R then (None, wlog (Mark r) w)
      else if nullMetadata then commitKafkaJSExact R env r (next_offset (r_offset r)) True w
      else case CommitRecords env r w of
             (a, w1) \<Rightarrow> (classified R ''kafka/kafkajs: post-handler commit failed: %w'' a, w1))"

section \<open>One record\<close>

definition commit_first :: "kafka_run \<Rightarrow> bool" where
  "commit_first R \<longleftrightarrow> \<not> kr_auto R \<and> ko_CommitBeforeHandler (kr_opts R)"

text \<open>What the finalizer does with the commit it is given: the first call commits, further calls are refused.\<close>

fun finalizer_calls :: "kafka_run \<Rightarrow> worker_env \<Rightarrow> krecord \<Rightarrow> bool \<Rightarrow> int list \<Rightarrow> worker \<Rightarrow> worker" where
  "finalizer_calls R env r called [] w = w"
| "finalizer_calls R env r called (x # xs) w =
     (if called then finalizer_calls R env r True xs (wlog (CommitRefused r x) w)
      else finalizer_calls R env r True xs (snd (commitKafkaJSExact R env r x (ko_NullOffsetCommitMetadata (kr_opts R)) w)))"

definition handle_finalized :: "kafka_run \<Rightarrow> worker_env \<Rightarrow> krecord \<Rightarrow> worker \<Rightarrow> result \<times> worker" where
  "handle_finalized R env r w =
     (let a = we_handler env (kafkaJSPayload r) (w_events w); w1 = wlog (Handle r a) w
      in case a of
           Goexit \<Rightarrow> (Exited, w1)
         | Returns handlerErr \<Rightarrow>
             (let w2 = finalizer_calls R env r False (we_calls env (kafkaJSPayload r) handlerErr (w_events w1)) w1;
                  f = we_final env (kafkaJSPayload r) handlerErr (w_events w2); w3 = wlog (Finalize r handlerErr f) w2
              in case f of
                   FGoexit \<Rightarrow> (Exited, w3)
                 | FReturns (Some e) wraps \<Rightarrow>
                     if handlerErr \<noteq> None \<and> wraps
                     then (Done (Some (newConsumerHandlerErrorAt ''kafka/kafkajs: message handler failed'' e (kafkaJSRecordPosition r))), w3)
                     else (Done (Some e), w3)
                 | FReturns None _ \<Rightarrow>
                     if handlerErr = None \<and> ko_ResolveAfterSuccessfulFinalizer (kr_opts R)
                     then (case resolveKafkaJSRecord R env r (ko_NullOffsetCommitMetadata (kr_opts R)) w3 of (e, w4) \<Rightarrow> (Done e, w4))
                     else if handlerErr \<noteq> None \<and> ko_RedeliverUnresolvedFinalizer (kr_opts R)
                     then (Done (Some (Sentinel errKafkaJSUnresolvedRecordRewound)),
                           wlog (SetOffsets [kafkaJSRecordPosition r]) (wlog (Remember [kafkaJSRecordPosition r]) w3))
                     else (Done None, w3)))"

definition handle_plain :: "kafka_run \<Rightarrow> worker_env \<Rightarrow> krecord \<Rightarrow> worker \<Rightarrow> result \<times> worker" where
  "handle_plain R env r w =
     (let a = we_handler env (kafkaJSPayload r) (w_events w); w1 = wlog (Handle r a) w
      in case a of
           Goexit \<Rightarrow> (Exited, w1)
         | Returns (Some e) \<Rightarrow>
             if commit_first R then (Done (Some (newConsumerHandlerError ''kafka/kafkajs: message handler failed'' e)), w1)
             else (Done (Some (newConsumerHandlerErrorAt ''kafka/kafkajs: message handler failed'' e (kafkaJSRecordPosition r))), w1)
         | Returns None \<Rightarrow>
             if commit_first R then (Done None, w1)
             else (case resolveKafkaJSRecord R env r False w1 of (e, w2) \<Rightarrow> (Done e, w2)))"

definition handle_record :: "kafka_run \<Rightarrow> worker_env \<Rightarrow> krecord \<Rightarrow> worker \<Rightarrow> result \<times> worker" where
  "handle_record R env r w =
     (if ko_OffsetFinalizer (kr_opts R) then handle_finalized R env r w else handle_plain R env r w)"

definition processRecord :: "kafka_run \<Rightarrow> worker_env \<Rightarrow> krecord \<Rightarrow> worker \<Rightarrow> result \<times> worker" where
  "processRecord R env r w =
     (if r_control r
      then (case resolveKafkaJSRecord R env r (ko_NullOffsetCommitMetadata (kr_opts R)) w of (e, w1) \<Rightarrow> (Done e, w1))
      else if commit_first R
      then (case CommitRecords env r w of
              (Some e, w1) \<Rightarrow> (Done (classified R ''kafka/kafkajs: pre-handler commit failed: %w'' (Some e)), w1)
            | (None, w1) \<Rightarrow>
                handle_record R env r (markConsumerWorkerCommitted (wlog (Complete (kafkaJSRecordPosition r)) w1)))
      else handle_record R env r w)"

section \<open>One partition\<close>

definition failed_message :: "kafka_run \<Rightarrow> krecord \<Rightarrow> krecord list \<Rightarrow> kerror \<Rightarrow> kerror" where
  "failed_message R r rs e =
     (if errors_Is e errKafkaJSUnresolvedRecordRewound then e
      else if commit_first R \<and> isConsumerHandlerError e
      then (case rs of q # _ \<Rightarrow> consumerRewindError e (kafkaJSRecordPosition q) | [] \<Rightarrow> e)
      else the (withConsumerRewindPosition (Some e) (kafkaJSRecordPosition r)))"

fun process_messages :: "kafka_run \<Rightarrow> worker_env \<Rightarrow> krecord list \<Rightarrow> worker \<Rightarrow> result \<times> worker" where
  "process_messages R env [] w = (Done None, w)"
| "process_messages R env (r # rs) w =
     (case processRecord R env r
             (setConsumerWorkerPosition (kafkaJSRecordPosition r) (case rs of [] \<Rightarrow> None | q # _ \<Rightarrow> Some (kafkaJSRecordPosition q)) w) of
        (Exited, w1) \<Rightarrow> (Exited, w1)
      | (Done (Some e), w1) \<Rightarrow> (Done (Some (failed_message R r rs e)), w1)
      | (Done None, w1) \<Rightarrow> process_messages R env rs (wlog (Complete (kafkaJSRecordPosition r)) w1))"

definition batch_payload :: "krecord list \<Rightarrow> BatchPayload" where
  "batch_payload visible = \<lparr>bp_Topic = r_topic (last visible), bp_Partition = r_partition (last visible),
     bp_Messages = map kafkaJSPayload visible, bp_FirstOffset = r_offset (hd visible), bp_LastOffset = r_offset (last visible)\<rparr>"

definition settle_batch :: "kafka_run \<Rightarrow> worker_env \<Rightarrow> krecord \<Rightarrow> position \<Rightarrow> worker \<Rightarrow> result \<times> worker" where
  "settle_batch R env lastFetched first_pos w =
     (case resolveKafkaJSRecord R env lastFetched False w of
        (None, w1) \<Rightarrow> (Done None, wlog (Complete (kafkaJSRecordPosition lastFetched)) w1)
      | (Some e, w1) \<Rightarrow> (Done (withConsumerRewindPosition (Some e) first_pos), w1))"

definition handle_batch :: "kafka_run \<Rightarrow> worker_env \<Rightarrow> krecord list \<Rightarrow> krecord \<Rightarrow> worker \<Rightarrow> result \<times> worker" where
  "handle_batch R env visible lastFetched w =
     (let a = we_batch env (batch_payload visible) (w_events w); w1 = wlog (HandleBatch visible (batch_payload visible) a) w
      in case a of
           Goexit \<Rightarrow> (Exited, w1)
         | Returns (Some e) \<Rightarrow>
             if commit_first R then (Done (Some (newConsumerHandlerError ''kafka/kafkajs: batch handler failed'' e)), w1)
             else (Done (Some (newConsumerHandlerErrorAt ''kafka/kafkajs: batch handler failed'' e (kafkaJSRecordPosition (hd visible)))), w1)
         | Returns None \<Rightarrow>
             if commit_first R then (Done None, w1)
             else settle_batch R env lastFetched (kafkaJSRecordPosition (hd visible)) w1)"

definition process_batch :: "kafka_run \<Rightarrow> worker_env \<Rightarrow> krecord list \<Rightarrow> worker \<Rightarrow> result \<times> worker" where
  "process_batch R env grp w =
     (if grp = [] then (Done None, w)
      else let lastFetched = last grp; visible = filter (\<lambda>r. \<not> r_control r) grp
      in if visible = [] then settle_batch R env lastFetched (kafkaJSRecordPosition lastFetched) w
         else let w0 = setConsumerWorkerPosition (kafkaJSRecordPosition (hd visible)) None w
         in if commit_first R
            then (case CommitRecords env lastFetched w0 of
                    (Some e, w1) \<Rightarrow>
                      (Done (withConsumerRewindPosition (classified R ''kafka/kafkajs: pre-handler batch commit failed: %w'' (Some e))
                         (kafkaJSRecordPosition (hd visible))), w1)
                  | (None, w1) \<Rightarrow>
                      handle_batch R env visible lastFetched
                        (markConsumerWorkerCommitted (wlog (Complete (kafkaJSRecordPosition lastFetched)) w1)))
            else handle_batch R env visible lastFetched w0)"

section \<open>One poll\<close>

text \<open>The records of a partition form a group, in the order of the poll.\<close>

definition group_key :: "krecord \<Rightarrow> string" where
  "group_key r = r_topic r @ [CHR 0x00] @ itoa_int (r_partition r)"

definition add_to_group :: "krecord \<Rightarrow> (krecord list) gomap \<Rightarrow> (krecord list) gomap" where
  "add_to_group r groups =
     (case go_get groups (group_key r) of
        None \<Rightarrow> groups @ [(group_key r, [r])]
      | Some grp \<Rightarrow> go_set (group_key r) (grp @ [r]) groups)"

definition groupKafkaJSRecords :: "krecord list \<Rightarrow> krecord list list" where
  "groupKafkaJSRecords records = map snd (fold add_to_group records [])"

text \<open>A worker that got its slot runs the group; one that saw the run end first does nothing.\<close>

definition new_worker :: "krecord list \<Rightarrow> worker" where
  "new_worker grp = newConsumerWorkerContext (case grp of [] \<Rightarrow> None | r # _ \<Rightarrow> Some (kafkaJSRecordPosition r))"

definition worker_error :: "result \<times> 'e progress \<Rightarrow> kerror option" where
  "worker_error x = (case fst x of Done e \<Rightarrow> e | Exited \<Rightarrow> Some (consumerWorkerAbortedError (w_pos (snd x))))"

definition wave_result :: "kerror list \<Rightarrow> kerror option" where
  "wave_result errs =
     (let failures = filter (\<lambda>e. \<not> errors_Is e errKafkaJSUnresolvedRecordRewound) errs
      in if failures \<noteq> [] then Some (Joined failures)
         else if errs \<noteq> [] then Some (Sentinel errKafkaJSUnresolvedRecordRewound)
         else None)"

text \<open>All interleavings of several logs.\<close>

inductive interleaving :: "'a list list \<Rightarrow> 'a list \<Rightarrow> bool" where
  interleaving_done: "\<forall>xs \<in> set xss. xs = [] \<Longrightarrow> interleaving xss []"
| interleaving_step: "i < length xss \<Longrightarrow> xss ! i = x # xs \<Longrightarrow> interleaving (xss[i := xs]) ys \<Longrightarrow> interleaving xss (x # ys)"

text \<open>
  The outcome of a wave: for each group the answers its worker gets, or nothing when the worker does
  not start; the calls in some order and the errors in some order.
\<close>

definition worker_outcome ::
    "(worker_env \<Rightarrow> krecord list \<Rightarrow> worker \<Rightarrow> result \<times> worker) \<Rightarrow> krecord list \<Rightarrow> worker_env option \<Rightarrow> kerror option \<times> kevents" where
  "worker_outcome process grp start =
     (case start of
        None \<Rightarrow> (None, [])
      | Some env \<Rightarrow> let x = process env grp (new_worker grp) in (worker_error x, w_events (snd x)))"

definition runKafkaJSRecordGroups ::
    "(worker_env \<Rightarrow> krecord list \<Rightarrow> worker \<Rightarrow> result \<times> worker) \<Rightarrow> krecord list list \<Rightarrow> worker_env option list
     \<Rightarrow> kevents \<Rightarrow> kerror option \<Rightarrow> bool" where
  "runKafkaJSRecordGroups process groups starts log res \<longleftrightarrow>
     length starts = length groups
     \<and> interleaving (map2 (\<lambda>g s. snd (worker_outcome process g s)) groups starts) log
     \<and> (\<exists>errs. mset errs = mset (List.map_filter id (map2 (\<lambda>g s. fst (worker_outcome process g s)) groups starts))
            \<and> res = wave_result errs)"

text \<open>The error of a poll; records of a failed poll never reached the application and are rewound.\<close>

definition pollKafkaJSRecords :: "kafka_lib \<Rightarrow> bool \<Rightarrow> krecord list \<Rightarrow> kerror list \<Rightarrow> kerror option" where
  "pollKafkaJSRecords L stopped records errs =
     (if stopped then None
      else case find (\<lambda>e. \<not> errors_Is e DeadlineExceeded \<and> \<not> errors_Is e Canceled) errs of
             None \<Rightarrow> None
           | Some e \<Rightarrow>
               let err = classifyKafkaJSTransientConsumerError L (Wrapf ''kafka/kafkajs: consume error: %w'' e)
               in Some (if IsTransientConsumerError err \<and> records \<noteq> []
                        then kafkaJSPollRewindError err (map kafkaJSRecordPosition records) else err))"

end
