(* ===== verification/Kafka_Lifecycle.thy ===== *)
theory Kafka_Lifecycle
  imports Kafka_Consumer
begin

text \<open>
  The life of a KafkaJS-compatible consumer (\<^verbatim>\<open>kafka/franz_kafkajs2_compat_consumer.go\<close>): connecting,
  the run loop over polls, recovery positions across failures and rebalances, and closing.

  Clients are numbered in the order they are created.  The run, the callbacks of the client and \<^verbatim>\<open>Close\<close>
  are different goroutines, so the consumer is a step relation: every section under the mutex and every
  call of a worker is one step, and a poll's calls are the interleavings of its workers.
\<close>

section \<open>State\<close>

record TopicConfig =
  tc_Topic :: string
  tc_FromBeginning :: bool

datatype consumer_phase =
    Idle
  | Polling nat
  | Working nat kevents "kerror option" bool
  | Failing nat kerror bool
  | Discarding nat kerror bool
  | Returning nat "kerror option"

datatype closing = CloseRequested "nat option" | CloseWaiting "nat option" | CloseDone

record consumer =
  c_client :: "nat option"
  c_topics :: "TopicConfig list"
  c_phase :: consumer_phase
  c_closed :: bool
  c_closing :: "closing option"
  c_cancelled :: bool
  c_pollStopped :: bool
  c_pending :: "position list"
  c_created :: nat
  c_log :: kevents

definition new_consumer :: consumer where
  "new_consumer = \<lparr>c_client = None, c_topics = [], c_phase = Idle, c_closed = False, c_closing = None, c_cancelled = False,
     c_pollStopped = False, c_pending = [], c_created = 0, c_log = []\<rparr>"

section \<open>Recovery positions\<close>

definition rememberRecoveryPositions :: "position list \<Rightarrow> consumer \<Rightarrow> consumer" where
  "rememberRecoveryPositions ps c =
     (if c_closed c then c else c\<lparr>c_pending := mergeConsumerRewindPositions (c_pending c) ps\<rparr>)"

definition completeRecoveryPosition :: "position \<Rightarrow> consumer \<Rightarrow> consumer" where
  "completeRecoveryPosition p c =
     c\<lparr>c_pending := filter (\<lambda>q. p_topic q \<noteq> p_topic p \<or> p_partition q \<noteq> p_partition p \<or> p_offset q > p_offset p) (c_pending c)\<rparr>"

text \<open>
  Offsets fetched for newly assigned partitions: a non-negative offset is a committed one, a negative one
  stands for the start or the end of the partition.
\<close>

type_synonym fetch_offsets = "string \<times> int \<Rightarrow> (int \<times> int) option"

fun adjust_loop :: "position list \<Rightarrow> fetch_offsets \<Rightarrow> fetch_offsets \<times> position list" where
  "adjust_loop [] offsets = (offsets, [])"
| "adjust_loop (p # ps) offsets =
     (case offsets (partition_of p) of
        None \<Rightarrow> (case adjust_loop ps offsets of (o', kept) \<Rightarrow> (o', p # kept))
      | Some (committed, _) \<Rightarrow>
          if committed \<ge> 0
          then (if committed \<ge> p_offset p then adjust_loop ps offsets
                else case adjust_loop ps offsets of (o', kept) \<Rightarrow> (o', p # kept))
          else (case adjust_loop ps (offsets(partition_of p \<mapsto> (p_offset p, p_epoch p))) of (o', kept) \<Rightarrow> (o', p # kept)))"

definition adjustRecoveryOffsets ::
    "kerror option \<Rightarrow> fetch_offsets \<Rightarrow> consumer \<Rightarrow> (kerror + fetch_offsets) \<times> consumer" where
  "adjustRecoveryOffsets ctxErr offsets c =
     (case ctxErr of
        Some e \<Rightarrow> (Inl e, c)
      | None \<Rightarrow> (case adjust_loop (c_pending c) offsets of (o', kept) \<Rightarrow> (Inr o', c\<lparr>c_pending := kept\<rparr>)))"

section \<open>Events of a run\<close>

definition clog :: "kevent \<Rightarrow> consumer \<Rightarrow> consumer" where
  "clog e c = c\<lparr>c_log := c_log c @ [e]\<rparr>"

text \<open>A call of a worker; the recovery positions change with it.\<close>

definition apply_event :: "kevent \<Rightarrow> consumer \<Rightarrow> consumer" where
  "apply_event e c =
     (case e of
        Remember ps \<Rightarrow> clog e (rememberRecoveryPositions ps c)
      | Complete p \<Rightarrow> clog e (completeRecoveryPosition p c)
      | _ \<Rightarrow> clog e c)"

section \<open>Connecting and running\<close>

definition validateUniformTopicStart :: "TopicConfig list \<Rightarrow> kerror option" where
  "validateUniformTopicStart topics =
     (if length topics < 2 then None
      else if list_ex (\<lambda>t. tc_FromBeginning t \<noteq> tc_FromBeginning (hd topics)) (tl topics)
      then Some (Sentinel ''kafka: mixed FromBeginning settings are not supported in one subscription'') else None)"

text \<open>What building the options and the client answers is an argument.\<close>

definition consumer_Connect :: "kerror option \<Rightarrow> kerror option \<Rightarrow> TopicConfig list \<Rightarrow> consumer \<Rightarrow> kerror option \<times> consumer" where
  "consumer_Connect optsErr clientErr topics c =
     (if c_closed c then (Some (Sentinel ''kafka/kafkajs: consumer is closed''), c)
      else if c_client c \<noteq> None then (None, c)
      else if topics = [] then (Some (Sentinel ''kafka/kafkajs: at least one topic is required''), c)
      else case validateUniformTopicStart topics of
        Some e \<Rightarrow> (Some (Wrapf ''kafka/kafkajs: connect: %w'' e), c)
      | None \<Rightarrow>
      if list_ex (\<lambda>t. TrimSpace (tc_Topic t) = '''') topics then (Some (Sentinel ''kafka/kafkajs: topic name is required''), c)
      else case optsErr of
        Some e \<Rightarrow> (Some e, c)
      | None \<Rightarrow>
     (case clientErr of
        Some e \<Rightarrow> (Some (Wrapf ''kafka/kafkajs: consumer group connect failed: %w'' e), c)
      | None \<Rightarrow> (None, c\<lparr>c_client := Some (c_created c), c_created := Suc (c_created c), c_topics := topics\<rparr>)))"

text \<open>A missing client is rebuilt first, even when another run turns out to be active.\<close>

definition rebuild :: "kerror option \<Rightarrow> kerror option \<Rightarrow> consumer \<Rightarrow> kerror option \<times> consumer" where
  "rebuild optsErr clientErr c =
     (if c_client c \<noteq> None then (None, c)
      else if c_topics c = [] then (Some (Sentinel ''kafka/kafkajs: consumer is not connected''), c)
      else case optsErr of
        Some e \<Rightarrow> (Some (Wrapf ''kafka/kafkajs: rebuild consumer options: %w'' e), c)
      | None \<Rightarrow>
     (case clientErr of
        Some e \<Rightarrow> (Some (Wrapf ''kafka/kafkajs: reconnect consumer group: %w'' e), c)
      | None \<Rightarrow> (None, c\<lparr>c_client := Some (c_created c), c_created := Suc (c_created c)\<rparr>)))"

definition beginRun :: "bool \<Rightarrow> kerror option \<Rightarrow> kerror option \<Rightarrow> consumer \<Rightarrow> kerror option \<times> consumer" where
  "beginRun validPolicy optsErr clientErr c =
     (if c_closed c then (Some (Sentinel ''kafka/kafkajs: consumer is closed''), c)
      else if \<not> validPolicy then (Some (Sentinel ''kafka/kafkajs: unsupported shutdown policy %d''), c)
      else case rebuild optsErr clientErr c of
        (Some e, c1) \<Rightarrow> (Some e, c1)
      | (None, c1) \<Rightarrow>
          if c_phase c1 \<noteq> Idle then (Some (Sentinel ''kafka/kafkajs: consumer is already running''), c1)
          else (None, c1\<lparr>c_phase := Polling (the (c_client c1)), c_cancelled := False, c_pollStopped := False\<rparr>))"

definition stopped :: "consumer \<Rightarrow> bool" where
  "stopped c \<longleftrightarrow> c_pollStopped c \<or> c_cancelled c"

text \<open>The end of a poll's work; only message mode knows rewound records.\<close>

definition end_wave :: "bool \<Rightarrow> nat \<Rightarrow> kerror option \<Rightarrow> consumer \<Rightarrow> consumer" where
  "end_wave batch n res c =
     (let c1 = clog AllowRebalance c; go_on = c1\<lparr>c_phase := (if stopped c then Returning n None else Polling n)\<rparr>
      in case res of
           None \<Rightarrow> go_on
         | Some e \<Rightarrow>
             if \<not> batch \<and> errors_Is e errKafkaJSUnresolvedRecordRewound then go_on
             else if isConsumerRunCancellation (if c_cancelled c then Some Canceled else None) e
             then c1\<lparr>c_phase := Returning n None\<rparr>
             else c\<lparr>c_phase := Failing n e True\<rparr>)"

text \<open>
  \<^verbatim>\<open>prepareTransientRunRetry\<close>: a failure with a plan rewinds, a transient one without a plan discards the
  client.  The flag says whether the caller allows a rebalance afterwards.
\<close>

definition allow :: "bool \<Rightarrow> consumer \<Rightarrow> consumer" where
  "allow b c = (if b then clog AllowRebalance c else c)"

definition prepareTransientRunRetry :: "nat \<Rightarrow> kerror \<Rightarrow> bool \<Rightarrow> consumer \<Rightarrow> consumer" where
  "prepareTransientRunRetry n e b c =
     (case consumerRewindPositions e of
        (positions, decided) \<Rightarrow>
          if \<not> IsTransientConsumerError e \<and> \<not> decided then (allow b c)\<lparr>c_phase := Returning n (Some e)\<rparr>
          else if decided
          then (allow b (if positions = [] then c
                         else apply_event (SetOffsets positions) (apply_event (Remember positions) c)))\<lparr>c_phase := Returning n (Some e)\<rparr>
          else if c_closed c \<or> c_client c \<noteq> Some n then (allow b c)\<lparr>c_phase := Returning n (Some e)\<rparr>
          else c\<lparr>c_client := None, c_phase := Discarding n e b\<rparr>)"

section \<open>Closing\<close>

text \<open>\<^verbatim>\<open>Close\<close> and a close requested from a rebalance callback take the same snapshot.\<close>

definition consumer_Close :: "consumer \<Rightarrow> consumer" where
  "consumer_Close c = (if c_closed c then c else c\<lparr>c_closed := True, c_closing := Some (CloseRequested (c_client c))\<rparr>)"

definition finish_signal :: "bool \<Rightarrow> nat option \<Rightarrow> consumer \<Rightarrow> consumer" where
  "finish_signal drain client c =
     (let c1 = c\<lparr>c_closing := Some (CloseWaiting client)\<rparr>
      in if c_phase c = Idle then c1
         else if drain then c1\<lparr>c_pollStopped := True\<rparr> else c1\<lparr>c_cancelled := True\<rparr>)"

definition finish_close :: "nat option \<Rightarrow> consumer \<Rightarrow> consumer" where
  "finish_close client c =
     (case client of None \<Rightarrow> c | Some n \<Rightarrow> clog (CloseClient n) c)\<lparr>c_closing := Some CloseDone\<rparr>"

section \<open>Construction and entry\<close>

datatype shutdown_policy = ConsumerShutdownCancelInFlight | ConsumerShutdownDrainInFlight | OtherPolicy int

definition validConsumerShutdownPolicy :: "shutdown_policy \<Rightarrow> bool" where
  "validConsumerShutdownPolicy p \<longleftrightarrow> p = ConsumerShutdownCancelInFlight \<or> p = ConsumerShutdownDrainInFlight"

definition newFranzKafkaJS2CompatConsumer :: "string list \<Rightarrow> bool \<Rightarrow> string \<Rightarrow> shutdown_policy \<Rightarrow> kerror + consumer" where
  "newFranzKafkaJS2CompatConsumer brokers hasConfig strategy policy =
     (if brokers = [] then Inl (Sentinel ''kafka/kafkajs: no brokers configured'')
      else if \<not> hasConfig then Inl (Sentinel ''kafka/kafkajs: client config is required'')
      else if strategy \<noteq> ''''
      then Inl (Sentinel ''kafka/kafkajs: PartitionAssignmentStrategy must be empty when the KafkaJS-compatible backend is selected'')
      else if \<not> validConsumerShutdownPolicy policy then Inl (Sentinel ''kafka/kafkajs: unsupported shutdown policy %d'')
      else Inr new_consumer)"

text \<open>What consuming checks before the run begins; the two modes differ in the default timeout and the finalizer.\<close>

definition consume_checks :: "bool \<Rightarrow> bool \<Rightarrow> bool \<Rightarrow> ConsumerAdvancedOptions \<Rightarrow> kerror + bool \<times> int \<times> int" where
  "consume_checks batch nilHandler configAuto opts =
     (if nilHandler
      then Inl (Sentinel (if batch then ''kafka/kafkajs: batch handler is nil'' else ''kafka/kafkajs: message handler is nil''))
      else if batch \<and> ko_OffsetFinalizer opts
      then Inl (Sentinel ''kafka/kafkajs: OffsetFinalizer is supported only for message consumption'')
      else validateConfluentConsumerOptions configAuto opts (if batch then 1000000000 else 100000000))"

definition max_records :: "bool \<Rightarrow> ConsumerAdvancedOptions \<Rightarrow> int \<Rightarrow> int" where
  "max_records batch opts concurrency =
     (if ko_MaxRecords opts \<le> 0 then (if batch then 100 else concurrency) else ko_MaxRecords opts)"

section \<open>Rebalance callbacks\<close>

text \<open>
  A hook runs in a goroutine of its own.  The answer of a wait: whether the hook ended before a close was
  requested, and whether a close was requested when it had.
\<close>

record hook_wait =
  hw_closing :: bool
  hw_done_first :: bool
  hw_closing_after :: bool

definition awaitConsumerRebalanceHook :: "hook_wait \<Rightarrow> bool" where
  "awaitConsumerRebalanceHook h \<longleftrightarrow> \<not> hw_closing h \<and> hw_done_first h \<and> \<not> hw_closing_after h"

type_synonym assignment = "string \<times> int"

datatype hook_event =
    CommitMarkedOffsets
  | AssignedHook "assignment list" | AssignedLifecycle "assignment list"
  | RevokedHook "assignment list" | RevokedLifecycle "assignment list"
  | LostHook "assignment list" | LostLifecycle "assignment list"

record hooks =
  h_Assigned :: bool
  h_AssignedWithLifecycle :: bool
  h_Revoked :: bool
  h_RevokedWithLifecycle :: bool
  h_Lost :: bool
  h_LostWithLifecycle :: bool

definition flattenAssignments :: "(int list) gomap \<Rightarrow> assignment list" where
  "flattenAssignments m = sort (concat (map (\<lambda>(topic, ps). map (\<lambda>p. (topic, p)) ps) m))"

definition formatAssignments :: "assignment list \<Rightarrow> string list" where
  "formatAssignments as = map (\<lambda>(topic, p). topic @ ''['' @ itoa_int p @ '']'') as"

text \<open>A plain hook and the lifecycle hook after it, unless closing began.\<close>

definition invoke_hooks :: "bool \<Rightarrow> bool \<Rightarrow> hook_event \<Rightarrow> hook_event \<Rightarrow> hook_wait \<Rightarrow> hook_event list" where
  "invoke_hooks plain lifecycle e l wait =
     (if plain then e # (if awaitConsumerRebalanceHook wait \<and> lifecycle then [l] else [])
      else if lifecycle then [l] else [])"

definition invokePartitionsAssigned :: "hooks \<Rightarrow> hook_wait \<Rightarrow> assignment list \<Rightarrow> hook_event list" where
  "invokePartitionsAssigned H wait parts =
     invoke_hooks (h_Assigned H) (h_AssignedWithLifecycle H) (AssignedHook parts) (AssignedLifecycle parts) wait"

definition invokePartitionsRevoked :: "hooks \<Rightarrow> hook_wait \<Rightarrow> assignment list \<Rightarrow> hook_event list" where
  "invokePartitionsRevoked H wait parts =
     invoke_hooks (h_Revoked H) (h_RevokedWithLifecycle H) (RevokedHook parts) (RevokedLifecycle parts) wait"

definition handlePartitionsRevoked :: "hooks \<Rightarrow> bool \<Rightarrow> hook_wait \<Rightarrow> (int list) gomap \<Rightarrow> hook_event list" where
  "handlePartitionsRevoked H autoCommit wait revoked =
     (if autoCommit then [CommitMarkedOffsets] else []) @ invokePartitionsRevoked H wait (flattenAssignments revoked)"

definition handlePartitionsLost :: "hooks \<Rightarrow> hook_wait \<Rightarrow> hook_wait \<Rightarrow> (int list) gomap \<Rightarrow> hook_event list" where
  "handlePartitionsLost H wait wait' lost =
     (let parts = flattenAssignments lost
      in if h_Lost H \<and> \<not> awaitConsumerRebalanceHook wait then [LostHook parts]
         else (if h_Lost H then [LostHook parts] else []) @ (if h_LostWithLifecycle H then [LostLifecycle parts] else [])
              @ (if \<not> h_Lost H \<and> \<not> h_LostWithLifecycle H then invokePartitionsRevoked H wait' parts else []))"

section \<open>Steps\<close>

record kafka_config =
  kc_run :: kafka_run
  kc_batch :: bool
  kc_drain :: bool

definition process_group :: "kafka_config \<Rightarrow> worker_env \<Rightarrow> krecord list \<Rightarrow> worker \<Rightarrow> result \<times> worker" where
  "process_group K = (if kc_batch K then process_batch (kc_run K) else process_messages (kc_run K))"

inductive consumer_step :: "kafka_config \<Rightarrow> consumer \<Rightarrow> consumer \<Rightarrow> bool" for K where
  connect: "consumer_step K c (snd (consumer_Connect optsErr clientErr topics c))"
| begin_run: "consumer_step K c (snd (beginRun validPolicy optsErr clientErr c))"
| poll_failed: "c_phase c = Polling n \<Longrightarrow> pollKafkaJSRecords (kr_lib (kc_run K)) (stopped c) records errs = Some e \<Longrightarrow>
    consumer_step K c (c\<lparr>c_phase := Failing n e False\<rparr>)"
| poll_ended: "c_phase c = Polling n \<Longrightarrow> pollKafkaJSRecords (kr_lib (kc_run K)) (stopped c) records errs = None \<Longrightarrow>
    c_cancelled c \<or> stopped c \<and> records = [] \<Longrightarrow>
    consumer_step K c (c\<lparr>c_phase := Returning n None\<rparr>)"
| poll_wave: "c_phase c = Polling n \<Longrightarrow> pollKafkaJSRecords (kr_lib (kc_run K)) (stopped c) records errs = None \<Longrightarrow>
    \<not> c_cancelled c \<Longrightarrow> \<not> (stopped c \<and> records = []) \<Longrightarrow>
    runKafkaJSRecordGroups (process_group K) (groupKafkaJSRecords records) starts log res \<Longrightarrow>
    consumer_step K c (c\<lparr>c_phase := Working n log res (None \<in> set starts)\<rparr>)"
| work: "c_phase c = Working n (e # log) res skipped \<Longrightarrow>
    consumer_step K c ((apply_event e c)\<lparr>c_phase := Working n log res skipped\<rparr>)"
| wave_done: "c_phase c = Working n [] res skipped \<Longrightarrow> (skipped \<Longrightarrow> c_cancelled c) \<Longrightarrow>
    consumer_step K c (end_wave (kc_batch K) n res c)"
| retry: "c_phase c = Failing n e b \<Longrightarrow> consumer_step K c (prepareTransientRunRetry n e b c)"
| discard: "c_phase c = Discarding n e b \<Longrightarrow>
    consumer_step K c ((allow b (clog (CloseClient n) c))\<lparr>c_phase := Returning n (Some e)\<rparr>)"
| finish: "c_phase c = Returning n r \<Longrightarrow> consumer_step K c ((clog AllowRebalance c)\<lparr>c_phase := Idle\<rparr>)"
| assigned: "\<forall>n log res sk e b. c_phase c \<noteq> Working n log res sk \<and> c_phase c \<noteq> Failing n e b \<Longrightarrow>
    consumer_step K c (snd (adjustRecoveryOffsets ctxErr offsets c))"
| close: "consumer_step K c (consumer_Close c)"
| signal: "c_closing c = Some (CloseRequested client) \<Longrightarrow> consumer_step K c (finish_signal (kc_drain K) client c)"
| close_finished: "c_closing c = Some (CloseWaiting client) \<Longrightarrow> c_phase c = Idle \<Longrightarrow> consumer_step K c (finish_close client c)"

inductive_cases consumer_step_cases: "consumer_step K c c'"

inductive consumer_reachable :: "kafka_config \<Rightarrow> consumer \<Rightarrow> bool" for K where
  reach_init: "consumer_reachable K new_consumer"
| reach_step: "consumer_reachable K c \<Longrightarrow> consumer_step K c c' \<Longrightarrow> consumer_reachable K c'"

end
