(* ===== verification/Kafka_Consumer_Properties.thy ===== *)
theory Kafka_Consumer_Properties
  imports Kafka_Consumer
begin

text \<open>
  Delivery guarantees of the KafkaJS-compatible consumer, for one poll and every interleaving of its
  workers: no record is lost, offsets pass a record only after its handler, or only before it.
\<close>

section \<open>Interleavings\<close>

text \<open>What holds of an event and what was logged before it.\<close>

fun causal :: "('a \<Rightarrow> 'a set \<Rightarrow> bool) \<Rightarrow> 'a set \<Rightarrow> 'a list \<Rightarrow> bool" where
  "causal Q D [] = True"
| "causal Q D (x # xs) \<longleftrightarrow> Q x D \<and> causal Q (insert x D) xs"

lemma causal_append: "causal Q D (xs @ ys) \<longleftrightarrow> causal Q D xs \<and> causal Q (D \<union> set xs) ys"
  by (induction xs arbitrary: D) (auto simp: Un_commute)

lemma causal_before: "causal Q D (pre @ e # post) \<Longrightarrow> Q e (D \<union> set pre)"
  by (simp add: causal_append)

lemma causal_mono:
  assumes "causal Q D xs" and "\<And>e E. e \<in> set xs \<Longrightarrow> D \<subseteq> E \<Longrightarrow> Q e E \<Longrightarrow> Q' e E"
  shows "causal Q' D xs"
  using assms
proof (induction xs arbitrary: D)
  case (Cons x xs)
  have "causal Q' (insert x D) xs" by (rule Cons.IH) (use Cons.prems in auto)
  then show ?case using Cons.prems by simp
qed simp

lemma causal_grow:
  assumes "causal Q A xs" and "A \<subseteq> B" and "\<And>x A B. A \<subseteq> B \<Longrightarrow> Q x A \<Longrightarrow> Q x B"
  shows "causal Q B xs"
  using assms(1,2)
proof (induction xs arbitrary: A B)
  case (Cons x xs)
  have "insert x A \<subseteq> insert x B" using Cons.prems(2) by blast
  then show ?case using Cons.IH [of "insert x A" "insert x B"] Cons.prems assms(3) [of A B x] by simp
qed simp

lemma interleaving_set: "interleaving xss ys \<Longrightarrow> set ys = \<Union> (set ` set xss)"
proof (induction rule: interleaving.induct)
  case (interleaving_step i xss x xs ys)
  have "set xss = insert (x # xs) (set (take i xss) \<union> set (drop (Suc i) xss))"
    using interleaving_step.hyps(1,2) by (metis Un_insert_right id_take_nth_drop list.simps(15) set_append)
  moreover have "set (xss[i := xs]) = insert xs (set (take i xss) \<union> set (drop (Suc i) xss))"
    using interleaving_step.hyps(1) by (simp add: upd_conv_take_nth_drop)
  ultimately show ?case using interleaving_step.IH by auto
qed auto

lemma interleaving_causal:
  assumes "interleaving xss ys" and "length Ds = length xss"
    and "\<And>i. i < length xss \<Longrightarrow> Ds ! i \<subseteq> D \<and> causal Q (Ds ! i) (xss ! i)"
    and mono: "\<And>e A B. A \<subseteq> B \<Longrightarrow> Q e A \<Longrightarrow> Q e B"
  shows "causal Q D ys"
  using assms(1-3)
proof (induction arbitrary: D Ds rule: interleaving.induct)
  case (interleaving_step i xss x xs ys)
  let ?Ds = "Ds[i := insert x (Ds ! i)]"
  have i: "Ds ! i \<subseteq> D" "causal Q (Ds ! i) (x # xs)"
    using interleaving_step.prems(2) [OF interleaving_step.hyps(1)] interleaving_step.hyps(2) by auto
  have "causal Q (insert x D) ys"
  proof (rule interleaving_step.IH)
    show "length ?Ds = length (xss[i := xs])" using interleaving_step.prems(1) by simp
    fix j assume j: "j < length (xss[i := xs])"
    show "?Ds ! j \<subseteq> insert x D \<and> causal Q (?Ds ! j) (xss[i := xs] ! j)"
    proof (cases "j = i")
      case True
      then show ?thesis using i j interleaving_step.prems(1) by auto
    next
      case False
      then show ?thesis using interleaving_step.prems(2) [of j] j by auto
    qed
  qed
  then show ?case using mono [OF i(1)] i(2) by simp
qed simp

lemma interleaving_causal_nil:
  assumes "interleaving xss ys" and "\<And>xs. xs \<in> set xss \<Longrightarrow> causal Q {} xs"
    and "\<And>e A B. A \<subseteq> B \<Longrightarrow> Q e A \<Longrightarrow> Q e B"
  shows "causal Q {} ys"
  by (rule interleaving_causal [of xss ys "replicate (length xss) {}"]) (use assms in \<open>auto simp: set_conv_nth\<close>)

section \<open>Groups\<close>

lemma itoa_int_inj: "itoa_int i = itoa_int j \<Longrightarrow> i = j"
proof -
  assume eq: "itoa_int i = itoa_int j"
  have neg: "itoa_int k = CHR ''-'' # s \<Longrightarrow> k < 0" for k s
    using itoa_hd_digit [of "nat k"] by (auto simp: itoa_int_def is_digit_def split: if_splits)
  have "i < 0 \<longleftrightarrow> j < 0" using eq neg by (metis itoa_int_def)
  then show ?thesis
    using eq itoa_inj [of "nat i" "nat j"] itoa_inj [of "nat (- i)" "nat (- j)"] by (auto simp: itoa_int_def split: if_splits)
qed

lemma itoa_int_no_nul: "CHR 0x00 \<notin> set (itoa_int i)"
  using itoa_digits [of "nat i"] itoa_digits [of "nat (- i)"] by (auto simp: itoa_int_def is_digit_def)

lemma split_first:
  "x \<notin> set xs \<Longrightarrow> x \<notin> set xs' \<Longrightarrow> xs @ x # ys = xs' @ x # ys' \<Longrightarrow> xs = xs' \<and> ys = ys'"
proof (induction xs arbitrary: xs')
  case Nil
  then show ?case by (cases xs') auto
next
  case (Cons a xs)
  then show ?case by (cases xs') auto
qed

lemma group_key_eq: "group_key q = group_key r \<longleftrightarrow> r_topic q = r_topic r \<and> r_partition q = r_partition r"
proof
  assume "group_key q = group_key r"
  then have eq: "r_topic q @ CHR 0x00 # itoa_int (r_partition q) = r_topic r @ CHR 0x00 # itoa_int (r_partition r)"
    by (simp add: group_key_def)
  have "rev (itoa_int (r_partition q)) @ CHR 0x00 # rev (r_topic q) = rev (itoa_int (r_partition r)) @ CHR 0x00 # rev (r_topic r)"
    using arg_cong [OF eq, of rev] by simp
  moreover have "CHR 0x00 \<notin> set (rev (itoa_int (r_partition q)))" "CHR 0x00 \<notin> set (rev (itoa_int (r_partition r)))"
    using itoa_int_no_nul by auto
  ultimately have "rev (itoa_int (r_partition q)) = rev (itoa_int (r_partition r)) \<and> rev (r_topic q) = rev (r_topic r)"
    by (intro split_first) auto
  then show "r_topic q = r_topic r \<and> r_partition q = r_partition r" using itoa_int_inj by auto
qed (simp add: group_key_def)

text \<open>Each group is the records of one partition, in the order of the poll.\<close>

definition grouped :: "krecord list \<Rightarrow> (krecord list) gomap \<Rightarrow> bool" where
  "grouped rs gs \<longleftrightarrow> gomap_ok gs \<and> (\<forall>k grp. go_get gs k = Some grp \<longrightarrow> grp = filter (\<lambda>r. group_key r = k) rs \<and> grp \<noteq> [])
     \<and> (\<forall>r \<in> set rs. go_get gs (group_key r) \<noteq> None)"

lemma add_to_group_get:
  "go_get (add_to_group r gs) k =
     (if k = group_key r then Some ((case go_get gs k of None \<Rightarrow> [] | Some g \<Rightarrow> g) @ [r]) else go_get gs k)"
  by (auto simp: add_to_group_def go_map map_add_def split: option.splits)

lemma add_to_group_ok: "gomap_ok gs \<Longrightarrow> gomap_ok (add_to_group r gs)"
  by (auto simp: add_to_group_def gomap_ok_def map_of_eq_None_iff distinct_update split: option.splits)

lemma grouped_add:
  assumes "grouped rs gs"
  shows "grouped (rs @ [r]) (add_to_group r gs)"
proof -
  have none: "go_get gs (group_key r) = None \<Longrightarrow> filter (\<lambda>q. group_key q = group_key r) rs = []"
    using assms by (auto simp: grouped_def filter_empty_conv)
  show ?thesis unfolding grouped_def
  proof (intro conjI allI impI ballI)
    show "gomap_ok (add_to_group r gs)" using assms by (simp add: grouped_def add_to_group_ok)
    show "go_get (add_to_group r gs) (group_key q) \<noteq> None" if "q \<in> set (rs @ [r])" for q
      using that assms by (auto simp: grouped_def add_to_group_get)
    fix k grp assume "go_get (add_to_group r gs) k = Some grp"
    then show "grp = filter (\<lambda>q. group_key q = k) (rs @ [r])" "grp \<noteq> []"
      using assms none by (auto simp: grouped_def add_to_group_get split: if_splits option.splits)
  qed
qed

lemma grouped_fold: "grouped rs (fold add_to_group rs [])"
proof (induction rs rule: rev_induct)
  case Nil
  then show ?case by (simp add: grouped_def)
qed (simp add: grouped_add)

lemma groupKafkaJSRecords_spec:
  assumes "g \<in> set (groupKafkaJSRecords rs)"
  obtains r where "r \<in> set rs" "g = filter (\<lambda>q. r_topic q = r_topic r \<and> r_partition q = r_partition r) rs"
proof -
  let ?gs = "fold add_to_group rs []"
  obtain k where "(k, g) \<in> set ?gs" using assms by (auto simp: groupKafkaJSRecords_def)
  then have "go_get ?gs k = Some g" using grouped_fold [of rs] by (simp add: grouped_def go_get_mem)
  then have g: "g = filter (\<lambda>r. group_key r = k) rs" "g \<noteq> []" using grouped_fold [of rs] by (auto simp: grouped_def)
  then obtain r where "r \<in> set rs" "group_key r = k" by (auto simp: filter_empty_conv)
  moreover from this(2) have "g = filter (\<lambda>q. r_topic q = r_topic r \<and> r_partition q = r_partition r) rs"
    unfolding g(1) by (simp add: group_key_eq [symmetric])
  ultimately show ?thesis using that by blast
qed

lemma groupKafkaJSRecords_covers:
  assumes "r \<in> set rs"
  shows "\<exists>g \<in> set (groupKafkaJSRecords rs). r \<in> set g"
proof -
  let ?gs = "fold add_to_group rs []"
  obtain g where g: "go_get ?gs (group_key r) = Some g" using grouped_fold [of rs] assms by (auto simp: grouped_def)
  then have "g = filter (\<lambda>q. group_key q = group_key r) rs" using grouped_fold [of rs] by (auto simp: grouped_def)
  moreover have "g \<in> set (groupKafkaJSRecords rs)" using g map_of_SomeD by (force simp: groupKafkaJSRecords_def)
  ultimately show ?thesis using assms by (intro bexI [of _ g]) auto
qed

section \<open>One record\<close>

abbreviation pos :: "krecord \<Rightarrow> position" where
  "pos \<equiv> kafkaJSRecordPosition"

abbreviation rewound :: "kerror \<Rightarrow> bool" where
  "rewound e \<equiv> errors_Is e errKafkaJSUnresolvedRecordRewound"

text \<open>
  Errors of the client, the broker and user code carry no rewind plan and are not the marker of a rewound
  record: the types of plans and the marker are not exported.
\<close>

definition foreign :: "kerror \<Rightarrow> bool" where
  "foreign e \<longleftrightarrow> \<not> planned e \<and> \<not> isConsumerHandlerError e \<and> \<not> rewound e"

definition honest :: "worker_env \<Rightarrow> bool" where
  "honest env \<longleftrightarrow> (\<forall>r es e. we_commit env r es = Some e \<longrightarrow> foreign e)
     \<and> (\<forall>r x es e resp. we_exact env r x es = (Some e, resp) \<longrightarrow> foreign e)
     \<and> (\<forall>m h es e b. we_final env m h es = FReturns (Some e) b \<longrightarrow> foreign e)
     \<and> (\<forall>m es e. we_handler env m es = Returns (Some e) \<longrightarrow> foreign e)
     \<and> (\<forall>m es e. we_batch env m es = Returns (Some e) \<longrightarrow> foreign e)"

lemma honestD:
  assumes "honest env"
  shows "we_commit env r es = Some e \<Longrightarrow> foreign e"
    and "we_exact env r x es = (Some e, resp) \<Longrightarrow> foreign e"
    and "we_final env m h es = FReturns (Some e) b \<Longrightarrow> foreign e"
    and "we_handler env m es = Returns (Some e) \<Longrightarrow> foreign e"
    and "we_batch env p es = Returns (Some e) \<Longrightarrow> foreign e"
  using assms unfolding honest_def by blast+

definition run_ok :: "kafka_run \<Rightarrow> bool" where
  "run_ok R \<longleftrightarrow> (ko_OffsetFinalizer (kr_opts R) \<longrightarrow> \<not> kr_auto R \<and> \<not> ko_CommitBeforeHandler (kr_opts R))
     \<and> (\<forall>code. kr_errorForCode R code \<noteq> errKafkaJSUnresolvedRecordRewound)"

lemma validated_run_ok:
  "validateConfluentConsumerOptions configAuto opts t = Inr (auto, d, n) \<Longrightarrow>
   (ko_OffsetFinalizer opts \<longrightarrow> \<not> auto \<and> \<not> ko_CommitBeforeHandler opts) \<and> 1 \<le> n"
  by (auto simp: validateConfluentConsumerOptions_def Let_def split: if_splits)

lemma foreign_simps [simp]:
  "foreign (Wrapf m e) = foreign e" "foreign (TransientConsumerError e) = foreign e"
  by (simp_all add: foreign_def errors_Is_def)

lemma classified_foreign:
  "classified R m err = Some e' \<Longrightarrow> (\<And>e. err = Some e \<Longrightarrow> foreign e) \<Longrightarrow> foreign e'"
  by (auto simp: classified_def classifyKafkaJSTransientConsumerError_def NewTransientConsumerError_def)

lemma classified_None [simp]: "classified R m err = None \<longleftrightarrow> err = None"
  by (simp add: classified_def)

lemma response_foreign:
  "run_ok R \<Longrightarrow> kafkaJSOffsetCommitResponseError (kr_errorForCode R) resp = Some e \<Longrightarrow> foreign e"
  by (auto simp: kafkaJSOffsetCommitResponseError_def foreign_def errors_Is_def run_ok_def
      errKafkaJSUnresolvedRecordRewound_def split: option.splits)

lemma wlog_simps [simp]:
  "w_events (wlog e w) = w_events w @ [e]" "w_pos (wlog e w) = w_pos w" "w_next (wlog e w) = w_next w"
  by (simp_all add: wlog_def)

lemma mark_simps [simp]:
  "w_events (markConsumerWorkerCommitted w) = w_events w" "w_pos (markConsumerWorkerCommitted w) = w_next w"
  "w_next (markConsumerWorkerCommitted w) = w_next w"
  by (simp_all add: markConsumerWorkerCommitted_def)

lemma set_simps [simp]:
  "w_events (setConsumerWorkerPosition p n w) = w_events w" "w_pos (setConsumerWorkerPosition p n w) = Some p"
  "w_next (setConsumerWorkerPosition p n w) = n"
  by (simp_all add: setConsumerWorkerPosition_def)

text \<open>Events that move the committed or marked offset past a record.\<close>

fun settles :: "kevent \<Rightarrow> krecord option" where
  "settles (Commit r None) = Some r"
| "settles (Mark r) = Some r"
| "settles (CommitExact r x b None) = Some r"
| "settles _ = None"

text \<open>What an operation on a worker does: it keeps the progress, logs events, and gives a result.\<close>

definition logs :: "worker \<Rightarrow> worker \<Rightarrow> kevents \<Rightarrow> bool" where
  "logs w w' new \<longleftrightarrow> w_events w' = w_events w @ new \<and> w_pos w' = w_pos w \<and> w_next w' = w_next w"

lemma logs_refl: "logs w w []"
  by (simp add: logs_def)

lemma logs_wlog: "logs w (wlog e w) [e]"
  by (simp add: logs_def)

lemma logs_trans: "logs w u a \<Longrightarrow> logs u v b \<Longrightarrow> logs w v (a @ b)"
  by (simp add: logs_def)

lemma exact_logs:
  assumes "commitKafkaJSExact R env r x b w = (e, w')" and "honest env" and "run_ok R"
  shows "\<exists>c. logs w w' [CommitExact r x b c] \<and> (e = None \<longleftrightarrow> c = None) \<and> (\<forall>e'. e = Some e' \<longrightarrow> foreign e')"
proof -
  obtain err resp where a: "we_exact env r x (w_events w) = (err, resp)" by force
  let ?c = "case err of Some e \<Rightarrow> Some e | None \<Rightarrow> kafkaJSOffsetCommitResponseError (kr_errorForCode R) resp"
  have f: "?c = Some e' \<Longrightarrow> foreign e'" for e'
    using a assms(3) response_foreign honestD(2) [OF assms(2)] by (auto split: option.splits)
  have "e = classified R ''kafka/kafkajs: exact offset commit failed: %w'' ?c" "w' = wlog (CommitExact r x b ?c) w"
    using assms(1) a by (auto simp: commitKafkaJSExact_def Let_def)
  then show ?thesis using f classified_foreign [of R _ ?c] logs_wlog by (intro exI [of _ ?c]) auto
qed

lemma resolve_logs:
  assumes "resolveKafkaJSRecord R env r b w = (e, w')" and "honest env" and "run_ok R"
  shows "\<exists>x. logs w w' [x] \<and> settles x = (if e = None then Some r else None) \<and> (\<forall>e'. e = Some e' \<longrightarrow> foreign e')"
proof -
  consider (mark) "kr_auto R \<and> kr_AutoCommit R" | (exact) "\<not> (kr_auto R \<and> kr_AutoCommit R)" b
    | (commit) "\<not> (kr_auto R \<and> kr_AutoCommit R)" "\<not> b" by blast
  then show ?thesis
  proof cases
    case mark
    then show ?thesis using assms(1) logs_wlog [of w "Mark r"] by (auto simp: resolveKafkaJSRecord_def)
  next
    case exact
    then have "commitKafkaJSExact R env r (next_offset (r_offset r)) True w = (e, w')"
      using assms(1) by (auto simp: resolveKafkaJSRecord_def)
    from exact_logs [OF this assms(2,3)] obtain c where
      "logs w w' [CommitExact r (next_offset (r_offset r)) True c]" "e = None \<longleftrightarrow> c = None" "\<forall>e'. e = Some e' \<longrightarrow> foreign e'" by blast
    then show ?thesis
      by (intro exI [of _ "CommitExact r (next_offset (r_offset r)) True c"]) (cases c; auto)
  next
    case commit
    let ?a = "we_commit env r (w_events w)"
    have e: "e = classified R ''kafka/kafkajs: post-handler commit failed: %w'' ?a" "w' = wlog (Commit r ?a) w"
      using assms(1) commit by (auto simp: resolveKafkaJSRecord_def CommitRecords_def Let_def)
    moreover have "?a = Some e' \<Longrightarrow> foreign e'" for e' by (rule honestD(1) [OF assms(2)])
    ultimately show ?thesis using classified_foreign [of R _ ?a] logs_wlog [of w "Commit r ?a"]
      by (intro exI [of _ "Commit r ?a"]) (cases ?a; auto)
  qed
qed

lemma calls_logs: "\<exists>new. logs w (finalizer_calls R env r called xs w) new \<and> (\<forall>e \<in> set new. \<exists>x b c. e = CommitExact r x b c \<or> e = CommitRefused r x)"
proof (induction xs arbitrary: called w)
  case Nil
  then show ?case using logs_refl [of w] by (intro exI [of _ "[]"]) simp
next
  case (Cons x xs)
  let ?u = "if called then wlog (CommitRefused r x) w
    else snd (commitKafkaJSExact R env r x (ko_NullOffsetCommitMetadata (kr_opts R)) w)"
  have "\<exists>e. logs w ?u [e] \<and> (\<exists>b c. e = CommitExact r x b c \<or> e = CommitRefused r x)"
    by (auto simp: commitKafkaJSExact_def Let_def logs_wlog split: prod.splits intro!: exI logs_wlog)
  then obtain e where e: "logs w ?u [e]" "\<exists>b c. e = CommitExact r x b c \<or> e = CommitRefused r x" by blast
  obtain new where "logs ?u (finalizer_calls R env r True xs ?u) new"
    "\<forall>e \<in> set new. \<exists>x b c. e = CommitExact r x b c \<or> e = CommitRefused r x" using Cons.IH by blast
  then show ?case using logs_trans [OF e(1)] e(2) by (intro exI [of _ "e # new"]) (auto split: if_splits)
qed

text \<open>How one record ends, apart from success.\<close>

definition record_failure :: "kafka_run \<Rightarrow> krecord \<Rightarrow> kevents \<Rightarrow> kerror \<Rightarrow> bool" where
  "record_failure R r new e \<longleftrightarrow>
     rewound e \<and> SetOffsets [pos r] \<in> set new \<and> \<not> commit_first R
   \<or> \<not> rewound e \<and> foreign e
   \<or> \<not> rewound e \<and> \<not> commit_first R \<and> (\<exists>m c. e = consumerHandlerError m c (Some (pos r)))
   \<or> \<not> rewound e \<and> commit_first R \<and> Complete (pos r) \<in> set new \<and> (\<exists>m c. e = consumerHandlerError m c None)"

lemma handler_error_rewound [simp]: "rewound (consumerHandlerError m e p) = rewound e"
  by (simp add: errors_Is_def)

lemma handle_plain_logs:
  assumes "handle_plain R env r w = (x, w')" and "honest env" and "run_ok R"
  shows "\<exists>new. logs w w' new
    \<and> (\<forall>e. x = Done (Some e) \<longrightarrow> \<not> rewound e \<and> (foreign e
         \<or> (\<exists>m c. e = consumerHandlerError m c (if commit_first R then None else Some (pos r)))))"
proof -
  let ?a = "we_handler env (kafkaJSPayload r) (w_events w)"
  let ?u = "wlog (Handle r ?a) w"
  show ?thesis
  proof (cases "?a = Returns None \<and> \<not> commit_first R")
    case True
    then obtain e where e: "resolveKafkaJSRecord R env r False ?u = (e, w')" "x = Done e"
      using assms(1) by (auto simp: handle_plain_def Let_def split: prod.splits)
    from resolve_logs [OF e(1) assms(2,3)] obtain y where "logs ?u w' [y]" "\<forall>e'. e = Some e' \<longrightarrow> foreign e'" by blast
    then show ?thesis using logs_trans [OF logs_wlog [of w "Handle r ?a"]] e(2)
      by (intro exI [of _ "[Handle r ?a, y]"]) (auto simp: foreign_def)
  next
    case False
    then have "w' = ?u" "x = (case ?a of Goexit \<Rightarrow> Exited | Returns None \<Rightarrow> Done None | Returns (Some e) \<Rightarrow>
        Done (Some (consumerHandlerError ''kafka/kafkajs: message handler failed'' e (if commit_first R then None else Some (pos r)))))"
      using assms(1) by (auto simp: handle_plain_def Let_def newConsumerHandlerError_def newConsumerHandlerErrorAt_def
          split: answer.splits option.splits if_splits)
    moreover have "?a = Returns (Some e) \<Longrightarrow> \<not> rewound e" for e using honestD(4) [OF assms(2)] by (auto simp: foreign_def)
    ultimately show ?thesis using logs_wlog [of w "Handle r ?a"]
      by (intro exI [of _ "[Handle r ?a]"]) (auto split: answer.splits option.splits)
  qed
qed

text \<open>What the finalizer's return leads to, once it has returned.\<close>

lemma handle_finalized_logs:
  assumes "handle_finalized R env r w = (x, w')" and "honest env" and "run_ok R"
  shows "\<exists>new. logs w w' new
    \<and> (\<forall>e. x = Done (Some e) \<longrightarrow> rewound e \<and> SetOffsets [pos r] \<in> set new \<or> \<not> rewound e \<and> (foreign e
         \<or> (\<exists>m c. e = consumerHandlerError m c (Some (pos r)))))"
proof -
  let ?a = "we_handler env (kafkaJSPayload r) (w_events w)"
  let ?u = "wlog (Handle r ?a) w"
  show ?thesis
  proof (cases ?a)
    case Goexit
    then show ?thesis using assms(1) logs_wlog [of w "Handle r ?a"]
      by (intro exI [of _ "[Handle r ?a]"]) (auto simp: handle_finalized_def Let_def)
  next
    case (Returns h)
    define v where "v = finalizer_calls R env r False (we_calls env (kafkaJSPayload r) h (w_events ?u)) ?u"
    define f where "f = we_final env (kafkaJSPayload r) h (w_events v)"
    define z where "z = wlog (Finalize r h f) v"
    obtain new where "logs ?u v new" using calls_logs v_def by blast
    then have z: "logs w z ([Handle r ?a] @ new @ [Finalize r h f])"
      using logs_trans [OF logs_wlog [of w "Handle r ?a"] logs_trans [OF _ logs_wlog]] z_def by blast
    have eq: "handle_finalized R env r w =
        (case f of
           FGoexit \<Rightarrow> (Exited, z)
         | FReturns (Some e) wraps \<Rightarrow>
             if h \<noteq> None \<and> wraps
             then (Done (Some (newConsumerHandlerErrorAt ''kafka/kafkajs: message handler failed'' e (pos r))), z)
             else (Done (Some e), z)
         | FReturns None _ \<Rightarrow>
             if h = None \<and> ko_ResolveAfterSuccessfulFinalizer (kr_opts R)
             then (case resolveKafkaJSRecord R env r (ko_NullOffsetCommitMetadata (kr_opts R)) z of (e, w4) \<Rightarrow> (Done e, w4))
             else if h \<noteq> None \<and> ko_RedeliverUnresolvedFinalizer (kr_opts R)
             then (Done (Some (Sentinel errKafkaJSUnresolvedRecordRewound)), wlog (SetOffsets [pos r]) (wlog (Remember [pos r]) z))
             else (Done None, z))"
      unfolding handle_finalized_def Let_def v_def f_def z_def Returns by (simp only: answer.case)
    consider (resolve) b where "f = FReturns None b" "h = None \<and> ko_ResolveAfterSuccessfulFinalizer (kr_opts R)"
      | (redeliver) b where "f = FReturns None b" "h \<noteq> None \<and> ko_RedeliverUnresolvedFinalizer (kr_opts R)"
      | (failed) e b where "f = FReturns (Some e) b"
      | (other) "w' = z" "\<forall>e. x \<noteq> Done (Some e)"
      using eq assms(1) by (cases f; cases h) (auto split: option.splits if_splits)
    then show ?thesis
    proof cases
      case resolve
      then obtain e where e: "resolveKafkaJSRecord R env r (ko_NullOffsetCommitMetadata (kr_opts R)) z = (e, w')" "x = Done e"
        using eq assms(1) by (auto split: prod.splits)
      from resolve_logs [OF e(1) assms(2,3)] obtain y where y: "logs z w' [y]" "\<forall>e'. e = Some e' \<longrightarrow> foreign e'" by blast
      show ?thesis using logs_trans [OF z y(1)] y(2) e(2) by (auto simp: foreign_def intro!: exI)
    next
      case redeliver
      then have "w' = wlog (SetOffsets [pos r]) (wlog (Remember [pos r]) z)" "x = Done (Some (Sentinel errKafkaJSUnresolvedRecordRewound))"
        using eq assms(1) by auto
      moreover have "logs z (wlog (SetOffsets [pos r]) (wlog (Remember [pos r]) z)) [Remember [pos r], SetOffsets [pos r]]"
        by (simp add: logs_def)
      ultimately show ?thesis using logs_trans [OF z] by (intro exI, auto simp: errors_Is_def)
    next
      case failed
      then have "foreign e" using f_def honestD(3) [OF assms(2)] by metis
      then show ?thesis using failed eq assms(1) z
        by (intro exI [of _ "[Handle r ?a] @ new @ [Finalize r h f]"])
          (auto simp: foreign_def newConsumerHandlerErrorAt_def split: if_splits)
    next
      case other
      then show ?thesis using z by auto
    qed
  qed
qed

lemma processRecord_logs:
  assumes "processRecord R env r w = (x, w')" and "honest env" and "run_ok R"
  shows "\<exists>new. w_events w' = w_events w @ new
    \<and> (\<forall>e. x = Done (Some e) \<longrightarrow> record_failure R r new e)
    \<and> (x = Exited \<longrightarrow> (if commit_first R then w_pos w' = w_next w \<and> Complete (pos r) \<in> set new else w_pos w' = w_pos w))"
proof -
  consider (control) "r_control r" | (first) "\<not> r_control r" "commit_first R" | (plain) "\<not> r_control r" "\<not> commit_first R"
    by blast
  then show ?thesis
  proof cases
    case control
    then obtain e where e: "resolveKafkaJSRecord R env r (ko_NullOffsetCommitMetadata (kr_opts R)) w = (e, w')" "x = Done e"
      using assms(1) by (auto simp: processRecord_def split: prod.splits)
    from resolve_logs [OF e(1) assms(2,3)] obtain y where y: "logs w w' [y]" "\<forall>e'. e = Some e' \<longrightarrow> foreign e'" by blast
    then show ?thesis using e(2) by (intro exI [of _ "[y]"]) (auto simp: logs_def record_failure_def foreign_def)
  next
    case first
    then have nofin: "\<not> ko_OffsetFinalizer (kr_opts R)" using assms(3) by (auto simp: run_ok_def commit_first_def)
    let ?a = "we_commit env r (w_events w)"
    let ?v = "wlog (Commit r ?a) w"
    let ?u = "markConsumerWorkerCommitted (wlog (Complete (pos r)) ?v)"
    show ?thesis
    proof (cases ?a)
      case (Some e)
      then have "x = Done (classified R ''kafka/kafkajs: pre-handler commit failed: %w'' (Some e)) \<and> w' = ?v"
        using assms(1) first by (simp add: processRecord_def CommitRecords_def Let_def)
      moreover have "foreign e" using Some honestD(1) [OF assms(2)] by blast
      ultimately show ?thesis using classified_foreign [of R _ "Some e"]
        by (intro exI [of _ "[Commit r ?a]"]) (auto simp: record_failure_def foreign_def)
    next
      case None
      then have "handle_plain R env r ?u = (x, w')"
        using assms(1) first nofin by (simp add: processRecord_def CommitRecords_def Let_def handle_record_def)
      from handle_plain_logs [OF this assms(2,3)] obtain new where new: "logs ?u w' new"
        "\<forall>e. x = Done (Some e) \<longrightarrow> \<not> rewound e \<and> (foreign e \<or> (\<exists>m c. e = consumerHandlerError m c None))"
        using first by auto
      then show ?thesis using first
        by (intro exI [of _ "Commit r ?a # Complete (pos r) # new"]) (auto simp: logs_def record_failure_def)
    qed
  next
    case plain
    then have h: "handle_record R env r w = (x, w')" using assms(1) by (simp add: processRecord_def)
    show ?thesis
    proof (cases "ko_OffsetFinalizer (kr_opts R)")
      case True
      from handle_finalized_logs [OF _ assms(2,3)] h True obtain new where "logs w w' new"
        "\<forall>e. x = Done (Some e) \<longrightarrow> rewound e \<and> SetOffsets [pos r] \<in> set new \<or> \<not> rewound e \<and> (foreign e
         \<or> (\<exists>m c. e = consumerHandlerError m c (Some (pos r))))" unfolding handle_record_def by metis
      then show ?thesis using plain by (intro exI [of _ new]) (auto simp: logs_def record_failure_def)
    next
      case False
      from handle_plain_logs [OF _ assms(2,3)] h False obtain new where "logs w w' new"
        "\<forall>e. x = Done (Some e) \<longrightarrow> \<not> rewound e \<and> (foreign e
         \<or> (\<exists>m c. e = consumerHandlerError m c (if commit_first R then None else Some (pos r))))" unfolding handle_record_def by metis
      then show ?thesis using plain by (intro exI [of _ new]) (auto simp: logs_def record_failure_def)
    qed
  qed
qed

section \<open>One partition\<close>

lemma failed_message_plan:
  assumes "record_failure R r new e"
  shows "rewound (failed_message R r rs e) = rewound e"
    and "rewound e \<Longrightarrow> SetOffsets [pos r] \<in> set new"
    and "\<not> rewound e \<Longrightarrow> planned (failed_message R r rs e)
      \<and> (requests (failed_message R r rs e) = [pos r]
         \<or> Complete (pos r) \<in> set new \<and> requests (failed_message R r rs e) = map pos (take 1 rs))"
proof -
  show "rewound (failed_message R r rs e) = rewound e"
    by (auto simp: failed_message_def withConsumerRewindPosition_def errors_Is_def split: list.splits)
  show "rewound e \<Longrightarrow> SetOffsets [pos r] \<in> set new"
    using assms by (auto simp: record_failure_def foreign_def)
  show "\<not> rewound e \<Longrightarrow> planned (failed_message R r rs e)
      \<and> (requests (failed_message R r rs e) = [pos r]
         \<or> Complete (pos r) \<in> set new \<and> requests (failed_message R r rs e) = map pos (take 1 rs))"
    using assms
    by (auto simp: record_failure_def foreign_def failed_message_def withConsumerRewindPosition_def consumerRewindPositions_eq
        split: list.splits)
qed

text \<open>A failure asks for a position at or before a record.\<close>

definition covers :: "kerror \<Rightarrow> krecord \<Rightarrow> bool" where
  "covers e r \<longleftrightarrow> (\<exists>p \<in> set (requests e). partition_of p = partition_of (pos r) \<and> p_offset p \<le> r_offset r)"

text \<open>What a worker leaves for every record of its group.\<close>

definition accounted :: "kerror option \<Rightarrow> kevents \<Rightarrow> krecord \<Rightarrow> bool" where
  "accounted err new r \<longleftrightarrow>
     (\<exists>p. Complete p \<in> set new \<and> partition_of p = partition_of (pos r) \<and> r_offset r \<le> p_offset p)
   \<or> (\<exists>e. err = Some e \<and> \<not> rewound e \<and> covers e r)
   \<or> (\<exists>q. SetOffsets [pos q] \<in> set new \<and> partition_of (pos q) = partition_of (pos r) \<and> r_offset q \<le> r_offset r)"

definition one_partition :: "krecord list \<Rightarrow> bool" where
  "one_partition rs \<longleftrightarrow> (\<exists>k. \<forall>q \<in> set rs. partition_of (pos q) = k)
     \<and> sorted_wrt (\<lambda>q r. r_offset q \<le> r_offset r) rs"

lemma one_partition_Cons:
  assumes "one_partition (r # rs)"
  shows "one_partition rs \<and> (\<forall>q \<in> set rs. partition_of (pos q) = partition_of (pos r) \<and> r_offset r \<le> r_offset q)"
  using assms unfolding one_partition_def by auto

lemma pos_offset [simp]: "p_offset (pos r) = r_offset r"
  by (simp add: kafkaJSRecordPosition_def)

lemma aborted_not_rewound [simp]: "\<not> rewound (consumerWorkerAbortedError p)"
  by (simp add: errors_Is_def errKafkaJSUnresolvedRecordRewound_def errConsumerWorkerAborted_def)

lemma accounted_completed: "Complete (pos r) \<in> set new \<Longrightarrow> accounted err new r"
  unfolding accounted_def by (rule disjI1, rule exI [of _ "pos r"]) simp

lemma accounted_mono:
  "accounted err new r \<Longrightarrow> set new \<subseteq> set new' \<Longrightarrow> accounted err new' r"
  unfolding accounted_def by blast

lemma messages_accounted:
  assumes "process_messages R env rs w = (x, w')" and "honest env" and "run_ok R" and "one_partition rs"
  shows "\<exists>new. w_events w' = w_events w @ new \<and> (\<forall>r \<in> set rs. accounted (worker_error (x, w')) new r)
    \<and> (\<forall>e. worker_error (x, w') = Some e \<longrightarrow> \<not> rewound e \<longrightarrow> planned e)"
  using assms(1,4)
proof (induction rs arbitrary: w)
  case Nil
  then show ?case by (auto simp: worker_error_def)
next
  case (Cons r rs)
  note part = one_partition_Cons [OF Cons.prems(2)]
  let ?nxt = "case rs of [] \<Rightarrow> None | q # _ \<Rightarrow> Some (pos q)"
  let ?w0 = "setConsumerWorkerPosition (pos r) ?nxt w"
  obtain y v where y: "processRecord R env r ?w0 = (y, v)" by force
  from processRecord_logs [OF y assms(2,3)] obtain new where new: "w_events v = w_events w @ new"
    "\<forall>e. y = Done (Some e) \<longrightarrow> record_failure R r new e"
    "y = Exited \<longrightarrow> (if commit_first R then w_pos v = ?nxt \<and> Complete (pos r) \<in> set new else w_pos v = Some (pos r))"
    by auto
  have rest: "accounted (Some e) new q" if mem: "q \<in> set (r # rs)" and live: "\<not> rewound e"
    and plan: "requests e = [pos r] \<or> Complete (pos r) \<in> set new \<and> requests e = map pos (take 1 rs)" for e q
  proof (cases "requests e = [pos r]")
    case True
    then show ?thesis using mem live part by (auto simp: accounted_def covers_def)
  next
    case False
    then have fin: "Complete (pos r) \<in> set new" "requests e = map pos (take 1 rs)" using plan by auto
    show ?thesis
    proof (cases "q = r")
      case False
      then obtain s ss where rs: "rs = s # ss" using mem by (cases rs) auto
      then have "partition_of (pos s) = partition_of (pos q) \<and> r_offset s \<le> r_offset q"
        using mem False part one_partition_Cons [of s ss] by auto
      then show ?thesis using fin rs live by (auto simp: accounted_def covers_def)
    qed (use fin in \<open>simp add: accounted_completed\<close>)
  qed
  show ?case
  proof (cases y)
    case Exited
    then have x: "x = Exited" "w' = v" using Cons.prems(1) y by auto
    have "requests (consumerWorkerAbortedError (w_pos v)) = [pos r]
        \<or> Complete (pos r) \<in> set new \<and> requests (consumerWorkerAbortedError (w_pos v)) = map pos (take 1 rs)"
      using new(3) Exited by (cases rs) (auto split: if_splits)
    then show ?thesis using new(1) x rest by (auto simp: worker_error_def)
  next
    case (Done e')
    show ?thesis
    proof (cases e')
      case (Some e)
      then have x: "x = Done (Some (failed_message R r rs e))" "w' = v" using Cons.prems(1) y Done by auto
      have fail: "record_failure R r new e" using new(2) Done Some by blast
      show ?thesis
      proof (cases "rewound e")
        case True
        then have "SetOffsets [pos r] \<in> set new" using failed_message_plan(2) [OF fail] by blast
        then have "accounted err new q" if "q \<in> set (r # rs)" for q err using that part by (auto simp: accounted_def)
        then show ?thesis using new(1) x failed_message_plan(1) [OF fail, of rs] True by (auto simp: worker_error_def)
      next
        case False
        then show ?thesis using new(1) x failed_message_plan(1,3) [OF fail, of rs] False rest by (auto simp: worker_error_def)
      qed
    next
      case None
      let ?v = "wlog (Complete (pos r)) v"
      have "process_messages R env rs ?v = (x, w')" using Cons.prems(1) y Done None by simp
      from Cons.IH [OF this] part obtain more where more: "w_events w' = w_events ?v @ more"
        "\<forall>q \<in> set rs. accounted (worker_error (x, w')) more q"
        "\<forall>e. worker_error (x, w') = Some e \<longrightarrow> \<not> rewound e \<longrightarrow> planned e" by blast
      have "accounted (worker_error (x, w')) (new @ Complete (pos r) # more) q" if "q \<in> set (r # rs)" for q
        using that more(2) by (cases "q = r") (auto simp: accounted_completed intro: accounted_mono [of _ more])
      then show ?thesis using more(1,3) new(1) by (intro exI [of _ "new @ Complete (pos r) # more"]) auto
    qed
  qed
qed

text \<open>In batch mode the whole group has one boundary; only records the application sees are promised.\<close>

lemma settle_batch_logs:
  assumes "settle_batch R env r p w = (x, w')" and "honest env" and "run_ok R"
  shows "\<exists>new e. w_events w' = w_events w @ new \<and> x = Done e
    \<and> (e = None \<and> Complete (pos r) \<in> set new \<or> (\<exists>c. e = Some (consumerRewindError c p) \<and> foreign c))"
proof -
  obtain e v where v: "resolveKafkaJSRecord R env r False w = (e, v)" by force
  from resolve_logs [OF v assms(2,3)] obtain y where y: "logs w v [y]" "\<forall>e'. e = Some e' \<longrightarrow> foreign e'" by blast
  show ?thesis
  proof (cases e)
    case None
    then show ?thesis using assms(1) v y by (intro exI [of _ "[y, Complete (pos r)]"]) (auto simp: settle_batch_def logs_def)
  next
    case (Some e')
    then have "x = Done (Some (consumerRewindError e' p))" "w' = v"
      using assms(1) v y by (auto simp: settle_batch_def withConsumerRewindPosition_def consumerRewindPositions_eq foreign_def)
    then show ?thesis using y Some by (intro exI [of _ "[y]"]) (auto simp: logs_def)
  qed
qed

lemma handle_batch_logs:
  assumes "handle_batch R env visible r w = (x, w')" and "honest env" and "run_ok R"
  shows "\<exists>new. w_events w' = w_events w @ new
    \<and> (commit_first R \<longrightarrow> w_pos w' = w_pos w \<and> (\<forall>e. x = Done (Some e) \<longrightarrow> \<not> rewound e \<and> planned e))
    \<and> (\<not> commit_first R \<longrightarrow>
         (case x of Exited \<Rightarrow> w_pos w' = w_pos w | Done None \<Rightarrow> Complete (pos r) \<in> set new
          | Done (Some e) \<Rightarrow> \<not> rewound e \<and> planned e \<and> requests e = [pos (hd visible)]))"
proof -
  let ?a = "we_batch env (batch_payload visible) (w_events w)"
  let ?u = "wlog (HandleBatch visible (batch_payload visible) ?a) w"
  have live: "?a = Returns (Some e) \<Longrightarrow> \<not> rewound e" for e using honestD(5) [OF assms(2)] by (auto simp: foreign_def)
  show ?thesis
  proof (cases "?a = Returns None \<and> \<not> commit_first R")
    case True
    then have "settle_batch R env r (pos (hd visible)) ?u = (x, w')" using assms(1) by (simp add: handle_batch_def Let_def)
    from settle_batch_logs [OF this assms(2,3)] obtain new e where "w_events w' = w_events ?u @ new" "x = Done e"
      "e = None \<and> Complete (pos r) \<in> set new \<or> (\<exists>c. e = Some (consumerRewindError c (pos (hd visible))) \<and> foreign c)" by blast
    then show ?thesis using True
      by (intro exI [of _ "HandleBatch visible (batch_payload visible) ?a # new"]) (auto simp: foreign_def errors_Is_def)
  next
    case False
    then show ?thesis using assms(1) live
      by (intro exI [of _ "[HandleBatch visible (batch_payload visible) ?a]"])
        (auto simp: handle_batch_def Let_def newConsumerHandlerError_def newConsumerHandlerErrorAt_def
          split: answer.splits option.splits if_splits)
  qed
qed

lemma sorted_hd_last:
  assumes "one_partition rs" and "r \<in> set rs"
  shows "partition_of (pos (last rs)) = partition_of (pos r)" and "r_offset r \<le> r_offset (last rs)"
    and "partition_of (pos (hd rs)) = partition_of (pos r)" and "r_offset (hd rs) \<le> r_offset r"
proof -
  have ne: "rs \<noteq> []" using assms(2) by auto
  then show "partition_of (pos (last rs)) = partition_of (pos r)" "partition_of (pos (hd rs)) = partition_of (pos r)"
    using assms by (auto simp: one_partition_def)
  have "sorted_wrt (\<lambda>q r. r_offset q \<le> r_offset r) (butlast rs @ [last rs])" using assms(1) ne by (simp add: one_partition_def)
  then have "\<forall>q \<in> set (butlast rs). r_offset q \<le> r_offset (last rs)" by (simp only: sorted_wrt_append) auto
  then show "r_offset r \<le> r_offset (last rs)" using assms(2) ne
    by (metis append_butlast_last_id in_set_conv_decomp order_refl rotate1.simps(2) set_ConsD set_rotate1)
  have "sorted_wrt (\<lambda>q r. r_offset q \<le> r_offset r) (hd rs # tl rs)" using assms(1) ne by (simp add: one_partition_def)
  then have "\<forall>q \<in> set (tl rs). r_offset (hd rs) \<le> r_offset q" by simp
  then show "r_offset (hd rs) \<le> r_offset r" using assms(2) ne by (metis list.collapse order_refl set_ConsD)
qed

lemma one_partition_filter: "one_partition rs \<Longrightarrow> one_partition (filter P rs)"
  by (auto simp: one_partition_def sorted_wrt_filter)

lemma batch_accounted:
  assumes "process_batch R env rs w = (x, w')" and "honest env" and "run_ok R" and "one_partition rs"
  shows "\<exists>new. w_events w' = w_events w @ new
    \<and> (\<forall>r \<in> set rs. \<not> r_control r \<longrightarrow> accounted (worker_error (x, w')) new r)
    \<and> (\<forall>e. worker_error (x, w') = Some e \<longrightarrow> \<not> rewound e \<and> planned e)"
proof -
  let ?vis = "filter (\<lambda>r. \<not> r_control r) rs"
  have settled: "accounted err new r" if "Complete (pos (last rs)) \<in> set new" "r \<in> set rs" for err new r
    unfolding accounted_def using that sorted_hd_last [OF assms(4)] by (intro disjI1 exI [of _ "pos (last rs)"]) simp
  have rewinds: "accounted (Some e) new r" if "requests e = [pos (hd ?vis)]" "\<not> rewound e" "r \<in> set ?vis" for e new r
    unfolding accounted_def covers_def using that sorted_hd_last(3,4) [OF one_partition_filter [OF assms(4)], of r] by auto
  consider (empty) "rs = []" | (control) "rs \<noteq> []" "?vis = []" | (vis) "rs \<noteq> []" "?vis \<noteq> []" by blast
  then show ?thesis
  proof cases
    case empty
    then show ?thesis using assms(1) by (auto simp: process_batch_def worker_error_def)
  next
    case control
    then have "settle_batch R env (last rs) (pos (last rs)) w = (x, w')" using assms(1) by (simp add: process_batch_def Let_def)
    from settle_batch_logs [OF this assms(2,3)] obtain new e where n: "w_events w' = w_events w @ new" "x = Done e"
      "e = None \<and> Complete (pos (last rs)) \<in> set new \<or> (\<exists>c. e = Some (consumerRewindError c (pos (last rs))) \<and> foreign c)" by blast
    moreover have "\<forall>r \<in> set rs. r_control r" using control by (simp add: filter_empty_conv)
    ultimately show ?thesis by (intro exI [of _ new]) (auto simp: worker_error_def foreign_def errors_Is_def)
  next
    case vis
    let ?w0 = "setConsumerWorkerPosition (pos (hd ?vis)) None w"
    let ?a = "we_commit env (last rs) (w_events w)"
    let ?v = "wlog (Commit (last rs) ?a) ?w0"
    let ?u = "markConsumerWorkerCommitted (wlog (Complete (pos (last rs))) ?v)"
    consider (plain) "\<not> commit_first R" | (failed) e where "commit_first R" "?a = Some e" | (first) "commit_first R" "?a = None" by blast
    then show ?thesis
    proof cases
      case plain
      then have "handle_batch R env ?vis (last rs) ?w0 = (x, w')" using assms(1) vis by (simp add: process_batch_def Let_def)
      from handle_batch_logs [OF this assms(2,3), unfolded set_simps] plain obtain new where n: "w_events w' = w_events w @ new"
        "case x of Exited \<Rightarrow> w_pos w' = Some (pos (hd ?vis)) | Done None \<Rightarrow> Complete (pos (last rs)) \<in> set new
          | Done (Some e) \<Rightarrow> \<not> rewound e \<and> planned e \<and> requests e = [pos (hd ?vis)]" by blast
      then show ?thesis using settled rewinds
        by (intro exI [of _ new]) (auto simp: worker_error_def split: result.splits option.splits)
    next
      case failed
      have e: "foreign e" using failed honestD(1) [OF assms(2)] by blast
      then have c: "\<exists>c. classified R ''kafka/kafkajs: pre-handler batch commit failed: %w'' (Some e) = Some c \<and> foreign c"
        using classified_foreign [of R _ "Some e"] by (metis classified_None option.distinct(1) option.exhaust option.inject)
      then obtain c where "x = Done (Some (consumerRewindError c (pos (hd ?vis))))" "w' = ?v" "foreign c"
        using assms(1) vis failed
        by (auto simp: process_batch_def Let_def CommitRecords_def withConsumerRewindPosition_def consumerRewindPositions_eq foreign_def)
      then show ?thesis using rewinds
        by (intro exI [of _ "[Commit (last rs) ?a]"]) (auto simp: worker_error_def foreign_def errors_Is_def)
    next
      case first
      then have "handle_batch R env ?vis (last rs) ?u = (x, w')"
        using assms(1) vis by (simp add: process_batch_def Let_def CommitRecords_def)
      from handle_batch_logs [OF this assms(2,3)] first obtain new where "w_events w' = w_events ?u @ new"
        "w_pos w' = w_pos ?u" "\<forall>e. x = Done (Some e) \<longrightarrow> \<not> rewound e \<and> planned e" by auto
      then show ?thesis using settled
        by (intro exI [of _ "Commit (last rs) ?a # Complete (pos (last rs)) # new"])
          (auto simp: worker_error_def split: result.splits)
    qed
  qed
qed

section \<open>One poll\<close>

text \<open>The broker returns the records of a partition by ascending offset.\<close>

definition poll_ordered :: "krecord list \<Rightarrow> bool" where
  "poll_ordered rs \<longleftrightarrow> sorted_wrt (\<lambda>q r. partition_of (pos q) = partition_of (pos r) \<longrightarrow> r_offset q \<le> r_offset r) rs"

lemma group_one_partition:
  assumes "poll_ordered rs" and "g \<in> set (groupKafkaJSRecords rs)"
  shows "one_partition g"
proof -
  obtain r where "r \<in> set rs" and g: "g = filter (\<lambda>q. r_topic q = r_topic r \<and> r_partition q = r_partition r) rs"
    by (rule groupKafkaJSRecords_spec [OF assms(2)])
  from g have k: "\<forall>q \<in> set g. partition_of (pos q) = (r_topic r, r_partition r)"
    by (auto simp: partition_of_def kafkaJSRecordPosition_def)
  have "sorted_wrt (\<lambda>q r. partition_of (pos q) = partition_of (pos r) \<longrightarrow> r_offset q \<le> r_offset r) g"
    using assms(1) g by (simp add: poll_ordered_def sorted_wrt_filter)
  then have "sorted_wrt (\<lambda>q r. r_offset q \<le> r_offset r) g"
    by (rule sorted_wrt_mono_rel [rotated]) (metis k)
  then show ?thesis using k by (auto simp: one_partition_def)
qed

text \<open>What holds of the outcome of every worker holds of the whole wave.\<close>

lemma set_somes: "x \<in> set (List.map_filter id xs) \<longleftrightarrow> Some x \<in> set xs"
  by (induction xs) (auto simp: List.map_filter_simps split: option.splits)

lemma wave_workers:
  assumes "runKafkaJSRecordGroups process groups starts log res" and "i < length groups"
  shows "set (snd (worker_outcome process (groups ! i) (starts ! i))) \<subseteq> set log"
    and "fst (worker_outcome process (groups ! i) (starts ! i)) = Some e \<Longrightarrow> \<not> rewound e \<Longrightarrow>
      \<exists>es. res = Some (Joined es) \<and> e \<in> set es \<and> (\<forall>f \<in> set es. \<not> rewound f)"
proof -
  have len: "length starts = length groups" using assms(1) by (simp add: runKafkaJSRecordGroups_def)
  let ?outs = "map2 (\<lambda>g s. snd (worker_outcome process g s)) groups starts"
  have "snd (worker_outcome process (groups ! i) (starts ! i)) \<in> set ?outs"
    using assms(2) len by (force simp: set_conv_nth)
  then show "set (snd (worker_outcome process (groups ! i) (starts ! i))) \<subseteq> set log"
    using assms(1) interleaving_set [of ?outs log] by (auto simp: runKafkaJSRecordGroups_def)
  let ?errs = "map2 (\<lambda>g s. fst (worker_outcome process g s)) groups starts"
  assume e: "fst (worker_outcome process (groups ! i) (starts ! i)) = Some e" "\<not> rewound e"
  have "Some e \<in> set ?errs" using assms(2) len e(1) by (force simp: set_conv_nth)
  then have "e \<in> set (List.map_filter id ?errs)" by (simp only: set_somes)
  moreover obtain errs where errs: "mset errs = mset (List.map_filter id ?errs)" "res = wave_result errs"
    using assms(1) by (auto simp: runKafkaJSRecordGroups_def)
  ultimately have "e \<in> set errs" by (metis mset_eq_setD)
  then have "e \<in> set (filter (\<lambda>e. \<not> rewound e) errs)" using e(2) by simp
  then show "\<exists>es. res = Some (Joined es) \<and> e \<in> set es \<and> (\<forall>f \<in> set es. \<not> rewound f)"
    unfolding errs(2) wave_result_def Let_def by (intro exI [of _ "filter (\<lambda>e. \<not> rewound e) errs"]) (auto simp: filter_empty_conv)
qed

lemma wave_error_source:
  assumes "runKafkaJSRecordGroups process groups starts log (Some e)" and "\<not> rewound e"
  obtains es where "e = Joined es" "es \<noteq> []"
    "\<forall>f \<in> set es. \<not> rewound f \<and> (\<exists>i < length groups. fst (worker_outcome process (groups ! i) (starts ! i)) = Some f)"
proof -
  let ?errs = "map2 (\<lambda>g s. fst (worker_outcome process g s)) groups starts"
  obtain errs where errs: "mset errs = mset (List.map_filter id ?errs)" "Some e = wave_result errs"
    and len: "length starts = length groups" using assms(1) by (auto simp: runKafkaJSRecordGroups_def)
  have "rewound (Sentinel errKafkaJSUnresolvedRecordRewound)" by (simp add: errors_Is_def)
  then have e: "e = Joined (filter (\<lambda>e. \<not> rewound e) errs)" "filter (\<lambda>e. \<not> rewound e) errs \<noteq> []"
    using errs(2) assms(2) by (auto simp: wave_result_def Let_def split: if_splits)
  have "f \<in> set errs \<Longrightarrow> \<exists>i < length groups. fst (worker_outcome process (groups ! i) (starts ! i)) = Some f" for f
  proof -
    assume "f \<in> set errs"
    then have "Some f \<in> set ?errs" using mset_eq_setD [OF errs(1)] by (simp only: set_somes)
    then show ?thesis using len by (auto simp: set_conv_nth)
  qed
  then show ?thesis using that [OF e] by auto
qed

lemma joined_rewound: "rewound (Joined es) \<longleftrightarrow> (\<exists>e \<in> set es. rewound e)"
  by (auto simp: errors_Is_def)

lemma joined_covers: "e \<in> set es \<Longrightarrow> covers e r \<Longrightarrow> covers (Joined es) r"
  by (auto simp: covers_def)

text \<open>
  What a worker promises about the records of its partition, and what a whole wave makes of it, for the
  workers of both modes.
\<close>

locale partition_worker =
  fixes process :: "kafka_run \<Rightarrow> worker_env \<Rightarrow> krecord list \<Rightarrow> worker \<Rightarrow> result \<times> worker"
    and promised :: "krecord \<Rightarrow> bool"
  assumes accounts: "process R env rs w = (x, w') \<Longrightarrow> honest env \<Longrightarrow> run_ok R \<Longrightarrow> one_partition rs \<Longrightarrow>
    \<exists>new. w_events w' = w_events w @ new \<and> (\<forall>r \<in> set rs. promised r \<longrightarrow> accounted (worker_error (x, w')) new r)
      \<and> (\<forall>e. worker_error (x, w') = Some e \<longrightarrow> \<not> rewound e \<longrightarrow> planned e)"
begin

lemma worker_accounted:
  assumes "honest env" and "run_ok R" and "one_partition g"
  shows "\<forall>r \<in> set g. promised r \<longrightarrow>
      accounted (fst (worker_outcome (process R) g (Some env))) (snd (worker_outcome (process R) g (Some env))) r"
    and "fst (worker_outcome (process R) g (Some env)) = Some e \<Longrightarrow> \<not> rewound e \<Longrightarrow> planned e"
proof -
  obtain x w' where x: "process R env g (new_worker g) = (x, w')" by force
  from accounts [OF x assms] obtain new where "w_events w' = w_events (new_worker g) @ new"
    "\<forall>r \<in> set g. promised r \<longrightarrow> accounted (worker_error (x, w')) new r"
    "\<forall>e. worker_error (x, w') = Some e \<longrightarrow> \<not> rewound e \<longrightarrow> planned e" by blast
  then show "\<forall>r \<in> set g. promised r \<longrightarrow>
      accounted (fst (worker_outcome (process R) g (Some env))) (snd (worker_outcome (process R) g (Some env))) r"
    "fst (worker_outcome (process R) g (Some env)) = Some e \<Longrightarrow> \<not> rewound e \<Longrightarrow> planned e"
    using x by (auto simp: worker_outcome_def Let_def new_worker_def newConsumerWorkerContext_def)
qed

lemma wave_accounted:
  assumes wave: "runKafkaJSRecordGroups (process R) (groupKafkaJSRecords rs) starts log res"
    and "\<forall>s \<in> set starts. \<exists>env. s = Some env \<and> honest env" and "run_ok R" and "poll_ordered rs"
  shows "\<forall>r \<in> set rs. promised r \<longrightarrow> accounted res log r"
    and "res = Some e \<Longrightarrow> \<not> rewound e \<Longrightarrow> planned e"
proof -
  let ?gs = "groupKafkaJSRecords rs"
  have len: "length starts = length ?gs" using wave by (simp add: runKafkaJSRecordGroups_def)
  have env: "\<exists>env. starts ! i = Some env \<and> honest env" if "i < length ?gs" for i using assms(2) len that by simp
  have part: "one_partition (?gs ! i)" if "i < length ?gs" for i using group_one_partition [OF assms(4)] that by simp
  show "\<forall>r \<in> set rs. promised r \<longrightarrow> accounted res log r"
  proof (intro ballI impI)
    fix r assume "r \<in> set rs" "promised r"
    then obtain g where "g \<in> set ?gs" "r \<in> set g" using groupKafkaJSRecords_covers by blast
    then obtain i where i: "i < length ?gs" "r \<in> set (?gs ! i)" by (metis in_set_conv_nth)
    obtain env where e: "starts ! i = Some env" "honest env" using env [OF i(1)] by blast
    let ?out = "worker_outcome (process R) (?gs ! i) (starts ! i)"
    have acc: "accounted (fst ?out) (snd ?out) r"
      using worker_accounted(1) [OF e(2) assms(3) part [OF i(1)]] i(2) \<open>promised r\<close> e(1) by simp
    have sub: "set (snd ?out) \<subseteq> set log" by (rule wave_workers(1) [OF wave i(1)])
    show "accounted res log r"
    proof (cases "\<exists>f. fst ?out = Some f \<and> \<not> rewound f \<and> covers f r")
      case True
      then obtain f where f: "fst ?out = Some f" "\<not> rewound f" "covers f r" by blast
      obtain es where "res = Some (Joined es)" "f \<in> set es" "\<forall>f \<in> set es. \<not> rewound f"
        using wave_workers(2) [OF wave i(1) f(1,2)] by blast
      then have "res = Some (Joined es) \<and> \<not> rewound (Joined es) \<and> covers (Joined es) r"
        using f(3) joined_covers joined_rewound by simp
      then show ?thesis unfolding accounted_def by (intro disjI2 disjI1) blast
    next
      case False
      then have "(\<exists>p. Complete p \<in> set (snd ?out) \<and> partition_of p = partition_of (pos r) \<and> r_offset r \<le> p_offset p)
        \<or> (\<exists>q. SetOffsets [pos q] \<in> set (snd ?out) \<and> partition_of (pos q) = partition_of (pos r) \<and> r_offset q \<le> r_offset r)"
        using acc unfolding accounted_def by argo
      then show ?thesis using sub unfolding accounted_def by (meson subsetD)
    qed
  qed
  assume res: "res = Some e" "\<not> rewound e"
  obtain es where es: "e = Joined es" "es \<noteq> []"
    "\<forall>f \<in> set es. \<not> rewound f \<and> (\<exists>i < length ?gs. fst (worker_outcome (process R) (?gs ! i) (starts ! i)) = Some f)"
    by (rule wave_error_source [OF wave [unfolded res(1)] res(2)])
  have mem: "hd es \<in> set es" using es(2) by simp
  then obtain i where i: "i < length ?gs" "fst (worker_outcome (process R) (?gs ! i) (starts ! i)) = Some (hd es)"
    using bspec [OF es(3) mem] by blast
  obtain env where e: "starts ! i = Some env" "honest env" using env [OF i(1)] by blast
  have "planned (hd es)"
    using worker_accounted(2) [OF e(2) assms(3) part [OF i(1)]] i(2) e(1) bspec [OF es(3) mem] by simp
  then show "planned e" using es(1) mem by (auto simp: list_ex_iff)
qed

end

interpretation messages: partition_worker process_messages "\<lambda>_. True"
  by unfold_locales (use messages_accounted in blast)

interpretation batches: partition_worker process_batch "\<lambda>r. \<not> r_control r"
  by unfold_locales (use batch_accounted in blast)

end
