(* ===== verification/Kafka_Delivery.thy ===== *)
theory Kafka_Delivery
  imports Kafka_Consumer_Properties
begin

text \<open>
  The order of offsets and handlers within one poll, for every interleaving of its workers: offsets
  follow handlers (at-least-once), or, when records are committed first, handlers follow commits and a
  committed record is never asked for again (at-most-once).
\<close>

section \<open>Offsets and handlers\<close>

fun about :: "kevent \<Rightarrow> krecord option" where
  "about (Handle r _) = Some r"
| "about (Commit r _) = Some r"
| "about (Mark r) = Some r"
| "about (CommitExact r _ _ _) = Some r"
| "about _ = None"

lemma resolve_shape:
  assumes "resolveKafkaJSRecord R env r b w = (e, w')" and "honest env" and "run_ok R"
  shows "\<exists>y. w_events w' = w_events w @ [y] \<and> about y = Some r \<and> settles y = (if e = None then Some r else None)
    \<and> (\<forall>q a. y \<noteq> Handle q a) \<and> (\<forall>q p. y = Commit q p \<longrightarrow> q = r \<and> (p = None \<longleftrightarrow> e = None))"
proof -
  obtain y where y: "logs w w' [y]" "settles y = (if e = None then Some r else None)"
    using resolve_logs [OF assms] by blast
  moreover have "\<exists>z. w_events w' = w_events w @ [z] \<and> about z = Some r \<and> (\<forall>q a. z \<noteq> Handle q a)
      \<and> (\<forall>q p. z = Commit q p \<longrightarrow> q = r \<and> (p = None \<longleftrightarrow> e = None))"
    using assms(1)
    by (auto simp: resolveKafkaJSRecord_def commitKafkaJSExact_def CommitRecords_def Let_def split: if_splits prod.splits)
  ultimately show ?thesis by (auto simp: logs_def)
qed

text \<open>Plain processing of one record, handler first.\<close>

lemma processRecord_after:
  assumes "processRecord R env r w = (x, w')" and "honest env" and "run_ok R"
    and "\<not> ko_OffsetFinalizer (kr_opts R)" and "\<not> commit_first R"
  shows "\<exists>new. w_events w' = w_events w @ new
    \<and> (\<forall>D. causal (\<lambda>e D. \<forall>q. settles e = Some q \<longrightarrow> q = r \<and> (\<not> r_control r \<longrightarrow> Handle r (Returns None) \<in> D)) D new)
    \<and> (x = Done None \<longrightarrow> \<not> r_control r \<longrightarrow> Handle r (Returns None) \<in> set new)
    \<and> (\<forall>e \<in> set new. about e = Some r)"
proof (cases "r_control r")
  case True
  then obtain e where "resolveKafkaJSRecord R env r (ko_NullOffsetCommitMetadata (kr_opts R)) w = (e, w')"
    using assms(1) by (auto simp: processRecord_def split: prod.splits)
  from resolve_shape [OF this assms(2,3)] True show ?thesis by (auto split: if_splits)
next
  case False
  let ?a = "we_handler env (kafkaJSPayload r) (w_events w)"
  let ?u = "wlog (Handle r ?a) w"
  have h: "handle_plain R env r w = (x, w')" using assms False by (simp add: processRecord_def handle_record_def)
  show ?thesis
  proof (cases "?a = Returns None")
    case True
    then obtain e where "resolveKafkaJSRecord R env r False ?u = (e, w')"
      using h assms(5) by (auto simp: handle_plain_def Let_def split: prod.splits)
    from resolve_shape [OF this assms(2,3)] obtain y where "w_events w' = w_events ?u @ [y]" "about y = Some r"
      "settles y = (if e = None then Some r else None)" by blast
    then show ?thesis using True
      by (intro exI [of _ "[Handle r ?a, y]"]) (auto split: if_splits)
  next
    case ne: False
    then have "w' = ?u" "x \<noteq> Done None"
      using h assms(5) by (auto simp: handle_plain_def Let_def split: answer.splits option.splits)
    then show ?thesis by (intro exI [of _ "[Handle r ?a]"]) auto
  qed
qed

text \<open>Plain processing of one record, commit first.\<close>

lemma processRecord_before:
  assumes "processRecord R env r w = (x, w')" and "honest env" and "run_ok R" and "commit_first R"
  shows "\<exists>new. w_events w' = w_events w @ new
    \<and> (\<forall>D. causal (\<lambda>e D. \<forall>q a. e = Handle q a \<longrightarrow> Commit q None \<in> D) D new)
    \<and> (\<forall>e q. e \<in> set new \<longrightarrow> about e = Some q \<longrightarrow> q = r)
    \<and> (x = Done None \<or> (\<exists>e. x = Done (Some e) \<and> foreign e \<and> Commit r None \<notin> set new)
       \<or> (\<exists>m c. x = Done (Some (consumerHandlerError m c None)) \<and> \<not> rewound c) \<or> x = Exited \<and> w_pos w' = w_next w)"
proof (cases "r_control r")
  case True
  then obtain e where e: "resolveKafkaJSRecord R env r (ko_NullOffsetCommitMetadata (kr_opts R)) w = (e, w')" "x = Done e"
    using assms(1) by (auto simp: processRecord_def split: prod.splits)
  moreover have "e = Some f \<Longrightarrow> foreign f" for f using resolve_logs [OF e(1) assms(2,3)] by blast
  ultimately show ?thesis using resolve_shape [OF e(1) assms(2,3)] True by (cases e) auto
next
  case False
  have nofin: "\<not> ko_OffsetFinalizer (kr_opts R)" using assms(3,4) by (auto simp: run_ok_def commit_first_def)
  let ?a = "we_commit env r (w_events w)"
  let ?v = "wlog (Commit r ?a) w"
  let ?u = "markConsumerWorkerCommitted (wlog (Complete (pos r)) ?v)"
  let ?h = "we_handler env (kafkaJSPayload r) (w_events ?u)"
  show ?thesis
  proof (cases ?a)
    case (Some e)
    then have "x = Done (classified R ''kafka/kafkajs: pre-handler commit failed: %w'' (Some e))" "w' = ?v"
      using assms(1,4) False by (auto simp: processRecord_def CommitRecords_def Let_def)
    moreover have "foreign e" using Some honestD(1) [OF assms(2)] by blast
    ultimately show ?thesis using classified_foreign [of R _ "Some e"] Some
      by (intro exI [of _ "[Commit r ?a]"]) (auto simp: classified_def)
  next
    case None
    then have "handle_plain R env r ?u = (x, w')"
      using assms(1,4) False nofin by (simp add: processRecord_def CommitRecords_def Let_def handle_record_def)
    moreover have "?h = Returns (Some e) \<Longrightarrow> \<not> rewound e" for e using honestD(4) [OF assms(2)] by (auto simp: foreign_def)
    ultimately show ?thesis using None assms(4)
      by (intro exI [of _ "[Commit r ?a, Complete (pos r), Handle r ?h]"])
        (auto simp: handle_plain_def Let_def newConsumerHandlerError_def split: answer.splits option.splits)
  qed
qed

definition strictly :: "krecord list \<Rightarrow> bool" where
  "strictly rs \<longleftrightarrow> sorted_wrt (\<lambda>q r. r_offset q < r_offset r) rs"

lemma strictly_le:
  assumes "strictly (done' @ r # rs)" and "q \<in> set (done' @ r # rs)" and "r_offset q \<le> r_offset r"
  shows "q \<in> set done' \<or> q = r"
  using assms by (auto simp: strictly_def sorted_wrt_append)

definition settled_after :: "krecord list \<Rightarrow> kevent \<Rightarrow> kevent set \<Rightarrow> bool" where
  "settled_after grp e D \<longleftrightarrow> (\<forall>r. settles e = Some r \<longrightarrow> r \<in> set grp
     \<and> (\<forall>q \<in> set grp. r_offset q \<le> r_offset r \<longrightarrow> \<not> r_control q \<longrightarrow> Handle q (Returns None) \<in> D))"

lemma messages_after:
  assumes "process_messages R env rs w = (x, w')" and "honest env" and "run_ok R"
    and "\<not> ko_OffsetFinalizer (kr_opts R)" and "\<not> commit_first R"
    and "strictly (done' @ rs)" and "\<forall>q \<in> set done'. \<not> r_control q \<longrightarrow> Handle q (Returns None) \<in> D"
  shows "\<exists>new. w_events w' = w_events w @ new \<and> causal (settled_after (done' @ rs)) D new"
  using assms(1,6,7)
proof (induction rs arbitrary: done' D w)
  case Nil
  then show ?case by auto
next
  case (Cons r rs)
  let ?w0 = "setConsumerWorkerPosition (pos r) (case rs of [] \<Rightarrow> None | q # _ \<Rightarrow> Some (pos q)) w"
  let ?grp = "done' @ r # rs"
  obtain y v where y: "processRecord R env r ?w0 = (y, v)" by force
  from processRecord_after [OF y assms(2-5)] obtain new where new: "w_events v = w_events w @ new"
    "\<forall>D. causal (\<lambda>e D. \<forall>q. settles e = Some q \<longrightarrow> q = r \<and> (\<not> r_control r \<longrightarrow> Handle r (Returns None) \<in> D)) D new"
    "y = Done None \<longrightarrow> \<not> r_control r \<longrightarrow> Handle r (Returns None) \<in> set new" by auto
  have local: "causal (settled_after ?grp) D new"
  proof (rule causal_mono [OF spec [OF new(2), of D]])
    fix e E assume "D \<subseteq> E" and e: "\<forall>q. settles e = Some q \<longrightarrow> q = r \<and> (\<not> r_control r \<longrightarrow> Handle r (Returns None) \<in> E)"
    have "Handle q (Returns None) \<in> E" if "settles e = Some r" "q \<in> set ?grp" "r_offset q \<le> r_offset r" "\<not> r_control q" for q
    proof (cases "q = r")
      case True
      have "\<not> r_control r \<longrightarrow> Handle r (Returns None) \<in> E" using spec [OF e, of r] that(1) by blast
      then show ?thesis using that(4) True by blast
    next
      case False
      then have "q \<in> set done'" using strictly_le [OF Cons.prems(2) that(2,3)] by simp
      then show ?thesis using Cons.prems(3) that(4) \<open>D \<subseteq> E\<close> by auto
    qed
    moreover have "settles e = Some q \<Longrightarrow> q = r" for q using spec [OF e, of q] by blast
    moreover have "r \<in> set ?grp" by simp
    ultimately show "settled_after ?grp e E" unfolding settled_after_def by blast
  qed
  show ?case
  proof (cases "y = Done None")
    case False
    then have "w' = v" using Cons.prems(1) y by (cases y) (auto split: option.splits)
    then show ?thesis using new(1) local by blast
  next
    case True
    let ?D = "D \<union> set (new @ [Complete (pos r)])"
    have "process_messages R env rs (wlog (Complete (pos r)) v) = (x, w')" using Cons.prems(1) y True by simp
    from Cons.IH [OF this, of "done' @ [r]" ?D] Cons.prems(2,3) new(3) True
    obtain more where more: "w_events w' = w_events v @ [Complete (pos r)] @ more" "causal (settled_after ?grp) ?D more" by auto
    have "settled_after ?grp (Complete (pos r)) (D \<union> set new)" by (simp add: settled_after_def)
    then show ?thesis using more new(1) local
      by (intro exI [of _ "new @ [Complete (pos r)] @ more"]) (simp add: causal_append Un_assoc)
  qed
qed

text \<open>The broker returns every record of a partition once.\<close>

definition poll_strict :: "krecord list \<Rightarrow> bool" where
  "poll_strict rs \<longleftrightarrow> sorted_wrt (\<lambda>q r. partition_of (pos q) = partition_of (pos r) \<longrightarrow> r_offset q < r_offset r) rs"

lemma poll_strict_ordered: "poll_strict rs \<Longrightarrow> poll_ordered rs"
  unfolding poll_strict_def poll_ordered_def by (erule sorted_wrt_mono_rel [rotated]) auto

lemma same_partition: "partition_of (pos q) = partition_of (pos r) \<longleftrightarrow> r_topic q = r_topic r \<and> r_partition q = r_partition r"
  by (simp add: partition_of_def kafkaJSRecordPosition_def)

lemma group_strict:
  assumes "poll_strict rs" and "g \<in> set (groupKafkaJSRecords rs)"
  shows "strictly g" and "r \<in> set g \<Longrightarrow> g = filter (\<lambda>q. partition_of (pos q) = partition_of (pos r)) rs"
proof -
  obtain s where "s \<in> set rs" and g: "g = filter (\<lambda>q. r_topic q = r_topic s \<and> r_partition q = r_partition s) rs"
    by (rule groupKafkaJSRecords_spec [OF assms(2)])
  have "sorted_wrt (\<lambda>q r. partition_of (pos q) = partition_of (pos r) \<longrightarrow> r_offset q < r_offset r) g"
    using assms(1) g by (simp add: poll_strict_def sorted_wrt_filter)
  then show "strictly g" unfolding strictly_def
    by (rule sorted_wrt_mono_rel [rotated]) (auto simp: g same_partition)
  show "r \<in> set g \<Longrightarrow> g = filter (\<lambda>q. partition_of (pos q) = partition_of (pos r)) rs"
    by (auto simp: g same_partition)
qed

text \<open>A causal property of every worker's log holds of the log of the wave.\<close>

lemma wave_causal:
  assumes wave: "runKafkaJSRecordGroups process groups starts log res"
    and workers: "\<And>g env. g \<in> set groups \<Longrightarrow> Some env \<in> set starts \<Longrightarrow>
      causal Q {} (snd (worker_outcome process g (Some env)))"
    and mono: "\<And>e A B. A \<subseteq> B \<Longrightarrow> Q e A \<Longrightarrow> Q e B"
    and "log = pre @ e # post"
  shows "Q e (set pre)"
proof -
  let ?outs = "map2 (\<lambda>g s. snd (worker_outcome process g s)) groups starts"
  have "causal Q {} xs" if xs: "xs \<in> set ?outs" for xs
  proof -
    obtain g s where gs: "(g, s) \<in> set (zip groups starts)" "xs = snd (worker_outcome process g s)" using xs by auto
    then have mem: "g \<in> set groups" "s \<in> set starts" by (auto dest: set_zip_leftD set_zip_rightD)
    show ?thesis
    proof (cases s)
      case None
      then show ?thesis using gs(2) by (simp add: worker_outcome_def)
    next
      case (Some env)
      then show ?thesis using workers [OF mem(1), of env] mem(2) gs(2) by simp
    qed
  qed
  then have "causal Q {} log"
    using interleaving_causal_nil [of ?outs log Q] wave mono by (auto simp: runKafkaJSRecordGroups_def)
  then show ?thesis using causal_before [of Q "{}" pre e post] assms(4) by simp
qed

definition honest_starts :: "worker_env option list \<Rightarrow> bool" where
  "honest_starts starts \<longleftrightarrow> (\<forall>env. Some env \<in> set starts \<longrightarrow> honest env)"

text \<open>
  C6.  At-least-once delivery.  Whatever the workers of a poll do and however they interleave, the offset
  of a partition moves past a record (by a commit or by a mark for the next automatic commit) only after
  the handler has succeeded on that record and on every earlier record of the partition in the poll.
\<close>

theorem offsets_follow_handlers:
  assumes wave: "runKafkaJSRecordGroups (process_messages R) (groupKafkaJSRecords rs) starts log res"
    and "honest_starts starts" and "run_ok R" and "poll_strict rs"
    and "\<not> ko_OffsetFinalizer (kr_opts R)" and "\<not> commit_first R"
    and "log = pre @ e # post" and "settles e = Some r"
    and "q \<in> set rs" and "partition_of (pos q) = partition_of (pos r)" and "r_offset q \<le> r_offset r" and "\<not> r_control q"
  shows "Handle q (Returns None) \<in> set pre"
proof -
  let ?Q = "\<lambda>e D. \<forall>r. settles e = Some r \<longrightarrow> (\<forall>q \<in> set rs. partition_of (pos q) = partition_of (pos r) \<longrightarrow>
    r_offset q \<le> r_offset r \<longrightarrow> \<not> r_control q \<longrightarrow> Handle q (Returns None) \<in> D)"
  have "?Q e (set pre)"
  proof (rule wave_causal [OF wave _ _ assms(7)])
    fix g env assume g: "g \<in> set (groupKafkaJSRecords rs)" and env: "Some env \<in> set starts"
    then have "honest env" using assms(2) by (simp add: honest_starts_def)
    obtain x w' where x: "process_messages R env g (new_worker g) = (x, w')" by force
    from messages_after [OF x \<open>honest env\<close> assms(3,5,6), of "[]" "{}"] group_strict(1) [OF assms(4) g]
    obtain new where new: "w_events w' = new" "causal (settled_after g) {} new" by (auto simp: new_worker_def newConsumerWorkerContext_def)
    have "causal ?Q {} new"
    proof (rule causal_mono [OF new(2)])
      fix e E assume s: "settled_after g e E"
      show "?Q e E"
      proof (intro allI impI ballI)
        fix r q assume r: "settles e = Some r" and q: "q \<in> set rs" "partition_of (pos q) = partition_of (pos r)"
          and le: "r_offset q \<le> r_offset r" "\<not> r_control q"
        have "r \<in> set g" using s r by (simp add: settled_after_def)
        then have "g = filter (\<lambda>q. partition_of (pos q) = partition_of (pos r)) rs" by (rule group_strict(2) [OF assms(4) g])
        then have "q \<in> set (filter (\<lambda>q. partition_of (pos q) = partition_of (pos r)) rs)" "set g = set (filter (\<lambda>q. partition_of (pos q) = partition_of (pos r)) rs)"
          using q by simp_all
        then have "q \<in> set g" by blast
        then show "Handle q (Returns None) \<in> E" using s r le by (simp add: settled_after_def)
      qed
    qed
    then show "causal ?Q {} (snd (worker_outcome (process_messages R) g (Some env)))"
      using x new(1) by (simp add: worker_outcome_def Let_def)
  qed blast
  then show ?thesis using assms(8-12) by blast
qed

section \<open>Commit before the handler\<close>

lemma failed_before:
  assumes "commit_first R"
  shows "foreign e \<Longrightarrow> requests (failed_message R r rs e) = [pos r]"
    and "\<not> rewound c \<Longrightarrow> requests (failed_message R r rs (consumerHandlerError m c None)) = map pos (take 1 rs)"
  using assms
  by (auto simp: failed_message_def foreign_def withConsumerRewindPosition_def consumerRewindPositions_eq split: list.splits)

lemma messages_before:
  assumes "process_messages R env rs w = (x, w')" and "honest env" and "run_ok R" and "commit_first R" and "strictly rs"
  shows "\<exists>new. w_events w' = w_events w @ new
    \<and> (\<forall>D. causal (\<lambda>e D. \<forall>q a. e = Handle q a \<longrightarrow> Commit q None \<in> D) D new)
    \<and> (\<forall>e q. e \<in> set new \<longrightarrow> about e = Some q \<longrightarrow> q \<in> set rs)
    \<and> (\<forall>e. worker_error (x, w') = Some e \<longrightarrow> (\<forall>p \<in> set (requests e). \<exists>s \<in> set rs. p = pos s
         \<and> (\<forall>q. Commit q None \<in> set new \<longrightarrow> r_offset q < r_offset s)))"
  using assms(1,5)
proof (induction rs arbitrary: w)
  case Nil
  then show ?case by (auto simp: worker_error_def)
next
  case (Cons r rs)
  let ?nxt = "case rs of [] \<Rightarrow> None | q # _ \<Rightarrow> Some (pos q)"
  let ?w0 = "setConsumerWorkerPosition (pos r) ?nxt w"
  have lt: "s \<in> set rs \<Longrightarrow> r_offset r < r_offset s" for s using Cons.prems(2) by (simp add: strictly_def)
  obtain y v where y: "processRecord R env r ?w0 = (y, v)" by force
  from processRecord_before [OF y assms(2-4), unfolded set_simps] obtain new where new: "w_events v = w_events w @ new"
    "\<forall>D. causal (\<lambda>e D. \<forall>q a. e = Handle q a \<longrightarrow> Commit q None \<in> D) D new"
    "\<forall>e q. e \<in> set new \<longrightarrow> about e = Some q \<longrightarrow> q = r"
    "y = Done None \<or> (\<exists>e. y = Done (Some e) \<and> foreign e \<and> Commit r None \<notin> set new)
       \<or> (\<exists>m c. y = Done (Some (consumerHandlerError m c None)) \<and> \<not> rewound c) \<or> y = Exited \<and> w_pos v = ?nxt" by blast
  have own: "Commit q None \<in> set new \<Longrightarrow> q = r" for q using new(3) by fastforce
  show ?case
  proof (cases "y = Done None")
    case False
    have v: "w' = v" using Cons.prems(1) y False by (cases y) (auto split: option.splits)
    have plan: "\<exists>s \<in> set (r # rs). p = pos s \<and> (\<forall>q. Commit q None \<in> set new \<longrightarrow> r_offset q < r_offset s)"
      if err: "worker_error (x, w') = Some e" and p: "p \<in> set (requests e)" for e p
    proof -
      have nxt: "requests e = map pos (take 1 rs) \<Longrightarrow> ?thesis"
        using p own lt by (cases rs) auto
      from new(4) False show ?thesis
      proof (elim disjE exE conjE)
        fix f assume f: "y = Done (Some f)" "foreign f" "Commit r None \<notin> set new"
        then have "e = failed_message R r rs f" using err Cons.prems(1) y by (auto simp: worker_error_def)
        then have "p = pos r" using failed_before(1) [OF assms(4) f(2)] p by simp
        then show ?thesis using own f(3) by (intro bexI [of _ r]) auto
      next
        fix m c assume f: "y = Done (Some (consumerHandlerError m c None))" "\<not> rewound c"
        then have "e = failed_message R r rs (consumerHandlerError m c None)"
          using err Cons.prems(1) y by (auto simp: worker_error_def)
        then show ?thesis using failed_before(2) [OF assms(4) f(2)] nxt by simp
      next
        assume f: "y = Exited" "w_pos v = ?nxt"
        then have "e = consumerWorkerAbortedError ?nxt" using err Cons.prems(1) y v by (auto simp: worker_error_def)
        then show ?thesis using nxt by (cases rs) auto
      qed blast
    qed
    show ?thesis using v new(1-3) plan by (intro exI [of _ new]) auto
  next
    case True
    have "process_messages R env rs (wlog (Complete (pos r)) v) = (x, w')" using Cons.prems(1) y True by simp
    from Cons.IH [OF this] Cons.prems(2) obtain more where more: "w_events w' = w_events v @ [Complete (pos r)] @ more"
      "\<forall>D. causal (\<lambda>e D. \<forall>q a. e = Handle q a \<longrightarrow> Commit q None \<in> D) D more"
      "\<forall>e q. e \<in> set more \<longrightarrow> about e = Some q \<longrightarrow> q \<in> set rs"
      "\<forall>e. worker_error (x, w') = Some e \<longrightarrow> (\<forall>p \<in> set (requests e). \<exists>s \<in> set rs. p = pos s
         \<and> (\<forall>q. Commit q None \<in> set more \<longrightarrow> r_offset q < r_offset s))"
      by (auto simp: strictly_def)
    let ?new = "new @ [Complete (pos r)] @ more"
    have "\<exists>s \<in> set (r # rs). p = pos s \<and> (\<forall>q. Commit q None \<in> set ?new \<longrightarrow> r_offset q < r_offset s)"
      if err: "worker_error (x, w') = Some e" and p: "p \<in> set (requests e)" for e p
    proof -
      obtain s where "s \<in> set rs" "p = pos s" "\<forall>q. Commit q None \<in> set more \<longrightarrow> r_offset q < r_offset s"
        using more(4) err p by blast
      then show ?thesis using own lt by (intro bexI [of _ s]) auto
    qed
    moreover have "\<forall>e q. e \<in> set ?new \<longrightarrow> about e = Some q \<longrightarrow> q \<in> set (r # rs)"
      using new(3) more(3) by auto
    ultimately show ?thesis using more(1,2) new(1,2) by (intro exI [of _ ?new]) (simp add: causal_append)
  qed
qed

text \<open>Two groups with records of the same partition are the same group.\<close>

lemma group_index:
  assumes "i < length (groupKafkaJSRecords rs)" and "j < length (groupKafkaJSRecords rs)"
    and "q \<in> set (groupKafkaJSRecords rs ! i)" and "r \<in> set (groupKafkaJSRecords rs ! j)"
    and "partition_of (pos q) = partition_of (pos r)"
  shows "i = j"
proof -
  let ?gs = "fold add_to_group rs []"
  have ok: "grouped rs ?gs" by (rule grouped_fold)
  have key: "fst (?gs ! k) = group_key s" if "k < length ?gs" "s \<in> set (snd (?gs ! k))" for k s
  proof -
    have "(fst (?gs ! k), snd (?gs ! k)) \<in> set ?gs" using that(1) by simp
    then have "go_get ?gs (fst (?gs ! k)) = Some (snd (?gs ! k))" using ok by (simp only: grouped_def go_get_mem)
    then have "snd (?gs ! k) = filter (\<lambda>r. group_key r = fst (?gs ! k)) rs" using ok unfolding grouped_def by blast
    then have "s \<in> set (filter (\<lambda>r. group_key r = fst (?gs ! k)) rs)" using that(2) by metis
    then show ?thesis by simp
  qed
  have len: "i < length ?gs" "j < length ?gs" using assms(1,2) by (simp_all add: groupKafkaJSRecords_def)
  then have "fst (?gs ! i) = group_key q" "fst (?gs ! j) = group_key r"
    using assms(3,4) key by (simp_all add: groupKafkaJSRecords_def)
  moreover have "group_key q = group_key r" using assms(5) by (simp add: group_key_eq same_partition)
  moreover have "distinct (map fst ?gs)" using ok by (simp add: grouped_def gomap_ok_def)
  ultimately show ?thesis using len nth_eq_iff_index_eq [of "map fst ?gs" i j] by simp
qed

text \<open>
  C28.  At-most-once delivery.  When records are committed before their handler, every handler call is
  preceded by the successful commit of its record, and a failure of the poll never asks for a position
  at or before a record that was committed: no committed record is delivered again.
\<close>

theorem handlers_follow_commits:
  assumes wave: "runKafkaJSRecordGroups (process_messages R) (groupKafkaJSRecords rs) starts log res"
    and "honest_starts starts" and "run_ok R" and "poll_strict rs" and "commit_first R"
  shows "(\<forall>pre q a post. log = pre @ Handle q a # post \<longrightarrow> Commit q None \<in> set pre)
    \<and> (\<forall>e. res = Some e \<longrightarrow> (\<forall>p \<in> set (requests e). \<forall>q. Commit q None \<in> set log \<longrightarrow>
         partition_of (pos q) = partition_of p \<longrightarrow> r_offset q < p_offset p))"
proof (intro conjI allI impI ballI)
  let ?Q = "\<lambda>e D. \<forall>q a. e = Handle q a \<longrightarrow> Commit q None \<in> D"
  let ?gs = "groupKafkaJSRecords rs"
  have worker: "\<exists>new. snd (worker_outcome (process_messages R) g (Some env)) = new \<and> causal ?Q {} new
      \<and> (\<forall>e q. e \<in> set new \<longrightarrow> about e = Some q \<longrightarrow> q \<in> set g)
      \<and> (\<forall>e. fst (worker_outcome (process_messages R) g (Some env)) = Some e \<longrightarrow> (\<forall>p \<in> set (requests e). \<exists>s \<in> set g. p = pos s
           \<and> (\<forall>q. Commit q None \<in> set new \<longrightarrow> r_offset q < r_offset s)))"
    if "g \<in> set ?gs" "Some env \<in> set starts" for g env
  proof -
    have "honest env" using assms(2) that(2) by (simp add: honest_starts_def)
    obtain x w' where x: "process_messages R env g (new_worker g) = (x, w')" by force
    from messages_before [OF x \<open>honest env\<close> assms(3,5) group_strict(1) [OF assms(4) that(1)]] x
    show ?thesis by (auto simp: worker_outcome_def Let_def new_worker_def newConsumerWorkerContext_def)
  qed
  show "Commit q None \<in> set pre" if log: "log = pre @ Handle q a # post" for pre q a post
  proof -
    have "?Q (Handle q a) (set pre)"
      by (rule wave_causal [OF wave _ _ log]) (use worker in blast)+
    then show ?thesis by blast
  qed
  fix e p q
  assume e: "res = Some e" and p: "p \<in> set (requests e)" and q: "Commit q None \<in> set log"
    and part: "partition_of (pos q) = partition_of p"
  have len: "length starts = length ?gs" using wave by (simp add: runKafkaJSRecordGroups_def)
  have "\<not> rewound e" using p wave e
    by (auto simp: runKafkaJSRecordGroups_def wave_result_def Let_def errors_Is_def split: if_splits)
  then obtain es where es: "e = Joined es" "es \<noteq> []"
    "\<forall>f \<in> set es. \<not> rewound f \<and> (\<exists>i < length ?gs. fst (worker_outcome (process_messages R) (?gs ! i) (starts ! i)) = Some f)"
    using wave_error_source wave e by metis
  then obtain f where f: "f \<in> set es" "p \<in> set (requests f)" using p by auto
  then obtain j where j: "j < length ?gs" "fst (worker_outcome (process_messages R) (?gs ! j) (starts ! j)) = Some f"
    using es(3) by blast
  then obtain envj where envj: "starts ! j = Some envj" by (cases "starts ! j") (auto simp: worker_outcome_def)
  let ?outs = "map2 (\<lambda>g s. snd (worker_outcome (process_messages R) g s)) ?gs starts"
  have "interleaving ?outs log" using wave by (simp add: runKafkaJSRecordGroups_def)
  then have "set log = \<Union> (set ` set ?outs)" by (rule interleaving_set)
  then obtain i where i: "i < length ?gs" "Commit q None \<in> set (snd (worker_outcome (process_messages R) (?gs ! i) (starts ! i)))"
    using q len by (auto simp: set_zip)
  then obtain envi where envi: "starts ! i = Some envi" by (cases "starts ! i") (auto simp: worker_outcome_def)
  have "?gs ! i \<in> set ?gs" "Some envi \<in> set starts" "?gs ! j \<in> set ?gs" "Some envj \<in> set starts"
    using i(1) j(1) len envi envj nth_mem [of i starts] nth_mem [of j starts] by simp_all
  note wi = worker [OF this(1,2)] and wj = worker [OF this(3,4)]
  have "q \<in> set (?gs ! i)" using wi i(2) unfolding envi by fastforce
  moreover obtain s where s: "s \<in> set (?gs ! j)" "p = pos s"
    "\<forall>q. Commit q None \<in> set (snd (worker_outcome (process_messages R) (?gs ! j) (starts ! j))) \<longrightarrow> r_offset q < r_offset s"
    using wj j(2) f(2) unfolding envj by blast
  ultimately have "i = j" using group_index [OF i(1) j(1)] part by simp
  then show "r_offset q < p_offset p" using s i(2) by simp
qed

section \<open>A poll of two records\<close>

lemma interleaving_single: "interleaving [xs] xs"
proof (induction xs)
  case (Cons x xs)
  then show ?case by (intro interleaving_step [of 0 "[x # xs]" x xs]) simp_all
qed (rule interleaving_done, simp)

definition sample_record :: "int \<Rightarrow> krecord" where
  "sample_record i = \<lparr>r_topic = ''t'', r_partition = 1, r_offset = i, r_epoch = 0, r_control = False, r_key = None,
     r_value = Some ''v'', r_headers = [], r_timestamp = 0\<rparr>"

definition sample_options :: "bool \<Rightarrow> ConsumerAdvancedOptions" where
  "sample_options first = \<lparr>ko_AutoCommit = None, ko_CommitBeforeHandler = first, ko_OffsetFinalizer = False,
     ko_ResolveAfterSuccessfulFinalizer = False, ko_NullOffsetCommitMetadata = False, ko_RedeliverUnresolvedFinalizer = False,
     ko_PartitionsConsumedConcurrently = 0, ko_PollTimeout = 0, ko_MaxRecords = 0\<rparr>"

definition sample_run :: "bool \<Rightarrow> kafka_run" where
  "sample_run first = \<lparr>kr_lib = \<lparr>kerr = (\<lambda>_. None), net_error = (\<lambda>_. False)\<rparr>, kr_errorForCode = (\<lambda>_. ''code''),
     kr_AutoCommit = False, kr_auto = False, kr_opts = sample_options first\<rparr>"

text \<open>The handler fails on the second record.\<close>

definition sample_env :: worker_env where
  "sample_env = \<lparr>we_handler = (\<lambda>m es. if mp_Offset m = 1 then Returns (Some (Sentinel ''boom'')) else Returns None),
     we_batch = (\<lambda>b es. Returns None), we_commit = (\<lambda>r es. None), we_exact = (\<lambda>r x es. (None, Some [])),
     we_calls = (\<lambda>m h es. []), we_final = (\<lambda>m h es. FReturns None False)\<rparr>"

definition sample_records :: "krecord list" where
  "sample_records = [sample_record 0, sample_record 1]"

definition sample_out :: "bool \<Rightarrow> kerror option \<times> kevents" where
  "sample_out first = worker_outcome (process_messages (sample_run first)) sample_records (Some sample_env)"

lemma sample_groups: "groupKafkaJSRecords sample_records = [sample_records]"
  by (simp add: sample_records_def groupKafkaJSRecords_def add_to_group_def group_key_def sample_record_def)

lemma sample_wave:
  "runKafkaJSRecordGroups (process_messages (sample_run first)) (groupKafkaJSRecords sample_records) [Some sample_env]
     (snd (sample_out first)) (wave_result (case fst (sample_out first) of None \<Rightarrow> [] | Some e \<Rightarrow> [e]))"
  by (auto simp: sample_groups runKafkaJSRecordGroups_def sample_out_def interleaving_single List.map_filter_simps split: option.splits)

lemma sample_premises:
  "honest_starts [Some sample_env]" "run_ok (sample_run first)" "poll_strict sample_records"
  "\<not> ko_OffsetFinalizer (kr_opts (sample_run first))" "commit_first (sample_run first) = first"
  by (simp_all add: honest_starts_def honest_def sample_env_def foreign_def errors_Is_def errKafkaJSUnresolvedRecordRewound_def
      run_ok_def sample_run_def sample_options_def poll_strict_def sample_records_def sample_record_def commit_first_def)

lemma sample_log:
  "snd (sample_out False) = [Handle (sample_record 0) (Returns None)] @ Commit (sample_record 0) None #
     [Complete (pos (sample_record 0)), Handle (sample_record 1) (Returns (Some (Sentinel ''boom'')))]"
  "snd (sample_out True) = [Commit (sample_record 0) None, Complete (pos (sample_record 0))] @ Handle (sample_record 0) (Returns None) #
     [Complete (pos (sample_record 0)), Commit (sample_record 1) None, Complete (pos (sample_record 1)),
      Handle (sample_record 1) (Returns (Some (Sentinel ''boom'')))]"
  by code_simp+

theorem offsets_follow_handlers_witness:
  "settles (Commit (sample_record 0) None) = Some (sample_record 0)
   \<and> Handle (sample_record 0) (Returns None) \<in> set [Handle (sample_record 0) (Returns None)]"
  using offsets_follow_handlers [OF sample_wave [of False] sample_premises(1-4) _ sample_log(1), of "sample_record 0" "sample_record 0"]
    sample_premises(5) [of False]
  by (simp add: sample_records_def sample_record_def)

theorem handlers_follow_commits_witness:
  "Commit (sample_record 0) None \<in> set [Commit (sample_record 0) None, Complete (pos (sample_record 0))]"
  using handlers_follow_commits [OF sample_wave [of True] sample_premises(1-3)] sample_premises(5) [of True] sample_log(2) by blast

end
