(* ===== verification/Kafka_Lifecycle_Properties.thy ===== *)
theory Kafka_Lifecycle_Properties
  imports Kafka_Lifecycle Kafka_Delivery
begin

text \<open>
  What the lifecycle promises: clients are closed exactly once and never under a run, no record of a
  failed poll is lost, and recovery positions never rewind a committed offset.
\<close>

section \<open>Workers do not close clients\<close>

fun closed_id :: "kevent \<Rightarrow> nat option" where
  "closed_id (CloseClient n) = Some n"
| "closed_id _ = None"

definition closes :: "kevents \<Rightarrow> nat list" where
  "closes es = List.map_filter closed_id es"

lemma closes_append [simp]: "closes (es @ fs) = closes es @ closes fs"
  by (induction es) (auto simp: closes_def List.map_filter_simps split: option.splits)

lemma closes_simps [simp]: "closes [] = []" "closes (e # es) = (case closed_id e of None \<Rightarrow> closes es | Some n \<Rightarrow> n # closes es)"
  by (auto simp: closes_def List.map_filter_simps split: option.splits)

lemma closes_exact: "commitKafkaJSExact R env r x b w = (e, w') \<Longrightarrow> closes (w_events w') = closes (w_events w)"
  by (auto simp: commitKafkaJSExact_def Let_def split: prod.splits)

lemma closes_resolve: "resolveKafkaJSRecord R env r b w = (e, w') \<Longrightarrow> closes (w_events w') = closes (w_events w)"
  by (auto simp: resolveKafkaJSRecord_def CommitRecords_def Let_def closes_exact split: if_splits prod.splits)

lemma closes_calls: "closes (w_events (finalizer_calls R env r called xs w)) = closes (w_events w)"
proof (induction xs arbitrary: called w)
  case (Cons x xs)
  obtain e v where "commitKafkaJSExact R env r x (ko_NullOffsetCommitMetadata (kr_opts R)) w = (e, v)" by force
  then show ?case using Cons.IH closes_exact by simp
qed simp

lemma closes_finalized: "handle_finalized R env r w = (x, w') \<Longrightarrow> closes (w_events w') = closes (w_events w)"
  by (auto simp: handle_finalized_def Let_def closes_calls dest!: closes_resolve
      split: answer.splits final_answer.splits option.splits if_splits prod.splits)

lemma closes_plain: "handle_plain R env r w = (x, w') \<Longrightarrow> closes (w_events w') = closes (w_events w)"
  by (auto simp: handle_plain_def Let_def dest!: closes_resolve split: answer.splits option.splits if_splits prod.splits)

lemma closes_handle: "handle_record R env r w = (x, w') \<Longrightarrow> closes (w_events w') = closes (w_events w)"
  by (auto simp: handle_record_def closes_finalized closes_plain split: if_splits)

lemma closes_record: "processRecord R env r w = (x, w') \<Longrightarrow> closes (w_events w') = closes (w_events w)"
  by (auto simp: processRecord_def CommitRecords_def Let_def dest!: closes_resolve closes_handle
      split: if_splits prod.splits option.splits)

lemma closes_messages: "process_messages R env rs w = (x, w') \<Longrightarrow> closes (w_events w') = closes (w_events w)"
proof (induction rs arbitrary: w)
  case (Cons r rs)
  let ?w0 = "setConsumerWorkerPosition (kafkaJSRecordPosition r) (case rs of [] \<Rightarrow> None | q # _ \<Rightarrow> Some (kafkaJSRecordPosition q)) w"
  obtain y v where y: "processRecord R env r ?w0 = (y, v)" by force
  then have "closes (w_events v) = closes (w_events w)" using closes_record [OF y] by simp
  then show ?case using Cons y by (auto split: result.splits option.splits)
qed simp

lemma closes_settle: "settle_batch R env r p w = (x, w') \<Longrightarrow> closes (w_events w') = closes (w_events w)"
  by (auto simp: settle_batch_def dest!: closes_resolve split: prod.splits option.splits)

lemma closes_batch: "handle_batch R env vis r w = (x, w') \<Longrightarrow> closes (w_events w') = closes (w_events w)"
  by (auto simp: handle_batch_def Let_def dest!: closes_settle split: answer.splits option.splits if_splits)

lemma closes_process_batch: "process_batch R env rs w = (x, w') \<Longrightarrow> closes (w_events w') = closes (w_events w)"
  by (auto simp: process_batch_def CommitRecords_def Let_def dest!: closes_settle closes_batch
      split: if_splits prod.splits option.splits)

lemma closes_process: "process_group K env rs w = (x, w') \<Longrightarrow> closes (w_events w') = closes (w_events w)"
  by (auto simp: process_group_def closes_messages closes_process_batch split: if_splits)

lemma closes_Nil_iff: "closes es = [] \<longleftrightarrow> (\<forall>e \<in> set es. closed_id e = None)"
  by (induction es) (auto split: option.splits)

lemma closes_wave:
  assumes "runKafkaJSRecordGroups (process_group K) groups starts log res"
  shows "closes log = []"
proof -
  let ?outs = "map2 (\<lambda>g s. snd (worker_outcome (process_group K) g s)) groups starts"
  have "interleaving ?outs log" using assms by (simp add: runKafkaJSRecordGroups_def)
  then have log: "set log = \<Union> (set ` set ?outs)" by (rule interleaving_set)
  have "closes (snd (worker_outcome (process_group K) g s)) = []" for g s
  proof (cases s)
    case (Some env)
    obtain x w' where "process_group K env g (new_worker g) = (x, w')" by force
    then show ?thesis using closes_process Some by (force simp: worker_outcome_def Let_def new_worker_def newConsumerWorkerContext_def)
  qed (simp add: worker_outcome_def)
  then show ?thesis using log unfolding closes_Nil_iff by auto
qed

section \<open>Clients are closed once\<close>

fun run_client :: "consumer_phase \<Rightarrow> nat option" where
  "run_client (Polling n) = Some n"
| "run_client (Working n log res sk) = Some n"
| "run_client (Failing n e b) = Some n"
| "run_client _ = None"

text \<open>
  The invariant: who owns each client (the consumer, a run that discards it, or nobody once it is closed),
  what the snapshot of a close in progress is, and that recovery positions name a partition once.
\<close>

definition clients_ok :: "consumer \<Rightarrow> bool" where
  "clients_ok c \<longleftrightarrow> distinct (closes (c_log c)) \<and> (\<forall>n \<in> set (closes (c_log c)). n < c_created c)
     \<and> (\<forall>n < c_created c. c_client c = Some n \<or> (\<exists>e b. c_phase c = Discarding n e b) \<or> n \<in> set (closes (c_log c)))
     \<and> (\<forall>n. c_client c = Some n \<longrightarrow> n < c_created c \<and> (n \<in> set (closes (c_log c)) \<longleftrightarrow> c_closing c = Some CloseDone))
     \<and> (\<forall>n. run_client (c_phase c) = Some n \<longrightarrow> c_client c = Some n)
     \<and> (\<forall>n e b. c_phase c = Discarding n e b \<longrightarrow> n < c_created c \<and> n \<notin> set (closes (c_log c)) \<and> c_client c \<noteq> Some n)"

definition closing_ok :: "consumer \<Rightarrow> bool" where
  "closing_ok c \<longleftrightarrow> (c_closing c = None \<longleftrightarrow> \<not> c_closed c)
     \<and> (\<forall>cl. c_closing c = Some (CloseRequested cl) \<or> c_closing c = Some (CloseWaiting cl) \<longrightarrow> c_client c = cl)
     \<and> (c_closing c = Some CloseDone \<longrightarrow> c_phase c = Idle)"

definition work_ok :: "consumer \<Rightarrow> bool" where
  "work_ok c \<longleftrightarrow> (\<forall>n log res sk. c_phase c = Working n log res sk \<longrightarrow> closes log = []) \<and> plan_ok (c_pending c)"

definition life_ok :: "consumer \<Rightarrow> bool" where
  "life_ok c \<longleftrightarrow> clients_ok c \<and> closing_ok c \<and> work_ok c"

lemmas life_defs = life_ok_def clients_ok_def closing_ok_def work_ok_def

lemma clog_simps [simp]:
  "c_client (clog e c) = c_client c" "c_phase (clog e c) = c_phase c" "c_closed (clog e c) = c_closed c"
  "c_closing (clog e c) = c_closing c" "c_pending (clog e c) = c_pending c" "c_created (clog e c) = c_created c"
  "c_log (clog e c) = c_log c @ [e]" "c_cancelled (clog e c) = c_cancelled c" "c_pollStopped (clog e c) = c_pollStopped c"
  "c_topics (clog e c) = c_topics c"
  by (simp_all add: clog_def)

lemma apply_event_fields [simp]:
  "c_client (apply_event e c) = c_client c" "c_phase (apply_event e c) = c_phase c" "c_closed (apply_event e c) = c_closed c"
  "c_closing (apply_event e c) = c_closing c" "c_created (apply_event e c) = c_created c" "c_log (apply_event e c) = c_log c @ [e]"
  by (simp_all add: apply_event_def rememberRecoveryPositions_def completeRecoveryPosition_def split: kevent.splits)

lemma plan_ok_filter: "plan_ok ps \<Longrightarrow> plan_ok (filter P ps)"
  by (simp add: plan_ok_def distinct_map inj_on_def)

lemma plan_ok_apply: "plan_ok (c_pending c) \<Longrightarrow> plan_ok (c_pending (apply_event e c))"
  by (auto simp: apply_event_def rememberRecoveryPositions_def completeRecoveryPosition_def mergeConsumerRewindPositions_def
      fold_add_ok plan_ok_filter split: kevent.splits)

lemma allow_fields [simp]:
  "c_client (allow b c) = c_client c" "c_phase (allow b c) = c_phase c" "c_closed (allow b c) = c_closed c"
  "c_closing (allow b c) = c_closing c" "c_pending (allow b c) = c_pending c" "c_created (allow b c) = c_created c"
  "closes (c_log (allow b c)) = closes (c_log c)"
  by (simp_all add: allow_def)

text \<open>The adjustment as a function of each partition.\<close>

definition durable :: "fetch_offsets \<Rightarrow> position \<Rightarrow> bool" where
  "durable offsets p \<longleftrightarrow> (case offsets (partition_of p) of None \<Rightarrow> False | Some (c, _) \<Rightarrow> 0 \<le> c \<and> p_offset p \<le> c)"

definition adjusted :: "position list \<Rightarrow> fetch_offsets \<Rightarrow> fetch_offsets" where
  "adjusted ps offsets k =
     (case offsets k of
        None \<Rightarrow> None
      | Some (c, e) \<Rightarrow>
          if 0 \<le> c then Some (c, e)
          else (case find (\<lambda>p. partition_of p = k) ps of None \<Rightarrow> Some (c, e) | Some p \<Rightarrow> Some (p_offset p, p_epoch p)))"

lemma find_absent: "k \<notin> partition_of ` set ps \<Longrightarrow> find (\<lambda>p. partition_of p = k) ps = None"
  by (auto simp: find_None_iff)

lemma adjust_loop_eq: "plan_ok ps \<Longrightarrow> adjust_loop ps offs = (adjusted ps offs, filter (\<lambda>p. \<not> durable offs p) ps)"
proof (induction ps arbitrary: offs)
  case Nil
  then show ?case by (auto simp: adjusted_def fun_eq_iff split: option.splits)
next
  case (Cons p ps)
  have ps: "plan_ok ps" "partition_of p \<notin> partition_of ` set ps" using Cons.prems by (auto simp: plan_ok_def)
  note none = find_absent [OF ps(2)]
  show ?case
  proof (cases "\<exists>c e. offs (partition_of p) = Some (c, e) \<and> c < 0")
    case True
    then obtain c e where c: "offs (partition_of p) = Some (c, e)" "c < 0" by blast
    let ?offs = "offs(partition_of p \<mapsto> (p_offset p, p_epoch p))"
    have "adjusted ps ?offs = adjusted (p # ps) offs"
      using c none by (auto simp: adjusted_def fun_eq_iff split: option.splits)
    moreover have "filter (\<lambda>q. \<not> durable ?offs q) ps = filter (\<lambda>q. \<not> durable offs q) ps"
    proof (rule filter_cong [OF refl])
      fix q assume "q \<in> set ps"
      then have "partition_of q \<noteq> partition_of p" using ps(2) by (metis imageI)
      then show "(\<not> durable ?offs q) = (\<not> durable offs q)" by (simp add: durable_def)
    qed
    moreover have "\<not> durable offs p" using c by (simp add: durable_def)
    ultimately have "(case adjust_loop ps ?offs of (o', kept) \<Rightarrow> (o', p # kept))
        = (adjusted (p # ps) offs, filter (\<lambda>p. \<not> durable offs p) (p # ps))"
      unfolding Cons.IH [OF ps(1), of ?offs] by simp
    then show ?thesis using c by simp
  next
    case False
    then have "adjusted ps offs = adjusted (p # ps) offs"
      by (auto simp: adjusted_def fun_eq_iff split: option.splits)
    then show ?thesis using False Cons.IH [OF ps(1), of offs] by (auto simp: durable_def split: option.splits)
  qed
qed

text \<open>
  Fetch offsets of newly assigned partitions: a committed offset is never changed, a partition without
  one starts at the remembered position instead of the configured end, no other partition is touched, and
  exactly the remembered positions that a committed offset has passed are forgotten.
\<close>

theorem adjustRecoveryOffsets_spec:
  assumes "plan_ok (c_pending c)"
  shows "adjustRecoveryOffsets None offsets c =
    (Inr (\<lambda>k. case offsets k of
        None \<Rightarrow> None
      | Some (committed, epoch) \<Rightarrow>
          if 0 \<le> committed then Some (committed, epoch)
          else (case find (\<lambda>p. partition_of p = k) (c_pending c) of
                  None \<Rightarrow> Some (committed, epoch)
                | Some p \<Rightarrow> Some (p_offset p, p_epoch p))),
     c\<lparr>c_pending := filter (\<lambda>p. \<not> (\<exists>committed epoch. offsets (partition_of p) = Some (committed, epoch)
                                       \<and> 0 \<le> committed \<and> p_offset p \<le> committed)) (c_pending c)\<rparr>)"
proof -
  have "durable offsets p \<longleftrightarrow> (\<exists>committed epoch. offsets (partition_of p) = Some (committed, epoch)
      \<and> 0 \<le> committed \<and> p_offset p \<le> committed)" for p
    by (auto simp: durable_def split: option.splits)
  then show ?thesis
    by (simp add: adjustRecoveryOffsets_def adjust_loop_eq [OF assms] adjusted_def [abs_def])
qed

theorem adjustRecoveryOffsets_spec_witness:
  "plan_ok [\<lparr>p_topic = ''t'', p_partition = 1, p_offset = 7, p_epoch = 3\<rparr>]
   \<and> (case fst (adjustRecoveryOffsets None (\<lambda>k. if k = (''t'', 1) then Some (- 1, 0) else None)
      (new_consumer\<lparr>c_pending := [\<lparr>p_topic = ''t'', p_partition = 1, p_offset = 7, p_epoch = 3\<rparr>]\<rparr>)) of
        Inl _ \<Rightarrow> False | Inr f \<Rightarrow> f (''t'', 1) = Some (7, 3))"
  using adjustRecoveryOffsets_spec [of "new_consumer\<lparr>c_pending := [\<lparr>p_topic = ''t'', p_partition = 1, p_offset = 7, p_epoch = 3\<rparr>]\<rparr>"]
  by (simp add: plan_ok_def partition_of_def)

section \<open>The invariant\<close>

lemma life_new: "life_ok new_consumer"
  by (simp add: life_defs new_consumer_def plan_ok_def)

lemma life_create:
  assumes "life_ok c" and "\<not> c_closed c" and "c_client c = None"
  shows "life_ok (c\<lparr>c_client := Some (c_created c), c_created := Suc (c_created c)\<rparr>)"
proof -
  have "run_client (c_phase c) = None" using assms by (cases "run_client (c_phase c)") (auto simp: life_defs)
  moreover have "c_created c \<notin> set (closes (c_log c))" using assms by (auto simp: life_defs)
  ultimately show ?thesis using assms by (auto simp: life_defs less_Suc_eq)
qed

lemma life_topics: "life_ok (c\<lparr>c_topics := ts\<rparr>) = life_ok c"
  by (simp add: life_defs)

lemma life_Connect: "life_ok c \<Longrightarrow> life_ok (snd (consumer_Connect a b ts c))"
  using life_create [of c] life_topics [of ts "c\<lparr>c_client := Some (c_created c), c_created := Suc (c_created c)\<rparr>"]
  by (auto simp: consumer_Connect_def split: option.splits)

lemma life_rebuild: "life_ok c \<Longrightarrow> \<not> c_closed c \<Longrightarrow> life_ok (snd (rebuild a b c)) \<and> \<not> c_closed (snd (rebuild a b c))
    \<and> (fst (rebuild a b c) = None \<longrightarrow> c_client (snd (rebuild a b c)) \<noteq> None)"
  using life_create [of c] by (auto simp: rebuild_def split: option.splits)

lemma life_begin: "life_ok c \<Longrightarrow> life_ok (snd (beginRun v a b c))"
proof -
  assume c: "life_ok c"
  obtain e c1 where c1: "rebuild a b c = (e, c1)" by force
  show ?thesis
  proof (cases "c_closed c")
    case False
    note r = life_rebuild [OF c False, of a b, unfolded c1 fst_conv snd_conv]
    have "life_ok (c1\<lparr>c_phase := Polling (the (c_client c1)), c_cancelled := False, c_pollStopped := False\<rparr>)"
      if "c_phase c1 = Idle" "e = None"
      using r that by (auto simp: life_defs)
    then show ?thesis using c c1 False r by (auto simp: beginRun_def split: option.splits)
  qed (simp add: c beginRun_def)
qed

lemma life_phase:
  assumes "life_ok c" and "run_client (c_phase c) = Some n" and "run_client p = Some n \<or> run_client p = None"
    and "\<forall>m e b. p \<noteq> Discarding m e b" and "\<forall>m log res sk. p = Working m log res sk \<longrightarrow> closes log = []"
  shows "life_ok (c\<lparr>c_phase := p\<rparr>)"
proof -
  have "\<forall>m e b. c_phase c \<noteq> Discarding m e b" "c_phase c \<noteq> Idle" using assms(2) by auto
  then show ?thesis using assms by (auto simp: life_defs)
qed

lemma life_clog: "life_ok c \<Longrightarrow> closed_id e = None \<Longrightarrow> life_ok (clog e c)"
  by (auto simp: life_defs)

lemma life_apply: "life_ok c \<Longrightarrow> closed_id e = None \<Longrightarrow> life_ok (apply_event e c)"
  by (auto simp: life_defs plan_ok_apply)

lemma life_allow: "life_ok c \<Longrightarrow> life_ok (allow b c)"
  by (simp add: allow_def life_clog)

lemma life_end_wave:
  assumes "life_ok c" and "c_phase c = Working n [] res sk"
  shows "life_ok (end_wave batch n res c)"
proof -
  have c1: "life_ok (clog AllowRebalance c)" using assms(1) by (simp add: life_clog)
  have "life_ok ((clog AllowRebalance c)\<lparr>c_phase := Polling n\<rparr>)"
    "life_ok ((clog AllowRebalance c)\<lparr>c_phase := Returning n None\<rparr>)"
    using life_phase [OF c1, of n "Polling n"] life_phase [OF c1, of n "Returning n None"] assms(2) by simp_all
  moreover have "life_ok (c\<lparr>c_phase := Failing n e True\<rparr>)" for e
    using life_phase [OF assms(1), of n "Failing n e True"] assms(2) by simp
  ultimately show ?thesis unfolding end_wave_def Let_def by (simp split: option.split)
qed

lemma life_retry:
  assumes "life_ok c" and "c_phase c = Failing n e b"
  shows "life_ok (prepareTransientRunRetry n e b c)"
proof -
  have return: "life_ok (d\<lparr>c_phase := Returning n (Some e)\<rparr>)" if "life_ok d" "c_phase d = Failing n e b" for d
    using life_phase [OF that(1), of n "Returning n (Some e)"] that(2) by simp
  have "life_ok (c\<lparr>c_client := None, c_phase := Discarding n e b\<rparr>)" if "\<not> c_closed c" "c_client c = Some n"
    using assms that by (auto simp: life_defs)
  then show ?thesis using assms return life_allow life_apply
    by (auto simp: prepareTransientRunRetry_def split: prod.splits)
qed

lemma life_discard:
  assumes "life_ok c" and "c_phase c = Discarding n e b"
  shows "life_ok ((allow b (clog (CloseClient n) c))\<lparr>c_phase := Returning n (Some e)\<rparr>)"
  using assms by (auto simp: life_defs)

lemma life_finish: "life_ok c \<Longrightarrow> c_phase c = Returning n r \<Longrightarrow> life_ok ((clog AllowRebalance c)\<lparr>c_phase := Idle\<rparr>)"
  by (auto simp: life_defs)

lemma life_adjust: "life_ok c \<Longrightarrow> life_ok (snd (adjustRecoveryOffsets e offs c))"
  by (cases e) (auto simp: life_defs adjustRecoveryOffsets_def adjust_loop_eq plan_ok_filter)

lemma life_close: "life_ok c \<Longrightarrow> life_ok (consumer_Close c)"
  by (auto simp: life_defs consumer_Close_def)

lemma life_signal: "life_ok c \<Longrightarrow> c_closing c = Some (CloseRequested cl) \<Longrightarrow> life_ok (finish_signal drain cl c)"
  by (auto simp: life_defs finish_signal_def Let_def)

lemma life_finish_close:
  "life_ok c \<Longrightarrow> c_closing c = Some (CloseWaiting cl) \<Longrightarrow> c_phase c = Idle \<Longrightarrow> life_ok (finish_close cl c)"
  by (auto simp: life_defs finish_close_def split: option.splits)

lemma life_step:
  assumes "consumer_step K c c'" and "life_ok c"
  shows "life_ok c'"
  using assms
proof cases
  case (poll_failed n records errs e)
  then show ?thesis using life_phase [OF assms(2), of n] by simp
next
  case (poll_ended n records errs)
  then show ?thesis using life_phase [OF assms(2), of n] by simp
next
  case (poll_wave n records errs starts log res)
  then show ?thesis using life_phase [OF assms(2), of n] closes_wave by simp
next
  case (work n e log res skipped)
  then have "closed_id e = None" "closes log = []" using assms(2) by (auto simp: life_defs split: option.splits)
  then show ?thesis using work life_phase [OF life_apply [OF assms(2)], of e n] by simp
qed (use assms(2) in \<open>auto intro: life_Connect life_begin life_end_wave life_retry life_discard life_finish life_adjust life_close
       life_signal life_finish_close\<close>)

text \<open>
  C9.  Shutdown.  In every reachable state of a consumer, under any interleaving of connecting, runs,
  failures, rebalances and closing: no client is closed twice, the client of a running poll loop is open
  and is the consumer's client, recovery positions name each partition once, and once a close has
  finished no run is active and every client ever created is closed.
\<close>

theorem consumer_closes_clients:
  assumes "consumer_reachable K c"
  shows "distinct (closes (c_log c)) \<and> plan_ok (c_pending c)
    \<and> (\<forall>n. run_client (c_phase c) = Some n \<longrightarrow> c_client c = Some n \<and> n \<notin> set (closes (c_log c)))
    \<and> (c_closing c = Some CloseDone \<longrightarrow> c_phase c = Idle \<and> set (closes (c_log c)) = {n. n < c_created c})"
proof -
  have life: "life_ok c" using assms by induction (auto intro: life_new life_step)
  then show ?thesis by (auto simp: life_defs)
qed

section \<open>No record is lost\<close>




section \<open>Rebalance callbacks\<close>

text \<open>Offsets are never committed for lost partitions; every hook sees the partitions sorted, at most once.\<close>

lemma lost_never_commits:
  "CommitMarkedOffsets \<notin> set (handlePartitionsLost H wait wait' lost)" "distinct (handlePartitionsLost H wait wait' lost)"
  by (auto simp: handlePartitionsLost_def invokePartitionsRevoked_def invoke_hooks_def Let_def)

lemma revoke_commits_first:
  "handlePartitionsRevoked H True wait revoked = CommitMarkedOffsets # tl (handlePartitionsRevoked H True wait revoked)"
  "distinct (handlePartitionsRevoked H autoCommit wait revoked)"
  by (auto simp: handlePartitionsRevoked_def invokePartitionsRevoked_def invoke_hooks_def)

lemma no_lifecycle_hook_when_closing:
  "hw_closing wait \<Longrightarrow> h_Revoked H \<Longrightarrow> RevokedLifecycle ps \<notin> set (handlePartitionsRevoked H autoCommit wait revoked)"
  by (auto simp: handlePartitionsRevoked_def invokePartitionsRevoked_def invoke_hooks_def awaitConsumerRebalanceHook_def)

section \<open>A consumer that is connected and closed\<close>

definition sample_config :: kafka_config where
  "sample_config = \<lparr>kc_run = sample_run False, kc_batch = False, kc_drain = True\<rparr>"

definition sample_connected_consumer :: consumer where
  "sample_connected_consumer = snd (consumer_Connect None None [\<lparr>tc_Topic = ''t'', tc_FromBeginning = True\<rparr>] new_consumer)"

definition sample_closed_consumer :: consumer where
  "sample_closed_consumer = finish_close (Some 0) (finish_signal True (Some 0) (consumer_Close sample_connected_consumer))"

lemma sample_client: "c_client sample_connected_consumer = Some 0" "c_closed sample_connected_consumer = False"
  "c_phase sample_connected_consumer = Idle"
  by code_simp+

lemma sample_closed_reachable: "consumer_reachable sample_config sample_closed_consumer"
proof -
  let ?c0 = sample_connected_consumer
  let ?c1 = "consumer_Close ?c0"
  let ?c2 = "finish_signal True (Some 0) ?c1"
  have "consumer_reachable sample_config ?c0"
    unfolding sample_connected_consumer_def by (rule reach_step [OF reach_init connect])
  then have r1: "consumer_reachable sample_config ?c1" by (rule reach_step [OF _ close])
  have s1: "c_closing ?c1 = Some (CloseRequested (Some 0))" "c_phase ?c1 = Idle"
    using sample_client by (simp_all add: consumer_Close_def)
  have "consumer_step sample_config ?c1 ?c2" using signal [OF s1(1), of sample_config] by (simp add: sample_config_def)
  then have r2: "consumer_reachable sample_config ?c2" by (rule reach_step [OF r1])
  have s2: "c_closing ?c2 = Some (CloseWaiting (Some 0))" "c_phase ?c2 = Idle" using s1 by (simp_all add: finish_signal_def Let_def)
  show ?thesis unfolding sample_closed_consumer_def by (rule reach_step [OF r2 close_finished [OF s2]])
qed

theorem consumer_closes_clients_witness:
  "c_closing sample_closed_consumer = Some CloseDone
   \<and> set (closes (c_log sample_closed_consumer)) = {n. n < c_created sample_closed_consumer} \<and> c_phase sample_closed_consumer = Idle"
  using consumer_closes_clients [OF sample_closed_reachable]
  by (simp add: sample_closed_consumer_def finish_close_def)


end
