(* ===== verification/Confluent_Consumer.thy ===== *)
theory Confluent_Consumer
  imports Kafka_Lifecycle
begin

text \<open>
  The consumer of the Confluent driver (\<^verbatim>\<open>kafka/confluent.go\<close>): what a worker does with the records of one
  partition, the grouping of gathered records, the generations of partition assignments that fence
  records gathered before a rebalance, and exact seeks.

  As in \<^verbatim>\<open>Kafka_Consumer\<close> a worker is a function of the answers it gets and logs its calls.  The event
  \<open>CtxDone\<close> stands for the worker seeing that its run was cancelled.
\<close>

section \<open>Messages\<close>

record topic_partition =
  tp_Topic :: "string option"
  tp_Partition :: int
  tp_Offset :: int
  tp_Error :: "kerror option"

record cmessage =
  m_TopicPartition :: topic_partition
  m_Key :: "string option"
  m_Value :: "string option"
  m_Headers :: "(string \<times> string option) list"
  m_Timestamp :: int

definition confluentTopicName :: "string option \<Rightarrow> string" where
  "confluentTopicName t = (case t of None \<Rightarrow> '''' | Some x \<Rightarrow> x)"

type_synonym partition_key = "string \<times> int"

definition tp_key :: "topic_partition \<Rightarrow> partition_key" where
  "tp_key t = (confluentTopicName (tp_Topic t), tp_Partition t)"

definition m_partition :: "cmessage \<Rightarrow> partition_key" where
  "m_partition m = tp_key (m_TopicPartition m)"

definition m_offset :: "cmessage \<Rightarrow> int" where
  "m_offset m = tp_Offset (m_TopicPartition m)"

definition confluentRecordPosition :: "cmessage \<Rightarrow> position" where
  "confluentRecordPosition m =
     \<lparr>p_topic = fst (m_partition m), p_partition = snd (m_partition m), p_offset = m_offset m, p_epoch = 0\<rparr>"

definition mapConfluentToPayload :: "cmessage \<Rightarrow> MessagePayload" where
  "mapConfluentToPayload m =
     \<lparr>mp_Topic = fst (m_partition m), mp_Partition = snd (m_partition m), mp_Offset = m_offset m, mp_Key = m_Key m,
      mp_Value = m_Value m, mp_Headers = m_Headers m, mp_Timestamp = m_Timestamp m\<rparr>"

section \<open>Run options\<close>

definition hasAdvancedControls :: "ConsumerAdvancedOptions \<Rightarrow> bool" where
  "hasAdvancedControls opts \<longleftrightarrow> ko_CommitBeforeHandler opts \<or> ko_OffsetFinalizer opts
     \<or> ko_ResolveAfterSuccessfulFinalizer opts \<or> ko_NullOffsetCommitMetadata opts \<or> ko_RedeliverUnresolvedFinalizer opts"

definition rejectUnsupportedLegacyRunOptions :: "bool \<Rightarrow> ConsumerAdvancedOptions \<Rightarrow> kerror option" where
  "rejectUnsupportedLegacyRunOptions legacy opts =
     (if \<not> legacy then None
      else if hasAdvancedControls opts \<or> ko_PartitionsConsumedConcurrently opts \<noteq> 0 \<or> ko_PollTimeout opts \<noteq> 0
              \<or> ko_MaxRecords opts \<noteq> 0
      then Some (Sentinel ''kafka/confluent: consumer created with Consumer does not support complete run options; create it with ConsumerWithSettings'')
      else None)"

record confluent_run =
  cr_legacy :: bool
  cr_AutoCommit :: bool
  cr_auto :: bool
  cr_opts :: ConsumerAdvancedOptions

text \<open>A legacy consumer keeps only the commit mode of its options and works on one record at a time.\<close>

definition legacy_options :: "ConsumerAdvancedOptions \<Rightarrow> ConsumerAdvancedOptions" where
  "legacy_options opts =
     \<lparr>ko_AutoCommit = ko_AutoCommit opts, ko_CommitBeforeHandler = False, ko_OffsetFinalizer = False,
      ko_ResolveAfterSuccessfulFinalizer = False, ko_NullOffsetCommitMetadata = False,
      ko_RedeliverUnresolvedFinalizer = False, ko_PartitionsConsumedConcurrently = 0, ko_PollTimeout = 0, ko_MaxRecords = 0\<rparr>"

definition run_settings ::
    "bool \<Rightarrow> bool \<Rightarrow> bool \<Rightarrow> ConsumerAdvancedOptions \<Rightarrow> kerror + confluent_run \<times> int \<times> int" where
  "run_settings batch legacy configAuto opts =
     (let default = (if batch then 1000000000 else 100000000)
      in if legacy
         then Inr (\<lparr>cr_legacy = True, cr_AutoCommit = configAuto, cr_auto = resolveAutoCommit configAuto (ko_AutoCommit opts),
                    cr_opts = legacy_options opts\<rparr>, default, 1)
         else map_sum id (\<lambda>(auto, timeout, concurrency).
                (\<lparr>cr_legacy = False, cr_AutoCommit = configAuto, cr_auto = auto, cr_opts = opts\<rparr>, timeout, concurrency))
              (validateConfluentConsumerOptions configAuto opts default))"

definition wave_size :: "bool \<Rightarrow> bool \<Rightarrow> ConsumerAdvancedOptions \<Rightarrow> int \<Rightarrow> int" where
  "wave_size batch legacy opts concurrency =
     (if batch then (if ko_MaxRecords opts \<le> 0 then 100 else ko_MaxRecords opts)
      else if legacy then 1
      else let n = (if ko_MaxRecords opts \<le> 0 then concurrency else ko_MaxRecords opts) in if n < 1 then 1 else n)"

section \<open>Calls and answers\<close>

datatype cevent =
    CHandle cmessage answer
  | CHandleBatch "cmessage list" BatchPayload answer
  | CFinalize cmessage "kerror option" final_answer
  | CommitMessage cmessage "kerror option"
  | StoreMessage cmessage "kerror option"
  | CommitOffsets cmessage int bool "kerror option"
  | CommitAgain cmessage int
  | CtxDone

type_synonym cworker = "cevent progress"

record confluent_env =
  ce_done :: "cevent list \<Rightarrow> bool"
  ce_handler :: "MessagePayload \<Rightarrow> cevent list \<Rightarrow> answer"
  ce_batch :: "BatchPayload \<Rightarrow> cevent list \<Rightarrow> answer"
  ce_commit :: "cmessage \<Rightarrow> cevent list \<Rightarrow> kerror option"
  ce_store :: "cmessage \<Rightarrow> cevent list \<Rightarrow> kerror option"
  ce_offsets :: "cmessage \<Rightarrow> int \<Rightarrow> cevent list \<Rightarrow> kerror option"
  ce_calls :: "MessagePayload \<Rightarrow> kerror option \<Rightarrow> cevent list \<Rightarrow> int list"
  ce_final :: "MessagePayload \<Rightarrow> kerror option \<Rightarrow> cevent list \<Rightarrow> final_answer"

text \<open>Errors of the driver carry no rewind plan: the types that do are private to the package.\<close>

definition driver_errors :: "confluent_env \<Rightarrow> bool" where
  "driver_errors env \<longleftrightarrow>
     (\<forall>m evs e. ce_commit env m evs = Some e \<longrightarrow> \<not> planned e) \<and> (\<forall>m evs e. ce_store env m evs = Some e \<longrightarrow> \<not> planned e)"

definition commit_message :: "confluent_env \<Rightarrow> cmessage \<Rightarrow> cworker \<Rightarrow> kerror option \<times> cworker" where
  "commit_message env m w = (let a = ce_commit env m (w_events w) in (a, wlog (CommitMessage m a) w))"

definition store_message :: "confluent_env \<Rightarrow> cmessage \<Rightarrow> cworker \<Rightarrow> kerror option \<times> cworker" where
  "store_message env m w = (let a = ce_store env m (w_events w) in (a, wlog (StoreMessage m a) w))"

definition commit_offsets :: "confluent_env \<Rightarrow> cmessage \<Rightarrow> int \<Rightarrow> bool \<Rightarrow> cworker \<Rightarrow> kerror option \<times> cworker" where
  "commit_offsets env m exact nullMetadata w =
     (let a = ce_offsets env m exact (w_events w) in (a, wlog (CommitOffsets m exact nullMetadata a) w))"

definition commits_first :: "confluent_run \<Rightarrow> bool" where
  "commits_first R \<longleftrightarrow> \<not> cr_auto R \<and> ko_CommitBeforeHandler (cr_opts R)"

definition resolveMessageOffset ::
    "confluent_run \<Rightarrow> confluent_env \<Rightarrow> cmessage \<Rightarrow> bool \<Rightarrow> cworker \<Rightarrow> kerror option \<times> cworker" where
  "resolveMessageOffset R env m committedBeforeHandler w =
     (if cr_legacy R \<and> cr_auto R then (None, w)
      else if \<not> cr_auto R \<and> committedBeforeHandler then (None, w)
      else if cr_auto R \<and> cr_AutoCommit R
      then map_prod (map_option (Wrapf ''kafka/confluent: post-handler offset store failed: %w'')) id (store_message env m w)
      else map_prod (map_option (Wrapf ''kafka/confluent: post-handler commit failed: %w'')) id (commit_message env m w))"

section \<open>One message\<close>

text \<open>What a record leads to: the next one, the end of the group, or the end of the goroutine.\<close>

datatype after = Continue | Stop "kerror option" | Exit

text \<open>The finalizer commits an exact offset through a function that works once.\<close>

fun exact_calls :: "confluent_run \<Rightarrow> confluent_env \<Rightarrow> cmessage \<Rightarrow> bool \<Rightarrow> int list \<Rightarrow> cworker \<Rightarrow> cworker" where
  "exact_calls R env m called [] w = w"
| "exact_calls R env m called (x # xs) w =
     (if called then exact_calls R env m True xs (wlog (CommitAgain m x) w)
      else exact_calls R env m True xs (snd (commit_offsets env m x (ko_NullOffsetCommitMetadata (cr_opts R)) w)))"

fun hasExactOffsetCommitError :: "kerror \<Rightarrow> bool" where
  "hasExactOffsetCommitError (exactOffsetCommitError e) = True"
| "hasExactOffsetCommitError (Wrapf _ e) = hasExactOffsetCommitError e"
| "hasExactOffsetCommitError (Joined es) = list_ex hasExactOffsetCommitError es"
| "hasExactOffsetCommitError (TransientConsumerError e) = hasExactOffsetCommitError e"
| "hasExactOffsetCommitError (consumerHandlerError _ e _) = hasExactOffsetCommitError e"
| "hasExactOffsetCommitError (consumerRewindError e _) = hasExactOffsetCommitError e"
| "hasExactOffsetCommitError (kafkaJSPollRewindError e _) = hasExactOffsetCommitError e"
| "hasExactOffsetCommitError _ = False"

definition finalizer_error :: "cmessage \<Rightarrow> kerror option \<Rightarrow> kerror \<Rightarrow> bool \<Rightarrow> kerror" where
  "finalizer_error m handlerErr e wraps =
     (if hasExactOffsetCommitError e then Wrapf ''kafka/confluent: exact offset commit failed: %w'' e
      else if handlerErr \<noteq> None \<and> wraps
      then newConsumerHandlerErrorAt ''kafka/confluent: message handler failed'' e (confluentRecordPosition m)
      else Wrapf ''kafka/confluent: offset finalizer failed: %w'' e)"

definition resolve_finalized :: "confluent_run \<Rightarrow> confluent_env \<Rightarrow> cmessage \<Rightarrow> cworker \<Rightarrow> kerror option \<times> cworker" where
  "resolve_finalized R env m w =
     (if ko_NullOffsetCommitMetadata (cr_opts R)
      then map_prod (map_option (Wrapf ''kafka/confluent: post-handler commit failed: %w'')) id
             (commit_offsets env m (next_offset (m_offset m)) True w)
      else resolveMessageOffset R env m False w)"

definition stop_at :: "cmessage \<Rightarrow> kerror option \<times> cworker \<Rightarrow> after \<times> cworker" where
  "stop_at m x =
     (case x of (None, w) \<Rightarrow> (Continue, w)
      | (Some e, w) \<Rightarrow> (Stop (withConsumerRewindPosition (Some e) (confluentRecordPosition m)), w))"

definition finalized_message :: "confluent_run \<Rightarrow> confluent_env \<Rightarrow> cmessage \<Rightarrow> cworker \<Rightarrow> after \<times> cworker" where
  "finalized_message R env m w =
     (let payload = mapConfluentToPayload m; a = ce_handler env payload (w_events w); w1 = wlog (CHandle m a) w
      in case a of
           Goexit \<Rightarrow> (Exit, w1)
         | Returns handlerErr \<Rightarrow>
             (let w2 = exact_calls R env m False (ce_calls env payload handlerErr (w_events w1)) w1;
                  f = ce_final env payload handlerErr (w_events w2); w3 = wlog (CFinalize m handlerErr f) w2
              in case f of
                   FGoexit \<Rightarrow> (Exit, w3)
                 | FReturns (Some e) wraps \<Rightarrow> stop_at m (Some (finalizer_error m handlerErr e wraps), w3)
                 | FReturns None _ \<Rightarrow>
                     if handlerErr = None \<and> ko_ResolveAfterSuccessfulFinalizer (cr_opts R)
                     then stop_at m (resolve_finalized R env m w3)
                     else (Continue, w3)))"

definition newConsumerCommittedHandlerError :: "string \<Rightarrow> kerror \<Rightarrow> position option \<Rightarrow> kerror" where
  "newConsumerCommittedHandlerError text cause nxt =
     (case nxt of None \<Rightarrow> newConsumerHandlerError text cause
      | Some p \<Rightarrow> consumerRewindError (newConsumerHandlerError text cause) p)"

text \<open>A failed handler, by the kind of consumer; the run may have been cancelled in the meantime.\<close>

definition handler_failed ::
    "confluent_run \<Rightarrow> confluent_env \<Rightarrow> cmessage \<Rightarrow> position option \<Rightarrow> kerror \<Rightarrow> cworker \<Rightarrow> after \<times> cworker" where
  "handler_failed R env m nxt e w =
     (if cr_legacy R then (Continue, w)
      else if isConsumerRunCancellation (if ce_done env (w_events w) then Some Canceled else None) e
      then (Stop None, wlog CtxDone w)
      else if commits_first R
      then (Stop (Some (newConsumerCommittedHandlerError ''kafka/confluent: message handler failed'' e nxt)), w)
      else (Stop (Some (newConsumerHandlerErrorAt ''kafka/confluent: message handler failed'' e (confluentRecordPosition m))), w))"

definition plain_message ::
    "confluent_run \<Rightarrow> confluent_env \<Rightarrow> cmessage \<Rightarrow> position option \<Rightarrow> cworker \<Rightarrow> after \<times> cworker" where
  "plain_message R env m nxt w =
     (let a = ce_handler env (mapConfluentToPayload m) (w_events w); w1 = wlog (CHandle m a) w
      in case a of
           Goexit \<Rightarrow> (Exit, w1)
         | Returns (Some e) \<Rightarrow> handler_failed R env m nxt e w1
         | Returns None \<Rightarrow>
             (case resolveMessageOffset R env m (ko_CommitBeforeHandler (cr_opts R)) w1 of
                (Some e, w2) \<Rightarrow> if cr_legacy R then (Continue, w2) else stop_at m (Some e, w2)
              | (None, w2) \<Rightarrow> (Continue, w2)))"

definition one_message ::
    "confluent_run \<Rightarrow> confluent_env \<Rightarrow> cmessage \<Rightarrow> position option \<Rightarrow> cworker \<Rightarrow> after \<times> cworker" where
  "one_message R env m nxt w =
     (let act = (\<lambda>w. if ko_OffsetFinalizer (cr_opts R) then finalized_message R env m w else plain_message R env m nxt w)
      in if commits_first R
         then (case commit_message env m w of
                 (Some e, w1) \<Rightarrow> stop_at m (Some (Wrapf ''kafka/confluent: pre-handler commit failed: %w'' e), w1)
               | (None, w1) \<Rightarrow> act (markConsumerWorkerCommitted w1))
         else act w)"

section \<open>One group\<close>

fun processMessageGroup :: "confluent_run \<Rightarrow> confluent_env \<Rightarrow> cmessage list \<Rightarrow> cworker \<Rightarrow> result \<times> cworker" where
  "processMessageGroup R env [] w = (Done None, w)"
| "processMessageGroup R env (m # ms) w =
     (if \<not> cr_legacy R \<and> ce_done env (w_events w) then (Done None, wlog CtxDone w)
      else let nxt = (case ms of [] \<Rightarrow> None | q # _ \<Rightarrow> Some (confluentRecordPosition q))
      in case one_message R env m nxt (setConsumerWorkerPosition (confluentRecordPosition m) nxt w) of
           (Continue, w1) \<Rightarrow> processMessageGroup R env ms w1
         | (Stop e, w1) \<Rightarrow> (Done e, w1)
         | (Exit, w1) \<Rightarrow> (Exited, w1))"

record cgroup =
  g_payload :: BatchPayload
  g_messages :: "cmessage list"
  g_last :: "cmessage option"
  g_known :: bool
  g_generation :: nat

definition batch_failed :: "confluent_run \<Rightarrow> confluent_env \<Rightarrow> cgroup \<Rightarrow> kerror \<Rightarrow> cworker \<Rightarrow> result \<times> cworker" where
  "batch_failed R env g e w =
     (if cr_legacy R then (Done (Some e), w)
      else if isConsumerRunCancellation (if ce_done env (w_events w) then Some Canceled else None) e
      then (Done None, wlog CtxDone w)
      else if commits_first R then (Done (Some (newConsumerHandlerError '''' e)), w)
      else (Done (Some (newConsumerHandlerErrorAt '''' e (confluentRecordPosition (hd (g_messages g))))), w))"

text \<open>A group of at least one message, with the last one.\<close>

definition processBatchGroup :: "confluent_run \<Rightarrow> confluent_env \<Rightarrow> cgroup \<Rightarrow> cworker \<Rightarrow> result \<times> cworker" where
  "processBatchGroup R env g w =
     (let first_pos = confluentRecordPosition (hd (g_messages g)); last_message = the (g_last g);
          w0 = setConsumerWorkerPosition first_pos None w;
          act = (\<lambda>w. let a = ce_batch env (g_payload g) (w_events w); w1 = wlog (CHandleBatch (g_messages g) (g_payload g) a) w
                 in case a of
                      Goexit \<Rightarrow> (Exited, w1)
                    | Returns (Some e) \<Rightarrow> batch_failed R env g e w1
                    | Returns None \<Rightarrow>
                        (case resolveMessageOffset R env last_message (ko_CommitBeforeHandler (cr_opts R)) w1 of
                           (Some e, w2) \<Rightarrow> if cr_legacy R then (Done None, w2)
                                          else (Done (withConsumerRewindPosition (Some e) first_pos), w2)
                         | (None, w2) \<Rightarrow> (Done None, w2)))
      in if commits_first R
         then (case commit_message env last_message w0 of
                 (Some e, w1) \<Rightarrow>
                   (Done (withConsumerRewindPosition (Some (Wrapf ''kafka/confluent: pre-handler batch commit failed: %w'' e)) first_pos), w1)
               | (None, w1) \<Rightarrow> act (markConsumerWorkerCommitted w1))
         else act w0)"

definition process_cgroup :: "bool \<Rightarrow> confluent_run \<Rightarrow> confluent_env \<Rightarrow> cgroup \<Rightarrow> cworker \<Rightarrow> result \<times> cworker" where
  "process_cgroup batch R env g = (if batch then processBatchGroup R env g else processMessageGroup R env (g_messages g))"

text \<open>The error a worker reports and the calls it made.\<close>

definition group_outcome :: "bool \<Rightarrow> confluent_run \<Rightarrow> confluent_env \<Rightarrow> cgroup \<Rightarrow> kerror option \<times> cevent list" where
  "group_outcome batch R env g =
     (let x = process_cgroup batch R env g
                (newConsumerWorkerContext (case g_messages g of [] \<Rightarrow> None | m # _ \<Rightarrow> Some (confluentRecordPosition m)))
      in (worker_error x, w_events (snd x)))"

section \<open>Grouping\<close>

text \<open>Gathered messages with the assignment they were read under; a missing message is skipped.\<close>

type_synonym snapshot = "bool \<times> nat"

definition cgroup_key :: "cmessage \<Rightarrow> snapshot \<Rightarrow> string" where
  "cgroup_key m s = fst (m_partition m) @ [CHR 0x00] @ itoa_int (snd (m_partition m))
     @ (if fst s then [CHR 0x00] @ itoa (snd s) else [])"

definition new_cgroup :: "cmessage \<Rightarrow> snapshot \<Rightarrow> cgroup" where
  "new_cgroup m s =
     \<lparr>g_payload = \<lparr>bp_Topic = fst (m_partition m), bp_Partition = snd (m_partition m), bp_Messages = [],
                   bp_FirstOffset = m_offset m, bp_LastOffset = 0\<rparr>,
      g_messages = [], g_last = None, g_known = fst s, g_generation = snd s\<rparr>"

definition extend_cgroup :: "cmessage \<Rightarrow> cgroup \<Rightarrow> cgroup" where
  "extend_cgroup m g =
     g\<lparr>g_payload := (g_payload g)\<lparr>bp_Messages := bp_Messages (g_payload g) @ [mapConfluentToPayload m], bp_LastOffset := m_offset m\<rparr>,
       g_messages := g_messages g @ [m], g_last := Some m\<rparr>"

definition add_message :: "cmessage option \<times> snapshot \<Rightarrow> cgroup gomap \<Rightarrow> cgroup gomap" where
  "add_message x groups =
     (case x of
        (None, _) \<Rightarrow> groups
      | (Some m, s) \<Rightarrow>
          (case go_get groups (cgroup_key m s) of
             None \<Rightarrow> groups @ [(cgroup_key m s, extend_cgroup m (new_cgroup m s))]
           | Some g \<Rightarrow> go_set (cgroup_key m s) (extend_cgroup m g) groups))"

definition groupConfluentBatchMessagesWithAssignments :: "(cmessage option \<times> snapshot) list \<Rightarrow> cgroup list" where
  "groupConfluentBatchMessagesWithAssignments xs = map snd (fold add_message xs [])"

definition groupConfluentBatchMessages :: "cmessage option list \<Rightarrow> cgroup list" where
  "groupConfluentBatchMessages ms = groupConfluentBatchMessagesWithAssignments (map (\<lambda>m. (m, False, 0)) ms)"

definition legacyConfluentBatchGroup :: "cmessage list \<Rightarrow> cgroup" where
  "legacyConfluentBatchGroup ms =
     (let zero = \<lparr>g_payload = \<lparr>bp_Topic = '''', bp_Partition = 0, bp_Messages = [], bp_FirstOffset = 0, bp_LastOffset = 0\<rparr>,
                  g_messages = [], g_last = None, g_known = False, g_generation = 0\<rparr>
      in case ms of [] \<Rightarrow> zero | m # _ \<Rightarrow> fold extend_cgroup ms (new_cgroup m (False, 0)))"

section \<open>Assignments\<close>

text \<open>The generation at which each owned partition was assigned.\<close>

record assignments =
  as_known :: bool
  as_generation :: nat
  as_parts :: "partition_key \<rightharpoonup> nat"

definition assign_part :: "nat \<Rightarrow> topic_partition \<Rightarrow> (partition_key \<rightharpoonup> nat) \<Rightarrow> partition_key \<rightharpoonup> nat" where
  "assign_part n t m = (case tp_Topic t of None \<Rightarrow> m | Some x \<Rightarrow> m((x, tp_Partition t) \<mapsto> n))"

definition markPartitionsAssigned :: "topic_partition list \<Rightarrow> bool \<Rightarrow> assignments \<Rightarrow> assignments" where
  "markPartitionsAssigned parts cooperative a =
     (let n = Suc (as_generation a)
      in a\<lparr>as_known := True, as_generation := n,
           as_parts := fold (assign_part n) parts (if cooperative then as_parts a else Map.empty)\<rparr>)"

definition revoke_part :: "topic_partition \<Rightarrow> (partition_key \<rightharpoonup> nat) \<Rightarrow> partition_key \<rightharpoonup> nat" where
  "revoke_part t m = (case tp_Topic t of None \<Rightarrow> m | Some x \<Rightarrow> m((x, tp_Partition t) := None))"

definition markPartitionsRevoked :: "topic_partition list \<Rightarrow> bool \<Rightarrow> assignments \<Rightarrow> assignments" where
  "markPartitionsRevoked parts cooperative a =
     a\<lparr>as_known := True, as_generation := Suc (as_generation a),
       as_parts := (if cooperative then fold revoke_part parts (as_parts a) else Map.empty)\<rparr>"

definition assignmentSnapshot :: "assignments \<Rightarrow> cmessage \<Rightarrow> snapshot" where
  "assignmentSnapshot a m =
     (if \<not> as_known a \<or> tp_Topic (m_TopicPartition m) = None then (False, 0)
      else (True, case as_parts a (m_partition m) of None \<Rightarrow> 0 | Some n \<Rightarrow> n))"

text \<open>Whether a group may be dispatched; the lease is held until the group has ended.\<close>

definition beginPartitionDispatch :: "assignments \<Rightarrow> cgroup \<Rightarrow> bool" where
  "beginPartitionDispatch a g =
     (if as_known a \<and> g_messages g \<noteq> []
      then let t = m_TopicPartition (hd (g_messages g))
           in tp_Topic t \<noteq> None
              \<and> (case as_parts a (tp_key t) of
                   None \<Rightarrow> False
                 | Some n \<Rightarrow> \<not> (g_known g \<and> g_generation g \<noteq> n))
      else True)"

section \<open>Exact seeks\<close>

definition seek_request :: "position \<Rightarrow> topic_partition" where
  "seek_request p = \<lparr>tp_Topic = Some (p_topic p), tp_Partition = p_partition p, tp_Offset = p_offset p, tp_Error = None\<rparr>"

fun check_seeks :: "topic_partition list \<Rightarrow> partition_key list \<Rightarrow> kerror option" where
  "check_seeks [] expected =
     (if expected \<noteq> [] then Some (Sentinel ''partition seek omitted %d requested partition(s)'') else None)"
| "check_seeks (t # ts) expected =
     (case tp_Error t of
        Some e \<Rightarrow> Some (Wrapf ''partition seek failed for %s[%d]: %w'' e)
      | None \<Rightarrow>
          if tp_key t \<notin> set expected then Some (Sentinel ''partition seek returned unexpected result for %s[%d]'')
          else check_seeks ts (removeAll (tp_key t) expected))"

definition seekConfluentPositions ::
    "(topic_partition list \<Rightarrow> kerror + topic_partition list) \<Rightarrow> position list \<Rightarrow> kerror option" where
  "seekConfluentPositions SeekPartitions positions =
     (if positions = [] then None
      else case SeekPartitions (map seek_request positions) of
             Inl e \<Rightarrow> Some e
           | Inr results \<Rightarrow>
               if length results \<noteq> length positions
               then Some (Sentinel ''partition seek returned %d result(s) for %d request(s)'')
               else check_seeks results (map (tp_key \<circ> seek_request) positions))"

definition rewindPositionsStillOwned ::
    "partition_key list \<Rightarrow> topic_partition list option \<Rightarrow> position list \<Rightarrow> position list" where
  "rewindPositionsStillOwned revoked assigned positions =
     filter (\<lambda>p. partition_of p \<notin> set revoked
               \<and> (case assigned of None \<Rightarrow> True | Some ts \<Rightarrow> partition_of p \<in> tp_key ` set ts)) positions"

end
