(* ===== verification/Confluent_Lifecycle.thy ===== *)
theory Confluent_Lifecycle
  imports Confluent_Consumer
begin

text \<open>
  Runs of the Confluent consumer (\<^verbatim>\<open>kafka/confluent.go\<close>) as a step relation: connecting, the read loop, the
  workers of a wave with their leases, exact rewinds and the ones left pending, rebalances and closing.
  Each section under a lock is one step.  Rebalance callbacks may run at any moment no lease is held.

  The driver is described by what the code relies on: it delivers the records of an owned partition in
  order from its fetch position, a partition that a seek reports without an error has been moved, and its
  errors carry no rewind plan.  The contents of the partitions are a parameter.  The log records the
  calls with the assignment they belong to.
\<close>

section \<open>State\<close>

datatype cstatus = Waiting | Launched | Active "cevent list" "kerror option" | Ended "kerror option"

type_synonym wave = "(cgroup \<times> cstatus) list"

datatype dphase =
    DIdle
  | DStarting nat
  | DApplying nat "position list"
  | DApplySeek nat "position list" "position list"
  | DApplied nat "position list"
  | DReading nat "(cmessage \<times> snapshot) list"
  | DWave nat wave "kerror option"
  | DFailing nat kerror
  | DSeeking nat kerror "position list"
  | DRecording nat kerror "position list"
  | DReturning nat "kerror option"

datatype devent =
    DRead snapshot cmessage
  | DWork snapshot cevent
  | DSeek "position list" "kerror option"
  | DClose nat

record ConfluentConsumer =
  d_closed :: bool
  d_client :: "nat option"
  d_created :: nat
  d_topics :: "string list"
  d_phase :: dphase
  d_cancelled :: bool
  d_closing :: "closing option"
  d_pending :: "position list"
  d_revoked :: "partition_key list"
  d_assign :: assignments
  d_fetch :: "partition_key \<Rightarrow> int"
  d_log :: "devent list"

definition new_confluent :: ConfluentConsumer where
  "new_confluent = \<lparr>d_closed = False, d_client = None, d_created = 0, d_topics = [], d_phase = DIdle, d_cancelled = False,
     d_closing = None, d_pending = [], d_revoked = [],
     d_assign = \<lparr>as_known = False, as_generation = 0, as_parts = Map.empty\<rparr>, d_fetch = (\<lambda>_. 0), d_log = []\<rparr>"

definition dlog :: "devent \<Rightarrow> ConfluentConsumer \<Rightarrow> ConfluentConsumer" where
  "dlog e c = c\<lparr>d_log := d_log c @ [e]\<rparr>"

section \<open>Connecting and runs\<close>

text \<open>A driver is created and subscribed; one that cannot subscribe is closed again.\<close>

definition create_driver ::
    "string \<Rightarrow> string \<Rightarrow> kerror option \<Rightarrow> kerror option \<Rightarrow> ConfluentConsumer \<Rightarrow> kerror option \<times> ConfluentConsumer" where
  "create_driver createText subscribeText createErr subscribeErr c =
     (case createErr of
        Some e \<Rightarrow> (Some (Wrapf createText e), c)
      | None \<Rightarrow>
          let n = d_created c; c1 = c\<lparr>d_created := Suc n\<rparr>
          in case subscribeErr of
               Some e \<Rightarrow> (Some (Wrapf subscribeText e), dlog (DClose n) c1)
             | None \<Rightarrow> (None, c1\<lparr>d_client := Some n\<rparr>))"

definition confluent_Connect ::
    "kerror option \<Rightarrow> kerror option \<Rightarrow> TopicConfig list \<Rightarrow> ConfluentConsumer \<Rightarrow> kerror option \<times> ConfluentConsumer" where
  "confluent_Connect createErr subscribeErr topics c =
     (if d_closed c then (Some (Sentinel ''kafka/confluent: consumer is closed''), c)
      else if d_client c \<noteq> None then (None, c)
      else case validateUniformTopicStart topics of
        Some e \<Rightarrow> (Some (Wrapf ''kafka/confluent: connect: %w'' e), c)
      | None \<Rightarrow>
     (case create_driver ''kafka/confluent: consumer group connect failed: %w'' ''kafka/confluent: subscribe failed: %w''
             createErr subscribeErr c of
        (Some e, c1) \<Rightarrow> (Some e, c1)
      | (None, c1) \<Rightarrow> (None, c1\<lparr>d_topics := map tc_Topic topics\<rparr>)))"

definition reconnect :: "kerror option \<Rightarrow> kerror option \<Rightarrow> ConfluentConsumer \<Rightarrow> kerror option \<times> ConfluentConsumer" where
  "reconnect createErr subscribeErr c =
     (if d_client c \<noteq> None then (None, c)
      else if d_closed c \<or> d_topics c = [] then (Some (Sentinel ''kafka/confluent: consumer not connected''), c)
      else create_driver ''kafka/confluent: reconnect consumer group failed: %w'' ''kafka/confluent: reconnect subscribe failed: %w''
             createErr subscribeErr c)"

definition beginConsumeRun :: "kerror option \<Rightarrow> kerror option \<Rightarrow> ConfluentConsumer \<Rightarrow> kerror option \<times> ConfluentConsumer" where
  "beginConsumeRun createErr subscribeErr c =
     (case reconnect createErr subscribeErr c of
        (Some e, c1) \<Rightarrow> (Some e, c1)
      | (None, c1) \<Rightarrow>
          if d_closed c1 then (Some (Sentinel ''kafka/confluent: consumer is closed''), c1)
          else if d_phase c1 \<noteq> DIdle then (Some (Sentinel ''kafka/confluent: consumer is already running''), c1)
          else (None, c1\<lparr>d_phase := DStarting (the (d_client c1)), d_cancelled := False\<rparr>))"

section \<open>Pending rewinds\<close>

text \<open>
  \<^verbatim>\<open>applyPendingRewinds\<close>: copy the positions, keep those still owned, seek, and forget the copied ones.
\<close>

definition apply_begin :: "nat \<Rightarrow> ConfluentConsumer \<Rightarrow> ConfluentConsumer" where
  "apply_begin n c =
     c\<lparr>d_phase := (if d_closed c \<or> d_client c \<noteq> Some n \<or> d_pending c = [] then DReading n []
                    else DApplying n (d_pending c))\<rparr>"

definition apply_filter :: "topic_partition list option \<Rightarrow> nat \<Rightarrow> position list \<Rightarrow> ConfluentConsumer \<Rightarrow> ConfluentConsumer" where
  "apply_filter assigned n ps c = c\<lparr>d_phase := DApplySeek n ps (rewindPositionsStillOwned (d_revoked c) assigned ps)\<rparr>"

definition apply_seek ::
    "nat \<Rightarrow> position list \<Rightarrow> position list \<Rightarrow> kerror option \<Rightarrow> (partition_key \<Rightarrow> int) \<Rightarrow> ConfluentConsumer \<Rightarrow> ConfluentConsumer" where
  "apply_seek n ps owned err fetch c =
     (if owned = [] then c else dlog (DSeek owned err) c)\<lparr>d_fetch := fetch,
        d_phase := (case err of
                      Some e \<Rightarrow> DReturning n (Some (Wrapf ''kafka/confluent: pending exact handler offset rewind failed: %w'' e))
                    | None \<Rightarrow> DApplied n ps)\<rparr>"

definition apply_clear :: "nat \<Rightarrow> position list \<Rightarrow> ConfluentConsumer \<Rightarrow> ConfluentConsumer" where
  "apply_clear n ps c =
     c\<lparr>d_pending := (if d_client c = Some n then filter (\<lambda>p. p \<notin> set ps) (d_pending c) else d_pending c),
       d_phase := DReading n []\<rparr>"

text \<open>\<^verbatim>\<open>prepareHandlerRunRetry\<close>: the plan of the failure, the exact seek, and what stays pending when it fails.\<close>

definition retry_begin :: "topic_partition list option \<Rightarrow> nat \<Rightarrow> kerror \<Rightarrow> ConfluentConsumer \<Rightarrow> ConfluentConsumer" where
  "retry_begin assigned n e c =
     (case consumerRewindPositions e of
        (positions, decided) \<Rightarrow>
          if \<not> decided \<or> positions = [] then c\<lparr>d_phase := DReturning n (Some e)\<rparr>
          else let owned = rewindPositionsStillOwned (d_revoked c) assigned positions
               in if owned = [] then c\<lparr>d_phase := DReturning n (Some e)\<rparr> else c\<lparr>d_phase := DSeeking n e owned\<rparr>)"

definition retry_seek ::
    "nat \<Rightarrow> kerror \<Rightarrow> position list \<Rightarrow> kerror option \<Rightarrow> (partition_key \<Rightarrow> int) \<Rightarrow> ConfluentConsumer \<Rightarrow> ConfluentConsumer" where
  "retry_seek n e ps err fetch c =
     (dlog (DSeek ps err) c)\<lparr>d_fetch := fetch,
        d_phase := (if err = None then DReturning n (Some e) else DRecording n e ps)\<rparr>"

definition retry_record :: "nat \<Rightarrow> kerror \<Rightarrow> position list \<Rightarrow> ConfluentConsumer \<Rightarrow> ConfluentConsumer" where
  "retry_record n e ps c =
     (if \<not> d_closed c \<and> d_client c = Some n
      then c\<lparr>d_pending := mergeConsumerRewindPositions (d_pending c) (filter (\<lambda>p. partition_of p \<notin> set (d_revoked c)) ps)\<rparr>
      else c)\<lparr>d_phase := DReturning n (Some e)\<rparr>"

section \<open>Rebalances\<close>

definition clearPendingRewindsForPartitions :: "topic_partition list \<Rightarrow> ConfluentConsumer \<Rightarrow> ConfluentConsumer" where
  "clearPendingRewindsForPartitions revoked c =
     (if revoked = [] then c
      else c\<lparr>d_revoked := map tp_key revoked @ d_revoked c,
             d_pending := filter (\<lambda>p. partition_of p \<notin> tp_key ` set revoked) (d_pending c)\<rparr>)"

definition markRewindPartitionsAssigned :: "topic_partition list \<Rightarrow> ConfluentConsumer \<Rightarrow> ConfluentConsumer" where
  "markRewindPartitionsAssigned assigned c =
     c\<lparr>d_revoked := filter (\<lambda>k. k \<notin> tp_key ` set assigned) (d_revoked c)\<rparr>"

text \<open>The callback, whose second part runs only when the driver accepted the assignment.\<close>

definition rebalance_assigned ::
    "kerror option \<Rightarrow> bool \<Rightarrow> topic_partition list \<Rightarrow> (partition_key \<Rightarrow> int) \<Rightarrow> ConfluentConsumer \<Rightarrow> ConfluentConsumer" where
  "rebalance_assigned err cooperative parts fetch c =
     (if err \<noteq> None then c
      else markRewindPartitionsAssigned parts
             (c\<lparr>d_assign := markPartitionsAssigned parts cooperative (d_assign c), d_fetch := fetch\<rparr>))"

definition rebalance_revoked :: "bool \<Rightarrow> topic_partition list \<Rightarrow> ConfluentConsumer \<Rightarrow> ConfluentConsumer" where
  "rebalance_revoked cooperative parts c =
     clearPendingRewindsForPartitions parts (c\<lparr>d_assign := markPartitionsRevoked parts cooperative (d_assign c)\<rparr>)"

section \<open>Waves\<close>

definition leased :: "dphase \<Rightarrow> bool" where
  "leased p = (case p of DWave _ ws _ \<Rightarrow> list_ex (\<lambda>(_, s). case s of Active _ _ \<Rightarrow> True | _ \<Rightarrow> False) ws | _ \<Rightarrow> False)"

fun busy :: "cstatus \<Rightarrow> bool" where
  "busy Launched = True"
| "busy (Active _ _) = True"
| "busy _ = False"

definition running :: "wave \<Rightarrow> nat" where
  "running ws = length (filter (\<lambda>x. busy (snd x)) ws)"

definition stop_launching :: "wave \<Rightarrow> wave" where
  "stop_launching ws = map (\<lambda>(g, s). (g, if s = Waiting then Ended None else s)) ws"

definition new_wave :: "(cmessage \<times> snapshot) list \<Rightarrow> wave" where
  "new_wave buf = map (\<lambda>g. (g, Waiting)) (groupConfluentBatchMessagesWithAssignments (map (map_prod Some id) buf))"

definition gathered :: "nat \<Rightarrow> (cmessage \<times> snapshot) list \<Rightarrow> kerror option \<Rightarrow> ConfluentConsumer \<Rightarrow> ConfluentConsumer" where
  "gathered n buf deferred c =
     c\<lparr>d_phase := (if d_cancelled c then DReturning n None else DWave n (new_wave buf) deferred)\<rparr>"

definition wave_end :: "nat \<Rightarrow> kerror list \<Rightarrow> kerror option \<Rightarrow> ConfluentConsumer \<Rightarrow> ConfluentConsumer" where
  "wave_end n errs deferred c =
     c\<lparr>d_phase :=
         (if errs \<noteq> []
          then if isConsumerRunCancellation (if d_cancelled c then Some Canceled else None) (Joined errs)
               then DReturning n None else DFailing n (Joined errs)
          else case deferred of
                 Some e \<Rightarrow> DReturning n (Some (Wrapf ''kafka/confluent: consume error: %w'' e))
               | None \<Rightarrow> DReading n [])\<rparr>"

text \<open>A failed read: batch mode rewinds what it had gathered for partitions still owned.\<close>

definition poll_failures :: "assignments \<Rightarrow> kerror \<Rightarrow> cgroup list \<Rightarrow> kerror list" where
  "poll_failures a pollErr groups =
     map (\<lambda>g. the (withConsumerRewindPosition (Some pollErr) (confluentRecordPosition (hd (g_messages g)))))
       (filter (beginPartitionDispatch a) groups)"

definition read_failed :: "bool \<Rightarrow> nat \<Rightarrow> (cmessage \<times> snapshot) list \<Rightarrow> kerror \<Rightarrow> ConfluentConsumer \<Rightarrow> ConfluentConsumer" where
  "read_failed batch n buf e c =
     c\<lparr>d_phase :=
         (if d_cancelled c then DReturning n None
          else let pollErr = Wrapf (if batch then ''kafka/confluent: consume batch error: %w'' else ''kafka/confluent: consume error: %w'') e;
                   failures = poll_failures (d_assign c) pollErr (map fst (new_wave buf))
               in if failures \<noteq> [] then DFailing n (Joined failures) else DReturning n (Some pollErr))\<rparr>"

section \<open>Closing\<close>

definition confluent_Close :: "ConfluentConsumer \<Rightarrow> ConfluentConsumer" where
  "confluent_Close c = (if d_closing c \<noteq> None then c else c\<lparr>d_closed := True, d_closing := Some (CloseRequested (d_client c))\<rparr>)"

definition close_signal :: "nat option \<Rightarrow> ConfluentConsumer \<Rightarrow> ConfluentConsumer" where
  "close_signal client c = c\<lparr>d_closing := Some (CloseWaiting client), d_cancelled := (d_cancelled c \<or> d_phase c \<noteq> DIdle)\<rparr>"

definition close_driver :: "nat option \<Rightarrow> ConfluentConsumer \<Rightarrow> ConfluentConsumer" where
  "close_driver client c =
     (case client of None \<Rightarrow> c | Some n \<Rightarrow> dlog (DClose n) c)\<lparr>d_client := None, d_closing := Some CloseDone\<rparr>"

section \<open>Steps\<close>

record confluent_config =
  cf_batch :: bool
  cf_run :: confluent_run
  cf_concurrency :: int
  cf_size :: int

type_synonym broker = "partition_key \<Rightarrow> int \<Rightarrow> cmessage option"

definition delivers :: "broker \<Rightarrow> ConfluentConsumer \<Rightarrow> cmessage \<Rightarrow> bool" where
  "delivers B c m \<longleftrightarrow>
     (let k = m_partition m
      in as_known (d_assign c) \<and> as_parts (d_assign c) k \<noteq> None \<and> tp_Topic (m_TopicPartition m) \<noteq> None
         \<and> CHR 0x00 \<notin> set (fst k) \<and> B k (m_offset m) = Some m
         \<and> d_fetch c k \<le> m_offset m \<and> (\<forall>off. d_fetch c k \<le> off \<and> off < m_offset m \<longrightarrow> B k off = None))"

definition deliver :: "nat \<Rightarrow> (cmessage \<times> snapshot) list \<Rightarrow> cmessage \<Rightarrow> ConfluentConsumer \<Rightarrow> ConfluentConsumer" where
  "deliver n buf m c =
     (let s = assignmentSnapshot (d_assign c) m
      in (dlog (DRead s m) c)\<lparr>d_fetch := (d_fetch c)(m_partition m := m_offset m + 1), d_phase := DReading n (buf @ [(m, s)])\<rparr>)"

text \<open>What a seek does to the fetch positions, for the answer of the driver.\<close>

definition seeks :: "(kerror + topic_partition list) \<Rightarrow> position list \<Rightarrow> (partition_key \<Rightarrow> int) \<Rightarrow> (partition_key \<Rightarrow> int) \<Rightarrow> bool" where
  "seeks answer ps f f' \<longleftrightarrow>
     (\<forall>k. k \<notin> partition_of ` set ps \<longrightarrow> f' k = f k)
     \<and> (\<forall>p \<in> set ps. f' (partition_of p) = p_offset p
          \<or> f' (partition_of p) = f (partition_of p)
            \<and> (\<forall>ts. answer = Inr ts \<longrightarrow> (\<forall>t \<in> set ts. tp_key t = partition_of p \<longrightarrow> tp_Error t \<noteq> None)))"

definition assignment_answer :: "ConfluentConsumer \<Rightarrow> topic_partition list option \<Rightarrow> bool" where
  "assignment_answer c assigned \<longleftrightarrow>
     (case assigned of None \<Rightarrow> True | Some ts \<Rightarrow> dom (as_parts (d_assign c)) \<subseteq> tp_key ` set ts)"

definition topics_named :: "topic_partition list \<Rightarrow> bool" where
  "topics_named parts \<longleftrightarrow> (\<forall>t \<in> set parts. tp_Topic t \<noteq> None)"

inductive confluent_step :: "confluent_config \<Rightarrow> broker \<Rightarrow> ConfluentConsumer \<Rightarrow> ConfluentConsumer \<Rightarrow> bool" for K B where
  connect: "confluent_step K B c (snd (confluent_Connect createErr subscribeErr topics c))"
| begin_run: "confluent_step K B c (snd (beginConsumeRun createErr subscribeErr c))"
| apply_begin: "d_phase c = DStarting n \<Longrightarrow> confluent_step K B c (apply_begin n c)"
| apply_filter: "d_phase c = DApplying n ps \<Longrightarrow> assignment_answer c assigned \<Longrightarrow> confluent_step K B c (apply_filter assigned n ps c)"
| apply_seek: "d_phase c = DApplySeek n ps owned \<Longrightarrow> seeks answer owned (d_fetch c) fetch \<Longrightarrow>
    confluent_step K B c (apply_seek n ps owned (seekConfluentPositions (\<lambda>_. answer) owned) fetch c)"
| apply_clear: "d_phase c = DApplied n ps \<Longrightarrow> confluent_step K B c (apply_clear n ps c)"
| read: "d_phase c = DReading n buf \<Longrightarrow> int (length buf) < cf_size K \<Longrightarrow> delivers B c m \<Longrightarrow>
    confluent_step K B c (deliver n buf m c)"
| read_failed: "d_phase c = DReading n buf \<Longrightarrow> cf_batch K \<or> buf = [] \<Longrightarrow> \<not> planned e \<Longrightarrow>
    confluent_step K B c (read_failed (cf_batch K) n buf e c)"
| gathered: "d_phase c = DReading n buf \<Longrightarrow> buf \<noteq> [] \<Longrightarrow> deferred = None \<or> \<not> cf_batch K \<Longrightarrow>
    confluent_step K B c (gathered n buf deferred c)"
| stop: "d_phase c = DReading n [] \<Longrightarrow> d_cancelled c \<Longrightarrow> confluent_step K B c (c\<lparr>d_phase := DReturning n None\<rparr>)"
| launch: "d_phase c = DWave n ws deferred \<Longrightarrow> i < length ws \<Longrightarrow> ws ! i = (g, Waiting) \<Longrightarrow>
    (\<forall>j < i. snd (ws ! j) \<noteq> Waiting) \<Longrightarrow> int (running ws) < max 1 (cf_concurrency K) \<Longrightarrow>
    confluent_step K B c (c\<lparr>d_phase := DWave n (ws[i := (g, Launched)]) deferred\<rparr>)"
| unlaunched: "d_phase c = DWave n ws deferred \<Longrightarrow> d_cancelled c \<Longrightarrow>
    confluent_step K B c (c\<lparr>d_phase := DWave n (stop_launching ws) deferred\<rparr>)"
| dispatch: "d_phase c = DWave n ws deferred \<Longrightarrow> i < length ws \<Longrightarrow> ws ! i = (g, Launched) \<Longrightarrow>
    beginPartitionDispatch (d_assign c) g \<Longrightarrow> driver_errors env \<Longrightarrow> group_outcome (cf_batch K) (cf_run K) env g = (err, log) \<Longrightarrow>
    confluent_step K B c (c\<lparr>d_phase := DWave n (ws[i := (g, Active log err)]) deferred\<rparr>)"
| discard: "d_phase c = DWave n ws deferred \<Longrightarrow> i < length ws \<Longrightarrow> ws ! i = (g, Launched) \<Longrightarrow>
    \<not> beginPartitionDispatch (d_assign c) g \<Longrightarrow>
    confluent_step K B c (c\<lparr>d_phase := DWave n (ws[i := (g, Ended None)]) deferred\<rparr>)"
| work: "d_phase c = DWave n ws deferred \<Longrightarrow> i < length ws \<Longrightarrow> ws ! i = (g, Active (e # log) err) \<Longrightarrow>
    (e = CtxDone \<Longrightarrow> d_cancelled c) \<Longrightarrow>
    confluent_step K B c ((dlog (DWork (g_known g, g_generation g) e) c)\<lparr>d_phase := DWave n (ws[i := (g, Active log err)]) deferred\<rparr>)"
| leave: "d_phase c = DWave n ws deferred \<Longrightarrow> i < length ws \<Longrightarrow> ws ! i = (g, Active [] err) \<Longrightarrow>
    confluent_step K B c (c\<lparr>d_phase := DWave n (ws[i := (g, Ended err)]) deferred\<rparr>)"
| wave_end: "d_phase c = DWave n ws deferred \<Longrightarrow> (\<forall>x \<in> set ws. \<exists>err. snd x = Ended err) \<Longrightarrow>
    mset errs = mset (List.map_filter (\<lambda>x. case snd x of Ended err \<Rightarrow> err | _ \<Rightarrow> None) ws) \<Longrightarrow>
    confluent_step K B c (wave_end n errs deferred c)"
| retry_begin: "d_phase c = DFailing n e \<Longrightarrow> assignment_answer c assigned \<Longrightarrow> confluent_step K B c (retry_begin assigned n e c)"
| retry_seek: "d_phase c = DSeeking n e ps \<Longrightarrow> seeks answer ps (d_fetch c) fetch \<Longrightarrow>
    confluent_step K B c (retry_seek n e ps (seekConfluentPositions (\<lambda>_. answer) ps) fetch c)"
| retry_record: "d_phase c = DRecording n e ps \<Longrightarrow> confluent_step K B c (retry_record n e ps c)"
| finish: "d_phase c = DReturning n r \<Longrightarrow> confluent_step K B c (c\<lparr>d_phase := DIdle\<rparr>)"
| assigned: "\<not> leased (d_phase c) \<Longrightarrow> topics_named parts \<Longrightarrow> (\<forall>k. k \<notin> tp_key ` set parts \<longrightarrow> fetch k = d_fetch c k) \<Longrightarrow>
    confluent_step K B c (rebalance_assigned err cooperative parts fetch c)"
| revoked: "\<not> leased (d_phase c) \<Longrightarrow> topics_named parts \<Longrightarrow> confluent_step K B c (rebalance_revoked cooperative parts c)"
| close: "confluent_step K B c (confluent_Close c)"
| close_signal: "d_closing c = Some (CloseRequested client) \<Longrightarrow> confluent_step K B c (close_signal client c)"
| close_driver: "d_closing c = Some (CloseWaiting client) \<Longrightarrow> d_phase c = DIdle \<Longrightarrow> confluent_step K B c (close_driver client c)"

inductive_cases confluent_step_cases: "confluent_step K B c c'"

inductive confluent_reachable :: "confluent_config \<Rightarrow> broker \<Rightarrow> ConfluentConsumer \<Rightarrow> bool" for K B where
  reach_new: "confluent_reachable K B new_confluent"
| reach_step: "confluent_reachable K B c \<Longrightarrow> confluent_step K B c c' \<Longrightarrow> confluent_reachable K B c'"

end
