(* ===== verification/Confluent_Workers.thy ===== *)
theory Confluent_Workers
  imports Confluent_Consumer Kafka_Consumer_Properties
begin

text \<open>
  What the workers and the grouping of the Confluent consumer guarantee: an offset is settled only after
  the records up to it have been handled, a worker that ends has handled all records or asks for the
  first one it has not, and groups hold the gathered records of one partition and assignment in order.
\<close>

section \<open>The contract of a worker\<close>

fun csettles :: "cevent \<Rightarrow> cmessage option" where
  "csettles (CommitMessage m None) = Some m"
| "csettles (StoreMessage m None) = Some m"
| "csettles _ = None"

fun chandles :: "cevent \<Rightarrow> cmessage set" where
  "chandles (CHandle m (Returns None)) = {m}"
| "chandles (CHandleBatch ms _ (Returns None)) = set ms"
| "chandles _ = {}"

definition at_least_once :: "confluent_run \<Rightarrow> bool" where
  "at_least_once R \<longleftrightarrow> \<not> cr_legacy R \<and> \<not> commits_first R \<and> \<not> ko_OffsetFinalizer (cr_opts R)"

definition ascending :: "cmessage list \<Rightarrow> bool" where
  "ascending ms \<longleftrightarrow> sorted_wrt (\<lambda>a b. m_offset a < m_offset b) ms"

definition csettled :: "cmessage list \<Rightarrow> cevent \<Rightarrow> cevent set \<Rightarrow> bool" where
  "csettled ms e D \<longleftrightarrow>
     (\<forall>m. csettles e = Some m \<longrightarrow> m \<in> set ms \<and> (\<forall>q \<in> set ms. m_offset q \<le> m_offset m \<longrightarrow> (\<exists>x \<in> D. q \<in> chandles x)))"

definition outcome_ok :: "cmessage list \<Rightarrow> cevent list \<Rightarrow> kerror option \<Rightarrow> bool" where
  "outcome_ok ms log err \<longleftrightarrow>
     (case err of
        None \<Rightarrow> \<forall>q \<in> set ms. \<exists>x \<in> set log. q \<in> chandles x
      | Some e \<Rightarrow> planned e \<and> (\<exists>m \<in> set ms. requests e = [confluentRecordPosition m]
                   \<and> (\<forall>q \<in> set ms. m_offset q < m_offset m \<longrightarrow> (\<exists>x \<in> set log. q \<in> chandles x))))"

lemma csettled_mono: "A \<subseteq> B \<Longrightarrow> csettled ms e A \<Longrightarrow> csettled ms e B"
  by (fastforce simp: csettled_def)

lemma with_rewind_plan:
  "\<not> planned e \<Longrightarrow> withConsumerRewindPosition (Some e) p = Some (consumerRewindError e p)"
  by (simp add: withConsumerRewindPosition_def consumerRewindPositions_eq)

lemma wlog_progress [simp]:
  "w_events (wlog e w) = w_events w @ [e]" "w_pos (wlog e w) = w_pos w"
  "w_events (setConsumerWorkerPosition p nx w) = w_events w" "w_pos (setConsumerWorkerPosition p nx w) = Some p"
  by (simp_all add: wlog_def setConsumerWorkerPosition_def)

text \<open>Settling a record, in the at-least-once configuration.\<close>

lemma resolve_cases:
  assumes "resolveMessageOffset R env m b w = (err, w')" and "driver_errors env" and "\<not> cr_legacy R"
    and "b \<longrightarrow> cr_auto R"
  shows "\<exists>e a. w_events w' = w_events w @ [e] \<and> (e = CommitMessage m a \<or> e = StoreMessage m a)
    \<and> (err = None \<longleftrightarrow> a = None) \<and> (\<forall>x. err = Some x \<longrightarrow> \<not> planned x)"
proof (cases "cr_auto R \<and> cr_AutoCommit R")
  case True
  then show ?thesis using assms
    by (auto simp: resolveMessageOffset_def store_message_def driver_errors_def Let_def
        intro!: exI [of _ "StoreMessage m (ce_store env m (w_events w))"] exI [of _ "ce_store env m (w_events w)"])
next
  case False
  then show ?thesis using assms
    by (auto simp: resolveMessageOffset_def commit_message_def driver_errors_def Let_def
        intro!: exI [of _ "CommitMessage m (ce_commit env m (w_events w))"] exI [of _ "ce_commit env m (w_events w)"])
qed

lemma first_not_auto: "at_least_once R \<Longrightarrow> ko_CommitBeforeHandler (cr_opts R) \<longrightarrow> cr_auto R"
  by (auto simp: at_least_once_def commits_first_def)

text \<open>One message: it is handled, then settled, or the group stops at it.\<close>

lemma plain_message_ok:
  assumes "plain_message R env m nxt w = (a, w')" and "at_least_once R" and "driver_errors env"
    and "w_pos w = Some (confluentRecordPosition m)"
  obtains new where "w_events w' = w_events w @ new" "causal (csettled [m]) {} new"
    "a = Continue \<Longrightarrow> \<exists>x \<in> set new. m \<in> chandles x"
    "a = Stop None \<Longrightarrow> CtxDone \<in> set new"
    "\<And>e. a = Stop (Some e) \<Longrightarrow> planned e \<and> requests e = [confluentRecordPosition m]"
    "a = Exit \<Longrightarrow> w_pos w' = Some (confluentRecordPosition m)"
proof -
  let ?a = "ce_handler env (mapConfluentToPayload m) (w_events w)"
  let ?w = "wlog (CHandle m ?a) w"
  have R: "\<not> cr_legacy R" "\<not> commits_first R" using assms(2) by (auto simp: at_least_once_def)
  show ?thesis
  proof (cases "\<exists>e. ?a = Returns None")
    case True
    obtain err w2 where r: "resolveMessageOffset R env m (ko_CommitBeforeHandler (cr_opts R)) ?w = (err, w2)" by force
    obtain e x where e: "w_events w2 = w_events ?w @ [e]" "e = CommitMessage m x \<or> e = StoreMessage m x" "err = None \<longleftrightarrow> x = None"
      "\<And>y. err = Some y \<Longrightarrow> \<not> planned y"
      using resolve_cases [OF r assms(3) R(1) first_not_auto [OF assms(2)]] by blast
    have c: "causal (csettled [m]) {} [CHandle m (Returns None), e]"
      using e(2) by (cases x) (auto simp: csettled_def)
    show ?thesis
    proof (rule that [of "[CHandle m (Returns None), e]"])
      show "w_events w' = w_events w @ [CHandle m (Returns None), e]" "a = Stop None \<Longrightarrow> CtxDone \<in> set [CHandle m (Returns None), e]"
        "a = Exit \<Longrightarrow> w_pos w' = Some (confluentRecordPosition m)"
        "\<And>y. a = Stop (Some y) \<Longrightarrow> planned y \<and> requests y = [confluentRecordPosition m]"
        using assms(1) r e(1,4) R(1) True
        by (auto simp: plain_message_def Let_def stop_at_def with_rewind_plan split: option.splits)
    qed (use c in auto)
  next
    case False
    then show ?thesis
    proof (cases ?a)
      case Goexit
      then show ?thesis using that [of "[CHandle m Goexit]"] assms(1,4)
        by (auto simp: plain_message_def Let_def csettled_def)
    next
      case (Returns err)
      then obtain e where e: "?a = Returns (Some e)" using False by (cases err) auto
      then show ?thesis
        using that [of "[CHandle m (Returns (Some e)), CtxDone]"] that [of "[CHandle m (Returns (Some e))]"] assms(1) R
        by (auto simp: plain_message_def Let_def handler_failed_def newConsumerHandlerErrorAt_def csettled_def split: if_splits)
    qed
  qed
qed

text \<open>Messages behind those of a log, or handled before it, change nothing.\<close>

lemma csettled_before:
  assumes "causal (csettled [m]) {} a" and "ascending (m # ms)"
  shows "causal (csettled (m # ms)) {} a"
proof (rule causal_mono [OF assms(1)])
  have later: "\<And>q. q \<in> set ms \<Longrightarrow> \<not> m_offset q \<le> m_offset m" using assms(2) by (auto simp: ascending_def)
  show "csettled (m # ms) x A" if "csettled [m] x A" for x A using that later by (auto simp: csettled_def)
qed

lemma csettled_cons:
  assumes "causal (csettled [m]) {} a" and "causal (csettled ms) {} b" and "\<exists>x \<in> set a. m \<in> chandles x"
    and "ascending (m # ms)"
  shows "causal (csettled (m # ms)) {} (a @ b)"
proof -
  have "causal (csettled ms) (set a) b" by (rule causal_grow [OF assms(2)]) (auto intro: csettled_mono)
  then have "causal (csettled (m # ms)) (set a) b"
  proof (rule causal_mono)
    show "csettled (m # ms) x A" if "set a \<subseteq> A" "csettled ms x A" for x A
      using that assms(3) by (fastforce simp: csettled_def)
  qed
  then show ?thesis using csettled_before [OF assms(1,4)] by (simp add: causal_append)
qed

lemma messages_worker:
  assumes "processMessageGroup R env ms w = (x, w')" and "at_least_once R" and "driver_errors env" and "ascending ms"
  shows "\<exists>new. w_events w' = w_events w @ new \<and> causal (csettled ms) {} new
    \<and> (CtxDone \<notin> set new \<longrightarrow> outcome_ok ms new (worker_error (x, w')))"
  using assms(1,4)
proof (induction ms arbitrary: w)
  case Nil
  then show ?case by (auto simp: worker_error_def outcome_ok_def)
next
  case (Cons m ms)
  show ?case
  proof (cases "ce_done env (w_events w)")
    case True
    then show ?thesis using Cons.prems(1) assms(2) by (auto simp: at_least_once_def csettled_def)
  next
    case False
    define nxt where "nxt = (case ms of [] \<Rightarrow> None | q # _ \<Rightarrow> Some (confluentRecordPosition q))"
    define w0 where "w0 = setConsumerWorkerPosition (confluentRecordPosition m) nxt w"
    obtain a w1 where a: "plain_message R env m nxt w0 = (a, w1)" by force
    have one: "one_message R env m nxt w0 = (a, w1)" using assms(2) a by (simp add: one_message_def at_least_once_def Let_def)
    have pos: "w_pos w0 = Some (confluentRecordPosition m)" "w_events w0 = w_events w" by (simp_all add: w0_def)
    obtain new where new: "w_events w1 = w_events w @ new" "causal (csettled [m]) {} new"
      "a = Continue \<Longrightarrow> \<exists>x \<in> set new. m \<in> chandles x" "a = Stop None \<Longrightarrow> CtxDone \<in> set new"
      "\<And>e. a = Stop (Some e) \<Longrightarrow> planned e \<and> requests e = [confluentRecordPosition m]"
      "a = Exit \<Longrightarrow> w_pos w1 = Some (confluentRecordPosition m)"
      by (rule plain_message_ok [OF a assms(2,3) pos(1)]) (simp add: pos(2))
    have asc: "ascending ms" "\<And>q. q \<in> set ms \<Longrightarrow> m_offset m < m_offset q" using Cons.prems(2) by (auto simp: ascending_def)
    have run: "processMessageGroup R env (m # ms) w = (case a of Continue \<Rightarrow> processMessageGroup R env ms w1
         | Stop e \<Rightarrow> (Done e, w1) | Exit \<Rightarrow> (Exited, w1))"
      using False one by (simp add: nxt_def w0_def Let_def split: after.splits)
    show ?thesis
    proof (cases a)
      case Continue
      then obtain b where b: "w_events w' = w_events w1 @ b" "causal (csettled ms) {} b"
        "CtxDone \<notin> set b \<longrightarrow> outcome_ok ms b (worker_error (x, w'))"
        using Cons.IH [OF _ asc(1), of w1] Cons.prems(1) run by auto
      have "outcome_ok (m # ms) (new @ b) (worker_error (x, w'))" if "outcome_ok ms b (worker_error (x, w'))"
        using that new(3) [OF Continue] by (fastforce simp: outcome_ok_def split: option.splits)
      then show ?thesis using b new(1) csettled_cons [OF new(2) b(2) new(3) [OF Continue] Cons.prems(2)]
        by (intro exI [of _ "new @ b"]) auto
    next
      case (Stop e)
      have "causal (csettled (m # ms)) {} new" by (rule csettled_before [OF new(2) Cons.prems(2)])
      moreover have "outcome_ok (m # ms) new (worker_error (x, w'))" if "CtxDone \<notin> set new"
        using that Stop new(4,5) Cons.prems(1) run asc(2) by (cases e) (fastforce simp: outcome_ok_def worker_error_def)+
      ultimately show ?thesis using new(1,2) Stop Cons.prems(1) run by (intro exI [of _ new]) auto
    next
      case Exit
      have "causal (csettled (m # ms)) {} new" by (rule csettled_before [OF new(2) Cons.prems(2)])
      then show ?thesis using new(1,2,6) Exit Cons.prems(1) run asc(2)
        by (intro exI [of _ new]) (fastforce simp: outcome_ok_def worker_error_def)
    qed
  qed
qed

definition group_wf :: "cgroup \<Rightarrow> bool" where
  "group_wf g \<longleftrightarrow> g_messages g \<noteq> [] \<and> g_last g = Some (last (g_messages g)) \<and> ascending (g_messages g)"

lemma ascending_ends:
  assumes "ascending ms" and "q \<in> set ms"
  shows "m_offset (hd ms) \<le> m_offset q" and "m_offset q \<le> m_offset (last ms)"
proof -
  obtain i where i: "i < length ms" "q = ms ! i" using assms(2) by (metis in_set_conv_nth)
  have less: "\<And>i j. i < j \<Longrightarrow> j < length ms \<Longrightarrow> m_offset (ms ! i) < m_offset (ms ! j)"
    using assms(1) by (auto simp: ascending_def sorted_wrt_iff_nth_less)
  have "ms \<noteq> []" using assms(2) by auto
  then have ends: "hd ms = ms ! 0" "last ms = ms ! (length ms - 1)" by (simp_all add: hd_conv_nth last_conv_nth)
  show "m_offset (hd ms) \<le> m_offset q" using less [of 0 i] i ends(1) by (cases "i = 0") auto
  show "m_offset q \<le> m_offset (last ms)" 
  proof (cases "i = length ms - 1")
    case False
    then have "i < length ms - 1" "length ms - 1 < length ms" using i(1) by auto
    then show ?thesis using less [of i "length ms - 1"] i(2) ends(2) by simp
  qed (use i(2) ends(2) in simp)
qed

lemma batch_worker:
  assumes "processBatchGroup R env g w = (x, w')" and "at_least_once R" and "driver_errors env" and "group_wf g"
  shows "\<exists>new. w_events w' = w_events w @ new \<and> causal (csettled (g_messages g)) {} new
    \<and> (CtxDone \<notin> set new \<longrightarrow> outcome_ok (g_messages g) new (worker_error (x, w')))"
proof -
  let ?ms = "g_messages g" and ?first = "confluentRecordPosition (hd (g_messages g))"
  define w0 where "w0 = setConsumerWorkerPosition ?first None w"
  let ?a = "ce_batch env (g_payload g) (w_events w)"
  have R: "\<not> cr_legacy R" "\<not> commits_first R" using assms(2) by (auto simp: at_least_once_def)
  have g: "hd ?ms \<in> set ?ms" "g_last g = Some (last ?ms)" "ascending ?ms" "last ?ms \<in> set ?ms" using assms(4) by (auto simp: group_wf_def)
  have least: "\<And>q. q \<in> set ?ms \<Longrightarrow> \<not> m_offset q < m_offset (hd ?ms)" using ascending_ends(1) [OF g(3)] by fastforce
  have w0: "w_events w0 = w_events w" "w_pos w0 = Some ?first" by (simp_all add: w0_def)
  show ?thesis
  proof (cases "?a = Returns None")
    case True
    let ?w = "wlog (CHandleBatch ?ms (g_payload g) (Returns None)) w0"
    obtain err w2 where r: "resolveMessageOffset R env (last ?ms) (ko_CommitBeforeHandler (cr_opts R)) ?w = (err, w2)" by force
    obtain e y where e: "w_events w2 = w_events ?w @ [e]" "e = CommitMessage (last ?ms) y \<or> e = StoreMessage (last ?ms) y"
      "err = None \<longleftrightarrow> y = None" "\<And>z. err = Some z \<Longrightarrow> \<not> planned z"
      using resolve_cases [OF r assms(3) R(1) first_not_auto [OF assms(2)]] by blast
    let ?new = "[CHandleBatch ?ms (g_payload g) (Returns None), e]"
    have "causal (csettled ?ms) {} ?new" using e(2) g(4) by (cases y) (auto simp: csettled_def)
    moreover have x: "x = Done (case err of None \<Rightarrow> None | Some z \<Rightarrow> Some (consumerRewindError z ?first))" "w' = w2"
      using assms(1) r R True g(2) w0(1) e(4)
      by (auto simp: processBatchGroup_def Let_def with_rewind_plan w0_def split: option.splits)
    moreover have "outcome_ok ?ms ?new (worker_error (x, w'))"
      using x least g(1) by (auto simp: worker_error_def outcome_ok_def split: option.splits)
    ultimately show ?thesis using e(1) w0(1) by (intro exI [of _ ?new]) auto
  next
    case False
    show ?thesis
    proof (cases ?a)
      case Goexit
      then have "x = Exited \<and> w' = wlog (CHandleBatch ?ms (g_payload g) Goexit) w0"
        using assms(1) R by (auto simp: processBatchGroup_def Let_def w0_def)
      then show ?thesis using least g(1) w0
        by (intro exI [of _ "[CHandleBatch ?ms (g_payload g) Goexit]"]) (auto simp: csettled_def worker_error_def outcome_ok_def)
    next
      case (Returns err)
      then obtain e where e: "?a = Returns (Some e)" using False by (cases err) auto
      let ?h = "CHandleBatch ?ms (g_payload g) (Returns (Some e))"
      have "processBatchGroup R env g w = batch_failed R env g e (wlog ?h w0)"
        using e R by (simp add: processBatchGroup_def Let_def w0_def)
      then consider "x = Done None" "w' = wlog CtxDone (wlog ?h w0)"
        | "x = Done (Some (newConsumerHandlerErrorAt '''' e ?first))" "w' = wlog ?h w0"
        using assms(1) R by (auto simp: batch_failed_def split: if_splits)
      then show ?thesis
      proof cases
        case 1
        then show ?thesis using w0 by (intro exI [of _ "[?h, CtxDone]"]) (auto simp: csettled_def)
      next
        case 2
        then show ?thesis using least g(1) w0
          by (intro exI [of _ "[?h]"]) (auto simp: csettled_def worker_error_def outcome_ok_def newConsumerHandlerErrorAt_def)
      qed
    qed
  qed
qed

text \<open>Both modes keep the contract, so a dispatched group does.\<close>

locale group_worker =
  fixes process :: "confluent_run \<Rightarrow> confluent_env \<Rightarrow> cgroup \<Rightarrow> cworker \<Rightarrow> result \<times> cworker"
  assumes serves: "process R env g w = (x, w') \<Longrightarrow> at_least_once R \<Longrightarrow> driver_errors env \<Longrightarrow> group_wf g \<Longrightarrow>
    \<exists>new. w_events w' = w_events w @ new \<and> causal (csettled (g_messages g)) {} new
      \<and> (CtxDone \<notin> set new \<longrightarrow> outcome_ok (g_messages g) new (worker_error (x, w')))"
begin

lemma started_worker:
  assumes "at_least_once R" and "driver_errors env" and "group_wf g"
  shows "causal (csettled (g_messages g)) {} (w_events (snd (process R env g (newConsumerWorkerContext p))))"
    and "CtxDone \<notin> set (w_events (snd (process R env g (newConsumerWorkerContext p)))) \<Longrightarrow>
      outcome_ok (g_messages g) (w_events (snd (process R env g (newConsumerWorkerContext p))))
        (worker_error (process R env g (newConsumerWorkerContext p)))"
proof -
  obtain x w' where x: "process R env g (newConsumerWorkerContext p) = (x, w')" by force
  have "w_events w' = w_events (newConsumerWorkerContext p) @ w_events w'" by (simp add: newConsumerWorkerContext_def)
  then show "causal (csettled (g_messages g)) {} (w_events (snd (process R env g (newConsumerWorkerContext p))))"
    "CtxDone \<notin> set (w_events (snd (process R env g (newConsumerWorkerContext p)))) \<Longrightarrow>
      outcome_ok (g_messages g) (w_events (snd (process R env g (newConsumerWorkerContext p))))
        (worker_error (process R env g (newConsumerWorkerContext p)))"
    using serves [OF x assms] x by auto
qed

end

interpretation cmessages: group_worker "\<lambda>R env g. processMessageGroup R env (g_messages g)"
  by unfold_locales (auto simp: group_wf_def dest!: messages_worker)

interpretation cbatches: group_worker processBatchGroup
  by unfold_locales (rule batch_worker)

lemma group_outcome_ok:
  assumes "group_outcome batch R env g = (err, log)" and "at_least_once R" and "driver_errors env" and "group_wf g"
  shows "causal (csettled (g_messages g)) {} log" and "CtxDone \<notin> set log \<Longrightarrow> outcome_ok (g_messages g) log err"
  using assms(1) cmessages.started_worker [OF assms(2-4)] cbatches.started_worker [OF assms(2-4)]
  by (auto simp: group_outcome_def process_cgroup_def Let_def split: if_splits)

section \<open>Groups\<close>

text \<open>Keys of messages read under a known assignment, with topics that have no NUL.\<close>

definition keyed :: "cmessage \<times> snapshot \<Rightarrow> bool" where
  "keyed x \<longleftrightarrow> fst (snd x) \<and> CHR 0x00 \<notin> set (fst (m_partition (fst x)))"

lemma itoa_no_nul: "CHR 0x00 \<notin> set (itoa n)"
  using itoa_digits [of n] by (auto simp: is_digit_def)

lemma cgroup_key_eq:
  assumes "keyed (m, s)" and "keyed (m', s')"
  shows "cgroup_key m s = cgroup_key m' s' \<longleftrightarrow> m_partition m = m_partition m' \<and> s = s'"
proof
  assume "cgroup_key m s = cgroup_key m' s'"
  then have eq: "fst (m_partition m) @ CHR 0x00 # (itoa_int (snd (m_partition m)) @ CHR 0x00 # itoa (snd s))
      = fst (m_partition m') @ CHR 0x00 # (itoa_int (snd (m_partition m')) @ CHR 0x00 # itoa (snd s'))"
    using assms by (simp add: cgroup_key_def keyed_def)
  have nul: "CHR 0x00 \<notin> set (fst (m_partition m))" "CHR 0x00 \<notin> set (fst (m_partition m'))" using assms by (auto simp: keyed_def)
  have t: "fst (m_partition m) = fst (m_partition m')"
    "itoa_int (snd (m_partition m)) @ CHR 0x00 # itoa (snd s) = itoa_int (snd (m_partition m')) @ CHR 0x00 # itoa (snd s')"
    using split_first [OF nul eq] by auto
  have "itoa_int (snd (m_partition m)) = itoa_int (snd (m_partition m')) \<and> itoa (snd s) = itoa (snd s')"
    by (rule split_first [OF itoa_int_no_nul itoa_int_no_nul t(2)])
  then have "snd (m_partition m) = snd (m_partition m')" "snd s = snd s'" using itoa_int_inj itoa_inj by auto
  then show "m_partition m = m_partition m' \<and> s = s'" using t(1) assms by (auto simp: keyed_def prod_eq_iff)
qed (simp add: cgroup_key_def)

definition cgrouped :: "(cmessage \<times> snapshot) list \<Rightarrow> cgroup gomap \<Rightarrow> bool" where
  "cgrouped buf gs \<longleftrightarrow> gomap_ok gs
     \<and> (\<forall>k g. go_get gs k = Some g \<longrightarrow>
          g_messages g = map fst (filter (\<lambda>(m, s). cgroup_key m s = k) buf) \<and> g_messages g \<noteq> [] \<and> g_last g = Some (last (g_messages g))
          \<and> (\<exists>m s. (m, s) \<in> set buf \<and> cgroup_key m s = k \<and> g_known g = fst s \<and> g_generation g = snd s))
     \<and> (\<forall>(m, s) \<in> set buf. go_get gs (cgroup_key m s) \<noteq> None)"

lemma add_message_get:
  "go_get (add_message (Some m, s) gs) k =
     (if k = cgroup_key m s then Some (extend_cgroup m (case go_get gs k of None \<Rightarrow> new_cgroup m s | Some g \<Rightarrow> g)) else go_get gs k)"
  by (auto simp: add_message_def go_map map_add_def split: option.splits)

lemma add_message_ok: "gomap_ok gs \<Longrightarrow> gomap_ok (add_message (Some m, s) gs)"
  by (auto simp: add_message_def gomap_ok_def map_of_eq_None_iff distinct_update split: option.splits)

lemma cgrouped_add:
  assumes "cgrouped buf gs"
  shows "cgrouped (buf @ [(m, s)]) (add_message (Some m, s) gs)"
proof -
  have none: "go_get gs (cgroup_key m s) = None \<Longrightarrow> filter (\<lambda>(q, t). cgroup_key q t = cgroup_key m s) buf = []"
    using assms by (fastforce simp: cgrouped_def filter_empty_conv)
  show ?thesis unfolding cgrouped_def
  proof (intro conjI allI impI ballI)
    show "gomap_ok (add_message (Some m, s) gs)" using assms by (simp add: cgrouped_def add_message_ok)
    show "case x of (q, t) \<Rightarrow> go_get (add_message (Some m, s) gs) (cgroup_key q t) \<noteq> None" if "x \<in> set (buf @ [(m, s)])" for x
      using that assms by (auto simp: cgrouped_def add_message_get)
    fix k g assume g: "go_get (add_message (Some m, s) gs) k = Some g"
    have "g_messages g = map fst (filter (\<lambda>(m, s). cgroup_key m s = k) (buf @ [(m, s)])) \<and> g_messages g \<noteq> []
      \<and> g_last g = Some (last (g_messages g))
      \<and> (\<exists>q t. (q, t) \<in> set (buf @ [(m, s)]) \<and> cgroup_key q t = k \<and> g_known g = fst t \<and> g_generation g = snd t)"
    proof (cases "k = cgroup_key m s")
      case False
      then have "go_get gs k = Some g" using g by (simp add: add_message_get)
      then show ?thesis using assms False unfolding cgrouped_def by fastforce
    next
      case True
      show ?thesis
      proof (cases "go_get gs k")
        case None
        then have "g = extend_cgroup m (new_cgroup m s)" using g True by (simp add: add_message_get)
        then show ?thesis using none None True by (auto simp: extend_cgroup_def new_cgroup_def)
      next
        case (Some h)
        then have eq: "g = extend_cgroup m h" using g True by (simp add: add_message_get)
        have h: "g_messages h = map fst (filter (\<lambda>(m, s). cgroup_key m s = k) buf)"
          "\<exists>q t. (q, t) \<in> set buf \<and> cgroup_key q t = k \<and> g_known h = fst t \<and> g_generation h = snd t"
          using assms Some unfolding cgrouped_def by blast+
        have "g_messages g = g_messages h @ [m]" "g_last g = Some m" "g_known g = g_known h" "g_generation g = g_generation h"
          using eq by (simp_all add: extend_cgroup_def)
        moreover have "\<exists>q t. (q, t) \<in> set (buf @ [(m, s)]) \<and> cgroup_key q t = k \<and> g_known h = fst t \<and> g_generation h = snd t"
          using h(2) by force
        ultimately show ?thesis using h(1) True by simp
      qed
    qed
    then show "g_messages g = map fst (filter (\<lambda>(m, s). cgroup_key m s = k) (buf @ [(m, s)]))" "g_messages g \<noteq> []"
      "g_last g = Some (last (g_messages g))"
      "\<exists>q t. (q, t) \<in> set (buf @ [(m, s)]) \<and> cgroup_key q t = k \<and> g_known g = fst t \<and> g_generation g = snd t"
      by blast+
  qed
qed

lemma cgrouped_fold: "cgrouped buf (fold add_message (map (map_prod Some id) buf) [])"
proof (induction buf rule: rev_induct)
  case Nil
  then show ?case by (simp add: cgrouped_def)
next
  case (snoc x xs)
  then show ?case by (cases x) (simp add: cgrouped_add)
qed

text \<open>The identity of a group: its partition and the assignment its messages were read under.\<close>

definition gid :: "cgroup \<Rightarrow> partition_key \<times> nat" where
  "gid g = (m_partition (hd (g_messages g)), g_generation g)"

abbreviation groups_of :: "(cmessage \<times> snapshot) list \<Rightarrow> cgroup list" where
  "groups_of buf \<equiv> groupConfluentBatchMessagesWithAssignments (map (map_prod Some id) buf)"

lemma cgroup_entry:
  assumes "\<forall>x \<in> set buf. keyed x" and "(k, g) \<in> set (fold add_message (map (map_prod Some id) buf) [])"
  shows "\<exists>m s. (m, s) \<in> set buf \<and> k = cgroup_key m s \<and> s = (True, g_generation g) \<and> g_known g
    \<and> gid g = (m_partition m, snd s) \<and> g_last g = Some (last (g_messages g)) \<and> g_messages g \<noteq> []
    \<and> g_messages g = map fst (filter (\<lambda>x. m_partition (fst x) = m_partition m \<and> snd x = s) buf)"
proof -
  let ?gs = "fold add_message (map (map_prod Some id) buf) []"
  have gs: "cgrouped buf ?gs" by (rule cgrouped_fold)
  then have "go_get ?gs k = Some g" using assms(2) by (simp add: cgrouped_def go_get_mem)
  then have g: "g_messages g = map fst (filter (\<lambda>(m, s). cgroup_key m s = k) buf)" "g_messages g \<noteq> []"
    "g_last g = Some (last (g_messages g))"
    and "\<exists>m s. (m, s) \<in> set buf \<and> cgroup_key m s = k \<and> g_known g = fst s \<and> g_generation g = snd s"
    using gs unfolding cgrouped_def by blast+
  then obtain m s where m: "(m, s) \<in> set buf" "cgroup_key m s = k" "g_known g = fst s" "g_generation g = snd s" by blast
  have ky: "keyed (m, s)" using assms(1) m(1) by blast
  have eq: "filter (\<lambda>(m, s). cgroup_key m s = k) buf = filter (\<lambda>x. m_partition (fst x) = m_partition m \<and> snd x = s) buf"
    by (rule filter_cong) (use assms(1) m(2) cgroup_key_eq [OF _ ky] in \<open>auto split: prod.splits\<close>)
  have ms: "g_messages g = map fst (filter (\<lambda>x. m_partition (fst x) = m_partition m \<and> snd x = s) buf)" using g(1) eq by simp
  have "\<forall>q \<in> set (g_messages g). m_partition q = m_partition m" by (auto simp: ms)
  then have "gid g = (m_partition m, snd s)" using g(2) m(4) by (simp add: gid_def)
  then show ?thesis using m ms g(2,3) ky by (intro exI [of _ m] exI [of _ s]) (auto simp: keyed_def prod_eq_iff)
qed

lemma groups_of_spec:
  assumes "\<forall>x \<in> set buf. keyed x" and "g \<in> set (groups_of buf)"
  shows "g_known g" "g_messages g \<noteq> []" "g_last g = Some (last (g_messages g))"
    "g_messages g = map fst (filter (\<lambda>x. m_partition (fst x) = fst (gid g) \<and> snd x = (True, snd (gid g))) buf)"
proof -
  obtain k where "(k, g) \<in> set (fold add_message (map (map_prod Some id) buf) [])"
    using assms(2) by (auto simp: groupConfluentBatchMessagesWithAssignments_def)
  from cgroup_entry [OF assms(1) this] show "g_known g" "g_messages g \<noteq> []" "g_last g = Some (last (g_messages g))"
    "g_messages g = map fst (filter (\<lambda>x. m_partition (fst x) = fst (gid g) \<and> snd x = (True, snd (gid g))) buf)" by auto
qed

lemma groups_of_distinct:
  assumes "\<forall>x \<in> set buf. keyed x"
  shows "distinct (map gid (groups_of buf))"
proof -
  let ?gs = "fold add_message (map (map_prod Some id) buf) []"
  have keys: "distinct (map fst ?gs)" using cgrouped_fold [of buf] by (simp add: cgrouped_def gomap_ok_def)
  have "inj_on (\<lambda>x. gid (snd x)) (set ?gs)"
  proof (rule inj_onI)
    fix x y assume x: "x \<in> set ?gs" and y: "y \<in> set ?gs" and eq: "gid (snd x) = gid (snd y)"
    obtain m s where m: "(m, s) \<in> set buf" "fst x = cgroup_key m s" "s = (True, g_generation (snd x))" "gid (snd x) = (m_partition m, snd s)"
      using cgroup_entry [OF assms, of "fst x" "snd x"] x by auto
    obtain q t where q: "(q, t) \<in> set buf" "fst y = cgroup_key q t" "t = (True, g_generation (snd y))" "gid (snd y) = (m_partition q, snd t)"
      using cgroup_entry [OF assms, of "fst y" "snd y"] y by auto
    have "fst x = fst y" using m q eq by (simp add: cgroup_key_def)
    then show "x = y" using x y keys by (metis eq_key_imp_eq_value prod.collapse)
  qed
  then show ?thesis using keys
    by (simp add: groupConfluentBatchMessagesWithAssignments_def distinct_map comp_def)
qed

lemma groups_of_covers:
  assumes "\<forall>x \<in> set buf. keyed x" and "(q, s) \<in> set buf"
  shows "\<exists>g \<in> set (groups_of buf). q \<in> set (g_messages g) \<and> s = (True, g_generation g)"
proof -
  let ?gs = "fold add_message (map (map_prod Some id) buf) []"
  obtain g where g: "go_get ?gs (cgroup_key q s) = Some g" using cgrouped_fold [of buf] assms(2) by (auto simp: cgrouped_def)
  then have mem: "(cgroup_key q s, g) \<in> set ?gs" by (rule map_of_SomeD)
  then obtain m t where m: "(m, t) \<in> set buf" "cgroup_key q s = cgroup_key m t" "t = (True, g_generation g)"
    "g_messages g = map fst (filter (\<lambda>x. m_partition (fst x) = m_partition m \<and> snd x = t) buf)"
    using cgroup_entry [OF assms(1)] by blast
  have "m_partition q = m_partition m \<and> s = t" using cgroup_key_eq m(1,2) assms by blast
  then show ?thesis using mem m(3,4) assms(2)
    by (intro bexI [of _ g]) (force simp: groupConfluentBatchMessagesWithAssignments_def)+
qed

end
