(* ===== verification/Confluent_Delivery.thy ===== *)
theory Confluent_Delivery
  imports Confluent_Lifecycle Confluent_Workers
begin

text \<open>
  At-least-once delivery of the Confluent consumer across waves, failures, seeks, pending rewinds and
  rebalances, until it is closed: every record read under an assignment and not yet handled is in the
  hands of the run, asked for by the plan in progress, or still ahead of the fetch position.
\<close>

text \<open>Partitions and assignments are pairs that are never taken apart here.\<close>

declare split_paired_All [simp del] split_paired_Ex [simp del]

section \<open>Outstanding records\<close>

definition handled :: "devent list \<Rightarrow> cmessage \<Rightarrow> bool" where
  "handled log q \<longleftrightarrow> (\<exists>s x. DWork s x \<in> set log \<and> q \<in> chandles x)"

definition outstanding :: "ConfluentConsumer \<Rightarrow> partition_key \<Rightarrow> nat \<Rightarrow> cmessage \<Rightarrow> bool" where
  "outstanding c k n q \<longleftrightarrow> as_parts (d_assign c) k = Some n \<and> DRead (True, n) q \<in> set (d_log c) \<and> m_partition q = k
     \<and> \<not> handled (d_log c) q"

definition plan_covers :: "position list \<Rightarrow> ConfluentConsumer \<Rightarrow> bool" where
  "plan_covers ps c \<longleftrightarrow> (\<forall>k n q. outstanding c k n q \<longrightarrow>
     (\<forall>p \<in> set ps. partition_of p = k \<longrightarrow> p_offset p \<le> m_offset q)
     \<and> (k \<notin> partition_of ` set ps \<longrightarrow> d_fetch c k \<le> m_offset q))"

definition reading_covers :: "(cmessage \<times> snapshot) list \<Rightarrow> ConfluentConsumer \<Rightarrow> bool" where
  "reading_covers buf c \<longleftrightarrow> (\<forall>k n q. outstanding c k n q \<longrightarrow> d_fetch c k \<le> m_offset q \<or> (q, True, n) \<in> set buf)"

definition wave_covers :: "wave \<Rightarrow> ConfluentConsumer \<Rightarrow> bool" where
  "wave_covers ws c \<longleftrightarrow> (\<forall>k n q. outstanding c k n q \<longrightarrow>
     d_fetch c k \<le> m_offset q \<or> (\<exists>x \<in> set ws. gid (fst x) = (k, n) \<and> q \<in> set (g_messages (fst x))))"

text \<open>A settled record and what must have been handled before.\<close>

definition settled_late :: "devent \<Rightarrow> devent set \<Rightarrow> bool" where
  "settled_late e D \<longleftrightarrow> (\<forall>s x m. e = DWork s x \<longrightarrow> csettles x = Some m \<longrightarrow>
     (\<forall>q. DRead s q \<in> D \<longrightarrow> m_partition q = m_partition m \<longrightarrow> m_offset q \<le> m_offset m \<longrightarrow>
        (\<exists>t y. DWork t y \<in> D \<and> q \<in> chandles y)))"

section \<open>The invariant\<close>

definition basic_ok :: "broker \<Rightarrow> ConfluentConsumer \<Rightarrow> bool" where
  "basic_ok B c \<longleftrightarrow>
     (\<forall>k n. as_parts (d_assign c) k = Some n \<longrightarrow> as_known (d_assign c) \<and> n \<le> as_generation (d_assign c) \<and> k \<notin> set (d_revoked c))
     \<and> (\<forall>s q. DRead s q \<in> set (d_log c) \<longrightarrow> fst s \<and> snd s \<le> as_generation (d_assign c)
          \<and> as_known (d_assign c) \<and> tp_Topic (m_TopicPartition q) \<noteq> None \<and> B (m_partition q) (m_offset q) = Some q
          \<and> (\<forall>n. as_parts (d_assign c) (m_partition q) = Some n \<longrightarrow> snd s \<le> n))
     \<and> \<not> d_cancelled c \<and> causal settled_late {} (d_log c)"

definition buf_ok :: "(cmessage \<times> snapshot) list \<Rightarrow> ConfluentConsumer \<Rightarrow> bool" where
  "buf_ok buf c \<longleftrightarrow> (\<forall>x \<in> set buf. keyed x \<and> DRead (snd x) (fst x) \<in> set (d_log c))
     \<and> sorted_wrt (\<lambda>x y. m_partition (fst x) = m_partition (fst y) \<and> snd x = snd y \<longrightarrow> m_offset (fst x) < m_offset (fst y)) buf
     \<and> (\<forall>x \<in> set buf. as_parts (d_assign c) (m_partition (fst x)) = Some (snd (snd x)) \<longrightarrow>
          m_offset (fst x) < d_fetch c (m_partition (fst x)))"

definition owned_group :: "ConfluentConsumer \<Rightarrow> cgroup \<Rightarrow> bool" where
  "owned_group c g \<longleftrightarrow> as_parts (d_assign c) (fst (gid g)) = Some (snd (gid g))"

definition member_ok :: "ConfluentConsumer \<Rightarrow> cgroup \<Rightarrow> bool" where
  "member_ok c g \<longleftrightarrow> group_wf g \<and> g_known g
     \<and> (\<forall>m \<in> set (g_messages g). m_partition m = fst (gid g) \<and> DRead (True, snd (gid g)) m \<in> set (d_log c))
     \<and> (owned_group c g \<longrightarrow> (\<forall>m \<in> set (g_messages g). m_offset m < d_fetch c (fst (gid g))))"

text \<open>What is left of a group by a worker that still makes the given calls.\<close>

definition left_ok :: "ConfluentConsumer \<Rightarrow> cgroup \<Rightarrow> cevent list \<Rightarrow> kerror option \<Rightarrow> bool" where
  "left_ok c g es err \<longleftrightarrow>
     (let done = \<lambda>q. handled (d_log c) q \<or> (\<exists>x \<in> set es. q \<in> chandles x)
      in case err of
           None \<Rightarrow> \<forall>q \<in> set (g_messages g). done q
         | Some e \<Rightarrow> \<exists>m \<in> set (g_messages g). requests e = [confluentRecordPosition m]
                       \<and> (\<forall>q \<in> set (g_messages g). m_offset q < m_offset m \<longrightarrow> done q))"

definition last_read :: "ConfluentConsumer \<Rightarrow> cgroup \<Rightarrow> bool" where
  "last_read c g \<longleftrightarrow> (\<forall>n q. DRead (True, n) q \<in> set (d_log c) \<longrightarrow> m_partition q = fst (gid g) \<longrightarrow> n \<le> snd (gid g))"

fun status_ok :: "ConfluentConsumer \<Rightarrow> cgroup \<Rightarrow> cstatus \<Rightarrow> bool" where
  "status_ok c g (Active es err) \<longleftrightarrow> owned_group c g \<and> last_read c g
     \<and> causal settled_late (set (d_log c)) (map (DWork (True, snd (gid g))) es)
     \<and> (CtxDone \<notin> set es \<longrightarrow> left_ok c g es err \<and> (\<forall>e. err = Some e \<longrightarrow> planned e))"
| "status_ok c g (Ended err) \<longleftrightarrow> (owned_group c g \<longrightarrow> left_ok c g [] err)
     \<and> (\<forall>e. err = Some e \<longrightarrow> planned e \<and> last_read c g \<and> (\<exists>m \<in> set (g_messages g). requests e = [confluentRecordPosition m]))"
| "status_ok c g _ \<longleftrightarrow> True"

definition wave_ok :: "wave \<Rightarrow> ConfluentConsumer \<Rightarrow> bool" where
  "wave_ok ws c \<longleftrightarrow> distinct (map (gid \<circ> fst) ws) \<and> (\<forall>x \<in> set ws. member_ok c (fst x) \<and> status_ok c (fst x) (snd x)) \<and> wave_covers ws c"

definition runs :: "ConfluentConsumer \<Rightarrow> nat \<Rightarrow> bool" where
  "runs c n \<longleftrightarrow> d_client c = Some n"

fun in_phase :: "ConfluentConsumer \<Rightarrow> dphase \<Rightarrow> bool" where
  "in_phase c DIdle \<longleftrightarrow> plan_covers (d_pending c) c"
| "in_phase c (DStarting n) \<longleftrightarrow> runs c n \<and> plan_covers (d_pending c) c"
| "in_phase c (DApplying n ps) \<longleftrightarrow> runs c n \<and> plan_covers (d_pending c) c \<and> plan_covers ps c \<and> set (d_pending c) \<subseteq> set ps"
| "in_phase c (DApplySeek n ps owned) \<longleftrightarrow> runs c n \<and> plan_covers (d_pending c) c \<and> plan_covers owned c \<and> set (d_pending c) \<subseteq> set ps"
| "in_phase c (DApplied n ps) \<longleftrightarrow> runs c n \<and> plan_covers [] c \<and> plan_covers (d_pending c) c \<and> set (d_pending c) \<subseteq> set ps"
| "in_phase c (DReading n buf) \<longleftrightarrow> runs c n \<and> d_pending c = [] \<and> buf_ok buf c \<and> reading_covers buf c"
| "in_phase c (DWave n ws _) \<longleftrightarrow> runs c n \<and> d_pending c = [] \<and> wave_ok ws c"
| "in_phase c (DFailing n e) \<longleftrightarrow> runs c n \<and> d_pending c = [] \<and> planned e \<and> plan_covers (requests e) c"
| "in_phase c (DSeeking n e ps) \<longleftrightarrow> runs c n \<and> d_pending c = [] \<and> plan_covers ps c"
| "in_phase c (DRecording n e ps) \<longleftrightarrow> runs c n \<and> d_pending c = [] \<and> plan_covers ps c"
| "in_phase c (DReturning n r) \<longleftrightarrow> runs c n \<and> plan_covers (d_pending c) c"

definition delivery_ok :: "broker \<Rightarrow> ConfluentConsumer \<Rightarrow> bool" where
  "delivery_ok B c \<longleftrightarrow> basic_ok B c \<and> in_phase c (d_phase c)"

section \<open>Frames\<close>

named_theorems delivery_frame \<open>parts of the invariant that an update does not touch\<close>

lemma outstanding_frame [delivery_frame]:
  "outstanding (c\<lparr>d_phase := p\<rparr>) = outstanding c" "outstanding (c\<lparr>d_pending := ps\<rparr>) = outstanding c"
  "outstanding (c\<lparr>d_fetch := f\<rparr>) = outstanding c" "outstanding (c\<lparr>d_client := cl\<rparr>) = outstanding c"
  "outstanding (c\<lparr>d_created := n\<rparr>) = outstanding c" "outstanding (c\<lparr>d_topics := ts\<rparr>) = outstanding c"
  "outstanding (c\<lparr>d_cancelled := b\<rparr>) = outstanding c" "outstanding (c\<lparr>d_revoked := rs\<rparr>) = outstanding c"
  by (simp_all add: outstanding_def fun_eq_iff)

lemma outstanding_dlog [delivery_frame]:
  "outstanding (dlog (DSeek ps err) c) = outstanding c" "outstanding (dlog (DClose n) c) = outstanding c"
  by (simp_all add: outstanding_def fun_eq_iff dlog_def handled_def)

lemma dlog_fields [simp]:
  "d_phase (dlog e c) = d_phase c" "d_pending (dlog e c) = d_pending c" "d_fetch (dlog e c) = d_fetch c"
  "d_client (dlog e c) = d_client c" "d_closed (dlog e c) = d_closed c" "d_cancelled (dlog e c) = d_cancelled c"
  "d_revoked (dlog e c) = d_revoked c" "d_assign (dlog e c) = d_assign c" "d_log (dlog e c) = d_log c @ [e]"
  "d_topics (dlog e c) = d_topics c" "d_created (dlog e c) = d_created c" "d_closing (dlog e c) = d_closing c"
  by (simp_all add: dlog_def)

lemma plan_frame [delivery_frame]:
  "plan_covers ps (c\<lparr>d_phase := p\<rparr>) = plan_covers ps c" "plan_covers ps (c\<lparr>d_pending := qs\<rparr>) = plan_covers ps c"
  "plan_covers ps (c\<lparr>d_client := cl\<rparr>) = plan_covers ps c" "plan_covers ps (c\<lparr>d_created := n\<rparr>) = plan_covers ps c"
  "plan_covers ps (c\<lparr>d_topics := ts\<rparr>) = plan_covers ps c" "plan_covers ps (c\<lparr>d_cancelled := b\<rparr>) = plan_covers ps c"
  "plan_covers ps (dlog (DSeek qs err) c) = plan_covers ps c" "plan_covers ps (dlog (DClose m) c) = plan_covers ps c"
  by (simp_all add: plan_covers_def delivery_frame)

lemma reading_frame [delivery_frame]:
  "reading_covers buf (c\<lparr>d_phase := p\<rparr>) = reading_covers buf c" "reading_covers buf (c\<lparr>d_pending := qs\<rparr>) = reading_covers buf c"
  "buf_ok buf (c\<lparr>d_phase := p\<rparr>) = buf_ok buf c" "buf_ok buf (c\<lparr>d_pending := qs\<rparr>) = buf_ok buf c"
  by (simp_all add: reading_covers_def buf_ok_def delivery_frame)

lemma status_phase: "status_ok (c\<lparr>d_phase := p\<rparr>) g st = status_ok c g st"
  by (cases st) (simp_all add: owned_group_def last_read_def left_ok_def)

lemma wave_frame [delivery_frame]:
  "wave_covers ws (c\<lparr>d_phase := p\<rparr>) = wave_covers ws c" "member_ok (c\<lparr>d_phase := p\<rparr>) g = member_ok c g"
  "status_ok (c\<lparr>d_phase := p\<rparr>) g st = status_ok c g st" "wave_ok ws (c\<lparr>d_phase := p\<rparr>) = wave_ok ws c"
  by (simp_all add: wave_covers_def member_ok_def owned_group_def status_phase wave_ok_def delivery_frame)

lemma basic_frame [delivery_frame]:
  "basic_ok B (c\<lparr>d_phase := p\<rparr>) = basic_ok B c" "basic_ok B (c\<lparr>d_pending := qs\<rparr>) = basic_ok B c"
  "basic_ok B (c\<lparr>d_client := cl\<rparr>) = basic_ok B c" "basic_ok B (c\<lparr>d_created := n\<rparr>) = basic_ok B c"
  "basic_ok B (c\<lparr>d_topics := ts\<rparr>) = basic_ok B c" "basic_ok B (c\<lparr>d_fetch := f\<rparr>) = basic_ok B c"
  by (simp_all add: basic_ok_def)

lemma basic_dlog [delivery_frame]:
  "basic_ok B (dlog (DSeek ps err) c) = basic_ok B c" "basic_ok B (dlog (DClose n) c) = basic_ok B c"
  by (auto simp: basic_ok_def causal_append settled_late_def)

lemma runs_frame [delivery_frame]:
  "runs (c\<lparr>d_phase := p\<rparr>) = runs c" "runs (c\<lparr>d_pending := qs\<rparr>) = runs c" "runs (c\<lparr>d_fetch := f\<rparr>) = runs c"
  "runs (dlog e c) = runs c"
  by (simp_all add: runs_def fun_eq_iff)

section \<open>Connecting\<close>

lemma delivery_new: "delivery_ok B new_confluent"
  by (simp add: delivery_ok_def basic_ok_def new_confluent_def plan_covers_def outstanding_def)

lemma not_running: "delivery_ok B c \<Longrightarrow> d_client c = None \<Longrightarrow> d_phase c = DIdle"
  by (cases "d_phase c") (auto simp: delivery_ok_def runs_def)

lemma delivery_create:
  assumes "delivery_ok B c" and "d_client c = None"
  shows "delivery_ok B (snd (create_driver a b createErr subscribeErr c))"
    and "d_phase (snd (create_driver a b createErr subscribeErr c)) = DIdle"
  using assms not_running [OF assms]
  by (auto simp: create_driver_def delivery_ok_def delivery_frame Let_def split: option.splits)

lemma delivery_connect: "delivery_ok B c \<Longrightarrow> delivery_ok B (snd (confluent_Connect createErr subscribeErr topics c))"
proof -
  assume ok: "delivery_ok B c"
  let ?d = "create_driver ''kafka/confluent: consumer group connect failed: %w'' ''kafka/confluent: subscribe failed: %w'' createErr subscribeErr c"
  have "delivery_ok B (snd ?d) \<and> d_phase (snd ?d) = DIdle" if "d_client c = None" using delivery_create [OF ok that] by blast
  then show ?thesis using ok
    by (auto simp: confluent_Connect_def delivery_ok_def delivery_frame split: option.splits prod.splits)
qed

lemma reconnect_ok:
  assumes "delivery_ok B c" and "reconnect createErr subscribeErr c = (err, c')"
  shows "delivery_ok B c'" and "err = None \<Longrightarrow> d_client c' \<noteq> None"
proof -
  let ?d = "create_driver ''kafka/confluent: reconnect consumer group failed: %w'' ''kafka/confluent: reconnect subscribe failed: %w'' createErr subscribeErr c"
  have "delivery_ok B (snd ?d)" if "d_client c = None" using delivery_create [OF assms(1) that] by blast
  then show "delivery_ok B c'" using assms by (auto simp: reconnect_def split: if_splits)
  show "err = None \<Longrightarrow> d_client c' \<noteq> None" using assms(2)
    by (auto simp: reconnect_def create_driver_def Let_def split: if_splits option.splits)
qed

lemma delivery_begin: "delivery_ok B c \<Longrightarrow> delivery_ok B (snd (beginConsumeRun createErr subscribeErr c))"
proof -
  assume ok: "delivery_ok B c"
  obtain err c1 where r: "reconnect createErr subscribeErr c = (err, c1)" by force
  note c1 = reconnect_ok [OF ok r]
  have "delivery_ok B (c1\<lparr>d_phase := DStarting (the (d_client c1)), d_cancelled := False\<rparr>)" if "err = None" "d_phase c1 = DIdle"
    using c1 that by (auto simp: delivery_ok_def delivery_frame basic_ok_def runs_def)
  then show ?thesis using r c1(1) by (auto simp: beginConsumeRun_def split: option.splits)
qed

section \<open>Rewinds\<close>

text \<open>A seek that the code accepts has moved every partition it asked for.\<close>

lemma check_seeks_all:
  "check_seeks ts expected = None \<Longrightarrow> k \<in> set expected \<Longrightarrow> \<exists>t \<in> set ts. tp_key t = k \<and> tp_Error t = None"
proof (induction ts expected rule: check_seeks.induct)
  case (2 t ts expected)
  then show ?case by (cases "tp_key t = k") (auto split: option.splits if_splits)
qed (auto split: if_splits)

lemma partition_request: "tp_key (seek_request p) = partition_of p"
  by (simp add: tp_key_def seek_request_def partition_of_def confluentTopicName_def)

lemma seek_accepted:
  assumes "seekConfluentPositions (\<lambda>_. answer) ps = None" and "seeks answer ps f f'" and "p \<in> set ps"
  shows "f' (partition_of p) = p_offset p"
proof -
  have "ps \<noteq> []" using assms(3) by auto
  then obtain ts where ts: "answer = Inr ts" "check_seeks ts (map (tp_key \<circ> seek_request) ps) = None"
    using assms(1) by (auto simp: seekConfluentPositions_def split: sum.splits if_splits)
  have "partition_of p \<in> set (map (tp_key \<circ> seek_request) ps)" using assms(3) by (auto simp: partition_request image_iff)
  then obtain t where "t \<in> set ts" "tp_key t = partition_of p" "tp_Error t = None" using check_seeks_all [OF ts(2)] by blast
  then show ?thesis using assms(2,3) ts(1) unfolding seeks_def by blast
qed

text \<open>A seek never moves past an outstanding record, whatever its outcome.\<close>

lemma seek_covers:
  assumes "seeks answer ps (d_fetch c) f" and "plan_covers ps c" and "plan_covers qs c"
  shows "plan_covers qs (c\<lparr>d_fetch := f\<rparr>)"
  unfolding plan_covers_def
proof (intro allI impI)
  fix k n q assume o: "outstanding (c\<lparr>d_fetch := f\<rparr>) k n q"
  then have o': "outstanding c k n q" by (simp add: delivery_frame)
  have "d_fetch (c\<lparr>d_fetch := f\<rparr>) k \<le> m_offset q" if "k \<notin> partition_of ` set qs"
  proof (cases "k \<in> partition_of ` set ps")
    case True
    then obtain p where p: "p \<in> set ps" "k = partition_of p" by blast
    then have "f k = p_offset p \<or> f k = d_fetch c k" using assms(1) unfolding seeks_def by blast
    then show ?thesis using assms(2,3) o' p that unfolding plan_covers_def by auto
  next
    case False
    then have "f k = d_fetch c k" using assms(1) unfolding seeks_def by blast
    then show ?thesis using assms(3) o' that unfolding plan_covers_def by auto
  qed
  then show "(\<forall>p\<in>set qs. partition_of p = k \<longrightarrow> p_offset p \<le> m_offset q)
      \<and> (k \<notin> partition_of ` set qs \<longrightarrow> d_fetch (c\<lparr>d_fetch := f\<rparr>) k \<le> m_offset q)"
    using assms(3) o' unfolding plan_covers_def by blast
qed

lemma seek_done_covers:
  assumes "seeks answer ps (d_fetch c) f" and "plan_covers ps c" and "seekConfluentPositions (\<lambda>_. answer) ps = None"
  shows "plan_covers [] (c\<lparr>d_fetch := f\<rparr>)"
  unfolding plan_covers_def
proof (intro allI impI conjI)
  fix k n q assume "outstanding (c\<lparr>d_fetch := f\<rparr>) k n q"
  then have o: "outstanding c k n q" by (simp add: delivery_frame)
  have "f k \<le> m_offset q"
  proof (cases "k \<in> partition_of ` set ps")
    case True
    then obtain p where p: "p \<in> set ps" "k = partition_of p" by blast
    then show ?thesis using seek_accepted [OF assms(3,1) p(1)] assms(2) o unfolding plan_covers_def by fastforce
  next
    case False
    then have "f k = d_fetch c k" using assms(1) unfolding seeks_def by blast
    then show ?thesis using assms(2) o False unfolding plan_covers_def by auto
  qed
  then show "d_fetch (c\<lparr>d_fetch := f\<rparr>) k \<le> m_offset q" by simp
qed simp

text \<open>Only positions of partitions that are no longer owned are dropped from a plan.\<close>

lemma outstanding_owned:
  "basic_ok B c \<Longrightarrow> outstanding c k n q \<Longrightarrow> k \<notin> set (d_revoked c) \<and> k \<in> dom (as_parts (d_assign c))"
  by (auto simp: basic_ok_def outstanding_def)

lemma filter_covers:
  assumes "basic_ok B c" and "plan_covers ps c" and "\<And>p. p \<in> set ps \<Longrightarrow> partition_of p \<in> dom (as_parts (d_assign c)) - set (d_revoked c) \<Longrightarrow> P p"
  shows "plan_covers (filter P ps) c"
  unfolding plan_covers_def
proof (intro allI impI)
  fix k n q assume o: "outstanding c k n q"
  have "k \<notin> partition_of ` set ps" if "k \<notin> partition_of ` set (filter P ps)"
    using that assms(3) outstanding_owned [OF assms(1) o] by (auto simp: image_iff)
  then show "(\<forall>p\<in>set (filter P ps). partition_of p = k \<longrightarrow> p_offset p \<le> m_offset q)
      \<and> (k \<notin> partition_of ` set (filter P ps) \<longrightarrow> d_fetch c k \<le> m_offset q)"
    using assms(2) o unfolding plan_covers_def by auto
qed

lemma still_owned_covers:
  assumes "basic_ok B c" and "plan_covers ps c" and "assignment_answer c assigned"
  shows "plan_covers (rewindPositionsStillOwned (d_revoked c) assigned ps) c"
  unfolding rewindPositionsStillOwned_def
  by (rule filter_covers [OF assms(1,2)]) (use assms(3) in \<open>auto simp: assignment_answer_def split: option.splits\<close>)

lemma delivery_apply_begin:
  "delivery_ok B c \<Longrightarrow> d_phase c = DStarting n \<Longrightarrow> \<not> d_closed c \<Longrightarrow> delivery_ok B (apply_begin n c)"
  by (auto simp: delivery_ok_def apply_begin_def delivery_frame runs_def buf_ok_def reading_covers_def plan_covers_def)

lemma delivery_apply_filter:
  "delivery_ok B c \<Longrightarrow> d_phase c = DApplying n ps \<Longrightarrow> assignment_answer c assigned \<Longrightarrow> delivery_ok B (apply_filter assigned n ps c)"
  using still_owned_covers [of B c ps assigned] by (simp add: delivery_ok_def apply_filter_def delivery_frame)

lemma delivery_apply_seek:
  assumes "delivery_ok B c" and "d_phase c = DApplySeek n ps owned" and "seeks answer owned (d_fetch c) f"
  shows "delivery_ok B (apply_seek n ps owned (seekConfluentPositions (\<lambda>_. answer) owned) f c)"
proof -
  have ok: "basic_ok B c" "runs c n" "plan_covers (d_pending c) c" "plan_covers owned c" "set (d_pending c) \<subseteq> set ps"
    using assms(1,2) by (auto simp: delivery_ok_def)
  have pend: "plan_covers (d_pending c) (c\<lparr>d_fetch := f\<rparr>)" by (rule seek_covers [OF assms(3) ok(4,3)])
  have sought: "seekConfluentPositions (\<lambda>_. answer) owned = None \<Longrightarrow> plan_covers [] (c\<lparr>d_fetch := f\<rparr>)"
    by (rule seek_done_covers [OF assms(3) ok(4)])
  define c1 where "c1 = (if owned = [] then c else dlog (DSeek owned (seekConfluentPositions (\<lambda>_. answer) owned)) c)"
  have eq: "plan_covers qs (c1\<lparr>d_fetch := f\<rparr>) = plan_covers qs (c\<lparr>d_fetch := f\<rparr>)" for qs
    by (auto simp: c1_def plan_covers_def delivery_frame)
  have c1: "basic_ok B c1" "runs c1 n" "d_pending c1 = d_pending c" using ok by (auto simp: c1_def delivery_frame)
  show ?thesis
  proof (cases "seekConfluentPositions (\<lambda>_. answer) owned")
    case None
    then have "apply_seek n ps owned None f c = c1\<lparr>d_fetch := f\<rparr>\<lparr>d_phase := DApplied n ps\<rparr>" by (simp add: apply_seek_def c1_def)
    then show ?thesis using None sought c1 ok(5) pend eq by (simp add: delivery_ok_def delivery_frame)
  next
    case (Some e)
    then have "apply_seek n ps owned (Some e) f c = c1\<lparr>d_fetch := f\<rparr>\<lparr>d_phase := DReturning n
        (Some (Wrapf ''kafka/confluent: pending exact handler offset rewind failed: %w'' e))\<rparr>" by (simp add: apply_seek_def c1_def)
    then show ?thesis using Some c1 pend eq by (simp add: delivery_ok_def delivery_frame)
  qed
qed

lemma delivery_apply_clear:
  "delivery_ok B c \<Longrightarrow> d_phase c = DApplied n ps \<Longrightarrow> delivery_ok B (apply_clear n ps c)"
  by (auto simp: delivery_ok_def apply_clear_def delivery_frame runs_def buf_ok_def reading_covers_def plan_covers_def filter_empty_conv)

text \<open>The retry plan of a failed wave.\<close>

lemma fold_add_partitions: "partition_of ` set (fold add_position qs ps) = partition_of ` (set qs \<union> set ps)"
  by (induction qs arbitrary: ps) (auto simp: add_position_partitions image_Un)

lemma plan_merge: "plan_covers ps c \<Longrightarrow> plan_covers (fold add_position ps []) c"
  using fold_add_sub [of ps "[]"] fold_add_partitions [of ps "[]"] unfolding plan_covers_def by (auto simp: subset_iff)

lemma plan_positions: "plan_covers (requests e) c \<Longrightarrow> plan_covers (fst (consumerRewindPositions e)) c"
  using plan_merge [of "requests e" c] by (simp add: consumerRewindPositions_eq plan_covers_def)

lemma delivery_retry_begin:
  assumes "delivery_ok B c" and "d_phase c = DFailing n e" and "assignment_answer c assigned"
  shows "delivery_ok B (retry_begin assigned n e c)"
proof -
  let ?ps = "fst (consumerRewindPositions e)" and ?owned = "rewindPositionsStillOwned (d_revoked c) assigned (fst (consumerRewindPositions e))"
  have ok: "basic_ok B c" "runs c n" "d_pending c = []" "planned e" "plan_covers ?ps c"
    using assms(1,2) plan_positions by (auto simp: delivery_ok_def)
  have owned: "plan_covers ?owned c" by (rule still_owned_covers [OF ok(1,5) assms(3)])
  have decided: "consumerRewindPositions e = (?ps, True)" using ok(4) by (simp add: consumerRewindPositions_eq)
  have empty: "?ps = [] \<Longrightarrow> ?owned = []" by (simp add: rewindPositionsStillOwned_def)
  have none: "?owned = [] \<Longrightarrow> plan_covers (d_pending c) c" using owned ok(3) by simp
  have "retry_begin assigned n e c =
      (if ?owned = [] then c\<lparr>d_phase := DReturning n (Some e)\<rparr> else c\<lparr>d_phase := DSeeking n e ?owned\<rparr>)"
    unfolding retry_begin_def by (subst decided) (use empty in \<open>auto simp: Let_def\<close>)
  then show ?thesis using ok(1-3) owned none by (simp add: delivery_ok_def delivery_frame)
qed

lemma delivery_retry_seek:
  assumes "delivery_ok B c" and "d_phase c = DSeeking n e ps" and "seeks answer ps (d_fetch c) f"
  shows "delivery_ok B (retry_seek n e ps (seekConfluentPositions (\<lambda>_. answer) ps) f c)"
proof -
  have ok: "basic_ok B c" "runs c n" "d_pending c = []" "plan_covers ps c" using assms(1,2) by (auto simp: delivery_ok_def)
  have eq: "plan_covers qs ((dlog (DSeek ps err) c)\<lparr>d_fetch := f\<rparr>) = plan_covers qs (c\<lparr>d_fetch := f\<rparr>)" for qs err
    by (simp add: plan_covers_def delivery_frame)
  have "plan_covers ps (c\<lparr>d_fetch := f\<rparr>)" by (rule seek_covers [OF assms(3) ok(4,4)])
  moreover have "seekConfluentPositions (\<lambda>_. answer) ps = None \<Longrightarrow> plan_covers [] (c\<lparr>d_fetch := f\<rparr>)"
    by (rule seek_done_covers [OF assms(3) ok(4)])
  ultimately show ?thesis using ok(1-3) eq by (simp add: delivery_ok_def retry_seek_def delivery_frame)
qed

lemma delivery_retry_record:
  assumes "delivery_ok B c" and "d_phase c = DRecording n e ps" and "\<not> d_closed c"
  shows "delivery_ok B (retry_record n e ps c)"
proof -
  have ok: "basic_ok B c" "runs c n" "d_pending c = []" "plan_covers ps c" using assms(1,2) by (auto simp: delivery_ok_def)
  let ?ps = "filter (\<lambda>p. partition_of p \<notin> set (d_revoked c)) ps"
  let ?m = "fold add_position ?ps []"
  have "plan_covers ?m c" by (rule plan_merge, rule filter_covers [OF ok(1,4)]) simp
  moreover have "retry_record n e ps c = c\<lparr>d_pending := ?m\<rparr>\<lparr>d_phase := DReturning n (Some e)\<rparr>"
    using ok(2,3) assms(3) by (simp add: retry_record_def runs_def mergeConsumerRewindPositions_def)
  ultimately show ?thesis using ok(1,2) by (simp add: delivery_ok_def delivery_frame)
qed

section \<open>Rebalances\<close>

definition rebalanced :: "ConfluentConsumer \<Rightarrow> ConfluentConsumer \<Rightarrow> bool" where
  "rebalanced c c' \<longleftrightarrow> d_log c' = d_log c \<and> d_phase c' = d_phase c \<and> d_client c' = d_client c \<and> \<not> leased (d_phase c)
     \<and> set (d_pending c') \<subseteq> set (d_pending c)
     \<and> (\<forall>k n. as_parts (d_assign c') k = Some n \<longrightarrow>
          as_parts (d_assign c) k = Some n \<and> d_fetch c' k = d_fetch c k \<or> as_generation (d_assign c) < n)"

lemma rebalanced_outstanding:
  assumes "basic_ok B c" and "rebalanced c c'" and "outstanding c' k n q"
  shows "outstanding c k n q \<and> d_fetch c' k = d_fetch c k"
proof -
  have "DRead (True, n) q \<in> set (d_log c)" using assms(2,3) by (simp add: outstanding_def rebalanced_def)
  then have "n \<le> as_generation (d_assign c)" using assms(1) unfolding basic_ok_def by fastforce
  then show ?thesis using assms(2,3) unfolding outstanding_def rebalanced_def by fastforce
qed

lemma rebalanced_covers:
  assumes "basic_ok B c" and "rebalanced c c'"
  shows "plan_covers ps c \<Longrightarrow> plan_covers ps c'" "reading_covers buf c \<Longrightarrow> reading_covers buf c'"
    "wave_covers ws c \<Longrightarrow> wave_covers ws c'"
proof -
  note o = rebalanced_outstanding [OF assms]
  show "plan_covers ps c \<Longrightarrow> plan_covers ps c'" using o unfolding plan_covers_def by metis
  show "reading_covers buf c \<Longrightarrow> reading_covers buf c'" using o unfolding reading_covers_def by metis
  show "wave_covers ws c \<Longrightarrow> wave_covers ws c'" using o unfolding wave_covers_def by metis
qed

lemma rebalanced_owned:
  assumes "basic_ok B c" and "rebalanced c c'" and "as_parts (d_assign c') k = Some n" and "DRead (b, n) q \<in> set (d_log c)"
  shows "as_parts (d_assign c) k = Some n \<and> d_fetch c' k = d_fetch c k"
proof -
  have "n \<le> as_generation (d_assign c)" using assms(1,4) unfolding basic_ok_def by fastforce
  then show ?thesis using assms(2,3) unfolding rebalanced_def by fastforce
qed

lemma rebalanced_buf:
  assumes "basic_ok B c" and "rebalanced c c'" and "buf_ok buf c"
  shows "buf_ok buf c'"
  unfolding buf_ok_def
proof (intro conjI ballI impI)
  show "keyed x" "DRead (snd x) (fst x) \<in> set (d_log c')" if "x \<in> set buf" for x
    using assms(2,3) that by (auto simp: buf_ok_def rebalanced_def)
  show "sorted_wrt (\<lambda>x y. m_partition (fst x) = m_partition (fst y) \<and> snd x = snd y \<longrightarrow> m_offset (fst x) < m_offset (fst y)) buf"
    using assms(3) by (simp add: buf_ok_def)
  fix x assume x: "x \<in> set buf" and own: "as_parts (d_assign c') (m_partition (fst x)) = Some (snd (snd x))"
  have "DRead (fst (snd x), snd (snd x)) (fst x) \<in> set (d_log c)" using assms(3) x by (auto simp: buf_ok_def)
  from rebalanced_owned [OF assms(1,2) own this] show "m_offset (fst x) < d_fetch c' (m_partition (fst x))"
    using assms(3) x by (auto simp: buf_ok_def)
qed

lemma rebalanced_group:
  assumes "basic_ok B c" and "rebalanced c c'" and "member_ok c g" and "owned_group c' g"
  shows "owned_group c g \<and> d_fetch c' (fst (gid g)) = d_fetch c (fst (gid g))"
proof -
  obtain m where "DRead (True, snd (gid g)) m \<in> set (d_log c)" using assms(3) by (cases "g_messages g") (auto simp: member_ok_def group_wf_def)
  from rebalanced_owned [OF assms(1,2) _ this] show ?thesis using assms(4) by (simp add: owned_group_def)
qed

lemma rebalanced_wave:
  assumes "basic_ok B c" and "rebalanced c c'" and "wave_ok ws c" and "d_phase c = DWave n ws deferred"
  shows "wave_ok ws c'"
  unfolding wave_ok_def
proof (intro conjI ballI)
  show "distinct (map (gid \<circ> fst) ws)" using assms(3) by (simp add: wave_ok_def)
  show "wave_covers ws c'" using rebalanced_covers(3) [OF assms(1,2)] assms(3) by (simp add: wave_ok_def)
  fix x assume x: "x \<in> set ws"
  have ok: "member_ok c (fst x)" "status_ok c (fst x) (snd x)" using assms(3) x by (auto simp: wave_ok_def)
  note own = rebalanced_group [OF assms(1,2) ok(1)]
  have log: "d_log c' = d_log c" "\<not> leased (DWave n ws deferred)" using assms(2,4) by (auto simp: rebalanced_def)
  show "member_ok c' (fst x)" using ok(1) own log(1) by (auto simp: member_ok_def)
  show "status_ok c' (fst x) (snd x)"
  proof (cases "snd x")
    case (Active es err)
    then show ?thesis using log(2) x by (cases x) (fastforce simp: leased_def list_ex_iff)
  next
    case (Ended err)
    then show ?thesis using ok(2) own log(1) by (auto simp: left_ok_def last_read_def)
  qed simp_all
qed

lemma delivery_rebalanced:
  assumes "delivery_ok B c" and "rebalanced c c'" and "basic_ok B c'" and "plan_covers (d_pending c) c \<Longrightarrow> plan_covers (d_pending c') c'"
  shows "delivery_ok B c'"
proof -
  have ok: "basic_ok B c" "in_phase c (d_phase c)" using assms(1) by (auto simp: delivery_ok_def)
  have c': "d_phase c' = d_phase c" "runs c' = runs c" "set (d_pending c') \<subseteq> set (d_pending c)"
    using assms(2) by (auto simp: rebalanced_def runs_def fun_eq_iff)
  note covers = rebalanced_covers [OF ok(1) assms(2)] rebalanced_buf [OF ok(1) assms(2)] rebalanced_wave [OF ok(1) assms(2)]
  have "in_phase c' (d_phase c)"
    using ok(2) c' covers assms(4) by (cases "d_phase c") (auto simp: subset_iff)
  then show ?thesis using assms(3) c'(1) by (simp add: delivery_ok_def)
qed

lemma basic_owned:
  "basic_ok B c \<Longrightarrow> as_parts (d_assign c) k = Some n \<Longrightarrow> n \<le> as_generation (d_assign c) \<and> k \<notin> set (d_revoked c)"
  by (simp add: basic_ok_def)

lemma basic_rebalanced:
  assumes "basic_ok B c" and "rebalanced c c'" and "as_known (d_assign c')"
    and "as_generation (d_assign c) \<le> as_generation (d_assign c')" and "d_cancelled c' = d_cancelled c"
    and own: "\<And>k n. as_parts (d_assign c') k = Some n \<Longrightarrow> n \<le> as_generation (d_assign c') \<and> k \<notin> set (d_revoked c')"
  shows "basic_ok B c'"
  unfolding basic_ok_def
proof (intro conjI allI impI)
  have log: "d_log c' = d_log c" using assms(2) by (simp add: rebalanced_def)
  show "\<not> d_cancelled c'" "causal settled_late {} (d_log c')" using assms(1,5) log by (auto simp: basic_ok_def)
  show "as_known (d_assign c')" by (rule assms(3))
  show "n \<le> as_generation (d_assign c')" "k \<notin> set (d_revoked c')" if "as_parts (d_assign c') k = Some n" for k n
    using own [OF that] by auto
  fix s q assume "DRead s q \<in> set (d_log c')"
  then have r: "DRead s q \<in> set (d_log c)" using log by simp
  then have s: "fst s \<and> snd s \<le> as_generation (d_assign c) \<and> tp_Topic (m_TopicPartition q) \<noteq> None
      \<and> B (m_partition q) (m_offset q) = Some q" using assms(1) unfolding basic_ok_def by blast
  then show "fst s" "snd s \<le> as_generation (d_assign c')" "as_known (d_assign c')" "tp_Topic (m_TopicPartition q) \<noteq> None"
    "B (m_partition q) (m_offset q) = Some q" using assms(3,4) by auto
  fix n assume "as_parts (d_assign c') (m_partition q) = Some n"
  then have "as_parts (d_assign c) (m_partition q) = Some n \<or> as_generation (d_assign c) < n"
    using assms(2) unfolding rebalanced_def by blast
  then show "snd s \<le> n" using s r assms(1) unfolding basic_ok_def by fastforce
qed

lemma assign_parts:
  "topics_named parts \<Longrightarrow> fold (assign_part n) parts m k = (if k \<in> tp_key ` set parts then Some n else m k)"
proof (induction parts arbitrary: m)
  case (Cons t ts)
  then obtain x where "tp_Topic t = Some x" by (auto simp: topics_named_def)
  then show ?case using Cons by (auto simp: topics_named_def assign_part_def tp_key_def confluentTopicName_def)
qed simp

lemma revoke_parts:
  "topics_named parts \<Longrightarrow> fold revoke_part parts m k = (if k \<in> tp_key ` set parts then None else m k)"
proof (induction parts arbitrary: m)
  case (Cons t ts)
  then obtain x where "tp_Topic t = Some x" by (auto simp: topics_named_def)
  then show ?case using Cons by (auto simp: topics_named_def revoke_part_def tp_key_def confluentTopicName_def)
qed simp

lemma delivery_assigned:
  assumes "delivery_ok B c" and "\<not> leased (d_phase c)" and "topics_named parts"
    and "\<forall>k. k \<notin> tp_key ` set parts \<longrightarrow> f k = d_fetch c k"
  shows "delivery_ok B (rebalance_assigned err cooperative parts f c)"
proof (cases err)
  case None
  let ?c = "rebalance_assigned err cooperative parts f c"
  have ok: "basic_ok B c" using assms(1) by (simp add: delivery_ok_def)
  have parts: "as_parts (d_assign ?c) k = (if k \<in> tp_key ` set parts then Some (Suc (as_generation (d_assign c)))
      else if cooperative then as_parts (d_assign c) k else None)" for k
    using None by (simp add: rebalance_assigned_def markRewindPartitionsAssigned_def markPartitionsAssigned_def Let_def assign_parts [OF assms(3)])
  have c: "d_log ?c = d_log c" "d_phase ?c = d_phase c" "d_client ?c = d_client c" "d_pending ?c = d_pending c" "d_fetch ?c = f"
    "d_cancelled ?c = d_cancelled c" "d_revoked ?c = filter (\<lambda>k. k \<notin> tp_key ` set parts) (d_revoked c)"
    "as_generation (d_assign ?c) = Suc (as_generation (d_assign c))" "as_known (d_assign ?c)"
    using None by (simp_all add: rebalance_assigned_def markRewindPartitionsAssigned_def markPartitionsAssigned_def Let_def)
  have reb: "rebalanced c ?c" unfolding rebalanced_def using assms(2,4) c parts by (auto split: if_splits)
  have "basic_ok B ?c"
  proof (rule basic_rebalanced [OF ok reb])
    show "n \<le> as_generation (d_assign ?c) \<and> k \<notin> set (d_revoked ?c)" if "as_parts (d_assign ?c) k = Some n" for k n
      using that basic_owned [OF ok, of k n] unfolding parts c by (auto split: if_splits)
  qed (simp_all add: c)
  then show ?thesis using delivery_rebalanced [OF assms(1) reb] rebalanced_covers(1) [OF ok reb] c(4) by simp
qed (use assms(1) in \<open>simp add: rebalance_assigned_def\<close>)

lemma delivery_revoked:
  assumes "delivery_ok B c" and "\<not> leased (d_phase c)" and "topics_named parts"
  shows "delivery_ok B (rebalance_revoked cooperative parts c)"
proof -
  let ?c = "rebalance_revoked cooperative parts c"
  have ok: "basic_ok B c" using assms(1) by (simp add: delivery_ok_def)
  have parts: "as_parts (d_assign ?c) k = (if cooperative \<and> k \<notin> tp_key ` set parts then as_parts (d_assign c) k else None)" for k
    by (auto simp: rebalance_revoked_def clearPendingRewindsForPartitions_def markPartitionsRevoked_def Let_def revoke_parts [OF assms(3)])
  have c: "d_log ?c = d_log c" "d_phase ?c = d_phase c" "d_client ?c = d_client c" "d_fetch ?c = d_fetch c"
    "d_pending ?c = filter (\<lambda>p. partition_of p \<notin> tp_key ` set parts) (d_pending c)"
    "d_cancelled ?c = d_cancelled c" "set (d_revoked ?c) = tp_key ` set parts \<union> set (d_revoked c)"
    "as_generation (d_assign ?c) = Suc (as_generation (d_assign c))" "as_known (d_assign ?c)"
    by (auto simp: rebalance_revoked_def clearPendingRewindsForPartitions_def markPartitionsRevoked_def)
  have reb: "rebalanced c ?c" unfolding rebalanced_def using assms(2) c parts by (auto split: if_splits)
  have basic: "basic_ok B ?c"
  proof (rule basic_rebalanced [OF ok reb])
    show "n \<le> as_generation (d_assign ?c) \<and> k \<notin> set (d_revoked ?c)" if "as_parts (d_assign ?c) k = Some n" for k n
      using that basic_owned [OF ok, of k n] unfolding parts c by (auto split: if_splits)
  qed (simp_all add: c)
  have "plan_covers (d_pending ?c) ?c" if "plan_covers (d_pending c) c"
    unfolding c(5) by (rule filter_covers [OF basic rebalanced_covers(1) [OF ok reb that]]) (simp add: c(7))
  then show ?thesis using delivery_rebalanced [OF assms(1) reb basic] by simp
qed

section \<open>Reading\<close>

lemma basic_read:
  assumes "basic_ok B c" and "DRead s q \<in> set (d_log c)"
  shows "fst s" "snd s \<le> as_generation (d_assign c)" "as_known (d_assign c)" "tp_Topic (m_TopicPartition q) \<noteq> None"
    "B (m_partition q) (m_offset q) = Some q" "as_parts (d_assign c) (m_partition q) = Some n \<Longrightarrow> snd s \<le> n"
  using assms unfolding basic_ok_def by blast+

lemma delivery_read:
  assumes "delivery_ok B c" and "d_phase c = DReading n buf" and "delivers B c m"
  shows "delivery_ok B (deliver n buf m c)"
proof -
  let ?k = "m_partition m" and ?c = "deliver n buf m c"
  have ok: "basic_ok B c" "runs c n" "d_pending c = []" "buf_ok buf c" "reading_covers buf c"
    using assms(1,2) by (auto simp: delivery_ok_def)
  have m: "as_known (d_assign c)" "tp_Topic (m_TopicPartition m) \<noteq> None" "CHR 0x00 \<notin> set (fst ?k)" "B ?k (m_offset m) = Some m"
    "d_fetch c ?k \<le> m_offset m" "\<And>off. d_fetch c ?k \<le> off \<Longrightarrow> off < m_offset m \<Longrightarrow> B ?k off = None"
    using assms(3) by (auto simp: delivers_def Let_def)
  obtain g where g: "as_parts (d_assign c) ?k = Some g" using assms(3) by (auto simp: delivers_def Let_def)
  have snap: "assignmentSnapshot (d_assign c) m = (True, g)" using m(1,2) g by (simp add: assignmentSnapshot_def)
  have c: "d_log ?c = d_log c @ [DRead (True, g) m]" "d_fetch ?c = (d_fetch c)(?k := m_offset m + 1)"
    "d_phase ?c = DReading n (buf @ [(m, True, g)])" "d_pending ?c = d_pending c" "d_client ?c = d_client c"
    "d_assign ?c = d_assign c" "d_revoked ?c = d_revoked c" "d_cancelled ?c = d_cancelled c"
    by (simp_all add: deliver_def Let_def snap)
  have gen: "g \<le> as_generation (d_assign c)" using ok(1) g unfolding basic_ok_def by blast
  have "causal settled_late {} (d_log ?c)" using ok(1) c(1) by (simp add: basic_ok_def causal_append settled_late_def)
  then have basic: "basic_ok B ?c" using ok(1) m(1,2,4) g gen unfolding basic_ok_def by (auto simp: c)
  have old: "outstanding ?c k j q \<Longrightarrow> outstanding c k j q \<or> q = m \<and> k = ?k \<and> j = g" for k j q
    by (auto simp: outstanding_def c handled_def)
  have "reading_covers (buf @ [(m, True, g)]) ?c" unfolding reading_covers_def
  proof (intro allI impI)
    fix k j q assume "outstanding ?c k j q"
    from old [OF this] show "d_fetch ?c k \<le> m_offset q \<or> (q, True, j) \<in> set (buf @ [(m, True, g)])"
    proof
      assume o: "outstanding c k j q"
      then have q: "m_partition q = k" "B k (m_offset q) = Some q" "as_parts (d_assign c) k = Some j"
        using basic_read(5) [OF ok(1)] by (auto simp: outstanding_def)
      show ?thesis
      proof (cases "k = ?k \<and> d_fetch c k \<le> m_offset q")
        case True
        then have "\<not> m_offset q < m_offset m" using m(6) q(2) by auto
        moreover have "q = m" if "m_offset q = m_offset m" using that m(4) q(2) True by (metis option.inject)
        moreover have "j = g" using q(3) g True by simp
        ultimately show ?thesis using True by (auto simp: c not_less)
      next
        case False
        then show ?thesis using ok(5) o by (auto simp: reading_covers_def c)
      qed
    qed simp
  qed
  moreover have "buf_ok (buf @ [(m, True, g)]) ?c" unfolding buf_ok_def
  proof (intro conjI ballI impI)
    have below: "x \<in> set buf \<Longrightarrow> m_partition (fst x) = ?k \<Longrightarrow> snd (snd x) = g \<Longrightarrow> m_offset (fst x) < d_fetch c ?k" for x
      using ok(4) g by (auto simp: buf_ok_def)
    show "keyed x" "DRead (snd x) (fst x) \<in> set (d_log ?c)" if "x \<in> set (buf @ [(m, True, g)])" for x
      using that ok(4) m(3) by (auto simp: buf_ok_def c keyed_def)
    show "sorted_wrt (\<lambda>x y. m_partition (fst x) = m_partition (fst y) \<and> snd x = snd y \<longrightarrow> m_offset (fst x) < m_offset (fst y))
        (buf @ [(m, True, g)])"
      using ok(4) below m(5) by (fastforce simp: buf_ok_def sorted_wrt_append)
    fix x assume "x \<in> set (buf @ [(m, True, g)])" and "as_parts (d_assign ?c) (m_partition (fst x)) = Some (snd (snd x))"
    then show "m_offset (fst x) < d_fetch ?c (m_partition (fst x))"
      using ok(4) below m(5) g by (fastforce simp: buf_ok_def c)
  qed
  ultimately show ?thesis using basic ok(2,3) by (simp add: delivery_ok_def c runs_def)
qed

text \<open>The groups of a buffer.\<close>

lemma ascending_filter:
  assumes "buf_ok buf c"
  shows "ascending (map fst (filter (\<lambda>x. m_partition (fst x) = k \<and> snd x = s) buf))"
proof -
  let ?ys = "filter (\<lambda>x. m_partition (fst x) = k \<and> snd x = s) buf"
  have "sorted_wrt (\<lambda>x y. m_partition (fst x) = m_partition (fst y) \<and> snd x = snd y \<longrightarrow> m_offset (fst x) < m_offset (fst y)) ?ys"
    using assms by (simp add: buf_ok_def sorted_wrt_filter)
  then have "sorted_wrt (\<lambda>x y. m_offset (fst x) < m_offset (fst y)) ?ys"
    by (rule sorted_wrt_mono_rel [rotated]) auto
  then show ?thesis by (simp add: ascending_def sorted_wrt_map)
qed

lemma buf_members:
  assumes "buf_ok buf c" and "g \<in> set (groups_of buf)"
  shows "member_ok c g" and "(q, True, snd (gid g)) \<in> set buf \<Longrightarrow> m_partition q = fst (gid g) \<Longrightarrow> q \<in> set (g_messages g)"
proof -
  have keyed: "\<forall>x \<in> set buf. keyed x" using assms(1) by (simp add: buf_ok_def)
  note spec = groups_of_spec [OF keyed assms(2)]
  have mem: "m_partition m = fst (gid g)" "(m, True, snd (gid g)) \<in> set buf" if "m \<in> set (g_messages g)" for m
    using that by (auto simp: spec(4))
  have "DRead (True, snd (gid g)) m \<in> set (d_log c)" if "m \<in> set (g_messages g)" for m
    using mem(2) [OF that] assms(1) by (fastforce simp: buf_ok_def)
  moreover have "m_offset m < d_fetch c (fst (gid g))" if "m \<in> set (g_messages g)" "owned_group c g" for m
    using mem [OF that(1)] assms(1) that(2) by (fastforce simp: buf_ok_def owned_group_def)
  moreover have "ascending (g_messages g)" unfolding spec(4) by (rule ascending_filter [OF assms(1)])
  ultimately show "member_ok c g" using spec(1-3) mem by (auto simp: member_ok_def group_wf_def)
  show "(q, True, snd (gid g)) \<in> set buf \<Longrightarrow> m_partition q = fst (gid g) \<Longrightarrow> q \<in> set (g_messages g)"
    by (auto simp: spec(4) intro!: image_eqI [of _ _ "(q, True, snd (gid g))"])
qed

lemma dispatch_owned:
  assumes "basic_ok B c" and "member_ok c g"
  shows "beginPartitionDispatch (d_assign c) g \<longleftrightarrow> owned_group c g"
proof -
  have ne: "g_messages g \<noteq> []" "g_known g" using assms(2) by (auto simp: member_ok_def group_wf_def)
  then have "DRead (True, snd (gid g)) (hd (g_messages g)) \<in> set (d_log c)" using assms(2) by (auto simp: member_ok_def)
  note r = basic_read(3,4) [OF assms(1) this]
  show ?thesis using ne r by (auto simp: beginPartitionDispatch_def Let_def owned_group_def gid_def m_partition_def split: option.splits)
qed

lemma buf_group:
  assumes "buf_ok buf c" and "reading_covers buf c" and "outstanding c k n q"
  shows "d_fetch c k \<le> m_offset q \<or> (\<exists>g \<in> set (groups_of buf). gid g = (k, n) \<and> q \<in> set (g_messages g))"
proof (rule disjCI)
  assume "\<not> (\<exists>g \<in> set (groups_of buf). gid g = (k, n) \<and> q \<in> set (g_messages g))"
  moreover have keyed: "\<forall>x \<in> set buf. keyed x" using assms(1) by (simp add: buf_ok_def)
  moreover have "gid g = (k, n)" if "g \<in> set (groups_of buf)" "q \<in> set (g_messages g)" "g_generation g = n" for g
  proof -
    have "m_partition q = fst (gid g)" using buf_members(1) [OF assms(1) that(1)] that(2) by (simp add: member_ok_def)
    then show ?thesis using assms(3) that(3) by (simp add: outstanding_def gid_def)
  qed
  ultimately have "(q, True, n) \<notin> set buf" using groups_of_covers [OF keyed, of q "(True, n)"] by auto
  then show "d_fetch c k \<le> m_offset q" using assms(2,3) by (auto simp: reading_covers_def)
qed

lemma wave_groups: "map fst (new_wave buf) = groups_of buf"
  by (simp add: new_wave_def comp_def)

lemma position_of_message: "partition_of (confluentRecordPosition m) = m_partition m" "p_offset (confluentRecordPosition m) = m_offset m"
  by (simp_all add: confluentRecordPosition_def partition_of_def)

lemma delivery_read_failed:
  assumes "delivery_ok B c" and "d_phase c = DReading n buf" and "\<not> planned e"
  shows "delivery_ok B (read_failed batch n buf e c)"
proof -
  let ?pe = "Wrapf (if batch then ''kafka/confluent: consume batch error: %w'' else ''kafka/confluent: consume error: %w'') e"
  let ?gs = "filter (beginPartitionDispatch (d_assign c)) (groups_of buf)"
  have ok: "basic_ok B c" "runs c n" "d_pending c = []" "buf_ok buf c" "reading_covers buf c" "\<not> d_cancelled c"
    using assms(1,2) by (auto simp: delivery_ok_def basic_ok_def)
  let ?fs = "poll_failures (d_assign c) ?pe (map fst (new_wave buf))"
  have fs: "?fs = map (\<lambda>g. consumerRewindError ?pe (confluentRecordPosition (hd (g_messages g)))) ?gs"
    using assms(3) by (simp add: poll_failures_def with_rewind_plan wave_groups)
  have owned: "g \<in> set ?gs \<longleftrightarrow> g \<in> set (groups_of buf) \<and> owned_group c g" for g
    using dispatch_owned [OF ok(1) buf_members(1) [OF ok(4)]] by auto
  have "plan_covers (requests (Joined ?fs)) c" unfolding plan_covers_def
  proof (intro allI impI conjI ballI)
    fix k j q assume o: "outstanding c k j q"
    note cov = buf_group [OF ok(4,5) o]
    show "p_offset p \<le> m_offset q" if p: "p \<in> set (requests (Joined ?fs))" "partition_of p = k" for p
    proof -
      obtain g where g: "g \<in> set (groups_of buf)" "owned_group c g" "p = confluentRecordPosition (hd (g_messages g))"
        using p(1) fs owned by (auto simp: comp_def)
      note mem = buf_members(1) [OF ok(4) g(1)]
      have hd: "hd (g_messages g) \<in> set (g_messages g)" "ascending (g_messages g)" using mem by (auto simp: member_ok_def group_wf_def)
      have k: "fst (gid g) = k" using mem hd(1) g(3) p(2) by (auto simp: member_ok_def position_of_message)
      then have "snd (gid g) = j" using g(2) o by (simp add: owned_group_def outstanding_def)
      then have id: "gid g = (k, j)" using k by (metis prod.collapse)
      from cov show ?thesis
      proof
        assume "d_fetch c k \<le> m_offset q"
        then show ?thesis using mem g(2,3) hd(1) k by (auto simp: member_ok_def position_of_message)
      next
        assume "\<exists>g' \<in> set (groups_of buf). gid g' = (k, j) \<and> q \<in> set (g_messages g')"
        then obtain g' where g': "g' \<in> set (groups_of buf)" "gid g' = (k, j)" "q \<in> set (g_messages g')" by blast
        have keyed: "\<forall>x \<in> set buf. keyed x" using ok(4) by (simp add: buf_ok_def)
        have "g_messages g' = g_messages g" using groups_of_spec(4) [OF keyed g(1)] groups_of_spec(4) [OF keyed g'(1)] id g'(2) by simp
        then show ?thesis using ascending_ends(1) [OF hd(2)] g'(3) g(3) by (simp add: position_of_message)
      qed
    qed
    show "d_fetch c k \<le> m_offset q" if none: "k \<notin> partition_of ` set (requests (Joined ?fs))"
    proof (rule ccontr)
      assume "\<not> d_fetch c k \<le> m_offset q"
      then obtain g where g: "g \<in> set (groups_of buf)" "gid g = (k, j)" using cov by blast
      then have "owned_group c g" using o by (simp add: owned_group_def outstanding_def)
      then have "confluentRecordPosition (hd (g_messages g)) \<in> set (requests (Joined ?fs))" using fs owned g(1) by (auto simp: comp_def)
      then have "partition_of (confluentRecordPosition (hd (g_messages g))) \<noteq> k" using none by blast
      then show False using g(2) by (simp add: position_of_message gid_def)
    qed
  qed
  moreover have "?fs \<noteq> [] \<Longrightarrow> planned (Joined ?fs)" using fs by (cases ?gs) auto
  ultimately show ?thesis using ok by (auto simp: read_failed_def Let_def delivery_ok_def delivery_frame)
qed

lemma delivery_gathered:
  assumes "delivery_ok B c" and "d_phase c = DReading n buf"
  shows "delivery_ok B (gathered n buf deferred c)"
proof -
  have ok: "basic_ok B c" "runs c n" "d_pending c = []" "buf_ok buf c" "reading_covers buf c" "\<not> d_cancelled c"
    using assms(1,2) by (auto simp: delivery_ok_def basic_ok_def)
  have keyed: "\<forall>x \<in> set buf. keyed x" using ok(4) by (simp add: buf_ok_def)
  have fsts: "x \<in> set (new_wave buf) \<longleftrightarrow> fst x \<in> set (groups_of buf) \<and> snd x = Waiting" for x
    by (cases x) (auto simp: new_wave_def)
  have "distinct (map (gid \<circ> fst) (new_wave buf))" using groups_of_distinct [OF keyed] by (simp add: new_wave_def comp_def)
  moreover have "wave_covers (new_wave buf) c" unfolding wave_covers_def
  proof (intro allI impI)
    fix k j q assume "outstanding c k j q"
    from buf_group [OF ok(4,5) this] show "d_fetch c k \<le> m_offset q
        \<or> (\<exists>x \<in> set (new_wave buf). gid (fst x) = (k, j) \<and> q \<in> set (g_messages (fst x)))"
      using fsts by (metis fst_conv snd_conv)
  qed
  ultimately have "wave_ok (new_wave buf) c" using fsts buf_members(1) [OF ok(4)] by (auto simp: wave_ok_def)
  then show ?thesis using ok by (simp add: gathered_def delivery_ok_def delivery_frame)
qed

end
