(* ===== verification/Confluent_Properties.thy ===== *)
theory Confluent_Properties
  imports Confluent_Delivery
begin

text \<open>
  The waves of the Confluent consumer keep the invariant of delivery; with it the properties: at-least-once
  delivery until the consumer is closed, fencing of records gathered before a rebalance, the bound on
  running workers, and the closing of drivers.
\<close>

section \<open>Waves\<close>

lemma wave_update:
  assumes "wave_ok ws c" and "i < length ws" and "ws ! i = (g, st)" and "status_ok c g st'"
  shows "wave_ok (ws[i := (g, st')]) c"
proof -
  have ids: "map (gid \<circ> fst) (ws[i := (g, st')]) = map (gid \<circ> fst) ws"
    by (rule nth_equalityI) (use assms(2,3) in \<open>auto simp: nth_list_update\<close>)
  have fsts: "map fst (ws[i := (g, st')]) = map fst ws"
    by (rule nth_equalityI) (use assms(2,3) in \<open>auto simp: nth_list_update\<close>)
  have set: "set (ws[i := (g, st')]) \<subseteq> insert (g, st') (set ws)" by (rule set_update_subset_insert)
  have g: "(g, st) \<in> set ws" using assms(2,3) by (metis nth_mem)
  have "wave_covers (ws[i := (g, st')]) c"
  proof -
    have "(\<exists>x \<in> set (ws[i := (g, st')]). P (fst x)) \<longleftrightarrow> (\<exists>x \<in> set ws. P (fst x))" for P
      using arg_cong [OF fsts, of set] by (metis (no_types, lifting) imageE image_eqI list.set_map)
    from this [of "\<lambda>y. gid y = _ \<and> _ \<in> set (g_messages y)"] show ?thesis
      using assms(1) unfolding wave_ok_def wave_covers_def by simp
  qed
  then show ?thesis using assms(1,4) ids set g unfolding wave_ok_def by fastforce
qed

lemma delivery_wave_update:
  assumes "delivery_ok B c" and "d_phase c = DWave n ws deferred" and "i < length ws" and "ws ! i = (g, st)" and "status_ok c g st'"
  shows "delivery_ok B (c\<lparr>d_phase := DWave n (ws[i := (g, st')]) deferred\<rparr>)"
  using assms wave_update [of ws c i g st st'] by (simp add: delivery_ok_def delivery_frame)

lemma wave_member:
  assumes "delivery_ok B c" and "d_phase c = DWave n ws deferred" and "i < length ws" and "ws ! i = (g, st)"
  shows "basic_ok B c" "wave_ok ws c" "member_ok c g" "status_ok c g st" "(g, st) \<in> set ws"
proof -
  show mem: "(g, st) \<in> set ws" using assms(3,4) by (metis nth_mem)
  show "basic_ok B c" "wave_ok ws c" using assms(1,2) by (auto simp: delivery_ok_def)
  then show "member_ok c g" "status_ok c g st" using mem by (auto simp: wave_ok_def)
qed

text \<open>The calls of a dispatched worker, placed behind the log.\<close>

lemma settled_lift:
  assumes "causal (csettled ms) E es"
    and "\<And>m q. m \<in> set ms \<Longrightarrow> DRead s q \<in> L \<Longrightarrow> m_partition q = m_partition m \<Longrightarrow> m_offset q \<le> m_offset m \<Longrightarrow>
      (\<exists>t y. DWork t y \<in> L \<and> q \<in> chandles y) \<or> q \<in> set ms"
  shows "causal settled_late (L \<union> DWork s ` E) (map (DWork s) es)"
  using assms(1)
proof (induction es arbitrary: E)
  case (Cons x xs)
  have "settled_late (DWork s x) (L \<union> DWork s ` E)" unfolding settled_late_def
  proof (intro allI impI)
    fix s' x' m q assume eq: "DWork s x = DWork s' x'" and m: "csettles x' = Some m" and q: "DRead s' q \<in> L \<union> DWork s ` E"
      "m_partition q = m_partition m" "m_offset q \<le> m_offset m"
    have c: "m \<in> set ms" "\<And>q. q \<in> set ms \<Longrightarrow> m_offset q \<le> m_offset m \<Longrightarrow> \<exists>y \<in> E. q \<in> chandles y"
      using Cons.prems m eq by (auto simp: csettled_def)
    have "DRead s q \<in> L" using q(1) eq by auto
    from assms(2) [OF c(1) this q(2,3)] show "\<exists>t y. DWork t y \<in> L \<union> DWork s ` E \<and> q \<in> chandles y"
      using c(2) [OF _ q(3)] by blast
  qed
  then show ?case using Cons.IH [of "insert x E"] Cons.prems by simp
qed simp

lemma same_group:
  assumes "wave_ok ws c" and "x \<in> set ws" and "y \<in> set ws" and "gid (fst x) = gid (fst y)"
  shows "x = y"
proof -
  have "distinct (map (gid \<circ> fst) ws)" using assms(1) by (simp add: wave_ok_def)
  then show ?thesis using assms(2-4) by (auto simp: distinct_map inj_on_def)
qed

lemma group_reads:
  assumes "basic_ok B c" and "wave_ok ws c" and "(g, st) \<in> set ws" and "owned_group c g" and "m \<in> set (g_messages g)"
    and "DRead (True, snd (gid g)) q \<in> set (d_log c)" and "m_partition q = m_partition m" and "m_offset q \<le> m_offset m"
  shows "handled (d_log c) q \<or> q \<in> set (g_messages g)"
proof (rule disjCI)
  assume "q \<notin> set (g_messages g)"
  have mem: "member_ok c g" using assms(2,3) by (auto simp: wave_ok_def)
  have k: "m_partition m = fst (gid g)" "m_offset m < d_fetch c (fst (gid g))" using mem assms(4,5) by (auto simp: member_ok_def)
  show "handled (d_log c) q"
  proof (rule ccontr)
    assume "\<not> handled (d_log c) q"
    then have "outstanding c (fst (gid g)) (snd (gid g)) q" using assms(4,6,7) k(1) by (simp add: outstanding_def owned_group_def)
    then have "d_fetch c (fst (gid g)) \<le> m_offset q \<or> (\<exists>x \<in> set ws. gid (fst x) = gid g \<and> q \<in> set (g_messages (fst x)))"
      using assms(2) unfolding wave_ok_def wave_covers_def by (metis prod.collapse)
    then obtain x where "x \<in> set ws" "gid (fst x) = gid g" "q \<in> set (g_messages (fst x))" using assms(8) k(2) by auto
    then show False using same_group [OF assms(2) _ assms(3), of x] \<open>q \<notin> set (g_messages g)\<close> by auto
  qed
qed

lemma delivery_dispatch:
  assumes "delivery_ok B c" and "d_phase c = DWave n ws deferred" and "i < length ws" and "ws ! i = (g, Launched)"
    and "beginPartitionDispatch (d_assign c) g" and "driver_errors env" and "group_outcome batch R env g = (err, log)"
    and "at_least_once R"
  shows "delivery_ok B (c\<lparr>d_phase := DWave n (ws[i := (g, Active log err)]) deferred\<rparr>)"
proof (rule delivery_wave_update [OF assms(1-4)])
  note w = wave_member [OF assms(1-4)]
  have own: "owned_group c g" using dispatch_owned [OF w(1,3)] assms(5) by simp
  have wf: "group_wf g" using w(3) by (simp add: member_ok_def)
  note out = group_outcome_ok [OF assms(7,8,6) wf]
  have "last_read c g" unfolding last_read_def
    using basic_read(6) [OF w(1)] own by (fastforce simp: owned_group_def)
  moreover have "causal settled_late (set (d_log c)) (map (DWork (True, snd (gid g))) log)"
    using settled_lift [OF out(1), of "(True, snd (gid g))" "set (d_log c)"] group_reads [OF w(1,2,5) own]
    by (auto simp: handled_def)
  moreover have "left_ok c g log err" "\<forall>e. err = Some e \<longrightarrow> planned e" if "CtxDone \<notin> set log"
    using out(2) [OF that] by (auto simp: outcome_ok_def left_ok_def Let_def split: option.splits)
  ultimately show "status_ok c g (Active log err)" using own by simp
qed

lemma delivery_discard:
  assumes "delivery_ok B c" and "d_phase c = DWave n ws deferred" and "i < length ws" and "ws ! i = (g, Launched)"
    and "\<not> beginPartitionDispatch (d_assign c) g"
  shows "delivery_ok B (c\<lparr>d_phase := DWave n (ws[i := (g, Ended None)]) deferred\<rparr>)"
  using dispatch_owned [OF wave_member(1,3) [OF assms(1-4)]] assms(5)
  by (intro delivery_wave_update [OF assms(1-4)]) simp

lemma delivery_leave:
  assumes "delivery_ok B c" and "d_phase c = DWave n ws deferred" and "i < length ws" and "ws ! i = (g, Active [] err)"
  shows "delivery_ok B (c\<lparr>d_phase := DWave n (ws[i := (g, Ended err)]) deferred\<rparr>)"
  using wave_member(4) [OF assms]
  by (intro delivery_wave_update [OF assms]) (auto simp: left_ok_def split: option.splits)

text \<open>A call of a worker.\<close>

lemma settled_late_work: "settled_late e D \<Longrightarrow> settled_late e (insert (DWork s x) D)"
  unfolding settled_late_def by blast

lemma causal_work: "causal settled_late D xs \<Longrightarrow> causal settled_late (insert (DWork s x) D) xs"
proof (induction xs arbitrary: D)
  case (Cons y ys)
  then have "causal settled_late (insert (DWork s x) (insert y D)) ys" by simp
  then show ?case using Cons.prems settled_late_work by (simp add: insert_commute)
qed simp

lemma handled_work: "handled (log @ [DWork s x]) q \<longleftrightarrow> handled log q \<or> q \<in> chandles x"
  by (auto simp: handled_def)

lemma left_work: "left_ok c g es err \<Longrightarrow> left_ok (dlog (DWork s x) c) g es err"
  by (auto simp: left_ok_def handled_work Let_def split: option.splits)

lemma left_own: "left_ok c g (x # es) err \<Longrightarrow> left_ok (dlog (DWork s x) c) g es err"
  by (auto simp: left_ok_def handled_work Let_def split: option.splits)

lemma work_frame:
  "owned_group (dlog (DWork s x) c) g = owned_group c g" "last_read (dlog (DWork s x) c) g = last_read c g"
  by (simp_all add: owned_group_def last_read_def)

lemma status_work: "status_ok c g st \<Longrightarrow> status_ok (dlog (DWork s x) c) g st"
  by (cases st) (simp_all add: work_frame left_work causal_work)

lemma delivery_work:
  assumes "delivery_ok B c" and "d_phase c = DWave n ws deferred" and "i < length ws" and "ws ! i = (g, Active (e # log) err)"
    and "e = CtxDone \<Longrightarrow> d_cancelled c"
  shows "delivery_ok B ((dlog (DWork (g_known g, g_generation g) e) c)\<lparr>d_phase := DWave n (ws[i := (g, Active log err)]) deferred\<rparr>)"
proof -
  note w = wave_member [OF assms(1-4)]
  have tag: "(g_known g, g_generation g) = (True, snd (gid g))" using w(3) by (simp add: member_ok_def gid_def)
  let ?c = "dlog (DWork (True, snd (gid g)) e) c"
  have ctx: "e \<noteq> CtxDone" using assms(5) w(1) by (auto simp: basic_ok_def)
  have st: "owned_group c g" "last_read c g" "settled_late (DWork (True, snd (gid g)) e) (set (d_log c))"
    "causal settled_late (insert (DWork (True, snd (gid g)) e) (set (d_log c))) (map (DWork (True, snd (gid g))) log)"
    "CtxDone \<notin> set log \<Longrightarrow> left_ok c g (e # log) err \<and> (\<forall>e. err = Some e \<longrightarrow> planned e)"
    using w(4) ctx by auto
  have basic: "basic_ok B ?c" using w(1) st(3) by (auto simp: basic_ok_def causal_append)
  have out: "outstanding ?c k j q \<Longrightarrow> outstanding c k j q" for k j q by (auto simp: outstanding_def handled_work)
  have "wave_covers ws ?c" using w(2) out unfolding wave_ok_def wave_covers_def by auto
  moreover have "member_ok ?c h" if "member_ok c h" for h using that by (auto simp: member_ok_def work_frame)
  ultimately have "wave_ok ws ?c" using w(2) status_work unfolding wave_ok_def by blast
  moreover have "status_ok ?c g (Active log err)" using st left_own by (simp add: work_frame)
  ultimately have "wave_ok (ws[i := (g, Active log err)]) ?c" using wave_update assms(3,4) by blast
  then show ?thesis using basic assms(1,2) unfolding tag by (simp add: delivery_ok_def delivery_frame)
qed

text \<open>The end of a wave.\<close>

lemma set_map_filter: "x \<in> set (List.map_filter f xs) \<longleftrightarrow> (\<exists>y \<in> set xs. f y = Some x)"
  by (induction xs) (auto simp: List.map_filter_simps split: option.splits)

lemma ended_errors:
  assumes "\<forall>x \<in> set ws. \<exists>err. snd x = Ended err"
    and "mset errs = mset (List.map_filter (\<lambda>x. case snd x of Ended err \<Rightarrow> err | _ \<Rightarrow> None) ws)"
  shows "e \<in> set errs \<longleftrightarrow> (\<exists>x \<in> set ws. snd x = Ended (Some e))"
proof -
  have "set errs = set (List.map_filter (\<lambda>x. case snd x of Ended err \<Rightarrow> err | _ \<Rightarrow> None) ws)"
    using assms(2) by (metis set_mset_mset)
  then have "e \<in> set errs \<longleftrightarrow> (\<exists>x \<in> set ws. (case snd x of Ended err \<Rightarrow> err | _ \<Rightarrow> None) = Some e)"
    by (simp add: set_map_filter)
  also have "\<dots> \<longleftrightarrow> (\<exists>x \<in> set ws. snd x = Ended (Some e))"
    by (rule bex_cong) (use assms(1) in auto)
  finally show ?thesis .
qed

lemma wave_end_plan:
  assumes "basic_ok B c" and "wave_ok ws c" and ended: "\<forall>x \<in> set ws. \<exists>err. snd x = Ended err"
    and errs: "\<And>e. e \<in> set errs \<longleftrightarrow> (\<exists>x \<in> set ws. snd x = Ended (Some e))"
  shows "plan_covers (concat (map requests errs)) c"
  unfolding plan_covers_def
proof (intro allI impI conjI ballI)
  fix k j q assume o: "outstanding c k j q"
  have cov: "d_fetch c k \<le> m_offset q \<or> (\<exists>x \<in> set ws. gid (fst x) = (k, j) \<and> q \<in> set (g_messages (fst x)))"
    using assms(2) o unfolding wave_ok_def wave_covers_def by blast
  have own: "gid g = (k, j) \<Longrightarrow> owned_group c g" for g using o by (simp add: outstanding_def owned_group_def)
  show "p_offset p \<le> m_offset q" if p: "p \<in> set (concat (map requests errs))" "partition_of p = k" for p
  proof -
    obtain x e where x: "x \<in> set ws" "snd x = Ended (Some e)" "p \<in> set (requests e)" using p(1) errs by auto
    have ok: "member_ok c (fst x)" "status_ok c (fst x) (Ended (Some e))" using assms(2) x(1,2) by (auto simp: wave_ok_def)
    obtain m where m: "m \<in> set (g_messages (fst x))" "requests e = [confluentRecordPosition m]" "last_read c (fst x)" using ok(2) by auto
    have p': "p = confluentRecordPosition m" using x(3) m(2) by simp
    have k: "fst (gid (fst x)) = k" using ok(1) m(1) p(2) p' by (simp add: member_ok_def position_of_message)
    have "j \<le> snd (gid (fst x))" using m(3) o k by (auto simp: last_read_def outstanding_def)
    moreover have "snd (gid (fst x)) \<le> j"
      using basic_read(6) [OF assms(1), of "(True, snd (gid (fst x)))" m j] ok(1) m(1) o k by (simp add: member_ok_def outstanding_def)
    ultimately have id: "gid (fst x) = (k, j)" using k by (metis antisym prod.collapse)
    have left: "left_ok c (fst x) [] (Some e)" using ok(2) own [OF id] by simp
    from cov show ?thesis
    proof
      assume "d_fetch c k \<le> m_offset q"
      then show ?thesis using ok(1) own [OF id] m(1) p' k by (fastforce simp: member_ok_def position_of_message)
    next
      assume "\<exists>y \<in> set ws. gid (fst y) = (k, j) \<and> q \<in> set (g_messages (fst y))"
      then obtain y where y: "y \<in> set ws" "gid (fst y) = (k, j)" "q \<in> set (g_messages (fst y))" by blast
      then have "y = x" using same_group [OF assms(2) y(1) x(1)] id by simp
      then show ?thesis using left y(3) o m(2) p'
        by (auto simp: left_ok_def outstanding_def position_of_message confluentRecordPosition_def not_less Let_def)
    qed
  qed
  show "d_fetch c k \<le> m_offset q" if none: "k \<notin> partition_of ` set (concat (map requests errs))"
  proof (rule ccontr)
    assume "\<not> d_fetch c k \<le> m_offset q"
    then obtain x where x: "x \<in> set ws" "gid (fst x) = (k, j)" "q \<in> set (g_messages (fst x))" using cov by blast
    obtain err where err: "snd x = Ended err" using ended x(1) by blast
    have ok: "member_ok c (fst x)" "status_ok c (fst x) (Ended err)" using assms(2) x(1) err by (auto simp: wave_ok_def)
    have left: "left_ok c (fst x) [] err" using ok(2) own [OF x(2)] by simp
    show False
    proof (cases err)
      case None
      then show ?thesis using left x(3) o by (auto simp: left_ok_def outstanding_def)
    next
      case (Some e)
      then obtain m where m: "m \<in> set (g_messages (fst x))" "requests e = [confluentRecordPosition m]" using ok(2) by auto
      have "e \<in> set errs" using errs [of e] err Some x(1) by auto
      then have "confluentRecordPosition m \<in> set (concat (map requests errs))" using m(2) by force
      then have "m_partition m \<noteq> k" using none position_of_message(1) [of m] by (metis imageI)
      then show ?thesis using ok(1) m(1) x(2) by (simp add: member_ok_def)
    qed
  qed
qed

lemma delivery_wave_end:
  assumes "delivery_ok B c" and "d_phase c = DWave n ws deferred" and "\<forall>x \<in> set ws. \<exists>err. snd x = Ended err"
    and "mset errs = mset (List.map_filter (\<lambda>x. case snd x of Ended err \<Rightarrow> err | _ \<Rightarrow> None) ws)"
  shows "delivery_ok B (wave_end n errs deferred c)"
proof -
  have ok: "basic_ok B c" "runs c n" "d_pending c = []" "wave_ok ws c" "\<not> d_cancelled c"
    using assms(1,2) by (auto simp: delivery_ok_def basic_ok_def)
  note errs = ended_errors [OF assms(3,4)]
  have plan: "plan_covers (requests (Joined errs)) c" using wave_end_plan [OF ok(1,4) assms(3) errs] by simp
  have planned: "planned e" if e: "e \<in> set errs" for e
  proof -
    obtain x where "x \<in> set ws" "snd x = Ended (Some e)" using e errs [of e] by auto
    then have "status_ok c (fst x) (Ended (Some e))" using ok(4) unfolding wave_ok_def by (metis (no_types))
    then show ?thesis by simp
  qed
  show ?thesis
  proof (cases errs)
    case Nil
    then have "plan_covers [] c" "reading_covers [] c" using plan by (simp_all add: plan_covers_def reading_covers_def)
    moreover have "buf_ok [] c" by (simp add: buf_ok_def)
    ultimately show ?thesis using ok(1-3) Nil by (cases deferred) (simp_all add: wave_end_def delivery_ok_def delivery_frame)
  next
    case (Cons e es)
    then have "planned (Joined errs)" using planned [of e] by simp
    moreover have "wave_end n errs deferred c = c\<lparr>d_phase := DFailing n (Joined errs)\<rparr>"
      using Cons ok(5) by (simp add: wave_end_def isConsumerRunCancellation_def)
    ultimately show ?thesis using ok(1-3) plan by (simp add: delivery_ok_def delivery_frame del: requests.simps planned.simps)
  qed
qed

section \<open>At-least-once delivery\<close>

lemma running_apply:
  "d_closed (apply_begin n c) = d_closed c" "d_closed (apply_filter a n ps c) = d_closed c"
  "d_closed (apply_seek n ps owned err f c) = d_closed c" "d_closed (apply_clear n ps c) = d_closed c"
  "d_closed (deliver n buf m c) = d_closed c" "d_closed (read_failed b n buf e c) = d_closed c"
  "d_closed (gathered n buf d c) = d_closed c" "d_closed (wave_end n errs d c) = d_closed c"
  "d_closed (retry_begin a n e c) = d_closed c" "d_closed (retry_seek n e ps err f c) = d_closed c"
  "d_closed (retry_record n e ps c) = d_closed c" "d_closed (rebalance_assigned er coop ts f c) = d_closed c"
  "d_closed (rebalance_revoked coop ts c) = d_closed c" "d_closed (close_signal cl c) = d_closed c"
  "d_closed (close_driver cl c) = d_closed c"
  by (auto simp: apply_begin_def apply_filter_def apply_seek_def apply_clear_def deliver_def read_failed_def gathered_def
      wave_end_def retry_begin_def retry_seek_def retry_record_def rebalance_assigned_def rebalance_revoked_def
      markRewindPartitionsAssigned_def clearPendingRewindsForPartitions_def close_signal_def close_driver_def Let_def
      split: option.splits prod.splits)

lemma create_fields:
  "d_closed (snd (create_driver a b e1 e2 c)) = d_closed c" "d_closing (snd (create_driver a b e1 e2 c)) = d_closing c"
  "d_phase (snd (create_driver a b e1 e2 c)) = d_phase c"
  by (auto simp: create_driver_def Let_def split: option.splits)

lemma connect_fields:
  "d_closed (snd (confluent_Connect e1 e2 ts c)) = d_closed c" "d_closing (snd (confluent_Connect e1 e2 ts c)) = d_closing c"
  "d_phase (snd (confluent_Connect e1 e2 ts c)) = d_phase c"
  using create_fields [of "''kafka/confluent: consumer group connect failed: %w''" "''kafka/confluent: subscribe failed: %w''" e1 e2 c]
  by (auto simp: confluent_Connect_def split: option.splits prod.splits)

lemma reconnect_fields:
  "d_closed (snd (reconnect e1 e2 c)) = d_closed c" "d_closing (snd (reconnect e1 e2 c)) = d_closing c"
  "d_phase (snd (reconnect e1 e2 c)) = d_phase c"
  using create_fields [of "''kafka/confluent: reconnect consumer group failed: %w''" "''kafka/confluent: reconnect subscribe failed: %w''" e1 e2 c]
  by (auto simp: reconnect_def)

lemma begin_fields:
  "d_closed (snd (beginConsumeRun e1 e2 c)) = d_closed c" "d_closing (snd (beginConsumeRun e1 e2 c)) = d_closing c"
  using reconnect_fields [of e1 e2 c] by (auto simp: beginConsumeRun_def split: option.splits prod.splits)

lemma delivery_step:
  assumes "confluent_step K B c c'" and "delivery_ok B c" and "at_least_once (cf_run K)" and "\<not> d_closed c'"
    and "d_closing c \<noteq> None \<Longrightarrow> d_closed c"
  shows "delivery_ok B c'"
  using assms(1)
proof cases
  case connect
  then show ?thesis using delivery_connect [OF assms(2)] by simp
next
  case begin_run
  then show ?thesis using delivery_begin [OF assms(2)] by simp
next
  case (apply_begin n)
  then show ?thesis using delivery_apply_begin [OF assms(2)] assms(4) by (simp add: running_apply)
next
  case (apply_filter n ps assigned)
  then show ?thesis using delivery_apply_filter [OF assms(2)] by simp
next
  case (apply_seek n ps owned answer fetch)
  then show ?thesis using delivery_apply_seek [OF assms(2)] by simp
next
  case (apply_clear n ps)
  then show ?thesis using delivery_apply_clear [OF assms(2)] by simp
next
  case (read n buf m)
  then show ?thesis using delivery_read [OF assms(2)] by simp
next
  case (read_failed n buf e)
  then show ?thesis using delivery_read_failed [OF assms(2)] by simp
next
  case (gathered n buf deferred)
  then show ?thesis using delivery_gathered [OF assms(2)] by simp
next
  case (stop n)
  then show ?thesis using assms(2) by (simp add: delivery_ok_def basic_ok_def)
next
  case (launch n ws deferred i g)
  then show ?thesis using delivery_wave_update [OF assms(2), of n ws deferred i g Waiting Launched] by simp
next
  case (unlaunched n ws deferred)
  then show ?thesis using assms(2) by (simp add: delivery_ok_def basic_ok_def)
next
  case (dispatch n ws deferred i g env err log)
  then show ?thesis using delivery_dispatch [OF assms(2)] assms(3) by simp
next
  case (discard n ws deferred i g)
  then show ?thesis using delivery_discard [OF assms(2)] by simp
next
  case (work n ws deferred i g e log err)
  then show ?thesis using delivery_work [OF assms(2)] by simp
next
  case (leave n ws deferred i g err)
  then show ?thesis using delivery_leave [OF assms(2)] by simp
next
  case (wave_end n ws deferred errs)
  then show ?thesis using delivery_wave_end [OF assms(2)] by simp
next
  case (retry_begin n e assigned)
  then show ?thesis using delivery_retry_begin [OF assms(2)] by simp
next
  case (retry_seek n e ps answer fetch)
  then show ?thesis using delivery_retry_seek [OF assms(2)] by simp
next
  case (retry_record n e ps)
  then show ?thesis using delivery_retry_record [OF assms(2)] assms(4) by (simp add: running_apply)
next
  case (finish n r)
  then show ?thesis using assms(2) by (simp add: delivery_ok_def delivery_frame)
next
  case (assigned parts fetch err cooperative)
  then show ?thesis using delivery_assigned [OF assms(2)] by simp
next
  case (revoked parts cooperative)
  then show ?thesis using delivery_revoked [OF assms(2)] by simp
next
  case close
  then show ?thesis using assms(2,4) by (auto simp: confluent_Close_def split: if_splits)
next
  case (close_signal client)
  then show ?thesis using assms(4,5) by (simp add: running_apply)
next
  case (close_driver client)
  then show ?thesis using assms(4,5) by (simp add: running_apply)
qed

lemma closed_step:
  assumes "confluent_step K B c c'"
  shows "d_closed c \<Longrightarrow> d_closed c'" and "(d_closing c \<noteq> None \<longrightarrow> d_closed c) \<Longrightarrow> d_closing c' \<noteq> None \<longrightarrow> d_closed c'"
  using assms
  by (cases; auto simp: running_apply connect_fields begin_fields confluent_Close_def close_signal_def close_driver_def
      apply_begin_def apply_filter_def apply_seek_def apply_clear_def deliver_def read_failed_def gathered_def
      wave_end_def retry_begin_def retry_seek_def retry_record_def rebalance_assigned_def rebalance_revoked_def
      markRewindPartitionsAssigned_def clearPendingRewindsForPartitions_def Let_def split: option.splits prod.splits if_splits)+

lemma delivery_reachable:
  assumes "confluent_reachable K B c" and "at_least_once (cf_run K)"
  shows "(d_closing c \<noteq> None \<longrightarrow> d_closed c) \<and> (\<not> d_closed c \<longrightarrow> delivery_ok B c)"
  using assms(1)
proof induction
  case reach_new
  then show ?case using delivery_new by (simp add: new_confluent_def)
next
  case (reach_step c c')
  then show ?case using closed_step [OF reach_step.hyps(2)] delivery_step [OF reach_step.hyps(2) _ assms(2)] by blast
qed

text \<open>
  C5.  At-least-once delivery of the Confluent consumer, in both modes, across any number of runs and
  whatever fails (handlers, commits, reads, seeks, workers that end): until the consumer is closed, the
  offset of a partition is settled past a record only after every record of the partition up to it that was
  read under the same assignment has been handled successfully.  Rebalances, failed waves, exact seeks that
  fail in part and rewinds that stay pending do not change this.
\<close>

theorem confluent_at_least_once:
  assumes "confluent_reachable K B c" and "at_least_once (cf_run K)" and "\<not> d_closed c"
    and "d_log c = pre @ DWork s x # post" and "csettles x = Some m"
    and "DRead s q \<in> set pre" and "m_partition q = m_partition m" and "m_offset q \<le> m_offset m"
  shows "\<exists>t y. DWork t y \<in> set pre \<and> q \<in> chandles y"
proof -
  have "causal settled_late {} (d_log c)" using delivery_reachable [OF assms(1,2)] assms(3) by (simp add: delivery_ok_def basic_ok_def)
  then have "settled_late (DWork s x) (set pre)" unfolding assms(4) by (auto dest: causal_before)
  then show ?thesis using assms(5-8) unfolding settled_late_def by blast
qed

section \<open>Fencing\<close>

definition active_groups_ok :: "ConfluentConsumer \<Rightarrow> wave \<Rightarrow> bool" where
  "active_groups_ok c ws \<longleftrightarrow> (\<forall>x \<in> set ws. g_known (fst x) \<and> g_messages (fst x) \<noteq> []
     \<and> (\<forall>m \<in> set (g_messages (fst x)). m_partition m = fst (gid (fst x)))
     \<and> (\<forall>es err. snd x = Active es err \<longrightarrow> owned_group c (fst x)))"

definition fence_ok :: "confluent_config \<Rightarrow> ConfluentConsumer \<Rightarrow> bool" where
  "fence_ok K c \<longleftrightarrow>
     (case d_phase c of
        DReading _ buf \<Rightarrow> \<forall>x \<in> set buf. keyed x \<and> as_known (d_assign c)
      | DWave _ ws _ \<Rightarrow> as_known (d_assign c) \<and> active_groups_ok c ws \<and> int (running ws) \<le> max 1 (cf_concurrency K)
      | _ \<Rightarrow> True)"

lemma filter_update:
  "i < length xs \<Longrightarrow> length (filter P (xs[i := y])) + (if P (xs ! i) then 1 else 0) = length (filter P xs) + (if P y then 1 else 0)"
proof (induction xs arbitrary: i)
  case (Cons x xs)
  then show ?case by (cases i) auto
qed simp

lemma running_update:
  "i < length ws \<Longrightarrow> running (ws[i := (g, st)]) + (if busy (snd (ws ! i)) then 1 else 0) = running ws + (if busy st then 1 else 0)"
  using filter_update [of i ws "\<lambda>x. busy (snd x)" "(g, st)"] by (simp add: running_def)

lemma active_update:
  assumes "active_groups_ok c ws" and "i < length ws" and "ws ! i = (g, st)" and "\<And>es err. st' = Active es err \<Longrightarrow> owned_group c g"
  shows "active_groups_ok c (ws[i := (g, st')])"
  unfolding active_groups_ok_def
proof
  fix x assume x: "x \<in> set (ws[i := (g, st')])"
  have mem: "(g, st) \<in> set ws" using assms(2,3) by (metis nth_mem)
  show "g_known (fst x) \<and> g_messages (fst x) \<noteq> [] \<and> (\<forall>m \<in> set (g_messages (fst x)). m_partition m = fst (gid (fst x)))
      \<and> (\<forall>es err. snd x = Active es err \<longrightarrow> owned_group c (fst x))"
  proof (cases "x = (g, st')")
    case True
    then show ?thesis using bspec [OF assms(1) [unfolded active_groups_ok_def] mem] assms(4) by simp
  next
    case False
    then have "x \<in> set ws" using x set_update_subset_insert [of ws i "(g, st')"] by blast
    then show ?thesis by (rule bspec [OF assms(1) [unfolded active_groups_ok_def]])
  qed
qed

lemma fence_other:
  "fence_ok K c' \<longleftrightarrow> True" if "\<And>n buf. d_phase c' \<noteq> DReading n buf" "\<And>n ws d. d_phase c' \<noteq> DWave n ws d" for c'
  using that by (cases "d_phase c'") (auto simp: fence_ok_def)

lemma fence_rebalanced:
  assumes "fence_ok K c" and "\<not> leased (d_phase c)" and "d_phase c' = d_phase c" and "as_known (d_assign c) \<Longrightarrow> as_known (d_assign c')"
  shows "fence_ok K c'"
proof (cases "d_phase c")
  case (DWave n ws deferred)
  then have "\<nexists>x es err. x \<in> set ws \<and> snd x = Active es err" using assms(2) by (force simp: leased_def list_ex_iff)
  then show ?thesis using assms DWave by (auto simp: fence_ok_def active_groups_ok_def)
qed (use assms in \<open>auto simp: fence_ok_def\<close>)

lemma fence_dispatch:
  assumes "as_known (d_assign c)" and "active_groups_ok c ws" and "(g, st) \<in> set ws" and "beginPartitionDispatch (d_assign c) g"
  shows "owned_group c g"
proof -
  have "g_known g" "g_messages g \<noteq> []" using bspec [OF assms(2) [unfolded active_groups_ok_def] assms(3)] by auto
  then show ?thesis using assms(1,4)
    by (cases "as_parts (d_assign c) (fst (gid g))")
      (auto simp: beginPartitionDispatch_def owned_group_def gid_def m_partition_def Let_def)
qed

lemma fence_gathered:
  assumes "fence_ok K c" and "d_phase c = DReading n buf" and "buf \<noteq> []"
  shows "fence_ok K (gathered n buf deferred c)"
proof -
  have k: "\<forall>x \<in> set buf. keyed x" "as_known (d_assign c)" using assms by (cases buf; auto simp: fence_ok_def)+
  have "active_groups_ok c (new_wave buf)" unfolding active_groups_ok_def
  proof
    fix x assume x: "x \<in> set (new_wave buf)"
    then have "fst x \<in> set (groups_of buf)" "snd x = Waiting" by (auto simp: new_wave_def)
    note spec = groups_of_spec [OF k(1) this(1)]
    have "\<forall>m \<in> set (g_messages (fst x)). m_partition m = fst (gid (fst x))" unfolding spec(4) by auto
    then show "g_known (fst x) \<and> g_messages (fst x) \<noteq> [] \<and> (\<forall>m \<in> set (g_messages (fst x)). m_partition m = fst (gid (fst x)))
        \<and> (\<forall>es err. snd x = Active es err \<longrightarrow> owned_group c (fst x))" using spec(1,2) \<open>snd x = Waiting\<close> by simp
  qed
  moreover have "running (new_wave buf) = 0" by (simp add: running_def new_wave_def filter_empty_conv)
  ultimately show ?thesis using k by (auto simp: gathered_def fence_ok_def active_groups_ok_def owned_group_def)
qed

lemma fence_update:
  assumes "fence_ok K c" and "d_phase c = DWave n ws deferred" and "i < length ws" and "ws ! i = (g, st)"
    and "\<And>es err. st' = Active es err \<Longrightarrow> owned_group c g" and "busy st' \<Longrightarrow> busy st \<or> int (running ws) < max 1 (cf_concurrency K)"
    and "d_phase c' = DWave n (ws[i := (g, st')]) deferred" and "d_assign c' = d_assign c"
  shows "fence_ok K c'"
proof -
  have f: "as_known (d_assign c)" "active_groups_ok c ws" "int (running ws) \<le> max 1 (cf_concurrency K)"
    using assms(1,2) by (auto simp: fence_ok_def)
  have "int (running (ws[i := (g, st')])) \<le> max 1 (cf_concurrency K)"
    using running_update [OF assms(3), of g st'] assms(4,6) f(3) by (auto split: if_splits)
  moreover have "active_groups_ok c' (ws[i := (g, st')])"
    using active_update [OF f(2) assms(3,4), of st'] assms(5,8) by (simp add: active_groups_ok_def owned_group_def)
  ultimately show ?thesis using assms(7,8) f(1) by (simp add: fence_ok_def)
qed

lemma stop_launching_ok:
  "active_groups_ok c ws \<Longrightarrow> active_groups_ok c (stop_launching ws)" "running (stop_launching ws) = running ws"
proof -
  show "active_groups_ok c ws \<Longrightarrow> active_groups_ok c (stop_launching ws)"
    by (fastforce simp: active_groups_ok_def stop_launching_def split: if_splits)
  show "running (stop_launching ws) = running ws"
    by (induction ws) (auto simp: running_def stop_launching_def split: if_splits)
qed

lemma connect_frame:
  "d_assign (snd (confluent_Connect e1 e2 ts c)) = d_assign c" "active_groups_ok (snd (confluent_Connect e1 e2 ts c)) = active_groups_ok c"
  "d_phase (snd (confluent_Connect e1 e2 ts c)) = d_phase c"
proof -
  show a: "d_assign (snd (confluent_Connect e1 e2 ts c)) = d_assign c"
    by (auto simp: confluent_Connect_def create_driver_def Let_def split: option.splits)
  show "active_groups_ok (snd (confluent_Connect e1 e2 ts c)) = active_groups_ok c"
    using a by (simp add: active_groups_ok_def owned_group_def fun_eq_iff)
qed (rule connect_fields)

lemma begin_frame:
  "d_assign (snd (beginConsumeRun e1 e2 c)) = d_assign c"
  "d_phase (snd (beginConsumeRun e1 e2 c)) = d_phase c \<or> (\<exists>n. d_phase (snd (beginConsumeRun e1 e2 c)) = DStarting n)"
  "active_groups_ok (snd (beginConsumeRun e1 e2 c)) = active_groups_ok c"
proof -
  have r: "d_assign (snd (reconnect e1 e2 c)) = d_assign c"
    by (auto simp: reconnect_def create_driver_def Let_def split: option.splits)
  then show a: "d_assign (snd (beginConsumeRun e1 e2 c)) = d_assign c"
    by (auto simp: beginConsumeRun_def split: option.splits prod.splits)
  show "d_phase (snd (beginConsumeRun e1 e2 c)) = d_phase c \<or> (\<exists>n. d_phase (snd (beginConsumeRun e1 e2 c)) = DStarting n)"
    using reconnect_fields(3) [of e1 e2 c] by (auto simp: beginConsumeRun_def split: option.splits prod.splits)
  show "active_groups_ok (snd (beginConsumeRun e1 e2 c)) = active_groups_ok c"
    using a by (simp add: active_groups_ok_def owned_group_def fun_eq_iff)
qed

lemma fence_step:
  assumes "confluent_step K B c c'" and "fence_ok K c"
  shows "fence_ok K c'"
  using assms(1)
proof cases
  case connect
  then show ?thesis using assms(2) by (simp add: fence_ok_def connect_frame split: dphase.splits)
next
  case (begin_run createErr subscribeErr)
  then show ?thesis using assms(2) begin_frame(2) [of createErr subscribeErr c]
    by (auto simp: fence_ok_def begin_frame(1,3) split: dphase.splits)
next
  case (read n buf m)
  then show ?thesis using assms(2)
    by (auto simp: fence_ok_def deliver_def delivers_def assignmentSnapshot_def keyed_def Let_def)
next
  case (gathered n buf deferred)
  then show ?thesis using fence_gathered [OF assms(2)] by simp
next
  case (launch n ws deferred i g)
  then show ?thesis by (intro fence_update [OF assms(2) launch(2-4)]) auto
next
  case (unlaunched n ws deferred)
  then show ?thesis using assms(2) stop_launching_ok(1) [of c ws] stop_launching_ok(2) [of ws]
    by (simp add: fence_ok_def active_groups_ok_def owned_group_def)
next
  case (dispatch n ws deferred i g env err log)
  have f: "as_known (d_assign c)" "active_groups_ok c ws" using assms(2) dispatch(2) by (auto simp: fence_ok_def)
  have "(g, Launched) \<in> set ws" using dispatch(3,4) by (metis nth_mem)
  then have "owned_group c g" using fence_dispatch [OF f _ dispatch(5)] by blast
  then show ?thesis using dispatch by (intro fence_update [OF assms(2) dispatch(2-4)]) auto
next
  case (discard n ws deferred i g)
  then show ?thesis by (intro fence_update [OF assms(2) discard(2-4)]) auto
next
  case (work n ws deferred i g e log err)
  have f: "active_groups_ok c ws" using assms(2) work(2) by (auto simp: fence_ok_def)
  have "(g, Active (e # log) err) \<in> set ws" using work(3,4) by (metis nth_mem)
  from bspec [OF f [unfolded active_groups_ok_def] this] have "owned_group c g" by simp
  then show ?thesis using work by (intro fence_update [OF assms(2) work(2-4)]) auto
next
  case (leave n ws deferred i g err)
  then show ?thesis by (intro fence_update [OF assms(2) leave(2-4)]) auto
next
  case (assigned parts fetch err cooperative)
  show ?thesis by (rule fence_rebalanced [OF assms(2) assigned(2)])
    (use assigned in \<open>auto simp: rebalance_assigned_def markRewindPartitionsAssigned_def markPartitionsAssigned_def Let_def\<close>)
next
  case (revoked parts cooperative)
  show ?thesis by (rule fence_rebalanced [OF assms(2) revoked(2)])
    (use revoked in \<open>auto simp: rebalance_revoked_def clearPendingRewindsForPartitions_def markPartitionsRevoked_def\<close>)
next
  case close
  then show ?thesis using assms(2) by (auto simp: fence_ok_def confluent_Close_def active_groups_ok_def owned_group_def split: dphase.splits)
next
  case (close_signal client)
  then show ?thesis using assms(2) by (auto simp: fence_ok_def close_signal_def active_groups_ok_def owned_group_def split: dphase.splits)
next
  case (close_driver client)
  then show ?thesis by (auto simp: fence_ok_def close_driver_def split: option.splits)
qed (auto simp: fence_ok_def apply_begin_def apply_filter_def apply_seek_def apply_clear_def read_failed_def
      wave_end_def retry_begin_def retry_seek_def retry_record_def Let_def split: option.splits prod.splits if_splits)

text \<open>
  C10.  Fencing.  Whatever rebalances happen, every call a worker makes (handlers, commits, stores) is made
  while this member owns the partition of the records under the very assignment they were read under, so
  records gathered before a rebalance never reach the application after it.  At most as many workers run at
  a time as the options allow.
\<close>

theorem confluent_fenced:
  assumes "confluent_reachable K B c" and "d_phase c = DWave n ws deferred" and "(g, Active es err) \<in> set ws"
  shows "(\<forall>m. m \<in> set (g_messages g) \<longrightarrow> as_parts (d_assign c) (m_partition m) = Some (g_generation g))
    \<and> g_messages g \<noteq> [] \<and> int (running ws) \<le> max 1 (cf_concurrency K)"
proof -
  have "fence_ok K c" using assms(1)
  proof induction
    case reach_new
    show ?case by (simp add: fence_ok_def new_confluent_def)
  qed (rule fence_step)
  then have ok: "active_groups_ok c ws" "int (running ws) \<le> max 1 (cf_concurrency K)" using assms(2) by (auto simp: fence_ok_def)
  note g = bspec [OF ok(1) [unfolded active_groups_ok_def] assms(3)]
  have own: "as_parts (d_assign c) (fst (gid g)) = Some (snd (gid g))" using g by (simp add: owned_group_def)
  have gen: "snd (gid g) = g_generation g" by (simp add: gid_def)
  show ?thesis using g own ok(2) unfolding gen by simp
qed

section \<open>Closing\<close>

fun driver_of :: "devent \<Rightarrow> nat option" where
  "driver_of (DClose n) = Some n"
| "driver_of _ = None"

definition driver_closes :: "devent list \<Rightarrow> nat list" where
  "driver_closes log = List.map_filter driver_of log"

lemma driver_closes_simps [simp]:
  "driver_closes [] = []" "driver_closes (log @ [DClose n]) = driver_closes log @ [n]"
  "driver_closes (log @ [DRead s m]) = driver_closes log" "driver_closes (log @ [DWork s x]) = driver_closes log"
  "driver_closes (log @ [DSeek ps e]) = driver_closes log"
  by (simp_all add: driver_closes_def List.map_filter_def)

fun phase_driver :: "dphase \<Rightarrow> nat option" where
  "phase_driver DIdle = None"
| "phase_driver (DStarting n) = Some n"
| "phase_driver (DApplying n _) = Some n"
| "phase_driver (DApplySeek n _ _) = Some n"
| "phase_driver (DApplied n _) = Some n"
| "phase_driver (DReading n _) = Some n"
| "phase_driver (DWave n _ _) = Some n"
| "phase_driver (DFailing n _) = Some n"
| "phase_driver (DSeeking n _ _) = Some n"
| "phase_driver (DRecording n _ _) = Some n"
| "phase_driver (DReturning n _) = Some n"

lemma phase_driver_None [simp]: "phase_driver p = None \<longleftrightarrow> p = DIdle"
  by (cases p) auto

definition closing_wf :: "ConfluentConsumer \<Rightarrow> bool" where
  "closing_wf c \<longleftrightarrow>
     (case d_closing c of
        None \<Rightarrow> True
      | Some (CloseRequested cl) \<Rightarrow> d_closed c \<and> cl = d_client c
      | Some (CloseWaiting cl) \<Rightarrow> d_closed c \<and> cl = d_client c
      | Some CloseDone \<Rightarrow> d_closed c \<and> d_client c = None \<and> d_phase c = DIdle)"

definition held :: "nat option \<Rightarrow> nat list" where
  "held cl = (case cl of None \<Rightarrow> [] | Some n \<Rightarrow> [n])"

text \<open>Every driver created so far is closed once, or is the consumer's.\<close>

definition drivers_ok :: "ConfluentConsumer \<Rightarrow> bool" where
  "drivers_ok c \<longleftrightarrow> mset (driver_closes (d_log c) @ held (d_client c)) = mset [0..<d_created c]
     \<and> (d_phase c \<noteq> DIdle \<longrightarrow> d_client c = phase_driver (d_phase c)) \<and> closing_wf c"

lemma held_simps [simp]: "held None = []" "held (Some n) = [n]"
  by (simp_all add: held_def)

lemma drivers_create:
  assumes "drivers_ok c" and "d_client c = None" and "\<not> d_closed c"
  shows "drivers_ok (snd (create_driver a b e1 e2 c))"
proof -
  have "d_phase c = DIdle" using assms(1,2) by (metis drivers_ok_def phase_driver_None)
  moreover have "mset (driver_closes (d_log c)) = mset [0..<d_created c]" "d_closing c = None"
    using assms by (auto simp: drivers_ok_def closing_wf_def split: option.splits closing.splits)
  ultimately show ?thesis using assms
    by (cases e1; cases e2) (simp_all add: create_driver_def Let_def drivers_ok_def closing_wf_def)
qed

text \<open>Steps that leave the drivers alone.\<close>

lemma drivers_frame:
  assumes "drivers_ok c" and "driver_closes (d_log c') = driver_closes (d_log c)" and "d_client c' = d_client c"
    and "d_created c' = d_created c" and "d_closing c' = d_closing c" and "d_closed c' = d_closed c"
    and "d_phase c' = d_phase c \<or> phase_driver (d_phase c') = phase_driver (d_phase c) \<or> d_phase c' = DIdle \<and> d_phase c \<noteq> DIdle"
  shows "drivers_ok c'"
  using assms unfolding drivers_ok_def closing_wf_def by (auto split: option.splits closing.splits)

lemma drivers_connect: "drivers_ok c \<Longrightarrow> drivers_ok (snd (confluent_Connect e1 e2 ts c))"
proof -
  assume ok: "drivers_ok c"
  let ?d = "create_driver ''kafka/confluent: consumer group connect failed: %w'' ''kafka/confluent: subscribe failed: %w'' e1 e2 c"
  have d: "drivers_ok (snd ?d)" if "d_client c = None" "\<not> d_closed c" using drivers_create [OF ok that] .
  have "drivers_ok ((snd ?d)\<lparr>d_topics := xs\<rparr>)" if "drivers_ok (snd ?d)" for xs by (rule drivers_frame [OF that]) simp_all
  then show ?thesis using ok d by (auto simp: confluent_Connect_def split: option.splits prod.splits)
qed

lemma drivers_begin: "drivers_ok c \<Longrightarrow> drivers_ok (snd (beginConsumeRun e1 e2 c))"
proof -
  assume ok: "drivers_ok c"
  obtain err c1 where r: "reconnect e1 e2 c = (err, c1)" by force
  have c1: "drivers_ok c1" using r ok drivers_create [OF ok] by (auto simp: reconnect_def split: if_splits) (metis snd_conv)
  have cl: "err = None \<Longrightarrow> d_client c1 \<noteq> None"
    using r by (auto simp: reconnect_def create_driver_def Let_def split: if_splits option.splits)
  have "drivers_ok (c1\<lparr>d_phase := DStarting (the (d_client c1)), d_cancelled := False\<rparr>)" if "err = None" "d_phase c1 = DIdle" "\<not> d_closed c1"
    using c1 cl [OF that(1)] that by (auto simp: drivers_ok_def closing_wf_def split: option.splits closing.splits)
  then show ?thesis using r c1 by (auto simp: beginConsumeRun_def split: option.splits)
qed

lemma drivers_step:
  assumes "confluent_step K B c c'" and "drivers_ok c"
  shows "drivers_ok c'"
  using assms(1)
proof cases
  case connect
  then show ?thesis using drivers_connect [OF assms(2)] by simp
next
  case begin_run
  then show ?thesis using drivers_begin [OF assms(2)] by simp
next
  case close
  then show ?thesis using assms(2) by (auto simp: confluent_Close_def drivers_ok_def closing_wf_def split: option.splits)
next
  case (close_signal client)
  then show ?thesis using assms(2) by (auto simp: close_signal_def drivers_ok_def closing_wf_def)
next
  case (close_driver client)
  then have "client = d_client c" "mset (driver_closes (d_log c) @ held client) = mset [0..<d_created c]" "d_closed c"
    using assms(2) by (auto simp: drivers_ok_def closing_wf_def)
  then show ?thesis using close_driver
    by (cases "d_client c") (simp_all add: close_driver_def drivers_ok_def closing_wf_def)
next
  case (assigned parts fetch err cooperative)
  then show ?thesis by (intro drivers_frame [OF assms(2)]) (auto simp: rebalance_assigned_def markRewindPartitionsAssigned_def)
next
  case (revoked parts cooperative)
  then show ?thesis by (intro drivers_frame [OF assms(2)]) (auto simp: rebalance_revoked_def clearPendingRewindsForPartitions_def)
next
  case (finish n r)
  then show ?thesis by (intro drivers_frame [OF assms(2)]) auto
qed (rule drivers_frame [OF assms(2)]; auto simp: apply_begin_def apply_filter_def apply_seek_def apply_clear_def deliver_def
      read_failed_def gathered_def wave_end_def retry_begin_def retry_seek_def retry_record_def Let_def
      split: option.splits prod.splits if_splits)+

text \<open>
  C27.  Shutdown of the Confluent consumer: in every reachable state no driver is closed twice, the driver of
  an active run is open and is the consumer's, every driver ever created is the consumer's or closed, and
  once a close has finished no run is active and all drivers are closed.
\<close>

theorem confluent_closes_drivers:
  assumes "confluent_reachable K B c"
  shows "distinct (driver_closes (d_log c))
    \<and> (\<forall>n. phase_driver (d_phase c) = Some n \<longrightarrow> d_client c = Some n \<and> n \<notin> set (driver_closes (d_log c)))
    \<and> (\<forall>n. n < d_created c \<longrightarrow> n \<in> set (driver_closes (d_log c)) \<or> d_client c = Some n)
    \<and> (d_closing c = Some CloseDone \<longrightarrow> d_phase c = DIdle \<and> set (driver_closes (d_log c)) = {n. n < d_created c})"
proof -
  have ok: "drivers_ok c" using assms
  proof induction
    case reach_new
    show ?case by (simp add: drivers_ok_def new_confluent_def closing_wf_def)
  qed (rule drivers_step)
  let ?xs = "driver_closes (d_log c) @ held (d_client c)"
  have m: "mset ?xs = mset [0..<d_created c]" using ok by (simp add: drivers_ok_def)
  have d: "distinct ?xs" using mset_eq_imp_distinct_iff [OF m] by simp
  have s: "set ?xs = {n. n < d_created c}" using mset_eq_setD [OF m] by (simp add: atLeast0LessThan lessThan_def)
  have run: "d_client c = Some n" if "phase_driver (d_phase c) = Some n" for n
    using ok that by (cases "d_phase c = DIdle") (auto simp: drivers_ok_def)
  have fin: "d_closing c = Some CloseDone \<Longrightarrow> d_client c = None \<and> d_phase c = DIdle" using ok by (simp add: drivers_ok_def closing_wf_def)
  have created: "n \<in> set (driver_closes (d_log c)) \<or> d_client c = Some n" if "n < d_created c" for n
  proof -
    have "n \<in> set ?xs" using that s by blast
    then show ?thesis by (cases "d_client c") auto
  qed
  have fin_set: "set (driver_closes (d_log c)) = {n. n < d_created c}" if "d_closing c = Some CloseDone" using s fin [OF that] by simp
  show ?thesis using d run created fin fin_set by auto
qed

end
