(* ===== verification/Confluent_Samples.thy ===== *)
theory Confluent_Samples
  imports Confluent_Properties
begin

text \<open>
  Runs of the Confluent consumer on concrete records: a wave of two records that is handled and settled, a
  consumer that is closed, and a close that overtakes a run that has just begun, so that the run skips a
  pending rewind.
\<close>

section \<open>A wave with one group\<close>

text \<open>All calls of the only worker.\<close>

lemma reach_calls:
  assumes "confluent_reachable K B (c\<lparr>d_log := pre, d_phase := DWave n [(g, Active es err)] deferred\<rparr>)" and "CtxDone \<notin> set es"
  shows "confluent_reachable K B
    (c\<lparr>d_log := pre @ map (DWork (g_known g, g_generation g)) es, d_phase := DWave n [(g, Active [] err)] deferred\<rparr>)"
  using assms
proof (induction es arbitrary: pre)
  case (Cons e es)
  let ?c = "c\<lparr>d_log := pre, d_phase := DWave n [(g, Active (e # es) err)] deferred\<rparr>"
  have "confluent_step K B ?c ((dlog (DWork (g_known g, g_generation g) e) ?c)\<lparr>d_phase :=
      DWave n ([(g, Active (e # es) err)][0 := (g, Active es err)]) deferred\<rparr>)"
    by (rule work) (use Cons.prems(2) in auto)
  then have "confluent_reachable K B (c\<lparr>d_log := pre @ [DWork (g_known g, g_generation g) e], d_phase := DWave n [(g, Active es err)] deferred\<rparr>)"
    using reach_step [OF Cons.prems(1)] by (simp add: dlog_def)
  from Cons.IH [OF this] Cons.prems(2) show ?case by simp
qed simp

text \<open>What was gathered is launched, dispatched and worked on.\<close>

lemma reach_alone:
  assumes "confluent_reachable K B c" and "d_phase c = DReading n buf" and "buf \<noteq> []" and "\<not> d_cancelled c"
    and "new_wave buf = [(g, Waiting)]" and "beginPartitionDispatch (d_assign c) g" and "driver_errors env"
    and "group_outcome (cf_batch K) (cf_run K) env g = (err, es)" and "CtxDone \<notin> set es"
  shows "confluent_reachable K B
    (c\<lparr>d_log := d_log c @ map (DWork (g_known g, g_generation g)) es, d_phase := DWave n [(g, Active [] err)] None\<rparr>)"
proof -
  let ?w = "\<lambda>st. c\<lparr>d_phase := DWave n [(g, st)] None\<rparr>"
  have "gathered n buf None c = ?w Waiting" using assms(4,5) by (simp add: gathered_def)
  then have "confluent_reachable K B (?w Waiting)"
    using reach_step [OF assms(1) gathered [OF assms(2,3)], of None] by simp
  moreover have "confluent_step K B (?w Waiting) ((?w Waiting)\<lparr>d_phase := DWave n ([(g, Waiting)][0 := (g, Launched)]) None\<rparr>)"
    by (rule launch) (simp_all add: running_def)
  ultimately have l: "confluent_reachable K B (?w Launched)" using reach_step by fastforce
  have "confluent_step K B (?w Launched) ((?w Launched)\<lparr>d_phase := DWave n ([(g, Launched)][0 := (g, Active es err)]) None\<rparr>)"
    by (rule dispatch [OF _ _ _ _ assms(7,8)]) (use assms(6) in simp_all)
  then have "confluent_reachable K B (?w (Active es err))" using reach_step [OF l] by simp
  moreover have "?w (Active es err) = c\<lparr>d_log := d_log c, d_phase := DWave n [(g, Active es err)] None\<rparr>" by simp
  ultimately show ?thesis using reach_calls [where c = c and pre = "d_log c"] assms(9) by metis
qed

section \<open>Two records\<close>

definition sample_tp :: topic_partition where
  "sample_tp = \<lparr>tp_Topic = Some ''t'', tp_Partition = 0, tp_Offset = 0, tp_Error = None\<rparr>"

definition sm :: "int \<Rightarrow> cmessage" where
  "sm i = \<lparr>m_TopicPartition = sample_tp\<lparr>tp_Offset := i\<rparr>, m_Key = None, m_Value = Some ''v'', m_Headers = [], m_Timestamp = 0\<rparr>"

definition sample_broker :: broker where
  "sample_broker k off = (if k = (''t'', 0) \<and> (off = 0 \<or> off = 1) then Some (sm off) else None)"

definition sample_confluent :: confluent_config where
  "sample_confluent = \<lparr>cf_batch = False,
     cf_run = \<lparr>cr_legacy = False, cr_AutoCommit = True, cr_auto = True,
               cr_opts = \<lparr>ko_AutoCommit = None, ko_CommitBeforeHandler = False, ko_OffsetFinalizer = False,
                 ko_ResolveAfterSuccessfulFinalizer = False, ko_NullOffsetCommitMetadata = False,
                 ko_RedeliverUnresolvedFinalizer = False, ko_PartitionsConsumedConcurrently = 0, ko_PollTimeout = 0, ko_MaxRecords = 0\<rparr>\<rparr>,
     cf_concurrency = 1, cf_size = 2\<rparr>"

text \<open>Handlers that answer the same on every record.\<close>

definition sample_cenv :: "kerror option \<Rightarrow> confluent_env" where
  "sample_cenv a = \<lparr>ce_done = (\<lambda>_. False), ce_handler = (\<lambda>_ _. Returns a), ce_batch = (\<lambda>_ _. Returns a), ce_commit = (\<lambda>_ _. None),
     ce_store = (\<lambda>_ _. None), ce_offsets = (\<lambda>_ _ _. None), ce_calls = (\<lambda>_ _ _. []), ce_final = (\<lambda>_ _ _. FReturns None False)\<rparr>"

lemma sample_driver: "driver_errors (sample_cenv a)"
  by (simp add: driver_errors_def sample_cenv_def)

lemma sm_simps [simp]:
  "m_partition (sm i) = (''t'', 0)" "m_offset (sm i) = i" "tp_Topic (m_TopicPartition (sm i)) = Some ''t''" "sm i = sm j \<longleftrightarrow> i = j"
  by (simp_all add: m_partition_def m_offset_def tp_key_def confluentTopicName_def sm_def sample_tp_def)

definition sample_connected :: ConfluentConsumer where
  "sample_connected = snd (confluent_Connect None None [\<lparr>tc_Topic = ''t'', tc_FromBeginning = True\<rparr>] new_confluent)"

lemma connected_reachable: "confluent_reachable K B sample_connected"
  unfolding sample_connected_def by (rule reach_step [OF reach_new connect])

definition sample_assigned :: ConfluentConsumer where
  "sample_assigned = rebalance_assigned None False [sample_tp] (\<lambda>_. 0) sample_connected"

definition sample_reading :: ConfluentConsumer where
  "sample_reading = apply_begin 0 (snd (beginConsumeRun None None sample_assigned))"

lemma connected_eq:
  "sample_connected = new_confluent\<lparr>d_created := 1, d_client := Some 0, d_topics := [''t'']\<rparr>"
  by (simp add: sample_connected_def confluent_Connect_def create_driver_def new_confluent_def validateUniformTopicStart_def Let_def)

lemma reading_eq:
  "sample_reading = new_confluent\<lparr>d_created := 1, d_client := Some 0, d_topics := [''t''],
     d_assign := \<lparr>as_known = True, as_generation = 1, as_parts = [(''t'', 0) \<mapsto> 1]\<rparr>, d_phase := DReading 0 []\<rparr>"
  by (simp add: sample_reading_def sample_assigned_def connected_eq apply_begin_def beginConsumeRun_def reconnect_def new_confluent_def
      rebalance_assigned_def markRewindPartitionsAssigned_def markPartitionsAssigned_def assign_part_def sample_tp_def Let_def)

lemma reading_reachable: "confluent_reachable K B sample_reading"
proof -
  have "confluent_step K B sample_connected sample_assigned"
    unfolding sample_assigned_def
    by (rule assigned) (simp_all add: connected_eq new_confluent_def leased_def topics_named_def sample_tp_def)
  then have a: "confluent_reachable K B sample_assigned" by (rule reach_step [OF connected_reachable])
  let ?c = "snd (beginConsumeRun None None sample_assigned)"
  have "d_phase ?c = DStarting 0"
    by (simp add: sample_assigned_def connected_eq beginConsumeRun_def reconnect_def new_confluent_def
        rebalance_assigned_def markRewindPartitionsAssigned_def)
  then show ?thesis unfolding sample_reading_def by (rule reach_step [OF reach_step [OF a begin_run] apply_begin])
qed

text \<open>The records read so far, under the first assignment.\<close>

definition sample_read :: "int list \<Rightarrow> ConfluentConsumer" where
  "sample_read xs = sample_reading\<lparr>d_log := map (\<lambda>i. DRead (True, 1) (sm i)) xs,
     d_fetch := (\<lambda>_. 0)((''t'', 0) := int (length xs)), d_phase := DReading 0 (map (\<lambda>i. (sm i, True, 1)) xs)\<rparr>"

lemma read_reachable: "confluent_reachable sample_confluent sample_broker (sample_read [0])"
  "confluent_reachable sample_confluent sample_broker (sample_read [0, 1])"
proof -
  have r: "confluent_step sample_confluent sample_broker c (deliver 0 buf (sm i) c)"
    if "d_phase c = DReading 0 buf" "length buf < 2" "d_assign c = d_assign sample_reading" "d_fetch c (''t'', 0) = i" "i = 0 \<or> i = 1" for c buf i
    by (rule read [OF that(1)]) (use that in \<open>auto simp: sample_confluent_def delivers_def sample_broker_def reading_eq Let_def\<close>)
  have e: "deliver 0 [] (sm 0) sample_reading = sample_read [0]"
    "deliver 0 [(sm 0, True, 1)] (sm 1) (sample_read [0]) = sample_read [0, 1]"
    by (simp_all add: deliver_def sample_read_def reading_eq dlog_def assignmentSnapshot_def new_confluent_def Let_def)
  show a: "confluent_reachable sample_confluent sample_broker (sample_read [0])"
    unfolding e(1) [symmetric] by (rule reach_step [OF reading_reachable r]) (simp_all add: reading_eq new_confluent_def)
  show "confluent_reachable sample_confluent sample_broker (sample_read [0, 1])"
    unfolding e(2) [symmetric] by (rule reach_step [OF a r]) (simp_all add: sample_read_def)
qed

text \<open>The group of the records, and what its worker does.\<close>

definition sample_cgroup :: "int list \<Rightarrow> cgroup" where
  "sample_cgroup xs = fst (hd (new_wave (map (\<lambda>i. (sm i, True, 1)) xs)))"

lemma sample_wave_eq:
  "new_wave (map (\<lambda>i. (sm i, True, 1)) [0, 1]) = [(sample_cgroup [0, 1], Waiting)]"
  "new_wave (map (\<lambda>i. (sm i, True, 1)) [0]) = [(sample_cgroup [0], Waiting)]"
  "new_wave (map (\<lambda>i. (sm i, True, 1)) [1]) = [(sample_cgroup [1], Waiting)]"
  "g_messages (sample_cgroup [0, 1]) = [sm 0, sm 1]" "g_messages (sample_cgroup [0]) = [sm 0]" "g_messages (sample_cgroup [1]) = [sm 1]"
  "g_known (sample_cgroup [0, 1])" "g_known (sample_cgroup [0])" "g_known (sample_cgroup [1])"
  "g_generation (sample_cgroup [0, 1]) = 1" "g_generation (sample_cgroup [0]) = 1" "g_generation (sample_cgroup [1]) = 1"
  by code_simp+

lemma sample_outcomes:
  "group_outcome (cf_batch sample_confluent) (cf_run sample_confluent) (sample_cenv None) (sample_cgroup [0, 1])
     = (None, [CHandle (sm 0) (Returns None), StoreMessage (sm 0) None, CHandle (sm 1) (Returns None), StoreMessage (sm 1) None])"
  "group_outcome (cf_batch sample_confluent) (cf_run sample_confluent) (sample_cenv None) (sample_cgroup [1])
     = (None, [CHandle (sm 1) (Returns None), StoreMessage (sm 1) None])"
  by code_simp+

definition sample_handled :: ConfluentConsumer where
  "sample_handled = (sample_read [0, 1])\<lparr>
     d_log := [DRead (True, 1) (sm 0), DRead (True, 1) (sm 1), DWork (True, 1) (CHandle (sm 0) (Returns None)),
       DWork (True, 1) (StoreMessage (sm 0) None), DWork (True, 1) (CHandle (sm 1) (Returns None)), DWork (True, 1) (StoreMessage (sm 1) None)],
     d_phase := DWave 0 [(sample_cgroup [0, 1], Active [] None)] None\<rparr>"

lemma sample_dispatch:
  "g \<in> {sample_cgroup [0, 1], sample_cgroup [0], sample_cgroup [1]} \<Longrightarrow> beginPartitionDispatch (d_assign sample_reading) g"
  by (auto simp: beginPartitionDispatch_def sample_wave_eq reading_eq tp_key_def confluentTopicName_def sm_def sample_tp_def)

lemma sample_handled_reachable: "confluent_reachable sample_confluent sample_broker sample_handled"
proof -
  have "confluent_reachable sample_confluent sample_broker ((sample_read [0, 1])\<lparr>d_log := d_log (sample_read [0, 1]) @
      map (DWork (g_known (sample_cgroup [0, 1]), g_generation (sample_cgroup [0, 1])))
        [CHandle (sm 0) (Returns None), StoreMessage (sm 0) None, CHandle (sm 1) (Returns None), StoreMessage (sm 1) None],
      d_phase := DWave 0 [(sample_cgroup [0, 1], Active [] None)] None\<rparr>)"
    by (rule reach_alone [OF read_reachable(2) _ _ _ sample_wave_eq(1) _ sample_driver sample_outcomes(1)])
      (simp_all add: sample_read_def sample_dispatch, simp add: reading_eq new_confluent_def)
  then show ?thesis by (simp add: sample_handled_def sample_wave_eq sample_read_def)
qed

theorem confluent_at_least_once_witness:
  "\<exists>t y. DWork t y \<in> set (take 5 (d_log sample_handled)) \<and> sm 0 \<in> chandles y"
  by (rule confluent_at_least_once [OF sample_handled_reachable, where s = "(True, 1)" and x = "StoreMessage (sm 1) None" and m = "sm 1" and post = "[]"])
    (simp_all add: sample_handled_def sample_read_def reading_eq new_confluent_def sample_confluent_def at_least_once_def commits_first_def)

theorem confluent_fenced_witness:
  "as_parts (d_assign sample_handled) (''t'', 0) = Some 1 \<and> g_messages (sample_cgroup [0, 1]) \<noteq> []
    \<and> running [(sample_cgroup [0, 1], Active [] None)] \<le> 1"
  using confluent_fenced [OF sample_handled_reachable, of 0 "[(sample_cgroup [0, 1], Active [] None)]" None "sample_cgroup [0, 1]" "[]" None]
  by (simp add: sample_handled_def sample_wave_eq sample_confluent_def)

section \<open>A consumer that is closed\<close>

definition sample_shut :: ConfluentConsumer where
  "sample_shut = close_driver (Some 0) (close_signal (Some 0) (confluent_Close sample_connected))"

lemma sample_shut_reachable: "confluent_reachable K B sample_shut"
  unfolding sample_shut_def
  by (rule reach_step [OF reach_step [OF reach_step [OF connected_reachable close] close_signal] close_driver])
    (simp_all add: confluent_Close_def close_signal_def connected_eq new_confluent_def)

theorem confluent_closes_drivers_witness:
  "d_closing sample_shut = Some CloseDone \<and> set (driver_closes (d_log sample_shut)) = {n. n < d_created sample_shut}
    \<and> d_created sample_shut = 1"
  using confluent_closes_drivers [OF sample_shut_reachable [of sample_confluent sample_broker]]
  by (simp add: sample_shut_def close_driver_def close_signal_def confluent_Close_def connected_eq new_confluent_def dlog_def)

section \<open>A close that overtakes a run\<close>

text \<open>The first record fails, the exact seek fails too, and its position stays pending.\<close>

definition boom :: kerror where
  "boom = Sentinel ''boom''"

definition sample_failure :: kerror where
  "sample_failure = newConsumerHandlerErrorAt ''kafka/confluent: message handler failed'' boom (confluentRecordPosition (sm 0))"

definition failed_run :: "dphase \<Rightarrow> ConfluentConsumer" where
  "failed_run ph = (sample_read [0])\<lparr>
     d_log := [DRead (True, 1) (sm 0), DWork (True, 1) (CHandle (sm 0) (Returns (Some boom)))], d_phase := ph\<rparr>"

lemma sample_failure_outcome:
  "group_outcome (cf_batch sample_confluent) (cf_run sample_confluent) (sample_cenv (Some boom)) (sample_cgroup [0])
     = (Some sample_failure, [CHandle (sm 0) (Returns (Some boom))])"
  "consumerRewindPositions (Joined [sample_failure]) = ([confluentRecordPosition (sm 0)], True)"
  "\<not> isConsumerRunCancellation None (Joined [sample_failure])"
  by code_simp+

lemma failed_run_reachable:
  "confluent_reachable sample_confluent sample_broker (failed_run (DWave 0 [(sample_cgroup [0], Active [] (Some sample_failure))] None))"
proof -
  have "confluent_reachable sample_confluent sample_broker ((sample_read [0])\<lparr>d_log := d_log (sample_read [0]) @
      map (DWork (g_known (sample_cgroup [0]), g_generation (sample_cgroup [0]))) [CHandle (sm 0) (Returns (Some boom))],
      d_phase := DWave 0 [(sample_cgroup [0], Active [] (Some sample_failure))] None\<rparr>)"
    by (rule reach_alone [OF read_reachable(1) _ _ _ sample_wave_eq(2) _ sample_driver sample_failure_outcome(1)])
      (simp_all add: sample_read_def sample_dispatch, simp add: reading_eq new_confluent_def)
  then show ?thesis by (simp add: failed_run_def sample_wave_eq sample_read_def)
qed

lemma failed_run_fields:
  "d_phase (failed_run ph) = ph" "\<not> d_cancelled (failed_run ph)" "d_revoked (failed_run ph) = []" "\<not> d_closed (failed_run ph)"
  "d_client (failed_run ph) = Some 0" "d_pending (failed_run ph) = []" "(failed_run ph)\<lparr>d_phase := ph'\<rparr> = failed_run ph'"
  by (simp_all add: failed_run_def sample_read_def reading_eq new_confluent_def)

definition pending_rewind :: "dphase \<Rightarrow> ConfluentConsumer" where
  "pending_rewind ph = (failed_run ph)\<lparr>d_log := d_log (failed_run ph) @ [DSeek [confluentRecordPosition (sm 0)] (Some boom)],
     d_pending := [confluentRecordPosition (sm 0)]\<rparr>"

lemma pending_rewind_reachable: "confluent_reachable sample_confluent sample_broker (pending_rewind DIdle)"
proof -
  let ?R = "confluent_reachable sample_confluent sample_broker" and ?p = "confluentRecordPosition (sm 0)" and ?e = "Joined [sample_failure]"
  have "?R (failed_run (DWave 0 [(sample_cgroup [0], Ended (Some sample_failure))] None))"
    using reach_step [OF failed_run_reachable leave [where i = 0]] by (simp add: failed_run_fields)
  then have "?R (wave_end 0 [sample_failure] None (failed_run (DWave 0 [(sample_cgroup [0], Ended (Some sample_failure))] None)))"
    by (rule reach_step [OF _ wave_end [where ws = "[(sample_cgroup [0], Ended (Some sample_failure))]"]])
      (simp_all add: failed_run_fields List.map_filter_simps)
  then have "?R (failed_run (DFailing 0 ?e))" using sample_failure_outcome(3) by (simp add: wave_end_def failed_run_fields)
  then have "?R (retry_begin None 0 ?e (failed_run (DFailing 0 ?e)))"
    by (rule reach_step [OF _ retry_begin]) (simp_all add: failed_run_fields assignment_answer_def)
  then have "?R (failed_run (DSeeking 0 ?e [?p]))"
    using sample_failure_outcome(2) by (simp add: retry_begin_def failed_run_fields rewindPositionsStillOwned_def Let_def)
  then have "?R (retry_seek 0 ?e [?p] (seekConfluentPositions (\<lambda>_. Inl boom) [?p]) (d_fetch (failed_run (DSeeking 0 ?e [?p]))) (failed_run (DSeeking 0 ?e [?p])))"
    by (rule reach_step [OF _ retry_seek]) (simp_all add: failed_run_fields seeks_def)
  let ?c = "(dlog (DSeek [?p] (Some boom)) (failed_run (DSeeking 0 ?e [?p])))\<lparr>d_phase := DRecording 0 ?e [?p]\<rparr>"
  from \<open>?R (retry_seek _ _ _ _ _ _)\<close> have s: "?R ?c"
    by (simp add: retry_seek_def seekConfluentPositions_def dlog_def)
  have "?R (retry_record 0 ?e [?p] ?c)" by (rule reach_step [OF s retry_record]) simp
  moreover have "retry_record 0 ?e [?p] ?c = pending_rewind (DReturning 0 (Some ?e))"
    unfolding retry_record_def pending_rewind_def
    by (simp add: dlog_def failed_run_def sample_read_def reading_eq new_confluent_def mergeConsumerRewindPositions_def)
  ultimately have "?R ((pending_rewind (DReturning 0 (Some ?e)))\<lparr>d_phase := DIdle\<rparr>)"
    using reach_step [OF _ finish] by (simp add: pending_rewind_def failed_run_fields)
  then show ?thesis by (simp add: pending_rewind_def failed_run_def sample_read_def reading_eq new_confluent_def)
qed

text \<open>
  The next run begins, \<open>Close\<close> marks the consumer closed and has not cancelled the run yet: the run does
  not apply the pending rewind, reads the next record, handles it and stores its offset.  The first
  record, which no handler call ever succeeded on, is settled.
\<close>

definition overtaken :: "devent list \<Rightarrow> int \<Rightarrow> dphase \<Rightarrow> ConfluentConsumer" where
  "overtaken log off ph = (pending_rewind ph)\<lparr>d_closed := True, d_closing := Some (CloseRequested (Some 0)),
     d_log := d_log (pending_rewind ph) @ log, d_fetch := (\<lambda>_. 0)((''t'', 0) := off)\<rparr>"

lemma overtaken_fields:
  "d_phase (overtaken log off ph) = ph" "\<not> d_cancelled (overtaken log off ph)" "d_fetch (overtaken log off ph) (''t'', 0) = off"
  "d_assign (overtaken log off ph) = d_assign sample_reading" "d_closed (overtaken log off ph)"
  "(overtaken log off ph)\<lparr>d_phase := ph'\<rparr> = overtaken log off ph'"
  "d_log (overtaken log off ph) = [DRead (True, 1) (sm 0), DWork (True, 1) (CHandle (sm 0) (Returns (Some boom))),
     DSeek [confluentRecordPosition (sm 0)] (Some boom)] @ log"
  by (simp_all add: overtaken_def pending_rewind_def failed_run_def sample_read_def reading_eq new_confluent_def)

lemma overtaken_reading: "confluent_reachable sample_confluent sample_broker (overtaken [] 1 (DReading 0 []))"
proof -
  let ?c0 = "pending_rewind DIdle"
  let ?c1 = "snd (beginConsumeRun None None ?c0)"
  have c1: "?c1 = ?c0\<lparr>d_phase := DStarting 0\<rparr>"
    by (simp add: beginConsumeRun_def reconnect_def pending_rewind_def failed_run_def sample_read_def reading_eq new_confluent_def)
  then have c2: "confluent_Close ?c1 = overtaken [] 1 (DStarting 0)"
    by (simp add: confluent_Close_def overtaken_def pending_rewind_def failed_run_def sample_read_def reading_eq new_confluent_def)
  have "confluent_reachable sample_confluent sample_broker (overtaken [] 1 (DStarting 0))"
    unfolding c2 [symmetric] by (rule reach_step [OF reach_step [OF pending_rewind_reachable begin_run] close])
  then have "confluent_reachable sample_confluent sample_broker (apply_begin 0 (overtaken [] 1 (DStarting 0)))"
    by (rule reach_step [OF _ apply_begin]) (simp add: overtaken_fields)
  then show ?thesis by (simp add: apply_begin_def overtaken_fields)
qed

lemma overtaken_settles:
  "confluent_reachable sample_confluent sample_broker
    (overtaken (DRead (True, 1) (sm 1) # map (DWork (True, 1)) [CHandle (sm 1) (Returns None), StoreMessage (sm 1) None]) 2
      (DWave 0 [(sample_cgroup [1], Active [] None)] None))"
proof -
  let ?c = "overtaken [DRead (True, 1) (sm 1)] 2 (DReading 0 (map (\<lambda>i. (sm i, True, 1)) [1]))"
  have "confluent_step sample_confluent sample_broker (overtaken [] 1 (DReading 0 [])) (deliver 0 [] (sm 1) (overtaken [] 1 (DReading 0 [])))"
    by (rule read) (auto simp: overtaken_fields sample_confluent_def delivers_def sample_broker_def reading_eq Let_def)
  moreover have "deliver 0 [] (sm 1) (overtaken [] 1 (DReading 0 [])) = ?c"
    by (simp add: deliver_def dlog_def assignmentSnapshot_def overtaken_def pending_rewind_def failed_run_def sample_read_def
        reading_eq new_confluent_def Let_def)
  ultimately have r: "confluent_reachable sample_confluent sample_broker ?c" using reach_step [OF overtaken_reading] by simp
  have "confluent_reachable sample_confluent sample_broker (?c\<lparr>d_log := d_log ?c @
      map (DWork (g_known (sample_cgroup [1]), g_generation (sample_cgroup [1]))) [CHandle (sm 1) (Returns None), StoreMessage (sm 1) None],
      d_phase := DWave 0 [(sample_cgroup [1], Active [] None)] None\<rparr>)"
    by (rule reach_alone [OF r _ _ _ sample_wave_eq(3) _ sample_driver sample_outcomes(2)])
      (simp_all add: overtaken_fields sample_dispatch)
  then show ?thesis
    by (simp add: sample_wave_eq overtaken_def pending_rewind_def failed_run_def sample_read_def reading_eq new_confluent_def)
qed

text \<open>
  C40.  Until the consumer is closed delivery is at least once, but not beyond: there is a reachable state of a
  consumer that is marked closed and whose run is not cancelled yet, in which the offset of a record has
  been stored although an earlier record of the partition, read under the same assignment, was never
  handled successfully and its rewind is still pending.
\<close>

theorem confluent_close_race:
  "\<exists>K B c. confluent_reachable K B c \<and> at_least_once (cf_run K) \<and> d_closed c \<and> \<not> d_cancelled c
    \<and> (\<exists>s m q. DRead s q \<in> set (d_log c) \<and> DWork s (StoreMessage m None) \<in> set (d_log c)
         \<and> m_partition q = m_partition m \<and> m_offset q < m_offset m
         \<and> confluentRecordPosition q \<in> set (d_pending c) \<and> \<not> handled (d_log c) q)"
proof -
  let ?c = "overtaken (DRead (True, 1) (sm 1) # map (DWork (True, 1)) [CHandle (sm 1) (Returns None), StoreMessage (sm 1) None]) 2
      (DWave 0 [(sample_cgroup [1], Active [] None)] None)"
  have "at_least_once (cf_run sample_confluent)" by (simp add: sample_confluent_def at_least_once_def commits_first_def)
  moreover have "\<not> handled (d_log ?c) (sm 0)" by (auto simp: overtaken_fields handled_def)
  moreover have "DRead (True, 1) (sm 0) \<in> set (d_log ?c)" "DWork (True, 1) (StoreMessage (sm 1) None) \<in> set (d_log ?c)"
    "confluentRecordPosition (sm 0) \<in> set (d_pending ?c)" "d_closed ?c" "\<not> d_cancelled ?c"
    by (simp_all add: overtaken_fields, simp_all add: overtaken_def pending_rewind_def)
  moreover have "m_partition (sm 0) = m_partition (sm 1)" "m_offset (sm 0) < m_offset (sm 1)" by simp_all
  ultimately show ?thesis using overtaken_settles by blast
qed

end
